(* ===== verification/Prelude.thy ===== *)
theory Prelude
  imports Main "HOL-Library.Word"
begin

text \<open>
  What the components share: the machine integers of the C++ code, the result of an
  operation that can abort, vector and queue access, the byte memory of one machine with
  \<open>memcpy\<close>, the little-endian layout of integers, and the two contracts
  (a first-in first-out queue, an operation set with an invariant) that several
  components implement.
\<close>

section \<open>Machine integers\<close>

text \<open>
  \<open>size_t\<close>, pointers and \<open>uint64_t\<close> are 64-bit words; \<open>int32_t\<close> and \<open>int64_t\<close>
  are words read with \<open>sint\<close>. Arithmetic on words wraps around, as it does in C++ for
  the unsigned types; signed overflow is undefined in C++ and is a fault of the model
  wherever an operation can reach it.
\<close>

type_synonym byte = "8 word"
type_synonym i32 = "32 word"
type_synonym u32 = "32 word"
type_synonym i64 = "64 word"
type_synonym u64 = "64 word"

definition INT_MAX :: i32 where
  "INT_MAX = 2147483647"

text \<open>\<open>std::min\<close> on \<open>int32_t\<close>: the first argument unless the second is smaller.\<close>

definition smin :: "i32 \<Rightarrow> i32 \<Rightarrow> i32" where
  "smin a b = (if sint b < sint a then b else a)"

lemma sint_smin: "sint (smin a b) = min (sint a) (sint b)"
  by (simp add: smin_def)

lemma unat_min_word: "unat (min a b) = min (unat a) (unat (b :: 'a :: len word))"
  by (simp add: min_def word_le_nat_alt)

lemma unat_sub_word: "b \<le> a \<Longrightarrow> unat (a - b) = unat a - unat (b :: 'a :: len word)"
  by (simp add: unat_sub)

lemma unat_add_no_wrap:
  "unat a + unat b < 2 ^ 64 \<Longrightarrow> unat (a + b) = unat a + unat (b :: u64)"
  by (simp add: unat_word_ariths)

lemma unat_of_nat_u64 [simp]: "n < 2 ^ 64 \<Longrightarrow> unat (of_nat n :: u64) = n"
  by (simp add: unat_of_nat take_bit_nat_eq_self)

lemma sint_minus_1_i32: "- (2 ^ 31) < sint (c :: i32) \<Longrightarrow> sint (c - 1) = sint c - 1"
proof -
  assume c: "- (2 ^ 31) < sint c"
  have "sint c < 2 ^ 31" using sint_lt [of c] by simp
  with c have "signed_take_bit 31 (sint c - 1) = sint c - 1"
    by (intro signed_take_bit_int_eq_self) auto
  then show ?thesis by (simp add: sint_word_ariths)
qed

lemma unat_u64_less: "unat (x :: u64) < 2 ^ 64"
  using unsigned_less [of x] by simp

section \<open>Results: what stops the program\<close>

text \<open>
  \<open>CheckFailed\<close> is a failed \<open>CHECK\<close> macro of glog (the process aborts),
  \<open>OutOfRange\<close> the exception of \<open>std::vector::at\<close>, \<open>Fatal\<close> is
  \<open>LOG(FATAL)\<close>, \<open>Undefined\<close> is undefined behaviour of C++ (\<open>front()\<close> of an empty
  queue, division by zero, signed overflow, an access outside an allocation).
\<close>

datatype fault = CheckFailed | OutOfRange | Fatal | Undefined

type_synonym 'a res = "fault + 'a"

text \<open>
  Rules that turn a successful sequence of operations, or a successful access, into the
  facts its steps need.
\<close>

named_theorems res_eqs
named_theorems access_eqs

definition rbind :: "'a res \<Rightarrow> ('a \<Rightarrow> 'b res) \<Rightarrow> 'b res" where
  "rbind r f = (case r of Inl e \<Rightarrow> Inl e | Inr x \<Rightarrow> f x)"

definition check :: "bool \<Rightarrow> 'a res \<Rightarrow> 'a res" where
  "check b k = (if b then k else Inl CheckFailed)"

lemma rbind_Inr [simp]: "rbind (Inr x) f = f x"
  by (simp add: rbind_def)

lemma rbind_Inl [simp]: "rbind (Inl e) f = Inl e"
  by (simp add: rbind_def)

lemma rbind_eq_Inr [res_eqs]: "rbind r f = Inr y \<longleftrightarrow> (\<exists>x. r = Inr x \<and> f x = Inr y)"
  by (cases r) auto

lemma rbind_cong [fundef_cong]:
  "r = r' \<Longrightarrow> (\<And>x. r' = Inr x \<Longrightarrow> f x = f' x) \<Longrightarrow> rbind r f = rbind r' f'"
  by (cases r') auto

lemma rbind_assoc: "rbind (rbind r f) g = rbind r (\<lambda>x. rbind (f x) g)"
  by (cases r) auto

lemma check_eq_Inr [res_eqs]: "check b k = Inr y \<longleftrightarrow> b \<and> k = Inr y"
  by (simp add: check_def)

lemma check_True [simp]: "check True k = k"
  by (simp add: check_def)

lemma check_False [simp]: "check False k = Inl CheckFailed"
  by (simp add: check_def)

text \<open>\<open>v.at(i)\<close>, \<open>v[i]\<close> and \<open>q.front()\<close>.\<close>

definition vec_at :: "'a list \<Rightarrow> nat \<Rightarrow> 'a res" where
  "vec_at xs i = (if i < length xs then Inr (xs ! i) else Inl OutOfRange)"

definition vec_index :: "'a list \<Rightarrow> nat \<Rightarrow> 'a res" where
  "vec_index xs i = (if i < length xs then Inr (xs ! i) else Inl Undefined)"

definition queue_front :: "'a list \<Rightarrow> 'a res" where
  "queue_front q = (case q of [] \<Rightarrow> Inl Undefined | x # _ \<Rightarrow> Inr x)"

lemma vec_at_Inr [access_eqs]: "vec_at xs i = Inr x \<longleftrightarrow> i < length xs \<and> x = xs ! i"
  by (auto simp: vec_at_def)

lemma vec_index_Inr [access_eqs]: "vec_index xs i = Inr x \<longleftrightarrow> i < length xs \<and> x = xs ! i"
  by (auto simp: vec_index_def)

lemma queue_front_Inr [access_eqs]: "queue_front q = Inr x \<longleftrightarrow> (\<exists>xs. q = x # xs)"
  by (cases q) (auto simp: queue_front_def)

section \<open>The memory of one machine\<close>

type_synonym memory = "u64 \<Rightarrow> byte"

text \<open>\<open>load m a n\<close> reads \<open>n\<close> bytes from \<open>a\<close>, \<open>store m a bs\<close> writes \<open>bs\<close> at \<open>a\<close>.\<close>

fun load :: "memory \<Rightarrow> u64 \<Rightarrow> nat \<Rightarrow> byte list" where
  "load m a 0 = []"
| "load m a (Suc n) = m a # load m (a + 1) n"

fun store :: "memory \<Rightarrow> u64 \<Rightarrow> byte list \<Rightarrow> memory" where
  "store m a [] = m"
| "store m a (b # bs) = store (m(a := b)) (a + 1) bs"

definition memcpy :: "memory \<Rightarrow> u64 \<Rightarrow> u64 \<Rightarrow> nat \<Rightarrow> memory" where
  "memcpy m dst src n = store m dst (load m src n)"

text \<open>The addresses of the \<open>n\<close> bytes from \<open>a\<close>.\<close>

definition span :: "u64 \<Rightarrow> nat \<Rightarrow> u64 set" where
  "span a n = (\<lambda>i. a + of_nat i) ` {..<n}"

lemma span_0 [simp]: "span a 0 = {}"
  by (simp add: span_def)

lemma span_Suc: "span a (Suc n) = insert a (span (a + 1) n)"
  by (auto simp: span_def lessThan_Suc_eq_insert_0 image_image add.assoc)

lemma span_add: "span a (n + k) = span a n \<union> span (a + of_nat n) k"
proof (induction n arbitrary: a)
  case (Suc n)
  then show ?case by (simp add: span_Suc add.assoc)
qed simp

lemma span_mono: "n \<le> k \<Longrightarrow> span a n \<subseteq> span a k"
  by (auto simp: span_def)

lemma span_disjoint_next:
  assumes "n + k \<le> 2 ^ 64"
  shows "span a n \<inter> span (a + of_nat n) k = {}"
proof (rule ccontr)
  assume "\<not> ?thesis"
  then obtain i j where ij: "i < n" "j < k" "a + of_nat i = a + of_nat n + of_nat j"
    by (auto simp: span_def)
  then have "(of_nat i :: u64) = of_nat (n + j)" by (simp add: add.assoc)
  then have "unat (of_nat i :: u64) = unat (of_nat (n + j) :: u64)" by (rule arg_cong)
  moreover have "unat (of_nat i :: u64) = i" using ij assms by (intro unat_of_nat_u64) simp
  moreover have "unat (of_nat (n + j) :: u64) = n + j"
    using ij assms by (intro unat_of_nat_u64) simp
  ultimately show False using ij(1) by simp
qed

lemma length_load [simp]: "length (load m a n) = n"
  by (induction n arbitrary: a) auto

lemma load_add: "load m a (n + k) = load m a n @ load m (a + of_nat n) k"
  by (induction n arbitrary: a) (auto simp: add.assoc)

lemma take_load: "k \<le> n \<Longrightarrow> take k (load m a n) = load m a k"
  using load_add [of m a k "n - k"] by simp

lemma load_cong: "(\<And>x. x \<in> span a n \<Longrightarrow> m x = m' x) \<Longrightarrow> load m a n = load m' a n"
  by (induction n arbitrary: a) (auto simp: span_Suc)

lemma store_append: "store m a (xs @ ys) = store (store m a xs) (a + of_nat (length xs)) ys"
  by (induction xs arbitrary: m a) (auto simp: add.assoc)

lemma store_outside: "x \<notin> span a (length bs) \<Longrightarrow> store m a bs x = m x"
  by (induction bs arbitrary: m a) (auto simp: span_Suc)

lemma not_in_span_next: "n < 2 ^ 64 \<Longrightarrow> a \<notin> span (a + 1) n"
proof
  assume n: "n < 2 ^ 64" and "a \<in> span (a + 1) n"
  then obtain i where i: "i < n" and "a = a + 1 + of_nat i" by (auto simp: span_def)
  then have "of_nat (Suc i) = (0 :: u64)" by (simp add: add.assoc)
  then have "unat (of_nat (Suc i) :: u64) = 0" by simp
  moreover have "Suc i < 2 ^ 64" using i n by simp
  ultimately show False by (simp del: of_nat_Suc)
qed

lemma load_store_same:
  "length bs \<le> 2 ^ 64 \<Longrightarrow> load (store m a bs) a (length bs) = bs"
proof (induction bs arbitrary: m a)
  case (Cons b bs)
  then have "a \<notin> span (a + 1) (length bs)" by (intro not_in_span_next) simp
  with Cons show ?case by (simp add: store_outside)
qed simp

lemma load_store_other:
  "span a n \<inter> span b (length bs) = {} \<Longrightarrow> load (store m b bs) a n = load m a n"
  by (rule load_cong) (auto intro: store_outside)

lemma memcpy_0 [simp]: "memcpy m d s 0 = m"
  by (simp add: memcpy_def)

lemma memcpy_outside: "x \<notin> span d n \<Longrightarrow> memcpy m d s n x = m x"
  by (simp add: memcpy_def store_outside)

lemma load_memcpy_same: "n \<le> 2 ^ 64 \<Longrightarrow> load (memcpy m d s n) d n = load m s n"
  using load_store_same [of "load m s n" m d] by (simp add: memcpy_def)

lemma load_memcpy_other: "span a k \<inter> span d n = {} \<Longrightarrow> load (memcpy m d s n) a k = load m a k"
  by (simp add: memcpy_def load_store_other)

text \<open>Two adjacent copies are one: how a copy loop over adjacent blocks is one \<open>memcpy\<close>.\<close>

lemma memcpy_add:
  assumes "span (s + of_nat n) k \<inter> span d n = {}"
  shows "memcpy (memcpy m d s n) (d + of_nat n) (s + of_nat n) k = memcpy m d s (n + k)"
  using assms by (simp add: memcpy_def load_add store_append load_store_other)

section \<open>Little-endian integers\<close>

fun le_encode :: "nat \<Rightarrow> u64 \<Rightarrow> byte list" where
  "le_encode 0 w = []"
| "le_encode (Suc k) w = ucast w # le_encode k (drop_bit 8 w)"

fun le_decode :: "byte list \<Rightarrow> u64" where
  "le_decode [] = 0"
| "le_decode (b # bs) = or (ucast b) (push_bit 8 (le_decode bs))"

lemma length_le_encode [simp]: "length (le_encode k w) = k"
  by (induction k arbitrary: w) auto

lemma le_decode_encode: "le_decode (le_encode k w) = take_bit (8 * k) w"
proof (induction k arbitrary: w)
  case (Suc k)
  show ?case
    by (rule bit_word_eqI) (auto simp: Suc bit_simps)
qed simp

lemma le_roundtrip_64: "le_decode (le_encode 8 w) = w"
  by (simp add: le_decode_encode take_bit_length_eq [where 'a = 64, simplified])

lemma le_roundtrip_32: "ucast (le_decode (le_encode 4 (ucast (x :: 32 word)))) = x"
  by (simp add: le_decode_encode) (rule bit_word_eqI, auto simp: bit_simps)

section \<open>Decimal numerals\<close>

fun nat_digits :: "nat \<Rightarrow> string" where
  "nat_digits n = (if n < 10 then [char_of (48 + n)]
                   else nat_digits (n div 10) @ [char_of (48 + n mod 10)])"

declare nat_digits.simps [simp del]

definition digits_value :: "string \<Rightarrow> nat" where
  "digits_value = foldl (\<lambda>a c. 10 * a + (of_char c - 48)) 0"

lemma digits_value_nat_digits: "digits_value (nat_digits n) = n"
proof (induction n rule: nat_digits.induct)
  case (1 n)
  then show ?case by (simp add: nat_digits.simps [of n] digits_value_def)
qed

lemma nat_digits_chars: "c \<in> set (nat_digits n) \<Longrightarrow> c \<noteq> CHR ''-'' \<and> c \<noteq> CHR ''/''"
proof (induction n rule: nat_digits.induct)
  case (1 n)
  have "char_of (48 + k) \<noteq> CHR ''-'' \<and> char_of (48 + k) \<noteq> CHR ''/''" if "k < 10" for k :: nat
  proof -
    have "of_char (char_of (48 + k) :: char) = 48 + k" using that by simp
    moreover have "of_char CHR ''-'' = (45 :: nat)" "of_char CHR ''/'' = (47 :: nat)" by simp_all
    moreover have "48 + k \<noteq> 45" "48 + k \<noteq> 47" by simp_all
    ultimately show ?thesis by metis
  qed
  with 1 show ?case by (auto simp: nat_digits.simps [of n] split: if_splits)
qed

lemma nat_digits_inject: "nat_digits m = nat_digits n \<longleftrightarrow> m = n"
  using digits_value_nat_digits by metis

section \<open>Runs of operations\<close>

text \<open>
  \<open>run op s es\<close> performs the operations \<open>es\<close> one after the other and stops at the
  first fault. A component whose operations keep an invariant keeps it over every run.
\<close>

fun run :: "('s \<Rightarrow> 'e \<Rightarrow> 's res) \<Rightarrow> 's \<Rightarrow> 'e list \<Rightarrow> 's res" where
  "run op s [] = Inr s"
| "run op s (e # es) = rbind (op s e) (\<lambda>s'. run op s' es)"

lemma run_append: "run op s (es @ fs) = rbind (run op s es) (\<lambda>s'. run op s' fs)"
  by (induction es arbitrary: s) (auto simp: rbind_assoc)

text \<open>
  A schedule of operations each of which the environment may perform where it comes. After
  a fault nothing more is performed.
\<close>

fun schedule :: "('s \<Rightarrow> 'e \<Rightarrow> 's res) \<Rightarrow> ('s \<Rightarrow> 'e \<Rightarrow> bool) \<Rightarrow> 's \<Rightarrow> 'e list \<Rightarrow> bool" where
  "schedule op allowed s [] = True"
| "schedule op allowed s (e # es) = (allowed s e \<and>
     (case op s e of Inl _ \<Rightarrow> True | Inr s' \<Rightarrow> schedule op allowed s' es))"

lemma schedule_append:
  "schedule op allowed s (es @ fs) \<longleftrightarrow> schedule op allowed s es \<and>
     (case run op s es of Inl _ \<Rightarrow> True | Inr s' \<Rightarrow> schedule op allowed s' fs)"
proof (induction es arbitrary: s)
  case (Cons e es)
  then show ?case by (cases "op s e") auto
qed simp

locale guarded_ops =
  fixes op :: "'s \<Rightarrow> 'e \<Rightarrow> 's res"
    and inv :: "'s \<Rightarrow> bool"
    and allowed :: "'s \<Rightarrow> 'e \<Rightarrow> bool"
  assumes op_inv: "inv s \<Longrightarrow> allowed s e \<Longrightarrow> op s e = Inr s' \<Longrightarrow> inv s'"
begin

lemma run_inv: "inv s \<Longrightarrow> schedule op allowed s es \<Longrightarrow> run op s es = Inr s' \<Longrightarrow> inv s'"
proof (induction es arbitrary: s)
  case (Cons e es)
  from Cons.prems(3) obtain t where t: "op s e = Inr t" "run op t es = Inr s'"
    by (auto simp: rbind_eq_Inr)
  with Cons.prems op_inv [of s e t] show ?case by (intro Cons.IH [of t]) auto
qed simp

end

text \<open>Operations that, beside keeping the invariant, never fault where they are allowed.\<close>

locale safe_ops = guarded_ops +
  assumes op_safe: "inv s \<Longrightarrow> allowed s e \<Longrightarrow> \<exists>s'. op s e = Inr s'"
begin

lemma run_safe:
  "inv s \<Longrightarrow> schedule op allowed s es \<Longrightarrow> \<exists>s'. run op s es = Inr s' \<and> inv s'"
proof (induction es arbitrary: s)
  case (Cons e es)
  from Cons.prems op_safe [of s e] obtain t where t: "op s e = Inr t" by auto
  with Cons.prems have "inv t" "schedule op allowed t es" by (auto intro: op_inv)
  from Cons.IH [OF this] t show ?case by simp
qed simp

text \<open>
  A relation between the operations performed so far and the state holds after every
  schedule when one more operation keeps it.
\<close>

lemma run_history:
  assumes "inv s" and "schedule op allowed s es" and "H [] s"
    and step: "\<And>es t e t'. \<lbrakk>H es t; inv t; allowed t e; op t e = Inr t'\<rbrakk> \<Longrightarrow> H (es @ [e]) t'"
  shows "\<exists>s'. run op s es = Inr s' \<and> inv s' \<and> H es s'"
  using assms(2)
proof (induction es rule: rev_induct)
  case (snoc e es)
  then have "schedule op allowed s es" by (simp add: schedule_append)
  from snoc.IH [OF this] obtain t where t: "run op s es = Inr t" "inv t" "H es t" by blast
  with snoc.prems have a: "allowed t e" by (simp add: schedule_append)
  from op_safe [OF t(2) a] obtain t' where t': "op t e = Inr t'" by blast
  with step [OF t(3,2) a t'] op_inv [OF t(2) a t'] t(1) show ?case
    by (intro exI [of _ t']) (simp add: run_append)
qed (simp add: assms)

end

section \<open>First-in first-out queues\<close>

text \<open>
  The contract of a queue: \<open>contents\<close> is the sequence it holds. \<open>fifo_run\<close> performs a
  sequence of insertions and removals (a removal from an empty queue leaves it alone)
  and returns what the removals delivered.
\<close>

datatype 'a fifo_op = Put 'a | Take

fun puts :: "'a fifo_op list \<Rightarrow> 'a list" where
  "puts [] = []"
| "puts (Put x # os) = x # puts os"
| "puts (Take # os) = puts os"

fun fifo_run ::
  "('q \<Rightarrow> 'a \<Rightarrow> 'q) \<Rightarrow> ('q \<Rightarrow> ('a \<times> 'q) option) \<Rightarrow> 'q \<Rightarrow> 'a fifo_op list \<Rightarrow> 'a list \<times> 'q"
where
  "fifo_run enq deq q [] = ([], q)"
| "fifo_run enq deq q (Put x # os) = fifo_run enq deq (enq q x) os"
| "fifo_run enq deq q (Take # os) =
     (case deq q of
        None \<Rightarrow> fifo_run enq deq q os
      | Some (x, q') \<Rightarrow> (let (xs, q'') = fifo_run enq deq q' os in (x # xs, q'')))"

locale fifo =
  fixes contents :: "'q \<Rightarrow> 'a list"
    and enq :: "'q \<Rightarrow> 'a \<Rightarrow> 'q"
    and deq :: "'q \<Rightarrow> ('a \<times> 'q) option"
    and invar :: "'q \<Rightarrow> bool"
  assumes enq_contents: "invar q \<Longrightarrow> contents (enq q x) = contents q @ [x]"
    and enq_invar: "invar q \<Longrightarrow> invar (enq q x)"
    and deq_None: "invar q \<Longrightarrow> deq q = None \<Longrightarrow> contents q = []"
    and deq_Some: "invar q \<Longrightarrow> deq q = Some (x, q') \<Longrightarrow> contents q = x # contents q'"
    and deq_invar: "invar q \<Longrightarrow> deq q = Some (x, q') \<Longrightarrow> invar q'"
begin

text \<open>Nothing is lost, duplicated or reordered, over any interleaving of the two sides.\<close>

lemma run_order:
  "invar q \<Longrightarrow> fifo_run enq deq q os = (xs, q') \<Longrightarrow>
   invar q' \<and> contents q @ puts os = xs @ contents q'"
proof (induction os arbitrary: q xs)
  case (Cons a os)
  show ?case
  proof (cases a)
    case (Put x)
    with Cons.prems have "fifo_run enq deq (enq q x) os = (xs, q')" by simp
    from Cons.IH [OF enq_invar this] Cons.prems(1) show ?thesis
      by (simp add: Put enq_contents)
  next
    case Take
    show ?thesis
    proof (cases "deq q")
      case None
      with Cons.prems Take Cons.IH [of q xs] show ?thesis by simp
    next
      case (Some p)
      obtain x t where p: "p = (x, t)" by (cases p)
      with Some Take Cons.prems(2) obtain ys
        where "fifo_run enq deq t os = (ys, q')" "xs = x # ys"
        by (auto split: prod.splits)
      with Cons.IH [of t ys] Cons.prems(1) Some p Take show ?thesis
        using deq_Some [of q x t] deq_invar [of q x t] by simp
    qed
  qed
qed auto

end

text \<open>\<open>std::queue\<close> itself, with \<open>push\<close> at the back and \<open>front\<close>/\<open>pop\<close>.\<close>

definition queue_push :: "'a list \<Rightarrow> 'a \<Rightarrow> 'a list" where
  "queue_push q x = q @ [x]"

definition queue_take :: "'a list \<Rightarrow> ('a \<times> 'a list) option" where
  "queue_take q = (case q of [] \<Rightarrow> None | x # xs \<Rightarrow> Some (x, xs))"

interpretation std_queue: fifo "\<lambda>q. q" queue_push queue_take "\<lambda>_. True"
  by unfold_locales (auto simp: queue_push_def queue_take_def split: list.splits)

end
