(* ===== verification/Config.thy ===== *)
theory Config
  imports Prelude
begin

text \<open>
  \<open>comm_network_config.proto\<close> and \<open>comm_network_config_desc.{h,cpp}\<close>: the
  configuration message and the accessors every other component reads it through.
\<close>

section \<open>The configuration\<close>

record machine =
  mc_id :: i64
  addr :: string
  ctrl_port_agent :: i32
  data_port_agent :: i32

record comm_net_config =
  machines :: "machine list"
  ctrl_port :: i32
  data_port :: i32
  use_rdma :: bool
  poller_num :: i64
  register_buffer_num :: i64
  per_register_buffer_mbytes :: u64
  sge_num :: i32
  max_msg_bytes :: i32

text \<open>The message with only its required fields set: the defaults of the proto file.\<close>

definition default_config :: "machine list \<Rightarrow> i32 \<Rightarrow> comm_net_config" where
  "default_config ms port =
     \<lparr>machines = ms, ctrl_port = port, data_port = -1, use_rdma = False, poller_num = 1,
      register_buffer_num = 2, per_register_buffer_mbytes = 4, sge_num = 1,
      max_msg_bytes = 1024\<rparr>"

section \<open>The accessors of CommNetConfigDesc\<close>

definition TotalMachineNum :: "comm_net_config \<Rightarrow> u64" where
  "TotalMachineNum c = of_nat (length (machines c))"

definition RegisterBufferNum :: "comm_net_config \<Rightarrow> i64" where
  "RegisterBufferNum c = register_buffer_num c"

definition PerRegisterBufferMBytes :: "comm_net_config \<Rightarrow> u64" where
  "PerRegisterBufferMBytes c = per_register_buffer_mbytes c"

definition SgeNum :: "comm_net_config \<Rightarrow> i32" where
  "SgeNum c = sge_num c"

text \<open>
  \<open>mbytes * 1024 * 1024 / sge_num\<close>: the product is a 64-bit unsigned product, and the
  signed divisor is converted to 64-bit unsigned; division by zero is undefined.
\<close>

definition SgeBytes :: "comm_net_config \<Rightarrow> u64 res" where
  "SgeBytes c =
     (if sge_num c = 0 then Inl Undefined
      else Inr (per_register_buffer_mbytes c * 1024 * 1024 div scast (sge_num c)))"

definition MaxMsgBytes :: "comm_net_config \<Rightarrow> u64" where
  "MaxMsgBytes c = scast (max_msg_bytes c)"

text \<open>The bytes of one registered buffer, as the transfer code computes them.\<close>

definition buffer_bytes :: "comm_net_config \<Rightarrow> u64" where
  "buffer_bytes c = PerRegisterBufferMBytes c * 1024 * 1024"

text \<open>\<open>GetMachineId\<close>: the loop with its \<open>break\<close>, and \<open>-1\<close> when no address matches.\<close>

fun find_machine :: "string \<Rightarrow> machine list \<Rightarrow> int \<Rightarrow> int" where
  "find_machine a [] i = -1"
| "find_machine a (m # ms) i = (if a = addr m then i else find_machine a ms (i + 1))"

definition GetMachineId :: "comm_net_config \<Rightarrow> string \<Rightarrow> int res" where
  "GetMachineId c a =
     (let machine_num = int (length (machines c));
          mid = find_machine a (machines c) 0
      in check (0 \<le> mid) (check (mid < machine_num) (Inr mid)))"

section \<open>What a usable configuration satisfies\<close>

text \<open>
  \<open>config_ok\<close>: the registered buffer is not empty, its size is a 64-bit number, and the
  scatter/gather elements divide it evenly. \<open>sge_size\<close> is the size of one element.
\<close>

definition sge_size :: "comm_net_config \<Rightarrow> nat" where
  "sge_size c = unat (per_register_buffer_mbytes c) * 2 ^ 20 div nat (sint (sge_num c))"

definition config_ok :: "comm_net_config \<Rightarrow> bool" where
  "config_ok c \<longleftrightarrow>
     0 < sint (sge_num c) \<and> 0 < unat (per_register_buffer_mbytes c) \<and>
     unat (per_register_buffer_mbytes c) * 2 ^ 20 < 2 ^ 64 \<and>
     nat (sint (sge_num c)) dvd unat (per_register_buffer_mbytes c) * 2 ^ 20"

lemma unat_scast_nonneg:
  assumes "0 \<le> sint (n :: i32)"
  shows "unat (scast n :: u64) = nat (sint n)"
proof -
  have "sint n < 2 ^ 31" using sint_lt [of n] by simp
  with assms have "take_bit 64 (sint n) = sint n" by (intro take_bit_int_eq_self) auto
  moreover have "uint (scast n :: u64) = take_bit 64 (sint n)"
    unfolding scast_eq uint_word_of_int_eq by simp
  ultimately show ?thesis by (simp only: unat_eq_nat_uint)
qed

lemma unat_buffer_bytes:
  "unat (per_register_buffer_mbytes c) * 2 ^ 20 < 2 ^ 64 \<Longrightarrow>
   unat (buffer_bytes c) = unat (per_register_buffer_mbytes c) * 2 ^ 20"
  by (simp add: buffer_bytes_def PerRegisterBufferMBytes_def unat_word_ariths mult.assoc)

lemma SgeBytes_eq:
  assumes "0 < sint (sge_num c)"
    and "unat (per_register_buffer_mbytes c) * 2 ^ 20 < 2 ^ 64"
  obtains s where "SgeBytes c = Inr s" and "unat s = sge_size c"
proof -
  have "sge_num c \<noteq> 0" using assms(1) by auto
  then have "SgeBytes c = Inr (buffer_bytes c div scast (sge_num c))"
    by (simp add: SgeBytes_def buffer_bytes_def PerRegisterBufferMBytes_def)
  moreover have "unat (buffer_bytes c div scast (sge_num c)) = sge_size c"
    using unat_buffer_bytes [OF assms(2)] unat_scast_nonneg [OF order.strict_implies_order [OF assms(1)]]
    by (simp add: unat_div sge_size_def)
  ultimately show ?thesis by (rule that)
qed

lemma config_ok_sizes:
  assumes "config_ok c"
  shows "0 < sge_size c"
    and "nat (sint (sge_num c)) * sge_size c = unat (buffer_bytes c)"
    and "0 < unat (buffer_bytes c)"
proof -
  let ?n = "nat (sint (sge_num c))"
  have dvd: "?n dvd unat (buffer_bytes c)" and pos: "0 < unat (buffer_bytes c)" "0 < ?n"
    using assms by (auto simp: config_ok_def unat_buffer_bytes)
  have size: "sge_size c = unat (buffer_bytes c) div ?n"
    using assms by (simp add: config_ok_def sge_size_def unat_buffer_bytes)
  show "?n * sge_size c = unat (buffer_bytes c)"
    using dvd by (simp add: size)
  with pos show "0 < sge_size c" by (metis mult_0_right neq0_conv)
  show "0 < unat (buffer_bytes c)" by (fact pos(1))
qed

section \<open>GetMachineId\<close>

lemma find_machine_spec:
  "find_machine a ms i =
     (if \<exists>m \<in> set ms. addr m = a
      then i + int (length (takeWhile (\<lambda>m. addr m \<noteq> a) ms)) else -1)"
  by (induction ms arbitrary: i) auto

lemma takeWhile_shorter:
  "\<exists>m \<in> set ms. addr m = a \<Longrightarrow> length (takeWhile (\<lambda>m. addr m \<noteq> a) ms) < length ms"
  by (induction ms) auto

text \<open>
  C40: \<open>GetMachineId\<close> returns the index of the first configured machine with this address,
  and aborts exactly when no machine has it.
\<close>

theorem GetMachineId_spec:
  "GetMachineId c a =
     (if a \<in> addr ` set (machines c)
      then Inr (int (length (takeWhile (\<lambda>m. addr m \<noteq> a) (machines c))))
      else Inl CheckFailed)"
proof -
  have "length (takeWhile (\<lambda>m. addr m \<noteq> a) (machines c)) < length (machines c)"
    if "m \<in> set (machines c)" "addr m = a" for m
    using that takeWhile_shorter [of "machines c" a] by auto
  then show ?thesis
    by (auto simp: GetMachineId_def find_machine_spec image_iff check_def)
qed

end
