(* ===== verification/Channel.thy ===== *)
theory Channel
  imports Prelude
begin

text \<open>
  \<open>common/channel.h\<close> and \<open>common/blocking_counter.h\<close>: the closable queue and the
  countdown latch. Each method runs under the object's mutex, so it is one atomic
  operation; a call whose condition-variable predicate is false waits, which the
  operations return as \<open>None\<close>. The second part of each section adds the threads that
  sleep on the condition variable and the notifications that wake them.
\<close>

section \<open>Channel: the operations\<close>

datatype channel_status = kChannelStatusSuccess | kChannelStatusErrorClosed

record 'a channel =
  ch_queue :: "'a list"
  is_closed :: bool

definition new_channel :: "'a channel" where
  "new_channel = \<lparr>ch_queue = [], is_closed = False\<rparr>"

definition Send :: "'a channel \<Rightarrow> 'a \<Rightarrow> channel_status \<times> 'a channel" where
  "Send ch item =
     (if is_closed ch then (kChannelStatusErrorClosed, ch)
      else (kChannelStatusSuccess, ch\<lparr>ch_queue := queue_push (ch_queue ch) item\<rparr>))"

text \<open>The predicate both receivers wait for.\<close>

definition ready :: "'a channel \<Rightarrow> bool" where
  "ready ch \<longleftrightarrow> ch_queue ch \<noteq> [] \<or> is_closed ch"

definition Receive :: "'a channel \<Rightarrow> (channel_status \<times> 'a option \<times> 'a channel) option" where
  "Receive ch =
     (if \<not> ready ch then None
      else case ch_queue ch of
        [] \<Rightarrow> Some (kChannelStatusErrorClosed, None, ch)
      | x # xs \<Rightarrow> Some (kChannelStatusSuccess, Some x, ch\<lparr>ch_queue := xs\<rparr>))"

text \<open>The loop of \<open>ReceiveMany\<close> moves the queue to the end of the caller's queue.\<close>

fun move_all :: "'a list \<Rightarrow> 'a list \<Rightarrow> 'a list \<times> 'a list" where
  "move_all [] items = ([], items)"
| "move_all (x # q) items = move_all q (queue_push items x)"

definition ReceiveMany ::
  "'a channel \<Rightarrow> 'a list \<Rightarrow> (channel_status \<times> 'a list \<times> 'a channel) option"
where
  "ReceiveMany ch items =
     (if \<not> ready ch then None
      else if ch_queue ch = [] then Some (kChannelStatusErrorClosed, items, ch)
      else let (q, items') = move_all (ch_queue ch) items
           in Some (kChannelStatusSuccess, items', ch\<lparr>ch_queue := q\<rparr>))"

definition Close :: "'a channel \<Rightarrow> 'a channel" where
  "Close ch = ch\<lparr>is_closed := True\<rparr>"

lemma move_all_eq: "move_all q items = ([], items @ q)"
  by (induction q items rule: move_all.induct) (auto simp: queue_push_def)

lemma ReceiveMany_eq:
  "ReceiveMany ch items =
     (if \<not> ready ch then None
      else if ch_queue ch = [] then Some (kChannelStatusErrorClosed, items, ch)
      else Some (kChannelStatusSuccess, items @ ch_queue ch, ch\<lparr>ch_queue := []\<rparr>))"
  by (simp add: ReceiveMany_def move_all_eq)

text \<open>
  An open channel is a first-in first-out queue: a sender inserts, a receiver removes,
  and a receiver on an empty open channel waits.
\<close>

definition chan_enq :: "'a channel \<Rightarrow> 'a \<Rightarrow> 'a channel" where
  "chan_enq ch x = snd (Send ch x)"

definition chan_deq :: "'a channel \<Rightarrow> ('a \<times> 'a channel) option" where
  "chan_deq ch =
     (case Receive ch of Some (_, Some x, ch') \<Rightarrow> Some (x, ch') | _ \<Rightarrow> None)"

interpretation open_channel: fifo ch_queue chan_enq chan_deq "\<lambda>ch. \<not> is_closed ch"
  by unfold_locales
    (auto simp: chan_enq_def Send_def queue_push_def chan_deq_def Receive_def ready_def
      split: if_splits list.splits)

text \<open>
  C29: over any sequence of sends and receives on an open channel, what the receivers got,
  followed by what is still queued, is what was queued before followed by what was sent:
  nothing is lost, duplicated or reordered.
\<close>

theorem channel_fifo:
  assumes "\<not> is_closed ch" and "fifo_run chan_enq chan_deq ch ops = (got, ch')"
  shows "ch_queue ch @ puts ops = got @ ch_queue ch'"
  using open_channel.run_order [OF assms] by blast

theorem channel_fifo_witness:
  "\<not> is_closed (new_channel :: nat channel) \<and>
   fifo_run chan_enq chan_deq new_channel [Put 1, Put 2, Take, Put 3] =
     ([1], \<lparr>ch_queue = [2, 3], is_closed = False\<rparr> :: nat channel) \<and>
   ch_queue (new_channel :: nat channel) @ puts [Put 1, Put 2, Take, Put 3] = [1] @ [2, 3]"
proof -
  have c: "\<not> is_closed (new_channel :: nat channel)" by (simp add: new_channel_def)
  have r: "fifo_run chan_enq chan_deq new_channel [Put 1, Put 2, Take, Put 3] =
     ([1], \<lparr>ch_queue = [2, 3], is_closed = False\<rparr> :: nat channel)"
    by (simp add: new_channel_def chan_enq_def Send_def queue_push_def chan_deq_def
        Receive_def ready_def)
  from channel_fifo [OF c r] c r show ?thesis by simp
qed


section \<open>Channel: sleeping receivers\<close>

text \<open>
  \<open>sleeping\<close> receivers are blocked in \<open>cond_.wait\<close>; \<open>notified\<close> ones have been woken and
  have yet to take the mutex and test the predicate again. \<open>notify_one\<close> wakes one sleeper
  if there is one, \<open>notify_all\<close> all of them; a wake-up may also be spurious.
\<close>

record 'a chan_threads =
  chan :: "'a channel"
  sleeping :: nat
  notified :: nat

definition idle_threads :: "'a chan_threads" where
  "idle_threads = \<lparr>chan = new_channel, sleeping = 0, notified = 0\<rparr>"

definition notify_one :: "'a chan_threads \<Rightarrow> 'a chan_threads" where
  "notify_one t =
     (case sleeping t of 0 \<Rightarrow> t
      | Suc n \<Rightarrow> t\<lparr>sleeping := n, notified := notified t + 1\<rparr>)"

definition notify_all :: "'a chan_threads \<Rightarrow> 'a chan_threads" where
  "notify_all t = t\<lparr>sleeping := 0, notified := notified t + sleeping t\<rparr>"

inductive chan_step :: "'a chan_threads \<Rightarrow> 'a chan_threads \<Rightarrow> bool" where
  send_ok: "Send (chan t) x = (kChannelStatusSuccess, ch) \<Longrightarrow>
    chan_step t (notify_one (t\<lparr>chan := ch\<rparr>))"
| send_closed: "Send (chan t) x = (kChannelStatusErrorClosed, ch) \<Longrightarrow>
    chan_step t (t\<lparr>chan := ch\<rparr>)"
| receive: "Receive (chan t) = Some (st, r, ch) \<Longrightarrow> chan_step t (t\<lparr>chan := ch\<rparr>)"
| receive_many: "ReceiveMany (chan t) items = Some (st, items', ch) \<Longrightarrow>
    chan_step t (t\<lparr>chan := ch\<rparr>)"
| sleep: "\<not> ready (chan t) \<Longrightarrow> chan_step t (t\<lparr>sleeping := sleeping t + 1\<rparr>)"
| close: "chan_step t (notify_all (t\<lparr>chan := Close (chan t)\<rparr>))"
| wake_take: "notified t = Suc n \<Longrightarrow> Receive (chan t) = Some (st, r, ch) \<Longrightarrow>
    chan_step t (t\<lparr>chan := ch, notified := n\<rparr>)"
| wake_take_many: "notified t = Suc n \<Longrightarrow>
    ReceiveMany (chan t) items = Some (st, items', ch) \<Longrightarrow>
    chan_step t (t\<lparr>chan := ch, notified := n\<rparr>)"
| wake_sleep: "notified t = Suc n \<Longrightarrow> \<not> ready (chan t) \<Longrightarrow>
    chan_step t (t\<lparr>notified := n, sleeping := sleeping t + 1\<rparr>)"
| spurious: "sleeping t = Suc n \<Longrightarrow>
    chan_step t (t\<lparr>sleeping := n, notified := notified t + 1\<rparr>)"

inductive chan_reachable :: "'a chan_threads \<Rightarrow> bool" where
  start: "chan_reachable idle_threads"
| step: "chan_reachable t \<Longrightarrow> chan_step t u \<Longrightarrow> chan_reachable u"

definition chan_inv :: "'a chan_threads \<Rightarrow> bool" where
  "chan_inv t \<longleftrightarrow>
     (0 < sleeping t \<longrightarrow> \<not> is_closed (chan t) \<and> length (ch_queue (chan t)) \<le> notified t)"

lemmas chan_ops_defs = Send_def Receive_def ReceiveMany_eq Close_def ready_def queue_push_def

lemma chan_step_inv: "chan_step t u \<Longrightarrow> chan_inv t \<Longrightarrow> chan_inv u"
  by (induction rule: chan_step.induct)
    (auto simp: chan_inv_def chan_ops_defs notify_one_def notify_all_def
      split: if_splits list.splits nat.splits)

lemma chan_reachable_inv: "chan_reachable t \<Longrightarrow> chan_inv t"
proof (induction rule: chan_reachable.induct)
  case start
  show ?case by (simp add: chan_inv_def idle_threads_def)
next
  case (step t u)
  then show ?case by (blast intro: chan_step_inv)
qed

text \<open>
  C21: no wake-up is lost. Whatever the interleaving of senders, receivers, \<open>Close\<close> and
  spurious wake-ups, while a receiver sleeps the channel is open and every queued item has
  a receiver already woken for it; so a channel with something to receive, or a closed
  one, never has all its receivers asleep.
\<close>

theorem channel_no_lost_wakeup:
  assumes "chan_reachable t" and "0 < sleeping t"
  shows "\<not> is_closed (chan t) \<and> length (ch_queue (chan t)) \<le> notified t \<and>
    (notified t = 0 \<longrightarrow> \<not> ready (chan t))"
  using chan_reachable_inv [OF assms(1)] assms(2) by (auto simp: chan_inv_def ready_def)

lemma one_sleeper: "chan_reachable (idle_threads\<lparr>sleeping := 1\<rparr> :: nat chan_threads)"
  using chan_reachable.step [OF chan_reachable.start chan_step.sleep [of idle_threads]]
  by (simp add: idle_threads_def ready_def new_channel_def)

theorem channel_no_lost_wakeup_witness:
  "\<exists>t :: nat chan_threads. chan_reachable t \<and> 0 < sleeping t \<and> \<not> ready (chan t)"
proof -
  let ?t = "idle_threads\<lparr>sleeping := 1\<rparr> :: nat chan_threads"
  have s: "0 < sleeping ?t" by simp
  have "notified ?t = 0" by (simp add: idle_threads_def)
  with channel_no_lost_wakeup [OF one_sleeper s] show ?thesis
    using one_sleeper s by blast
qed

end
