(* ===== verification/BlockingCounter.thy ===== *)
theory BlockingCounter
  imports Prelude
begin

text \<open>
  \<open>common/blocking_counter.h\<close>: the countdown latch the users of the library wait on. The
  count is an \<open>int64_t\<close>; decreasing the smallest one overflows, which is undefined.
\<close>

section \<open>The operations\<close>

record blocking_counter =
  cnt_val :: i64

definition new_counter :: "i64 \<Rightarrow> blocking_counter" where
  "new_counter v = \<lparr>cnt_val = v\<rparr>"

text \<open>\<open>Decrease\<close> returns the new count and whether it notified every waiter.\<close>

definition Decrease :: "blocking_counter \<Rightarrow> (i64 \<times> bool \<times> blocking_counter) res" where
  "Decrease b =
     (if sint (cnt_val b) = - (2 ^ 63) then Inl Undefined
      else let c = cnt_val b - 1 in Inr (c, c = 0, b\<lparr>cnt_val := c\<rparr>))"

text \<open>\<open>WaitUntilCntEqualZero\<close> returns when its predicate holds; \<open>False\<close>: it waits.\<close>

definition WaitUntilCntEqualZero :: "blocking_counter \<Rightarrow> bool" where
  "WaitUntilCntEqualZero b \<longleftrightarrow> cnt_val b = 0"

fun decrease_n :: "nat \<Rightarrow> blocking_counter \<Rightarrow> (i64 list \<times> bool list \<times> blocking_counter) res" where
  "decrease_n 0 b = Inr ([], [], b)"
| "decrease_n (Suc n) b =
     rbind (Decrease b) (\<lambda>(c, w, b').
       rbind (decrease_n n b') (\<lambda>(cs, ws, b''). Inr (c # cs, w # ws, b'')))"

lemma sint_minus_1: "- (2 ^ 63) < sint (c :: i64) \<Longrightarrow> sint (c - 1) = sint c - 1"
proof -
  assume c: "- (2 ^ 63) < sint c"
  have "sint c < 2 ^ 63" using sint_lt [of c] by simp
  with c have "signed_take_bit 63 (sint c - 1) = sint c - 1"
    by (intro signed_take_bit_int_eq_self) auto
  then show ?thesis by (simp add: sint_word_ariths)
qed

lemma Decrease_pos:
  assumes "0 < sint (cnt_val b)"
  obtains b' where "Decrease b = Inr (cnt_val b', cnt_val b' = 0, b')"
    and "sint (cnt_val b') = sint (cnt_val b) - 1"
proof -
  have "Decrease b = Inr (cnt_val b - 1, cnt_val b - 1 = 0, b\<lparr>cnt_val := cnt_val b - 1\<rparr>)"
    using assms by (simp add: Decrease_def Let_def)
  moreover have "sint (cnt_val b - 1) = sint (cnt_val b) - 1"
    using assms by (intro sint_minus_1) simp
  ultimately show ?thesis by (intro that [of "b\<lparr>cnt_val := cnt_val b - 1\<rparr>"]) auto
qed

lemma decrease_n_result:
  "k \<le> nat (sint (cnt_val b)) \<Longrightarrow>
   \<exists>cs ws b'. decrease_n k b = Inr (cs, ws, b') \<and>
     map sint cs = map (\<lambda>i. sint (cnt_val b) - 1 - int i) [0..<k] \<and>
     ws = map (\<lambda>c. c = 0) cs \<and> sint (cnt_val b') = sint (cnt_val b) - int k"
proof (induction k arbitrary: b)
  case (Suc k)
  then have "0 < sint (cnt_val b)" by simp
  then obtain b1 where b1: "Decrease b = Inr (cnt_val b1, cnt_val b1 = 0, b1)"
    and c1: "sint (cnt_val b1) = sint (cnt_val b) - 1" by (rule Decrease_pos)
  from Suc.prems c1 have "k \<le> nat (sint (cnt_val b1))" by simp
  from Suc.IH [OF this] obtain cs ws b' where
    r: "decrease_n k b1 = Inr (cs, ws, b')"
      "map sint cs = map (\<lambda>i. sint (cnt_val b1) - 1 - int i) [0..<k]"
      "ws = map (\<lambda>c. c = 0) cs" "sint (cnt_val b') = sint (cnt_val b1) - int k"
    by blast
  show ?case
    using b1 c1 r by (simp add: map_upt_Suc algebra_simps del: upt_Suc)
qed simp

text \<open>
  C30: a counter built with \<open>n > 0\<close> can be decreased \<open>n\<close> times without a fault; the calls
  return \<open>n - 1, n - 2, \<dots>, 0\<close>, a call notifies the waiters exactly when it is the last of
  the \<open>n\<close>, and a wait returns after \<open>k\<close> calls exactly when \<open>k = n\<close>.
\<close>

theorem counter_counts_down:
  assumes "0 < sint v" and "k \<le> nat (sint v)"
  shows "\<exists>cs ws b. decrease_n k (new_counter v) = Inr (cs, ws, b) \<and>
    map sint cs = map (\<lambda>i. sint v - 1 - int i) [0..<k] \<and>
    (\<forall>i < k. ws ! i \<longleftrightarrow> Suc i = nat (sint v)) \<and>
    (WaitUntilCntEqualZero b \<longleftrightarrow> k = nat (sint v))"
proof -
  have z: "sint c = 0 \<longleftrightarrow> c = 0" for c :: i64 by (metis signed_0 signed_word_eqI)
  obtain cs ws b where r: "decrease_n k (new_counter v) = Inr (cs, ws, b)"
      "map sint cs = map (\<lambda>i. sint v - 1 - int i) [0..<k]"
      "ws = map (\<lambda>c. c = 0) cs" "sint (cnt_val b) = sint v - int k"
    using decrease_n_result [of k "new_counter v"] assms(2) by (auto simp: new_counter_def)
  have len: "length cs = k" using arg_cong [OF r(2), of length] by simp
  have "ws ! i \<longleftrightarrow> Suc i = nat (sint v)" if "i < k" for i
  proof -
    have "sint (cs ! i) = sint v - 1 - int i"
      using arg_cong [OF r(2), of "\<lambda>xs. xs ! i"] that len by simp
    with that assms(1) show ?thesis using z [of "cs ! i"] by (auto simp: r(3) len)
  qed
  moreover have "WaitUntilCntEqualZero b \<longleftrightarrow> k = nat (sint v)"
    using r(4) assms z [of "cnt_val b"] by (auto simp: WaitUntilCntEqualZero_def)
  ultimately show ?thesis using r(1,2) by blast
qed

theorem counter_counts_down_witness:
  "\<exists>cs ws b. decrease_n 2 (new_counter 2) = Inr (cs, ws, b) \<and> map sint cs = [1, 0] \<and>
     WaitUntilCntEqualZero b"
  using counter_counts_down [of 2 2] by (auto simp: upt_rec)

end
