(* ===== verification/MemDesc.thy ===== *)
theory MemDesc
  imports Config
begin

text \<open>
  \<open>ibverbs/ibverbs_memory_desc.{h,cpp}\<close>: a registered memory range, cut into blocks of
  \<open>SgeBytes()\<close> bytes, each registered with the device and described by one scatter/gather
  element. The device call \<open>ibv_reg_mr\<close> is a parameter: given the state of the verbs
  library, an address and a length it returns a registration or nothing, and a new state.
\<close>

section \<open>Registrations and the constructor\<close>

record ibv_mr =
  mr_lkey :: u32
  mr_rkey :: u32

record ibv_sge =
  sge_addr :: u64
  sge_length :: u32
  sge_lkey :: u32

record mem_desc =
  sge_vec :: "ibv_sge list"
  mr_vec :: "ibv_mr list"

type_synonym 'v reg_mr = "'v \<Rightarrow> u64 \<Rightarrow> u64 \<Rightarrow> ibv_mr option \<times> 'v"

lemma block_shrinks:
  "0 < b \<Longrightarrow> 0 < s \<Longrightarrow> unat (b - min b s) < unat (b :: u64)"
  by (auto simp: unat_sub_word unat_min_word unat_gt_0 min_def word_le_nat_alt word_less_nat_alt)

text \<open>
  The registration loop. The second conjunct of the guard is true whenever the constructor
  runs the loop, which divides by \<open>sge_bytes\<close> first.
\<close>

function reg_blocks ::
  "'v reg_mr \<Rightarrow> u64 \<Rightarrow> u64 \<Rightarrow> u64 \<Rightarrow> mem_desc \<Rightarrow> 'v \<Rightarrow> (mem_desc \<times> u64 \<times> 'v) res"
where
  "reg_blocks reg sge_bytes ch_mem_ptr byte_size d v =
     (if 0 < byte_size \<and> 0 < sge_bytes then
        let cur_size = min byte_size sge_bytes in
        case reg v ch_mem_ptr cur_size of
          (None, v') \<Rightarrow> Inl CheckFailed
        | (Some cur_mr, v') \<Rightarrow>
            reg_blocks reg sge_bytes (ch_mem_ptr + cur_size) (byte_size - cur_size)
              \<lparr>sge_vec = sge_vec d @
                 [\<lparr>sge_addr = ch_mem_ptr, sge_length = ucast cur_size,
                   sge_lkey = mr_lkey cur_mr\<rparr>],
               mr_vec = mr_vec d @ [cur_mr]\<rparr> v'
      else Inr (d, byte_size, v))"
  by pat_completeness auto

termination
  by (relation "measure (\<lambda>(_, _, _, byte_size, _). unat byte_size)") (auto simp: block_shrinks)

declare reg_blocks.simps [simp del]

definition IBVerbsMemDesc ::
  "comm_net_config \<Rightarrow> 'v reg_mr \<Rightarrow> u64 \<Rightarrow> u64 \<Rightarrow> 'v \<Rightarrow> (mem_desc \<times> 'v) res"
where
  "IBVerbsMemDesc c reg mem_ptr byte_size v =
     check (1 \<le> byte_size)
      (rbind (SgeBytes c) (\<lambda>sge_bytes.
        if sge_bytes = 0 then Inl Undefined
        else
          let block_num = (byte_size - 1) div sge_bytes + 1 in
          rbind (reg_blocks reg sge_bytes mem_ptr byte_size \<lparr>sge_vec = [], mr_vec = []\<rparr> v)
            (\<lambda>(d, rest, v').
              check (rest = 0)
               (check (block_num = of_nat (length (sge_vec d)))
                (check (block_num = of_nat (length (mr_vec d)))
                  (Inr (d, v')))))))"

record mem_desc_proto =
  mem_ptr :: "u64 list"
  mr_rkeys :: "u32 list"

text \<open>Both overloads of \<open>ToProto\<close> append the same two columns, to an empty message.\<close>

definition ToProto :: "mem_desc \<Rightarrow> mem_desc_proto" where
  "ToProto d = \<lparr>mem_ptr = map sge_addr (sge_vec d), mr_rkeys = map mr_rkey (mr_vec d)\<rparr>"

section \<open>The blocks tile the range\<close>

definition block_count :: "nat \<Rightarrow> nat \<Rightarrow> nat" where
  "block_count n s = (if n = 0 then 0 else (n - 1) div s + 1)"

lemma block_count_0 [simp]: "block_count 0 s = 0"
  by (simp add: block_count_def)

lemma block_count_step:
  "0 < n \<Longrightarrow> 0 < s \<Longrightarrow> block_count n s = Suc (block_count (n - s) s)"
  by (auto simp: block_count_def le_div_geq)

text \<open>The blocks the loop is to produce: addresses one \<open>s\<close> apart, the last one shorter.\<close>

definition tile_addrs :: "u64 \<Rightarrow> nat \<Rightarrow> u64 \<Rightarrow> u64 list" where
  "tile_addrs p n s = map (\<lambda>i. p + of_nat i * s) [0..<block_count n (unat s)]"

definition tile_lengths :: "nat \<Rightarrow> u64 \<Rightarrow> u32 list" where
  "tile_lengths n s = map (\<lambda>i. of_nat (min (unat s) (n - i * unat s))) [0..<block_count n (unat s)]"

lemma tile_addrs_step:
  "0 < n \<Longrightarrow> 0 < s \<Longrightarrow> tile_addrs p n s = p # tile_addrs (p + s) (n - unat s) s"
  by (simp add: tile_addrs_def block_count_step unat_gt_0 map_upt_Suc algebra_simps
      word_neq_0_conv del: upt_Suc)

lemma tile_lengths_step:
  "0 < n \<Longrightarrow> 0 < s \<Longrightarrow>
   tile_lengths n s = of_nat (min (unat s) n) # tile_lengths (n - unat s) s"
  by (simp add: tile_lengths_def block_count_step unat_gt_0 map_upt_Suc algebra_simps
      word_neq_0_conv diff_diff_add del: upt_Suc)

lemma tile_addrs_0 [simp]: "0 < s \<Longrightarrow> tile_addrs p 0 s = []"
  by (simp add: tile_addrs_def unat_gt_0 word_neq_0_conv)

lemma tile_lengths_0 [simp]: "0 < s \<Longrightarrow> tile_lengths 0 s = []"
  by (simp add: tile_lengths_def unat_gt_0 word_neq_0_conv)

lemma ucast_of_unat: "(ucast (w :: u64) :: u32) = of_nat (unat w)"
  by simp

text \<open>A device that grants every registration.\<close>

definition grants :: "'v reg_mr \<Rightarrow> bool" where
  "grants reg \<longleftrightarrow> (\<forall>v a n. \<exists>m v'. reg v a n = (Some m, v'))"

lemma reg_blocks_tiles:
  assumes "grants reg" and "0 < s"
  shows "\<exists>d' v'. reg_blocks reg s p b d v = Inr (d', 0, v') \<and>
    map sge_addr (sge_vec d') = map sge_addr (sge_vec d) @ tile_addrs p (unat b) s \<and>
    map sge_length (sge_vec d') = map sge_length (sge_vec d) @ tile_lengths (unat b) s \<and>
    length (mr_vec d') = length (mr_vec d) + block_count (unat b) (unat s)"
proof (induction "unat b" arbitrary: p b d v rule: less_induct)
  case less
  show ?case
  proof (cases "b = 0")
    case True
    with assms(2) show ?thesis by (simp add: reg_blocks.simps unat_gt_0 word_neq_0_conv)
  next
    case False
    then have b: "0 < b" "0 < unat b" by (simp_all add: word_neq_0_conv unat_gt_0)
    let ?cur = "min b s"
    obtain m v1 where m: "reg v p ?cur = (Some m, v1)" using assms(1) by (metis grants_def)
    let ?d1 = "\<lparr>sge_vec = sge_vec d @
        [\<lparr>sge_addr = p, sge_length = ucast ?cur, sge_lkey = mr_lkey m\<rparr>],
      mr_vec = mr_vec d @ [m]\<rparr>"
    have rest: "unat (b - ?cur) = unat b - unat s"
      by (auto simp: unat_sub_word min_def word_le_nat_alt)
    have addrs: "tile_addrs (p + ?cur) (unat b - unat s) s = tile_addrs (p + s) (unat b - unat s) s"
      using assms(2) by (cases "b \<le> s") (simp_all add: min_def word_le_nat_alt)
    have "unat (b - ?cur) < unat b" using b(1) assms(2) by (rule block_shrinks)
    from less [OF this, of "p + ?cur" ?d1 v1] obtain d' v' where
      "reg_blocks reg s (p + ?cur) (b - ?cur) ?d1 v1 = Inr (d', 0, v')"
      "map sge_addr (sge_vec d') = map sge_addr (sge_vec ?d1) @ tile_addrs (p + ?cur) (unat (b - ?cur)) s"
      "map sge_length (sge_vec d') = map sge_length (sge_vec ?d1) @ tile_lengths (unat (b - ?cur)) s"
      "length (mr_vec d') = length (mr_vec ?d1) + block_count (unat (b - ?cur)) (unat s)"
      by blast
    moreover have "reg_blocks reg s p b d v = reg_blocks reg s (p + ?cur) (b - ?cur) ?d1 v1"
      using b(1) assms(2) m by (subst reg_blocks.simps) (simp add: Let_def)
    moreover have "unat (min b s) = min (unat s) (unat b)" by (simp add: unat_min_word)
    ultimately show ?thesis
      using b assms(2)
      by (simp add: rest addrs tile_addrs_step tile_lengths_step ucast_of_unat
          block_count_step unat_gt_0 word_neq_0_conv)
  qed
qed

lemma mem_desc_tiles:
  assumes "grants reg" and "SgeBytes c = Inr s" and "0 < s" and "1 \<le> byte_size"
  shows "\<exists>d v'. IBVerbsMemDesc c reg p byte_size v = Inr (d, v') \<and>
    map sge_addr (sge_vec d) = tile_addrs p (unat byte_size) s \<and>
    map sge_length (sge_vec d) = tile_lengths (unat byte_size) s \<and>
    length (mr_vec d) = block_count (unat byte_size) (unat s)"
proof -
  let ?n = "unat byte_size" and ?d0 = "\<lparr>sge_vec = [], mr_vec = []\<rparr>"
  have n: "0 < ?n" "0 < unat s"
    using assms(3,4) by (auto simp: word_le_nat_alt word_less_nat_alt)
  obtain d v' where d: "reg_blocks reg s p byte_size ?d0 v = Inr (d, 0, v')"
    "map sge_addr (sge_vec d) = tile_addrs p ?n s"
    "map sge_length (sge_vec d) = tile_lengths ?n s"
    "length (mr_vec d) = block_count ?n (unat s)"
    using reg_blocks_tiles [OF assms(1,3), of p byte_size ?d0 v] by auto
  have len: "length (sge_vec d) = block_count ?n (unat s)"
    using arg_cong [OF d(2), of length] by (simp add: tile_addrs_def)
  have "unat (byte_size - 1) = ?n - 1" using assms(4) by (simp add: unat_sub_word)
  then have "unat ((byte_size - 1) div s) = (?n - 1) div unat s" by (simp add: unat_div)
  then have "(byte_size - 1) div s + 1 = of_nat (block_count ?n (unat s))"
    using n by (simp add: block_count_def) (metis of_nat_unat ucast_id)
  with d len assms(2-4) show ?thesis by (simp add: IBVerbsMemDesc_def Let_def)
qed



text \<open>
  The descriptor and its message to the peer always agree: one address and one remote key
  for each block.
\<close>

lemma reg_blocks_same_length:
  "reg_blocks reg s p b d v = Inr (d', r, v') \<Longrightarrow> length (sge_vec d) = length (mr_vec d) \<Longrightarrow>
   length (sge_vec d') = length (mr_vec d')"
proof (induction reg s p b d v rule: reg_blocks.induct)
  case (1 reg s p b d v)
  show ?case
  proof (cases "0 < b \<and> 0 < s")
    case True
    obtain mr v1 where m: "reg v p (min b s) = (mr, v1)" by (cases "reg v p (min b s)")
    show ?thesis
    proof (cases mr)
      case None
      with True m "1.prems" show ?thesis
        by (simp add: reg_blocks.simps [of reg s p b d v] Let_def)
    next
      case (Some x)
      let ?d1 = "\<lparr>sge_vec = sge_vec d @ [\<lparr>sge_addr = p, sge_length = ucast (min b s),
          sge_lkey = mr_lkey x\<rparr>], mr_vec = mr_vec d @ [x]\<rparr>"
      have "reg_blocks reg s (p + min b s) (b - min b s) ?d1 v1 = Inr (d', r, v')"
        using True m Some "1.prems"(1)
        by (simp add: reg_blocks.simps [of reg s p b d v] Let_def)
      with "1.IH" [OF True refl m [symmetric] Some] "1.prems"(2) show ?thesis by simp
    qed
  next
    case False
    with "1.prems" show ?thesis by (simp add: reg_blocks.simps [of reg s p b d v])
  qed
qed

lemma ToProto_columns:
  "IBVerbsMemDesc c reg p n v = Inr (d, v') \<Longrightarrow>
   length (mem_ptr (ToProto d)) = length (mr_rkeys (ToProto d))"
  by (auto simp: IBVerbsMemDesc_def ToProto_def res_eqs Let_def split: if_splits prod.splits
      dest!: reg_blocks_same_length)

section \<open>How many elements a registered buffer has\<close>

lemma block_count_quotient:
  assumes "0 < k" and "0 < n div k"
  shows "block_count n (n div k) = k \<longleftrightarrow> k dvd n"
proof
  let ?s = "n div k"
  have n: "0 < n" using assms(2) by (rule_tac ccontr) simp
  show "k dvd n" if "block_count n ?s = k"
  proof -
    from that n have "(n - 1) div ?s = k - 1" by (auto simp: block_count_def)
    moreover have "n - 1 < ((n - 1) div ?s + 1) * ?s" using assms(2) by (simp add: dividend_less_div_times)
    ultimately have "n \<le> k * ?s" using assms(1) by simp
    moreover have "k * ?s \<le> n" by simp
    ultimately show ?thesis by (metis dvd_triv_left le_antisym)
  qed
  show "block_count n ?s = k" if d: "k dvd n"
  proof -
    obtain q where q: "n = k * q" using d ..
    then have "?s = q" "0 < q" using assms by auto
    moreover have "(k * q - 1) div q = k - 1"
      using assms(1) \<open>0 < q\<close> by (intro div_nat_eqI) (auto simp: algebra_simps diff_mult_distrib2)
    ultimately show ?thesis using n q assms(1) by (simp add: block_count_def)
  qed
qed

text \<open>
  C38: a registered buffer of the configured size is described by exactly \<open>SgeNum()\<close> elements
  if and only if \<open>SgeNum()\<close> divides its size; otherwise it has more elements than the
  transfer code ever uses, and the bytes in the surplus ones are out of its reach.
\<close>

theorem buffer_element_count:
  assumes "grants reg" and "0 < sint (sge_num c)" and "0 < sge_size c"
    and "unat (per_register_buffer_mbytes c) * 2 ^ 20 < 2 ^ 64"
  shows "\<exists>d v'. IBVerbsMemDesc c reg p (buffer_bytes c) v = Inr (d, v') \<and>
    (length (sge_vec d) = nat (sint (sge_num c)) \<longleftrightarrow>
     nat (sint (sge_num c)) dvd unat (per_register_buffer_mbytes c) * 2 ^ 20)"
proof -
  obtain s where s: "SgeBytes c = Inr s" "unat s = sge_size c"
    using SgeBytes_eq [OF assms(2,4)] .
  let ?k = "nat (sint (sge_num c))" and ?n = "unat (buffer_bytes c)"
  have n: "?n = unat (per_register_buffer_mbytes c) * 2 ^ 20"
    using assms(4) by (rule unat_buffer_bytes)
  have size: "sge_size c = ?n div ?k" by (simp add: sge_size_def n)
  have "0 < s" using s(2) assms(3) by (simp add: word_less_nat_alt)
  moreover have "1 \<le> buffer_bytes c"
    using assms(3) size by (auto simp: word_le_nat_alt intro!: Suc_leI gr0I)
  ultimately obtain d v' where d: "IBVerbsMemDesc c reg p (buffer_bytes c) v = Inr (d, v')"
    "map sge_addr (sge_vec d) = tile_addrs p ?n s"
    using mem_desc_tiles [OF assms(1) s(1)] by blast
  have "length (sge_vec d) = block_count ?n (?n div ?k)"
    using arg_cong [OF d(2), of length] by (simp add: tile_addrs_def s(2) size)
  with block_count_quotient [of ?k ?n] assms(2,3) size n d(1) show ?thesis by auto
qed

theorem buffer_element_count_witness:
  "\<exists>d v'. IBVerbsMemDesc (default_config [] 1 \<lparr>sge_num := 3\<rparr>)
      (\<lambda>v a n. (Some \<lparr>mr_lkey = 7, mr_rkey = 8\<rparr>, v)) 4096
      (buffer_bytes (default_config [] 1 \<lparr>sge_num := 3\<rparr>)) () = Inr (d, v') \<and>
    length (sge_vec d) \<noteq> 3"
proof -
  let ?c = "default_config [] 1 \<lparr>sge_num := 3\<rparr>"
  have g: "grants (\<lambda>v a n. (Some \<lparr>mr_lkey = 7, mr_rkey = 8\<rparr>, v :: unit))"
    by (simp add: grants_def)
  have k: "0 < sint (sge_num ?c)" "0 < sge_size ?c"
    "unat (per_register_buffer_mbytes ?c) * 2 ^ 20 < 2 ^ 64"
    by (simp_all add: default_config_def sge_size_def)
  show ?thesis
    using buffer_element_count [OF g k, of 4096 "()"] by (auto simp: default_config_def)
qed

end
