(* ===== verification/Message.thy ===== *)
theory Message
  imports Config
begin

text \<open>
  \<open>message.h\<close>: the message kinds and structs exchanged between two machines, their
  layout in memory (x86-64: little-endian, fields aligned to their size), and the work
  record of one transfer. A callback (\<open>std::function<void()>\<close>) is a name, \<open>None\<close> the
  empty function.
\<close>

section \<open>Message kinds and bodies\<close>

datatype msg_type = kUserMsg | kPleaseWrite | kFreeBufferPair | kNumType

fun msg_type_int :: "msg_type \<Rightarrow> i32" where
  "msg_type_int kUserMsg = 0"
| "msg_type_int kPleaseWrite = 1"
| "msg_type_int kFreeBufferPair = 2"
| "msg_type_int kNumType = 3"

type_synonym callback = nat

record user_msg =
  um_msg_type :: i32
  um_ptr :: u64
  um_bytes :: u64

record please_write =
  pw_dst_machine_id :: i64
  pw_src_addr :: u64
  pw_bytes :: u64

record free_buffer_pair =
  fb_src_machine_id :: i64
  fb_buffer_id :: i32
  fb_last_piece :: bool

section \<open>The structs as bytes\<close>

text \<open>
  \<open>sizeof\<close> of the three structs, and the bytes a copy of one holds. The value of padding
  bytes is not determined, so it is an argument; no decoder reads it.
\<close>

definition sizeof_UserMsg :: nat where "sizeof_UserMsg = 24"
definition sizeof_PleaseWrite :: nat where "sizeof_PleaseWrite = 24"
definition sizeof_FreeBufferPair :: nat where "sizeof_FreeBufferPair = 16"

definition encode_PleaseWrite :: "please_write \<Rightarrow> byte list" where
  "encode_PleaseWrite p =
     le_encode 8 (pw_dst_machine_id p) @ le_encode 8 (pw_src_addr p) @ le_encode 8 (pw_bytes p)"

definition decode_PleaseWrite :: "byte list \<Rightarrow> please_write" where
  "decode_PleaseWrite bs =
     \<lparr>pw_dst_machine_id = le_decode (take 8 bs),
      pw_src_addr = le_decode (take 8 (drop 8 bs)),
      pw_bytes = le_decode (take 8 (drop 16 bs))\<rparr>"

definition encode_FreeBufferPair :: "byte \<times> byte \<times> byte \<Rightarrow> free_buffer_pair \<Rightarrow> byte list" where
  "encode_FreeBufferPair pad f =
     le_encode 8 (fb_src_machine_id f) @ le_encode 4 (ucast (fb_buffer_id f)) @
     [if fb_last_piece f then 1 else 0] @ (case pad of (a, b, c) \<Rightarrow> [a, b, c])"

definition decode_FreeBufferPair :: "byte list \<Rightarrow> free_buffer_pair" where
  "decode_FreeBufferPair bs =
     \<lparr>fb_src_machine_id = le_decode (take 8 bs),
      fb_buffer_id = ucast (le_decode (take 4 (drop 8 bs))),
      fb_last_piece = (case drop 12 bs of [] \<Rightarrow> False | b # _ \<Rightarrow> b \<noteq> 0)\<rparr>"

lemma length_encode_PleaseWrite [simp]: "length (encode_PleaseWrite p) = sizeof_PleaseWrite"
  by (simp add: encode_PleaseWrite_def sizeof_PleaseWrite_def)

lemma length_encode_FreeBufferPair [simp]:
  "length (encode_FreeBufferPair pad f) = sizeof_FreeBufferPair"
  by (simp add: encode_FreeBufferPair_def sizeof_FreeBufferPair_def split: prod.splits)

lemma decode_encode_PleaseWrite: "decode_PleaseWrite (encode_PleaseWrite p @ rest) = p"
  by (simp add: decode_PleaseWrite_def encode_PleaseWrite_def le_roundtrip_64)

lemma decode_encode_FreeBufferPair:
  "decode_FreeBufferPair (encode_FreeBufferPair pad f @ rest) = f"
  by (cases f; cases pad)
    (simp add: decode_FreeBufferPair_def encode_FreeBufferPair_def le_roundtrip_64 le_roundtrip_32
      split: prod.splits)


section \<open>Msg\<close>

text \<open>
  A \<open>Msg\<close> owns a copy of one struct. The copy of a \<open>UserMsg\<close> is kept as the struct, whose
  pointer is followed later; the copy of a control message is kept as its bytes.
\<close>

datatype msg_body = UserBody user_msg | CtrlBody "byte list"

record msg =
  m_type :: msg_type
  m_body :: msg_body
  m_bytes :: u64
  m_cb :: "callback option"

definition Msg_UserMsg :: "user_msg \<Rightarrow> callback option \<Rightarrow> msg" where
  "Msg_UserMsg u cb =
     \<lparr>m_type = kUserMsg, m_body = UserBody u, m_bytes = of_nat sizeof_UserMsg, m_cb = cb\<rparr>"

definition Msg_PleaseWrite :: "please_write \<Rightarrow> msg" where
  "Msg_PleaseWrite p =
     \<lparr>m_type = kPleaseWrite, m_body = CtrlBody (encode_PleaseWrite p),
      m_bytes = of_nat sizeof_PleaseWrite, m_cb = None\<rparr>"

definition Msg_FreeBufferPair :: "byte \<times> byte \<times> byte \<Rightarrow> free_buffer_pair \<Rightarrow> msg" where
  "Msg_FreeBufferPair pad f =
     \<lparr>m_type = kFreeBufferPair, m_body = CtrlBody (encode_FreeBufferPair pad f),
      m_bytes = of_nat sizeof_FreeBufferPair, m_cb = None\<rparr>"

section \<open>WorkRecord\<close>

record work_record =
  wr_machine_id :: i64
  wr_begin_addr :: u64
  wr_bytes :: u64
  wr_offset :: u64
  wr_cb :: "callback option"

definition WorkRecord :: "i64 \<Rightarrow> u64 \<Rightarrow> u64 \<Rightarrow> u64 \<Rightarrow> callback option \<Rightarrow> work_record" where
  "WorkRecord m a n off cb =
     \<lparr>wr_machine_id = m, wr_begin_addr = a, wr_bytes = n, wr_offset = off, wr_cb = cb\<rparr>"

end
