(* ===== verification/PieceCopy.thy ===== *)
theory PieceCopy
  imports MemDesc Message
begin

text \<open>
  The arithmetic and the copy loop that the write helper (normal memory to a registered
  buffer) and the read helper (registered buffer to normal memory) share. Both files write
  it out with the same expressions: the size of the next piece, the number of elements it
  takes, and a loop that copies element by element.
\<close>

section \<open>The size of a piece\<close>

definition transfer_bytes :: "comm_net_config \<Rightarrow> u64 \<Rightarrow> u64 \<Rightarrow> u64" where
  "transfer_bytes c bytes offset = min (bytes - offset) (buffer_bytes c)"

text \<open>
  \<open>int32_t sge_num = (transfer_bytes - 1) / sge_bytes + 1\<close>, a 64-bit unsigned expression cut
  to 32 bits, then \<open>std::min(SgeNum(), sge_num)\<close> on signed numbers.
\<close>

definition piece_sge_num :: "comm_net_config \<Rightarrow> u64 \<Rightarrow> u64 \<Rightarrow> i32 res" where
  "piece_sge_num c sge_bytes n =
     (if sge_bytes = 0 then Inl Undefined
      else Inr (smin (SgeNum c) (ucast ((n - 1) div sge_bytes + 1))))"

section \<open>The copy loop\<close>

text \<open>
  \<open>copy_loop copy k i d sge_bytes n done cursor m\<close>: the last \<open>k\<close> iterations of the loop, from
  index \<open>i\<close>, with \<open>done = transfer_record\<close> and \<open>cursor\<close> the running pointer into normal
  memory. \<open>copy m a p n\<close> is the \<open>memcpy\<close> between the element at \<open>a\<close> and the pointer \<open>p\<close>.
\<close>

fun copy_loop ::
  "(memory \<Rightarrow> u64 \<Rightarrow> u64 \<Rightarrow> nat \<Rightarrow> memory) \<Rightarrow> nat \<Rightarrow> nat \<Rightarrow> mem_desc \<Rightarrow> u64 \<Rightarrow> u64 \<Rightarrow> u64 \<Rightarrow> u64 \<Rightarrow>
   memory \<Rightarrow> memory res"
where
  "copy_loop copy 0 i d sge_bytes n done cursor m = Inr m"
| "copy_loop copy (Suc k) i d sge_bytes n done cursor m =
     rbind (vec_at (sge_vec d) i) (\<lambda>cur_sge.
       let temp_bytes = min sge_bytes (n - done)
       in copy_loop copy k (Suc i) d sge_bytes n (done + temp_bytes) (cursor + temp_bytes)
            (copy m (sge_addr cur_sge) cursor (unat temp_bytes)))"

definition to_register :: "memory \<Rightarrow> u64 \<Rightarrow> u64 \<Rightarrow> nat \<Rightarrow> memory" where
  "to_register m a p n = memcpy m a p n"

definition from_register :: "memory \<Rightarrow> u64 \<Rightarrow> u64 \<Rightarrow> nat \<Rightarrow> memory" where
  "from_register m a p n = memcpy m p a n"

text \<open>A descriptor whose elements are adjacent blocks of \<open>s\<close> bytes from \<open>base\<close>.\<close>

definition adjacent :: "mem_desc \<Rightarrow> u64 \<Rightarrow> u64 \<Rightarrow> bool" where
  "adjacent d base s \<longleftrightarrow>
     (\<forall>i < length (sge_vec d). sge_addr (sge_vec d ! i) = base + of_nat i * s)"

lemma adjacent_tiles:
  assumes "map sge_addr (sge_vec d) = tile_addrs p n s"
  shows "adjacent d p s"
proof -
  have "length (sge_vec d) = length (tile_addrs p n s)"
    using arg_cong [OF assms, of length] by simp
  moreover have "sge_addr (sge_vec d ! i) = tile_addrs p n s ! i" if "i < length (sge_vec d)" for i
    using arg_cong [OF assms, of "\<lambda>xs. xs ! i"] that by simp
  ultimately show ?thesis by (auto simp: adjacent_def tile_addrs_def)
qed

text \<open>How many bytes the loop has moved after \<open>i\<close> iterations.\<close>

definition moved :: "u64 \<Rightarrow> u64 \<Rightarrow> nat \<Rightarrow> nat" where
  "moved s n i = min (i * unat s) (unat n)"

lemma moved_mono: "i \<le> j \<Longrightarrow> moved s n i \<le> moved s n j"
  unfolding moved_def by (rule min.mono) (auto intro: mult_le_mono1)

lemma moved_less: "moved s n i < 2 ^ 64"
proof -
  have "unat n < 2 ^ 64" using unsigned_less [of n] by simp
  then show ?thesis by (simp add: moved_def min_less_iff_disj)
qed

lemma moved_step:
  "unat (min s (n - of_nat (moved s n i))) = moved s n (Suc i) - moved s n i"
proof -
  have u: "unat (of_nat (moved s n i) :: u64) = moved s n i" using moved_less by simp
  have "of_nat (moved s n i) \<le> n" using u by (simp add: word_le_nat_alt moved_def)
  then have "unat (n - of_nat (moved s n i)) = unat n - moved s n i"
    by (simp add: unat_sub_word u)
  then have "unat (min s (n - of_nat (moved s n i))) = min (unat s) (unat n - moved s n i)"
    by (simp only: unat_min_word)
  then show ?thesis by (simp add: moved_def) linarith
qed

lemma moved_next:
  "of_nat (moved s n i) + min s (n - of_nat (moved s n i)) = (of_nat (moved s n (Suc i)) :: u64)"
proof -
  have "min s (n - of_nat (moved s n i)) = of_nat (moved s n (Suc i) - moved s n i)"
    using moved_step [of s n i] by (metis of_nat_unat ucast_id)
  then show ?thesis using moved_mono [of i "Suc i" s n] by (simp flip: of_nat_add)
qed

lemma moved_address: "i * unat s < unat n \<Longrightarrow> of_nat i * s = (of_nat (moved s n i) :: u64)"
  by (simp add: moved_def min_def)

text \<open>
  Over adjacent elements the loop is one copy, for every \<open>copy\<close> that joins adjacent copies.
\<close>

lemma copy_loop_eq:
  assumes d: "adjacent d base s" and len: "i + k \<le> length (sge_vec d)"
    and zero: "\<And>m a p. copy m a p 0 = m"
    and join: "\<And>m r x y. r + x + y \<le> moved s n (i + k) \<Longrightarrow>
      copy (copy m (base + of_nat r) (p + of_nat r) x) (base + of_nat (r + x)) (p + of_nat (r + x)) y
      = copy m (base + of_nat r) (p + of_nat r) (x + y)"
  shows "copy_loop copy k i d s n (of_nat (moved s n i)) (p + of_nat (moved s n i)) m =
    Inr (copy m (base + of_nat (moved s n i)) (p + of_nat (moved s n i))
      (moved s n (i + k) - moved s n i))"
  using len join
proof (induction k arbitrary: i m)
  case 0
  then show ?case by (simp add: zero)
next
  case (Suc k)
  let ?r = "moved s n i" and ?x = "moved s n (Suc i) - moved s n i"
    and ?y = "moved s n (Suc i + k) - moved s n (Suc i)"
  have le: "?r \<le> moved s n (Suc i)" "moved s n (Suc i) \<le> moved s n (Suc i + k)"
    by (simp_all add: moved_mono)
  have at: "vec_at (sge_vec d) i = Inr (sge_vec d ! i)"
    using Suc.prems(1) by (simp add: vec_at_def)
  have elem: "copy m (sge_addr (sge_vec d ! i)) (p + of_nat ?r) ?x
      = copy m (base + of_nat ?r) (p + of_nat ?r) ?x"
  proof (cases "i * unat s < unat n")
    case True
    then show ?thesis using d Suc.prems(1) by (simp add: adjacent_def moved_address)
  next
    case False
    then have "?x = 0" by (simp add: moved_def min_def)
    then show ?thesis by (simp only: zero)
  qed
  have next_p: "p + of_nat ?r + min s (n - of_nat ?r) = p + of_nat (moved s n (Suc i))"
    by (simp only: add.assoc moved_next)
  let ?m1 = "copy m (base + of_nat ?r) (p + of_nat ?r) ?x"
  have "copy_loop copy (Suc k) i d s n (of_nat ?r) (p + of_nat ?r) m =
      copy_loop copy k (Suc i) d s n (of_nat (moved s n (Suc i))) (p + of_nat (moved s n (Suc i))) ?m1"
    by (simp only: copy_loop.simps at rbind_Inr Let_def moved_step moved_next next_p elem)
  also have "\<dots> = Inr (copy ?m1 (base + of_nat (moved s n (Suc i))) (p + of_nat (moved s n (Suc i))) ?y)"
    using Suc.prems by (intro Suc.IH) auto
  also have "\<dots> = Inr (copy m (base + of_nat ?r) (p + of_nat ?r) (?x + ?y))"
    using Suc.prems(2) [of ?r ?x ?y m] le by simp
  also have "?x + ?y = moved s n (i + Suc k) - ?r" using le by simp
  finally show ?case .
qed

lemma span_part: "r + x \<le> n \<Longrightarrow> span (a + of_nat r) x \<subseteq> span a n"
proof -
  assume "r + x \<le> n"
  moreover have "span (a + of_nat r) x \<subseteq> span a (r + x)" by (simp add: span_add)
  ultimately show ?thesis using span_mono by blast
qed

text \<open>A loop over all \<open>k\<close> elements, in either direction, is one \<open>memcpy\<close>.\<close>

lemma copy_loop_memcpy:
  assumes "adjacent d base s" and "k \<le> length (sge_vec d)"
    and "span base (moved s n k) \<inter> span p (moved s n k) = {}"
  shows "copy_loop to_register k 0 d s n 0 p m = Inr (memcpy m base p (moved s n k))"
    and "copy_loop from_register k 0 d s n 0 p m = Inr (memcpy m p base (moved s n k))"
proof -
  have part: "span (p + of_nat (r + x)) y \<inter> span (base + of_nat r) x = {}"
    "span (base + of_nat (r + x)) y \<inter> span (p + of_nat r) x = {}"
    if "r + x + y \<le> moved s n k" for r x y
    using assms(3) span_part [of "r + x" y "moved s n k"] span_part [of r x "moved s n k"] that
    by (fastforce dest: subsetD)+
  have m0: "moved s n 0 = 0" by (simp add: moved_def)
  have join_to: "to_register (to_register m (base + of_nat r) (p + of_nat r) x)
      (base + of_nat (r + x)) (p + of_nat (r + x)) y
      = to_register m (base + of_nat r) (p + of_nat r) (x + y)"
    if "r + x + y \<le> moved s n k" for m r x y
    using memcpy_add [of "p + of_nat r" x y "base + of_nat r" m] part(1) [OF that]
    by (simp add: to_register_def add.assoc)
  have join_from: "from_register (from_register m (base + of_nat r) (p + of_nat r) x)
      (base + of_nat (r + x)) (p + of_nat (r + x)) y
      = from_register m (base + of_nat r) (p + of_nat r) (x + y)"
    if "r + x + y \<le> moved s n k" for m r x y
    using memcpy_add [of "base + of_nat r" x y "p + of_nat r" m] part(2) [OF that]
    by (simp add: from_register_def add.assoc)
  show "copy_loop to_register k 0 d s n 0 p m = Inr (memcpy m base p (moved s n k))"
    using copy_loop_eq [OF assms(1), of 0 k to_register n p m] assms(2) join_to
    by (simp add: m0 to_register_def)
  show "copy_loop from_register k 0 d s n 0 p m = Inr (memcpy m p base (moved s n k))"
    using copy_loop_eq [OF assms(1), of 0 k from_register n p m] assms(2) join_from
    by (simp add: m0 from_register_def)
qed

section \<open>A piece under a usable configuration\<close>

lemma sint_ucast_small:
  assumes "unat (w :: u64) < 2 ^ 31"
  shows "sint (ucast w :: i32) = int (unat w)"
proof -
  have "uint w = int (unat w)" by (rule uint_nat)
  moreover have "int (unat w) < int (2 ^ 31)" using assms by (rule of_nat_less_iff [THEN iffD2])
  ultimately have w: "uint w < 2 ^ 31" "0 \<le> uint w" by simp_all
  have "sint (ucast w :: i32) = signed_take_bit 31 (uint w)"
    by (simp add: sint_uint unsigned_ucast_eq signed_take_bit_take_bit)
  also have "\<dots> = uint w"
    using w by (intro signed_take_bit_int_eq_self) linarith+
  finally show ?thesis by simp
qed

lemma block_count_mono: "m \<le> n \<Longrightarrow> block_count m s \<le> block_count n s"
  by (auto simp: block_count_def div_le_mono)

lemma block_count_mult: "0 < s \<Longrightarrow> block_count (k * s) s = k"
  by (induction k) (simp_all add: block_count_step)

lemma block_count_covers: "0 < s \<Longrightarrow> n \<le> block_count n s * s"
  using dividend_less_div_times [of s "n - 1"] by (cases n) (auto simp: block_count_def)

text \<open>
  Every piece of at least one byte takes as many elements as it has blocks, never more than
  the buffer has, and together they hold the piece.
\<close>

lemma piece_elements:
  assumes ok: "config_ok c" and s: "SgeBytes c = Inr s"
    and n: "0 < n" "n \<le> buffer_bytes c"
  obtains k where "piece_sge_num c s n = Inr k"
    and "nat (sint k) = block_count (unat n) (unat s)"
    and "0 < sint k" and "nat (sint k) \<le> nat (sint (sge_num c))"
    and "moved s n (nat (sint k)) = unat n"
proof -
  let ?K = "nat (sint (sge_num c))" and ?k = "block_count (unat n) (unat s)"
  have size: "unat s = sge_size c"
    using ok s SgeBytes_eq [of c] by (metis Inr_inject config_ok_def)
  have S: "0 < unat s" "?K * unat s = unat (buffer_bytes c)"
    using config_ok_sizes [OF ok] by (simp_all add: size)
  have n': "0 < unat n" "unat n \<le> ?K * unat s"
    using n S by (simp_all add: word_less_nat_alt word_le_nat_alt)
  have "?k \<le> block_count (?K * unat s) (unat s)" using n' by (intro block_count_mono)
  also have "\<dots> = ?K"
    by (rule block_count_mult) (fact S(1))
  finally have le: "?k \<le> ?K" .
  have K: "?K < 2 ^ 31" using sint_lt [of "sge_num c"] by simp
  have "unat ((n - 1) div s) = (unat n - 1) div unat s"
    using n(1) by (simp add: unat_div unat_sub_word word_le_nat_alt word_less_nat_alt Suc_leI)
  moreover have "(unat n - 1) div unat s + 1 = ?k" using n' by (simp add: block_count_def)
  ultimately have "unat ((n - 1) div s + 1) = ?k"
    using le K by (subst unat_add_no_wrap) simp_all
  then have u: "sint (ucast ((n - 1) div s + 1) :: i32) = int ?k"
    using le K by (simp add: sint_ucast_small)
  have pos: "0 < sint (sge_num c)" using ok by (simp add: config_ok_def)
  let ?r = "smin (SgeNum c) (ucast ((n - 1) div s + 1))"
  have "sint ?r = int ?k" using u le pos by (simp add: sint_smin SgeNum_def)
  moreover have "piece_sge_num c s n = Inr ?r" using S by (auto simp: piece_sge_num_def)
  moreover have "0 < ?k" using n' by (simp add: block_count_def)
  moreover have "moved s n ?k = unat n"
    using block_count_covers [OF S(1), of "unat n"] by (simp add: moved_def)
  ultimately show ?thesis using le by (intro that [of ?r]) auto
qed

text \<open>
  Without the divisibility part of \<open>config_ok\<close> a full buffer loses its tail: the loop moves
  \<open>SgeNum() * SgeBytes()\<close> bytes while the offset advances by the whole buffer.
\<close>

lemma piece_tail_lost:
  assumes "sge_num c = 3" and "per_register_buffer_mbytes c = 4"
  shows "\<exists>k s. SgeBytes c = Inr s \<and> piece_sge_num c s (buffer_bytes c) = Inr k \<and>
    moved s (buffer_bytes c) (nat (sint k)) = unat (buffer_bytes c) - 1"
  using assms by (simp add: SgeBytes_def piece_sge_num_def buffer_bytes_def
      PerRegisterBufferMBytes_def SgeNum_def smin_def moved_def)

text \<open>A transfer of no bytes asks for no element under the default configuration.\<close>

lemma empty_piece_no_element: "piece_sge_num (default_config ms p) 4194304 0 = Inr 0"
  by (simp add: piece_sge_num_def SgeNum_def default_config_def smin_def)

end
