(* ===== verification/WriteHelper.thy ===== *)
theory WriteHelper
  imports PieceCopy
begin

text \<open>
  \<open>ibverbs/ibverbs_write_helper.{h,cpp}\<close>: the sending side of a transfer. A record to write
  is cut into pieces of at most one registered buffer; a piece waits for an idle buffer, is
  copied into it and handed to \<open>IBVerbsCommNet::Normal2RegisterDone\<close>, which posts it. That
  call leaves the helper, so it is an argument \<open>n2r\<close> over a state of its own.
\<close>

section \<open>The helper\<close>

datatype write_handle = h_InitWriteHandle | h_RequestBuffer | h_DoCurWrite

record write_helper =
  buffer_id :: i32
  pending_record_queue :: "work_record list"
  cur_record_queue :: "work_record list"
  idle_buffer_queue :: "i32 list"
  cur_record :: work_record
  cur_write_handle :: write_handle
  send_recv_pair :: "(mem_desc \<times> mem_desc_proto) list"

type_synonym 'n n2r =
  "i64 \<Rightarrow> mem_desc \<Rightarrow> mem_desc_proto \<Rightarrow> i32 \<Rightarrow> i32 \<Rightarrow> 'n \<Rightarrow> 'n res"

type_synonym 'n wstate = "write_helper \<times> memory \<times> 'n"

text \<open>
  The constructor. \<open>buffer_id_\<close> and \<open>cur_record_\<close> are not initialised: their first values
  are arguments. The \<open>int\<close> loop counter must not overflow.
\<close>

definition new_write_helper ::
  "comm_net_config \<Rightarrow> (mem_desc \<times> mem_desc_proto) list \<Rightarrow> i32 \<Rightarrow> work_record \<Rightarrow> write_helper res"
where
  "new_write_helper c pairs junk_id junk_record =
     (if 2 ^ 31 - 1 < sint (RegisterBufferNum c) then Inl Undefined
      else Inr \<lparr>buffer_id = junk_id, pending_record_queue = [], cur_record_queue = [],
        idle_buffer_queue = map of_nat [0..<nat (sint (RegisterBufferNum c))],
        cur_record = junk_record, cur_write_handle = h_InitWriteHandle,
        send_recv_pair = pairs\<rparr>)"

text \<open>The destructor aborts while records are still queued for writing.\<close>

definition delete_write_helper :: "write_helper \<Rightarrow> unit res" where
  "delete_write_helper h = check (cur_record_queue h = []) (Inr ())"

definition InitWriteHandle :: "write_helper \<Rightarrow> bool \<times> write_helper" where
  "InitWriteHandle h =
     (let h1 = (if cur_record_queue h = []
                then h\<lparr>cur_record_queue := pending_record_queue h,
                       pending_record_queue := cur_record_queue h\<rparr>
                else h)
      in case cur_record_queue h1 of
           [] \<Rightarrow> (False, h1)
         | r # rs \<Rightarrow> (True, h1\<lparr>cur_record := r, cur_record_queue := rs,
                              cur_write_handle := h_RequestBuffer\<rparr>))"

definition RequestBuffer :: "write_helper \<Rightarrow> bool \<times> write_helper" where
  "RequestBuffer h =
     (case idle_buffer_queue h of
        [] \<Rightarrow> (False, h)
      | b # bs \<Rightarrow> (True, h\<lparr>buffer_id := b, idle_buffer_queue := bs,
                          cur_write_handle := h_DoCurWrite\<rparr>))"

text \<open>
  What \<open>DoCurWrite\<close> does with one piece of a record and one buffer, up to and including the
  call of \<open>Normal2RegisterDone\<close>: the loop over the elements and the hand-over.
\<close>

definition write_piece ::
  "comm_net_config \<Rightarrow> 'n n2r \<Rightarrow> (mem_desc \<times> mem_desc_proto) list \<Rightarrow> work_record \<Rightarrow> i32 \<Rightarrow>
   memory \<times> 'n \<Rightarrow> (memory \<times> 'n) res"
where
  "write_piece c n2r pairs r b mn =
     (if sint b < 0 then Inl Undefined
      else
        rbind (vec_index pairs (nat (sint b))) (\<lambda>(send_mem_desc, recv_mem_desc_proto).
        rbind (SgeBytes c) (\<lambda>sge_bytes.
          let n = transfer_bytes c (wr_bytes r) (wr_offset r);
              src_addr = wr_begin_addr r + wr_offset r
          in
          rbind (piece_sge_num c sge_bytes n) (\<lambda>num.
          rbind (copy_loop to_register (nat (sint num)) 0 send_mem_desc sge_bytes n 0 src_addr (fst mn))
            (\<lambda>m'.
          rbind (n2r (wr_machine_id r) send_mem_desc recv_mem_desc_proto b num (snd mn))
            (\<lambda>n'. Inr (m', n')))))))"

text \<open>\<open>cur_record_.offset += transfer_bytes\<close>.\<close>

definition advance :: "comm_net_config \<Rightarrow> work_record \<Rightarrow> work_record" where
  "advance c r = r\<lparr>wr_offset := wr_offset r + transfer_bytes c (wr_bytes r) (wr_offset r)\<rparr>"

definition DoCurWrite ::
  "comm_net_config \<Rightarrow> 'n n2r \<Rightarrow> 'n wstate \<Rightarrow> (bool \<times> 'n wstate) res"
where
  "DoCurWrite c n2r = (\<lambda>(h, m, n).
     rbind (write_piece c n2r (send_recv_pair h) (cur_record h) (buffer_id h) (m, n)) (\<lambda>(m', n').
       let r = advance c (cur_record h)
       in Inr (True,
            h\<lparr>cur_record := r,
              cur_write_handle :=
                (if wr_offset r < wr_bytes r then h_RequestBuffer else h_InitWriteHandle)\<rparr>,
            m', n')))"

text \<open>\<open>(this->*cur_write_handle_)()\<close>, and the loop around it.\<close>

definition call_handle ::
  "comm_net_config \<Rightarrow> 'n n2r \<Rightarrow> 'n wstate \<Rightarrow> (bool \<times> 'n wstate) res"
where
  "call_handle c n2r = (\<lambda>(h, m, n).
     case cur_write_handle h of
       h_InitWriteHandle \<Rightarrow> (let (go, h') = InitWriteHandle h in Inr (go, h', m, n))
     | h_RequestBuffer \<Rightarrow> (let (go, h') = RequestBuffer h in Inr (go, h', m, n))
     | h_DoCurWrite \<Rightarrow> DoCurWrite c n2r (h, m, n))"

text \<open>
  The loop ends: between two calls of \<open>DoCurWrite\<close> a buffer leaves the idle queue, and
  nothing in the loop returns one.
\<close>

fun handle_rank :: "write_handle \<Rightarrow> nat" where
  "handle_rank h_RequestBuffer = 1"
| "handle_rank h_InitWriteHandle = 2"
| "handle_rank h_DoCurWrite = 3"

definition loop_measure :: "write_helper \<Rightarrow> nat" where
  "loop_measure h = 3 * length (idle_buffer_queue h) + handle_rank (cur_write_handle h)"

lemma InitWriteHandle_simps:
  "InitWriteHandle h =
     (case cur_record_queue h of
        r # rs \<Rightarrow> (True, h\<lparr>cur_record := r, cur_record_queue := rs,
                         cur_write_handle := h_RequestBuffer\<rparr>)
      | [] \<Rightarrow>
        (case pending_record_queue h of
           [] \<Rightarrow> (False, h)
         | r # rs \<Rightarrow> (True, h\<lparr>cur_record := r, cur_record_queue := rs,
                            pending_record_queue := [], cur_write_handle := h_RequestBuffer\<rparr>)))"
  by (cases h) (auto simp: InitWriteHandle_def split: list.splits)

lemmas handle_defs = call_handle_def InitWriteHandle_simps RequestBuffer_def DoCurWrite_def

lemma call_handle_decreases:
  "call_handle c n2r (h, mn) = Inr (True, h', mn') \<Longrightarrow> loop_measure h' < loop_measure h"
  by (cases "cur_write_handle h"; cases mn)
    (auto simp: handle_defs loop_measure_def rbind_eq_Inr Let_def
      split: list.splits if_splits prod.splits)

function WriteUntilQueueEmptyOrNoBuffer ::
  "comm_net_config \<Rightarrow> 'n n2r \<Rightarrow> 'n wstate \<Rightarrow> 'n wstate res"
where
  "WriteUntilQueueEmptyOrNoBuffer c n2r st =
     rbind (call_handle c n2r st)
       (\<lambda>(go, st'). if go then WriteUntilQueueEmptyOrNoBuffer c n2r st' else Inr st')"
  by pat_completeness auto
termination
  by (relation "measure (\<lambda>(c, n2r, h, m, n). loop_measure h)")
    (auto intro: call_handle_decreases)

declare WriteUntilQueueEmptyOrNoBuffer.simps [simp del]

definition NotifyMeToWrite :: "comm_net_config \<Rightarrow> 'n n2r \<Rightarrow> 'n wstate \<Rightarrow> 'n wstate res" where
  "NotifyMeToWrite c n2r st = WriteUntilQueueEmptyOrNoBuffer c n2r st"

definition AsyncWrite ::
  "comm_net_config \<Rightarrow> 'n n2r \<Rightarrow> work_record \<Rightarrow> 'n wstate \<Rightarrow> 'n wstate res"
where
  "AsyncWrite c n2r record = (\<lambda>(h, m, n).
     let need_send_reminder = (pending_record_queue h = []);
         h1 = h\<lparr>pending_record_queue := queue_push (pending_record_queue h) record\<rparr>
     in if need_send_reminder then NotifyMeToWrite c n2r (h1, m, n) else Inr (h1, m, n))"

definition FreeBuffer ::
  "comm_net_config \<Rightarrow> 'n n2r \<Rightarrow> i32 \<Rightarrow> 'n wstate \<Rightarrow> 'n wstate res"
where
  "FreeBuffer c n2r b = (\<lambda>(h, m, n).
     NotifyMeToWrite c n2r
       (h\<lparr>idle_buffer_queue := queue_push (idle_buffer_queue h) b\<rparr>, m, n))"

section \<open>The two record queues are one queue\<close>

definition record_push :: "write_helper \<Rightarrow> work_record \<Rightarrow> write_helper" where
  "record_push h r = h\<lparr>pending_record_queue := queue_push (pending_record_queue h) r\<rparr>"

definition record_take :: "write_helper \<Rightarrow> (work_record \<times> write_helper) option" where
  "record_take h = (case InitWriteHandle h of
     (go, h') \<Rightarrow> if go then Some (cur_record h', h') else None)"

definition queued_records :: "write_helper \<Rightarrow> work_record list" where
  "queued_records h = cur_record_queue h @ pending_record_queue h"

interpretation record_queue: fifo queued_records record_push record_take "\<lambda>_. True"
  by unfold_locales
    (auto simp: queued_records_def record_push_def record_take_def InitWriteHandle_simps
      queue_push_def split: list.splits)

text \<open>
  C35: swapping \<open>cur_record_queue_\<close> and \<open>pending_record_queue_\<close> when the former runs empty
  keeps the order of the records: over any sequence of \<open>AsyncWrite\<close> insertions and
  \<open>InitWriteHandle\<close> removals nothing is lost, duplicated or overtaken.
\<close>

theorem record_queues_fifo:
  assumes "fifo_run record_push record_take h ops = (taken, h')"
  shows "queued_records h @ puts ops = taken @ queued_records h'"
  using record_queue.run_order [OF TrueI assms] by blast

theorem record_queues_fifo_witness:
  "\<exists>h taken h'. fifo_run record_push record_take h
      [Put (WorkRecord 0 8 8 0 None), Take, Put (WorkRecord 0 16 8 0 None)] = (taken, h') \<and>
    taken = [WorkRecord 0 8 8 0 None] \<and>
    queued_records h @ [WorkRecord 0 8 8 0 None, WorkRecord 0 16 8 0 None] =
      taken @ queued_records h'"
proof -
  let ?h = "\<lparr>buffer_id = 0, pending_record_queue = [], cur_record_queue = [],
    idle_buffer_queue = [], cur_record = WorkRecord 0 0 0 0 None,
    cur_write_handle = h_InitWriteHandle, send_recv_pair = []\<rparr>"
  let ?ops = "[Put (WorkRecord 0 8 8 0 None), Take, Put (WorkRecord 0 16 8 0 None)]"
  obtain taken h' where r: "fifo_run record_push record_take ?h ?ops = (taken, h')"
    by (cases "fifo_run record_push record_take ?h ?ops")
  then have "taken = [WorkRecord 0 8 8 0 None]"
    by (auto simp: record_push_def record_take_def InitWriteHandle_simps queue_push_def)
  with record_queues_fifo [OF r] r show ?thesis by auto
qed

end
