(* ===== verification/WriteHelperSpec.thy ===== *)
theory WriteHelperSpec
  imports WriteHelper
begin

text \<open>
  What the write helper promises, and that the state machine of WriteHelper.thy keeps it:
  the pieces of all records, in order, are matched with the buffers, in the order they
  became idle, as far as both reach; nothing is posted in another order and nothing that
  could be posted is left behind.
\<close>

section \<open>The abstract helper: pieces against buffers\<close>

text \<open>A record is the sequence of its pieces; a piece is the record at the piece's offset.\<close>

definition piece_records :: "comm_net_config \<Rightarrow> work_record \<Rightarrow> work_record list" where
  "piece_records c r =
     map (\<lambda>k. r\<lparr>wr_offset := wr_offset r + of_nat k * buffer_bytes c\<rparr>)
       [0..<max 1 (block_count (unat (wr_bytes r) - unat (wr_offset r)) (unat (buffer_bytes c)))]"

text \<open>The work still to do, and the buffers that can be used for it.\<close>

definition backlog :: "comm_net_config \<Rightarrow> write_helper \<Rightarrow> work_record list" where
  "backlog c h =
     (if cur_write_handle h = h_InitWriteHandle then [] else piece_records c (cur_record h)) @
     concat (map (piece_records c) (queued_records h))"

definition avail :: "write_helper \<Rightarrow> i32 list" where
  "avail h =
     (if cur_write_handle h = h_DoCurWrite then [buffer_id h] else []) @ idle_buffer_queue h"

fun write_pieces ::
  "comm_net_config \<Rightarrow> 'n n2r \<Rightarrow> (mem_desc \<times> mem_desc_proto) list \<Rightarrow> (work_record \<times> i32) list \<Rightarrow>
   memory \<times> 'n \<Rightarrow> (memory \<times> 'n) res"
where
  "write_pieces c n2r pairs [] mn = Inr mn"
| "write_pieces c n2r pairs ((r, b) # ps) mn =
     rbind (write_piece c n2r pairs r b mn) (write_pieces c n2r pairs ps)"

lemma write_pieces_append:
  "write_pieces c n2r pairs (ps @ qs) mn =
     rbind (write_pieces c n2r pairs ps mn) (write_pieces c n2r pairs qs)"
  by (induction ps arbitrary: mn) (auto simp: rbind_assoc intro!: rbind_cong)

text \<open>
  Where the helper can rest: with nothing to do, or waiting for a buffer when none is idle.
\<close>

definition settled :: "write_helper \<Rightarrow> bool" where
  "settled h \<longleftrightarrow>
     (case cur_write_handle h of
        h_InitWriteHandle \<Rightarrow> cur_record_queue h = [] \<and> pending_record_queue h = []
      | h_RequestBuffer \<Rightarrow> idle_buffer_queue h = []
      | h_DoCurWrite \<Rightarrow> False)"

definition wf_record :: "work_record \<Rightarrow> bool" where
  "wf_record r \<longleftrightarrow> wr_offset r \<le> wr_bytes r"

definition wf_helper :: "comm_net_config \<Rightarrow> write_helper \<Rightarrow> bool" where
  "wf_helper c h \<longleftrightarrow>
     0 < buffer_bytes c \<and> (\<forall>r \<in> set (queued_records h). wf_record r) \<and>
     (cur_write_handle h \<noteq> h_InitWriteHandle \<longrightarrow> wf_record (cur_record h))"

section \<open>Pieces of a record\<close>

lemma advance_offset:
  assumes "wf_record r"
  shows "unat (wr_offset (advance c r)) =
      unat (wr_offset r) +
      min (unat (wr_bytes r) - unat (wr_offset r)) (unat (buffer_bytes c))"
    and "wf_record (advance c r)" and "wr_bytes (advance c r) = wr_bytes r"
proof -
  let ?t = "transfer_bytes c (wr_bytes r) (wr_offset r)"
  have t: "unat ?t = min (unat (wr_bytes r) - unat (wr_offset r)) (unat (buffer_bytes c))"
    using assms by (simp add: transfer_bytes_def unat_min_word unat_sub_word wf_record_def)
  have "unat (wr_offset r) + unat ?t \<le> unat (wr_bytes r)"
    using assms unfolding t wf_record_def word_le_nat_alt by linarith
  moreover have "unat (wr_bytes r) < 2 ^ 64" using unsigned_less [of "wr_bytes r"] by simp
  ultimately have "unat (wr_offset r + ?t) = unat (wr_offset r) + unat ?t"
    by (intro unat_add_no_wrap) simp
  then show 1: "unat (wr_offset (advance c r)) = unat (wr_offset r) +
      min (unat (wr_bytes r) - unat (wr_offset r)) (unat (buffer_bytes c))"
    by (simp add: advance_def t)
  show "wr_bytes (advance c r) = wr_bytes r" by (simp add: advance_def)
  then show "wf_record (advance c r)"
    using 1 assms unfolding wf_record_def word_le_nat_alt by simp
qed

lemma piece_records_step:
  assumes "wf_record r" and "0 < buffer_bytes c"
  shows "piece_records c r =
    r # (if wr_offset (advance c r) < wr_bytes r then piece_records c (advance c r) else [])"
proof -
  let ?rest = "unat (wr_bytes r) - unat (wr_offset r)" and ?C = "unat (buffer_bytes c)"
  have C: "0 < ?C" using assms(2) by (simp add: word_less_nat_alt)
  have more: "wr_offset (advance c r) < wr_bytes r \<longleftrightarrow> ?C < ?rest"
    using advance_offset(1) [OF assms(1), of c] assms(1)
    by (auto simp: word_less_nat_alt wf_record_def word_le_nat_alt)
  show ?thesis
  proof (cases "?C < ?rest")
    case True
    then have t: "transfer_bytes c (wr_bytes r) (wr_offset r) = buffer_bytes c"
      using assms(1) by (simp add: transfer_bytes_def min_def wf_record_def word_le_nat_alt
          unat_sub_word)
    let ?n = "block_count (?rest - ?C) ?C"
    have n: "block_count ?rest ?C = Suc ?n" "0 < ?n"
      using True C by (simp_all add: block_count_step)
    have rest': "unat (wr_bytes r) - unat (wr_offset (advance c r)) = ?rest - ?C"
      using advance_offset(1) [OF assms(1), of c] True by simp
    have m: "max 1 (block_count ?rest ?C) = Suc ?n" "max 1 ?n = ?n" using n by simp_all
    have a: "advance c r = r\<lparr>wr_offset := wr_offset r + buffer_bytes c\<rparr>"
      by (simp add: advance_def t)
    have "piece_records c r = r # piece_records c (advance c r)"
      unfolding piece_records_def rest' m advance_offset(3) [OF assms(1)]
      by (simp add: a map_upt_Suc algebra_simps del: upt_Suc)
    with more True show ?thesis by simp
  next
    case False
    then have "block_count ?rest ?C \<le> 1" using C by (auto simp: block_count_def)
    then have "piece_records c r = [r]" by (simp add: piece_records_def max_def)
    with more False show ?thesis by simp
  qed
qed

section \<open>The loop refines the abstract helper\<close>

lemma zip_split:
  "zip (xs @ ps) (ys @ bs) =
     zip xs ys @ zip (drop (length ys) xs @ ps) (drop (length xs) ys @ bs)"
proof (induction xs arbitrary: ys)
  case (Cons x xs)
  then show ?case by (cases ys) simp_all
qed simp

lemma drop_split:
  "drop (length (ys @ bs)) (xs @ ps) =
     drop (length (drop (length xs) ys @ bs)) (drop (length ys) xs @ ps)"
  by (cases "length xs \<le> length ys") (simp_all add: add.commute)

lemmas abs_defs = backlog_def avail_def queued_records_def

lemma InitWriteHandle_take:
  "queued_records h = r # rs \<Longrightarrow>
   \<exists>h1. InitWriteHandle h = (True, h1) \<and> cur_record h1 = r \<and> queued_records h1 = rs \<and>
     cur_write_handle h1 = h_RequestBuffer \<and> idle_buffer_queue h1 = idle_buffer_queue h \<and>
     send_recv_pair h1 = send_recv_pair h"
  by (cases "cur_record_queue h") (auto simp: InitWriteHandle_simps queued_records_def)

text \<open>
  \<open>posts st h ps c h'\<close>: from \<open>h\<close>, whatever the memory, the operations post exactly the
  pairs \<open>ps\<close> (and fault where that faults) and end in \<open>h'\<close>.
\<close>

definition posts ::
  "(memory \<Rightarrow> 'n \<Rightarrow> 'n wstate res) \<Rightarrow> comm_net_config \<Rightarrow> 'n n2r \<Rightarrow>
   (mem_desc \<times> mem_desc_proto) list \<Rightarrow> (work_record \<times> i32) list \<Rightarrow> write_helper \<Rightarrow> bool"
where
  "posts f c n2r pairs ps h' \<longleftrightarrow>
     (\<forall>m n. f m n = rbind (write_pieces c n2r pairs ps (m, n)) (\<lambda>(m', n'). Inr (h', m', n')))"

text \<open>
  The loop for two clients at once: which pieces go to which buffers, and where the helper
  ends, does not depend on what the hand-over \<open>n2r\<close> is.
\<close>

lemma loop_refines:
  fixes n2r :: "'n n2r" and n2r' :: "'k n2r"
  shows "wf_helper c h \<Longrightarrow>
   \<exists>h'. posts (\<lambda>m n. WriteUntilQueueEmptyOrNoBuffer c n2r (h, m, n)) c n2r (send_recv_pair h)
       (zip (backlog c h) (avail h)) h' \<and>
     posts (\<lambda>m n. WriteUntilQueueEmptyOrNoBuffer c n2r' (h, m, n)) c n2r' (send_recv_pair h)
       (zip (backlog c h) (avail h)) h' \<and>
     settled h' \<and> wf_helper c h' \<and> send_recv_pair h' = send_recv_pair h \<and>
     backlog c h' = drop (length (avail h)) (backlog c h) \<and>
     avail h' = drop (length (backlog c h)) (avail h)"
proof (induction "loop_measure h" arbitrary: h rule: less_induct)
  case less
  note wf = less.prems
  note unfold = WriteUntilQueueEmptyOrNoBuffer.simps [of c n2r "(h, m, n)" for m n]
    WriteUntilQueueEmptyOrNoBuffer.simps [of c n2r' "(h, m, n)" for m n]
  have C: "0 < buffer_bytes c" using wf by (simp add: wf_helper_def)
  \<comment> \<open>a step that changes neither the backlog nor the available buffers\<close>
  have silent: ?case
    if step: "\<And>m n. call_handle c n2r (h, m, n) = Inr (True, h1, m, n)"
        "\<And>m n. call_handle c n2r' (h, m, n) = Inr (True, h1, m, n)"
      and keep: "wf_helper c h1" "backlog c h1 = backlog c h" "avail h1 = avail h"
        "send_recv_pair h1 = send_recv_pair h" for h1
  proof -
    have "loop_measure h1 < loop_measure h" using step(1) by (rule call_handle_decreases)
    from less.hyps [OF this keep(1)] show ?thesis by (simp add: posts_def unfold step keep(2-4))
  qed
  \<comment> \<open>a step that ends the loop\<close>
  have stop: ?case
    if "\<And>m n. call_handle c n2r (h, m, n) = Inr (False, h, m, n)"
      "\<And>m n. call_handle c n2r' (h, m, n) = Inr (False, h, m, n)" "settled h"
      "backlog c h = [] \<or> avail h = []"
    using that wf by (intro exI [of _ h]) (auto simp: posts_def unfold)
  show ?case
  proof (cases "cur_write_handle h")
    case h_InitWriteHandle
    show ?thesis
    proof (cases "queued_records h")
      case Nil
      with h_InitWriteHandle show ?thesis
        by (intro stop) (simp_all add: handle_defs settled_def abs_defs)
    next
      case (Cons r rs)
      obtain h1 where h1: "InitWriteHandle h = (True, h1)" "cur_record h1 = r"
        "queued_records h1 = rs" "cur_write_handle h1 = h_RequestBuffer"
        "idle_buffer_queue h1 = idle_buffer_queue h" "send_recv_pair h1 = send_recv_pair h"
        using InitWriteHandle_take [OF Cons] by blast
      show ?thesis
      proof (rule silent)
        show "call_handle c n2r (h, m, n) = Inr (True, h1, m, n)" for m n
          using h_InitWriteHandle h1(1) by (simp add: call_handle_def)
        show "call_handle c n2r' (h, m, n) = Inr (True, h1, m, n)" for m n
          using h_InitWriteHandle h1(1) by (simp add: call_handle_def)
        show "wf_helper c h1" using wf Cons h1 by (simp add: wf_helper_def)
        show "backlog c h1 = backlog c h"
          using Cons h1 h_InitWriteHandle by (simp add: backlog_def)
        show "avail h1 = avail h" using h1 h_InitWriteHandle by (simp add: avail_def)
      qed (fact h1(6))
    qed
  next
    case h_RequestBuffer
    show ?thesis
    proof (cases "idle_buffer_queue h")
      case Nil
      with h_RequestBuffer show ?thesis
        by (intro stop) (simp_all add: handle_defs settled_def avail_def)
    next
      case (Cons b bs)
      let ?h1 = "h\<lparr>buffer_id := b, idle_buffer_queue := bs, cur_write_handle := h_DoCurWrite\<rparr>"
      show ?thesis
        using wf h_RequestBuffer Cons
        by (intro silent [of ?h1]) (simp_all add: handle_defs abs_defs wf_helper_def)
    qed
  next
    case h_DoCurWrite
    let ?r = "advance c (cur_record h)"
    let ?h1 = "h\<lparr>cur_record := ?r, cur_write_handle :=
      (if wr_offset ?r < wr_bytes ?r then h_RequestBuffer else h_InitWriteHandle)\<rparr>"
    have r: "wf_record (cur_record h)" using wf h_DoCurWrite by (simp add: wf_helper_def)
    have wf1: "wf_helper c ?h1"
      using wf advance_offset(2) [OF r, of c] by (simp add: wf_helper_def queued_records_def)
    have b1: "backlog c h = cur_record h # backlog c ?h1"
      using piece_records_step [OF r C] advance_offset(3) [OF r, of c] h_DoCurWrite
      by (simp add: backlog_def queued_records_def)
    have a1: "avail h = buffer_id h # avail ?h1" using h_DoCurWrite by (simp add: avail_def)
    have "loop_measure ?h1 < loop_measure h" using h_DoCurWrite by (simp add: loop_measure_def)
    from less.hyps [OF this wf1] obtain h' where h':
      "posts (\<lambda>m n. WriteUntilQueueEmptyOrNoBuffer c n2r (?h1, m, n)) c n2r (send_recv_pair h)
        (zip (backlog c ?h1) (avail ?h1)) h'"
      "posts (\<lambda>m n. WriteUntilQueueEmptyOrNoBuffer c n2r' (?h1, m, n)) c n2r' (send_recv_pair h)
        (zip (backlog c ?h1) (avail ?h1)) h'"
      "settled h'" "wf_helper c h'" "send_recv_pair h' = send_recv_pair h"
      "backlog c h' = drop (length (avail ?h1)) (backlog c ?h1)"
      "avail h' = drop (length (backlog c ?h1)) (avail ?h1)"
      by auto
    have "posts (\<lambda>m n. WriteUntilQueueEmptyOrNoBuffer c n2r (h, m, n)) c n2r (send_recv_pair h)
        (zip (backlog c h) (avail h)) h'"
      "posts (\<lambda>m n. WriteUntilQueueEmptyOrNoBuffer c n2r' (h, m, n)) c n2r' (send_recv_pair h)
        (zip (backlog c h) (avail h)) h'"
      using h_DoCurWrite h'(1,2)
      by (auto simp: posts_def unfold call_handle_def DoCurWrite_def rbind_assoc Let_def b1 a1
          intro!: rbind_cong split: prod.splits)
    with h'(3-7) show ?thesis by (intro exI [of _ h']) (simp add: b1 a1)
  qed
qed

section \<open>Any sequence of AsyncWrite and FreeBuffer\<close>

datatype helper_op = op_AsyncWrite work_record | op_FreeBuffer i32

fun perform_op ::
  "comm_net_config \<Rightarrow> 'n n2r \<Rightarrow> 'n wstate \<Rightarrow> helper_op \<Rightarrow> 'n wstate res"
where
  "perform_op c n2r st (op_AsyncWrite r) = AsyncWrite c n2r r st"
| "perform_op c n2r st (op_FreeBuffer b) = FreeBuffer c n2r b st"

fun op_pieces :: "comm_net_config \<Rightarrow> helper_op list \<Rightarrow> work_record list" where
  "op_pieces c [] = []"
| "op_pieces c (op_AsyncWrite r # os) = piece_records c r @ op_pieces c os"
| "op_pieces c (op_FreeBuffer b # os) = op_pieces c os"

fun op_buffers :: "helper_op list \<Rightarrow> i32 list" where
  "op_buffers [] = []"
| "op_buffers (op_AsyncWrite r # os) = op_buffers os"
| "op_buffers (op_FreeBuffer b # os) = b # op_buffers os"

fun wf_op :: "helper_op \<Rightarrow> bool" where
  "wf_op (op_AsyncWrite r) = wf_record r"
| "wf_op (op_FreeBuffer b) = True"

lemma settled_idle: "settled h \<Longrightarrow> backlog c h = [] \<or> avail h = []"
  by (auto simp: settled_def abs_defs split: write_handle.splits)

text \<open>One operation: drain the zip of what is pending with what is free.\<close>

lemma drain_step:
  fixes n2r :: "'n n2r" and n2r' :: "'k n2r"
  assumes "wf_helper c h"
  shows "\<exists>h'. posts (\<lambda>m n. NotifyMeToWrite c n2r (h, m, n)) c n2r (send_recv_pair h)
      (zip (backlog c h) (avail h)) h' \<and>
    posts (\<lambda>m n. NotifyMeToWrite c n2r' (h, m, n)) c n2r' (send_recv_pair h)
      (zip (backlog c h) (avail h)) h' \<and>
    settled h' \<and> wf_helper c h' \<and> send_recv_pair h' = send_recv_pair h \<and>
    backlog c h' = drop (length (avail h)) (backlog c h) \<and>
    avail h' = drop (length (backlog c h)) (avail h)"
  unfolding NotifyMeToWrite_def by (rule loop_refines [OF assms])

lemma perform_op_step:
  fixes n2r :: "'n n2r" and n2r' :: "'k n2r"
  assumes h: "wf_helper c h" "settled h" and wf: "wf_op opn"
  shows "\<exists>h'. posts (\<lambda>m n. perform_op c n2r (h, m, n) opn) c n2r (send_recv_pair h)
      (zip (backlog c h @ op_pieces c [opn]) (avail h @ op_buffers [opn])) h' \<and>
    posts (\<lambda>m n. perform_op c n2r' (h, m, n) opn) c n2r' (send_recv_pair h)
      (zip (backlog c h @ op_pieces c [opn]) (avail h @ op_buffers [opn])) h' \<and>
    settled h' \<and> wf_helper c h' \<and> send_recv_pair h' = send_recv_pair h \<and>
    backlog c h' = drop (length (avail h @ op_buffers [opn])) (backlog c h @ op_pieces c [opn]) \<and>
    avail h' = drop (length (backlog c h @ op_pieces c [opn])) (avail h @ op_buffers [opn])"
proof (cases opn)
  case (op_AsyncWrite r)
  let ?h1 = "h\<lparr>pending_record_queue := queue_push (pending_record_queue h) r\<rparr>"
  have h1: "wf_helper c ?h1" "backlog c ?h1 = backlog c h @ piece_records c r" "avail ?h1 = avail h"
    using h(1) wf op_AsyncWrite by (auto simp: wf_helper_def abs_defs queue_push_def)
  show ?thesis
  proof (cases "pending_record_queue h = []")
    case True
    with drain_step [OF h1(1), of n2r n2r'] h1 op_AsyncWrite show ?thesis
      by (simp add: AsyncWrite_def Let_def)
  next
    case False
    with h(2) have "cur_write_handle h = h_RequestBuffer" "idle_buffer_queue h = []"
      by (auto simp: settled_def split: write_handle.splits)
    then have "avail h = []" "settled ?h1" by (simp_all add: avail_def settled_def)
    with False h1 op_AsyncWrite show ?thesis
      by (intro exI [of _ ?h1]) (simp add: AsyncWrite_def posts_def)
  qed
next
  case (op_FreeBuffer b)
  let ?h1 = "h\<lparr>idle_buffer_queue := queue_push (idle_buffer_queue h) b\<rparr>"
  have "wf_helper c ?h1" "backlog c ?h1 = backlog c h" "avail ?h1 = avail h @ [b]"
    using h(1) by (auto simp: wf_helper_def abs_defs queue_push_def)
  with drain_step [of c ?h1 n2r n2r'] op_FreeBuffer show ?thesis by (simp add: FreeBuffer_def)
qed

lemma op_pieces_Cons: "op_pieces c (opn # os) = op_pieces c [opn] @ op_pieces c os"
  by (cases opn) simp_all

lemma op_buffers_Cons: "op_buffers (opn # os) = op_buffers [opn] @ op_buffers os"
  by (cases opn) simp_all

lemma helper_run_refines:
  "wf_helper c h \<Longrightarrow> settled h \<Longrightarrow> \<forall>opn \<in> set os. wf_op opn \<Longrightarrow>
   \<exists>h'. posts (\<lambda>m n. run (perform_op c n2r) (h, m, n) os) c n2r (send_recv_pair h)
      (zip (backlog c h @ op_pieces c os) (avail h @ op_buffers os)) h' \<and>
     settled h' \<and>
     backlog c h' = drop (length (avail h @ op_buffers os)) (backlog c h @ op_pieces c os) \<and>
     avail h' = drop (length (backlog c h @ op_pieces c os)) (avail h @ op_buffers os)"
proof (induction os arbitrary: h)
  case Nil
  with settled_idle [of h c] show ?case by (intro exI [of _ h]) (auto simp: posts_def)
next
  case (Cons opn os)
  let ?X = "backlog c h @ op_pieces c [opn]" and ?Y = "avail h @ op_buffers [opn]"
  obtain h1 where h1: "posts (\<lambda>m n. perform_op c n2r (h, m, n) opn) c n2r (send_recv_pair h) (zip ?X ?Y) h1"
    "settled h1" "wf_helper c h1" "send_recv_pair h1 = send_recv_pair h"
    "backlog c h1 = drop (length ?Y) ?X" "avail h1 = drop (length ?X) ?Y"
    using perform_op_step [OF Cons.prems(1,2), of opn n2r n2r] Cons.prems(3) by auto
  obtain h' where h': "posts (\<lambda>m n. run (perform_op c n2r) (h1, m, n) os) c n2r (send_recv_pair h1)
      (zip (backlog c h1 @ op_pieces c os) (avail h1 @ op_buffers os)) h'"
    "settled h'"
    "backlog c h' = drop (length (avail h1 @ op_buffers os)) (backlog c h1 @ op_pieces c os)"
    "avail h' = drop (length (backlog c h1 @ op_pieces c os)) (avail h1 @ op_buffers os)"
    using Cons.IH [OF h1(3,2)] Cons.prems(3) by auto
  have all: "backlog c h @ op_pieces c (opn # os) = ?X @ op_pieces c os"
    "avail h @ op_buffers (opn # os) = ?Y @ op_buffers os"
    by (simp_all add: op_pieces_Cons [of c opn os] op_buffers_Cons [of opn os])
  have "posts (\<lambda>m n. run (perform_op c n2r) (h, m, n) (opn # os)) c n2r (send_recv_pair h)
      (zip (?X @ op_pieces c os) (?Y @ op_buffers os)) h'"
    using h1(1) h'(1) unfolding zip_split [of ?X "op_pieces c os" ?Y "op_buffers os"] h1(4-6)
    by (auto simp: posts_def write_pieces_append rbind_assoc intro!: rbind_cong split: prod.splits)
  moreover have "backlog c h' = drop (length (?Y @ op_buffers os)) (?X @ op_pieces c os)"
    "avail h' = drop (length (?X @ op_pieces c os)) (?Y @ op_buffers os)"
    unfolding h'(3,4) h1(5,6) by (rule drop_split [symmetric])+
  ultimately show ?case using h'(2) unfolding all by blast
qed

text \<open>
  C14: the specification of the sending side. From a new helper, after any sequence of
  \<open>AsyncWrite\<close> and \<open>FreeBuffer\<close> calls, the pieces handed to \<open>Normal2RegisterDone\<close> are the
  pieces of all records in the order of the calls, paired one by one with the buffers
  \<open>0, 1, \<dots>, RegisterBufferNum() - 1\<close> followed by the freed ones, as far as both go: no
  reordering, no buffer used twice without being freed, and no piece waiting while a
  buffer is idle. The run faults only where handing over one of these pieces does.
\<close>

theorem write_helper_spec:
  assumes "new_write_helper c pairs jb jr = Inr h" and "0 < buffer_bytes c"
    and "\<forall>opn \<in> set os. wf_op opn"
  defines "P \<equiv> op_pieces c os"
    and "B \<equiv> map of_nat [0..<nat (sint (RegisterBufferNum c))] @ op_buffers os"
  shows "\<exists>h'. (\<forall>m n. run (perform_op c n2r) (h, m, n) os =
      rbind (write_pieces c n2r pairs (zip P B) (m, n)) (\<lambda>(m', n'). Inr (h', m', n'))) \<and>
    settled h' \<and> backlog c h' = drop (length B) P \<and> avail h' = drop (length P) B"
proof -
  have h: "h = \<lparr>buffer_id = jb, pending_record_queue = [], cur_record_queue = [],
      idle_buffer_queue = map of_nat [0..<nat (sint (RegisterBufferNum c))],
      cur_record = jr, cur_write_handle = h_InitWriteHandle, send_recv_pair = pairs\<rparr>"
    using assms(1) by (simp add: new_write_helper_def split: if_splits)
  have "wf_helper c h" "settled h" "backlog c h = []" "send_recv_pair h = pairs"
    "avail h @ op_buffers os = B"
    using assms(2) by (simp_all add: h wf_helper_def settled_def abs_defs B_def)
  with helper_run_refines [of c h os n2r] assms(3) show ?thesis
    by (simp add: posts_def P_def)
qed

text \<open>A recording hand-over: the pieces and buffers in the order they are posted.\<close>

definition log_n2r :: "(i64 \<times> i32 \<times> i32) list n2r" where
  "log_n2r mid d p b num log = Inr (log @ [(mid, b, num)])"

definition demo_pair :: "mem_desc \<times> mem_desc_proto" where
  "demo_pair =
     (\<lparr>sge_vec = [\<lparr>sge_addr = 4096, sge_length = 4194304, sge_lkey = 1\<rparr>],
       mr_vec = [\<lparr>mr_lkey = 1, mr_rkey = 2\<rparr>]\<rparr>,
      \<lparr>mem_ptr = [8192], mr_rkeys = [2]\<rparr>)"

theorem write_helper_spec_witness:
  "\<exists>h h' m'. new_write_helper (default_config [] 1) [demo_pair, demo_pair] 0
      (WorkRecord 0 0 0 0 None) = Inr h \<and>
    run (perform_op (default_config [] 1) log_n2r) (h, (\<lambda>_. 0), [])
      [op_AsyncWrite (WorkRecord 1 100 3 0 None), op_FreeBuffer 5] = Inr (h', m', [(1, 0, 1)]) \<and>
    backlog (default_config [] 1) h' = [] \<and> avail h' = [1, 5]"
proof -
  let ?c = "default_config [] 1" and ?r = "WorkRecord 1 100 3 0 None"
  let ?os = "[op_AsyncWrite ?r, op_FreeBuffer 5]" and ?ps = "[demo_pair, demo_pair]"
  obtain h where h: "new_write_helper ?c ?ps 0 (WorkRecord 0 0 0 0 None) = Inr h"
    by (simp add: new_write_helper_def RegisterBufferNum_def default_config_def)
  have C: "buffer_bytes ?c = 4194304"
    by (simp add: buffer_bytes_def PerRegisterBufferMBytes_def default_config_def)
  have n: "map of_nat [0..<nat (sint (RegisterBufferNum ?c))] = [0, 1 :: i32]"
    by (simp add: RegisterBufferNum_def default_config_def numeral_2_eq_2)
  have P: "op_pieces ?c ?os = [?r]"
    by (simp add: piece_records_def C WorkRecord_def block_count_def)
  obtain m' where w: "write_pieces ?c log_n2r ?ps [(?r, 0)] ((\<lambda>_. 0), []) = Inr (m', [(1, 0, 1)])"
    by (simp add: write_piece_def vec_index_def demo_pair_def SgeBytes_def default_config_def
        transfer_bytes_def C [unfolded default_config_def] WorkRecord_def piece_sge_num_def
        SgeNum_def smin_def vec_at_def log_n2r_def Let_def)
  have "0 < buffer_bytes ?c" "\<forall>opn \<in> set ?os. wf_op opn"
    by (simp_all add: C wf_record_def WorkRecord_def)
  from write_helper_spec [OF h this, of log_n2r] h w show ?thesis
    unfolding n P by auto
qed

end
