(* ===== verification/ReadHelper.thy ===== *)
theory ReadHelper
  imports WriteHelperSpec
begin

text \<open>
  \<open>ibverbs/ibverbs_read_helper.{h,cpp}\<close>: the receiving side of a transfer. A filled
  registered buffer is copied to its place in normal memory; the record being received,
  its offset and the answer to the sender are calls of \<open>IBVerbsCommNet\<close>, so they are
  arguments over the state \<open>'n\<close> those calls work on (the answer may run user code, which
  may write normal memory). The second section is about the bytes: the copy of the sending
  side, and a whole record received piece by piece.
\<close>

section \<open>SyncRead\<close>

type_synonym 'n get_record = "i64 \<Rightarrow> 'n \<Rightarrow> work_record res"
type_synonym 'n set_offset = "i64 \<Rightarrow> u64 \<Rightarrow> 'n \<Rightarrow> 'n res"
type_synonym 'n r2n = "i64 \<Rightarrow> i32 \<Rightarrow> bool \<Rightarrow> memory \<times> 'n \<Rightarrow> (memory \<times> 'n) res"

definition SyncRead ::
  "comm_net_config \<Rightarrow> 'n get_record \<Rightarrow> 'n set_offset \<Rightarrow> 'n r2n \<Rightarrow>
   i64 \<Rightarrow> i32 \<Rightarrow> mem_desc \<Rightarrow> memory \<times> 'n \<Rightarrow> (memory \<times> 'n) res"
where
  "SyncRead c get_rec set_off r2n src_machine_id b recv_mem_desc = (\<lambda>(m, n).
     rbind (get_rec src_machine_id n) (\<lambda>cur_msg.
       let offset = wr_offset cur_msg;
           dst_addr = wr_begin_addr cur_msg + offset;
           bytes = wr_bytes cur_msg;
           t = transfer_bytes c bytes offset
       in
       rbind (SgeBytes c) (\<lambda>sge_bytes.
       rbind (piece_sge_num c sge_bytes t) (\<lambda>num.
       rbind (copy_loop from_register (nat (sint num)) 0 recv_mem_desc sge_bytes t 0 dst_addr m)
         (\<lambda>m'.
       rbind (set_off src_machine_id (offset + t) n) (\<lambda>n'.
         let is_last = (if offset + t < bytes then False else True)
         in r2n src_machine_id b is_last (m', n')))))))"

section \<open>One piece, in both directions\<close>

text \<open>
  A registered buffer as the queue pair allocates it: adjacent elements from \<open>base\<close>, enough
  of them for every piece.
\<close>

definition buffer_desc :: "comm_net_config \<Rightarrow> mem_desc \<Rightarrow> u64 \<Rightarrow> bool" where
  "buffer_desc c d base \<longleftrightarrow>
     (\<exists>s. SgeBytes c = Inr s \<and> adjacent d base s) \<and>
     nat (sint (sge_num c)) \<le> length (sge_vec d)"

text \<open>The bytes of the next piece of a record.\<close>

abbreviation next_bytes :: "comm_net_config \<Rightarrow> work_record \<Rightarrow> nat" where
  "next_bytes c r \<equiv> unat (transfer_bytes c (wr_bytes r) (wr_offset r))"

lemma transfer_bytes_pos:
  assumes "wr_offset r < wr_bytes r" and "config_ok c"
  shows "0 < transfer_bytes c (wr_bytes r) (wr_offset r)"
    and "transfer_bytes c (wr_bytes r) (wr_offset r) \<le> buffer_bytes c"
proof -
  have "0 < unat (wr_bytes r - wr_offset r)"
    using assms(1) unat_sub_word [OF order.strict_implies_order [OF assms(1)]]
    by (simp add: word_less_nat_alt)
  moreover have "0 < unat (buffer_bytes c)" using config_ok_sizes [OF assms(2)] by simp
  ultimately show "0 < transfer_bytes c (wr_bytes r) (wr_offset r)"
    by (simp add: transfer_bytes_def min_def word_less_nat_alt)
qed (simp add: transfer_bytes_def)

text \<open>
  Under a usable configuration the loops of both helpers copy the whole piece, once.
\<close>

lemma piece_copied:
  assumes ok: "config_ok c" and d: "buffer_desc c d base" and r: "wr_offset r < wr_bytes r"
    and apart: "span base (next_bytes c r) \<inter> span p (next_bytes c r) = {}"
  obtains s num where "SgeBytes c = Inr s"
    and "piece_sge_num c s (transfer_bytes c (wr_bytes r) (wr_offset r)) = Inr num"
    and "0 < sint num" and "sint num \<le> sint (sge_num c)"
    and "copy_loop to_register (nat (sint num)) 0 d s
      (transfer_bytes c (wr_bytes r) (wr_offset r)) 0 p m = Inr (memcpy m base p (next_bytes c r))"
    and "copy_loop from_register (nat (sint num)) 0 d s
      (transfer_bytes c (wr_bytes r) (wr_offset r)) 0 p m = Inr (memcpy m p base (next_bytes c r))"
proof -
  let ?t = "transfer_bytes c (wr_bytes r) (wr_offset r)"
  obtain s where s: "SgeBytes c = Inr s" "adjacent d base s"
    and len: "nat (sint (sge_num c)) \<le> length (sge_vec d)"
    using d by (auto simp: buffer_desc_def)
  obtain num where num: "piece_sge_num c s ?t = Inr num" "0 < sint num"
    "nat (sint num) \<le> nat (sint (sge_num c))" "moved s ?t (nat (sint num)) = unat ?t"
    using piece_elements [OF ok s(1) transfer_bytes_pos [OF r ok]] by metis
  have "nat (sint num) \<le> length (sge_vec d)" using num(3) len by simp
  from copy_loop_memcpy [OF s(2) this] apart num s(1) show ?thesis
    by (intro that [of s num]) auto
qed

lemma write_piece_copies:
  assumes "config_ok c" and "wr_offset r < wr_bytes r" and "0 \<le> sint b"
    and "nat (sint b) < length pairs" and "pairs ! nat (sint b) = (sd, rp)"
    and "buffer_desc c sd base"
    and "span base (next_bytes c r) \<inter> span (wr_begin_addr r + wr_offset r) (next_bytes c r) = {}"
  obtains num where "0 < sint num" and "sint num \<le> sint (sge_num c)"
    and "write_piece c n2r pairs r b (m, n) =
      rbind (n2r (wr_machine_id r) sd rp b num n)
        (\<lambda>n'. Inr (memcpy m base (wr_begin_addr r + wr_offset r) (next_bytes c r), n'))"
proof -
  obtain s num where "SgeBytes c = Inr s"
    "piece_sge_num c s (transfer_bytes c (wr_bytes r) (wr_offset r)) = Inr num"
    "0 < sint num" "sint num \<le> sint (sge_num c)"
    "copy_loop to_register (nat (sint num)) 0 sd s (transfer_bytes c (wr_bytes r) (wr_offset r)) 0
      (wr_begin_addr r + wr_offset r) m =
     Inr (memcpy m base (wr_begin_addr r + wr_offset r) (next_bytes c r))"
    using piece_copied [OF assms(1,6,2,7), of m] by metis
  with assms(3-5) show ?thesis
    by (intro that [of num]) (simp_all add: write_piece_def vec_index_def Let_def)
qed

text \<open>
  \<open>SyncRead\<close> on a buffer, whatever the calls of \<open>IBVerbsCommNet\<close> do: one copy of the piece, the
  new offset, and the answer, with \<open>last_piece\<close> when no bytes are left.
\<close>

lemma SyncRead_copies:
  assumes ok: "config_ok c" and r: "wr_offset r < wr_bytes r"
    and d: "buffer_desc c d base" and get_r: "get_rec mid n = Inr r"
    and apart: "span base (next_bytes c r) \<inter> span (wr_begin_addr r + wr_offset r) (next_bytes c r) = {}"
  shows "SyncRead c get_rec set_off r2n mid b d (m, n) =
      rbind (set_off mid (wr_offset (advance c r)) n)
        (\<lambda>n'. r2n mid b (wr_bytes r \<le> wr_offset (advance c r))
          (memcpy m (wr_begin_addr r + wr_offset r) base (next_bytes c r), n'))"
proof -
  obtain s num where "SgeBytes c = Inr s"
    "piece_sge_num c s (transfer_bytes c (wr_bytes r) (wr_offset r)) = Inr num"
    "copy_loop from_register (nat (sint num)) 0 d s
      (transfer_bytes c (wr_bytes r) (wr_offset r)) 0 (wr_begin_addr r + wr_offset r) m =
      Inr (memcpy m (wr_begin_addr r + wr_offset r) base (next_bytes c r))"
    using piece_copied [OF ok d r apart, of m] by metis
  then show ?thesis
    using get_r by (simp add: SyncRead_def Let_def advance_def flip: linorder_not_less)
qed

text \<open>
  A piece arrives unchanged: \<open>SyncRead\<close> on a buffer that holds the piece leaves in the
  destination exactly those bytes, and touches nothing else.
\<close>

lemma piece_arrives:
  "load (memcpy m p base (next_bytes c r)) p (next_bytes c r) = load m base (next_bytes c r)"
  "x \<notin> span p (next_bytes c r) \<Longrightarrow> memcpy m p base (next_bytes c r) x = m x"
  by (simp_all add: load_memcpy_same less_imp_le [OF unat_u64_less, simplified] memcpy_outside)

section \<open>A record, piece by piece\<close>

text \<open>
  The contract \<open>SyncRead\<close> relies on: the record being received can be given a new offset,
  and is then the record that is read back. Under it, one call takes the record from one
  offset to the next, and keeps the part of the data received so far in its place.
\<close>

definition prefix_received :: "byte list \<Rightarrow> work_record \<Rightarrow> memory \<Rightarrow> bool" where
  "prefix_received data r m \<longleftrightarrow>
     load m (wr_begin_addr r) (unat (wr_offset r)) = take (unat (wr_offset r)) data"

text \<open>The buffer holds the next piece of the data, and does not overlap the destination.\<close>

definition piece_ready ::
  "comm_net_config \<Rightarrow> byte list \<Rightarrow> work_record \<Rightarrow> mem_desc \<Rightarrow> memory \<Rightarrow> bool"
where
  "piece_ready c data r d m \<longleftrightarrow>
     (\<exists>base. buffer_desc c d base \<and>
        span base (next_bytes c r) \<inter> span (wr_begin_addr r) (unat (wr_bytes r)) = {} \<and>
        load m base (next_bytes c r) = take (next_bytes c r) (drop (unat (wr_offset r)) data))"

lemma next_span:
  assumes "wf_record r"
  shows "span (wr_begin_addr r + wr_offset r) (next_bytes c r)
      \<subseteq> span (wr_begin_addr r) (unat (wr_bytes r))"
    and "unat (wr_offset (advance c r)) = unat (wr_offset r) + next_bytes c r"
    and "unat (wr_offset r) + next_bytes c r \<le> unat (wr_bytes r)"
proof -
  have n: "next_bytes c r = min (unat (wr_bytes r) - unat (wr_offset r)) (unat (buffer_bytes c))"
    using assms by (simp add: transfer_bytes_def unat_min_word unat_sub_word wf_record_def)
  show "unat (wr_offset (advance c r)) = unat (wr_offset r) + next_bytes c r"
    using advance_offset(1) [OF assms, of c] by (simp add: n)
  show le: "unat (wr_offset r) + next_bytes c r \<le> unat (wr_bytes r)"
    using assms unfolding n wf_record_def word_le_nat_alt by linarith
  show "span (wr_begin_addr r + wr_offset r) (next_bytes c r)
      \<subseteq> span (wr_begin_addr r) (unat (wr_bytes r))"
    using span_part [OF le, of "wr_begin_addr r"] by simp
qed

lemma prefix_extends:
  assumes wf: "wf_record r" and pre: "prefix_received data r m"
    and new: "load m' (wr_begin_addr r + wr_offset r) (next_bytes c r) =
      take (next_bytes c r) (drop (unat (wr_offset r)) data)"
    and frame: "\<And>x. x \<notin> span (wr_begin_addr r + wr_offset r) (next_bytes c r) \<Longrightarrow> m' x = m x"
  shows "prefix_received data (advance c r) m'"
proof -
  let ?o = "unat (wr_offset r)" and ?n = "next_bytes c r"
  have "?o + ?n < 2 ^ 64" using next_span(3) [OF wf, of c] unat_u64_less [of "wr_bytes r"] by simp
  then have "span (wr_begin_addr r) ?o \<inter> span (wr_begin_addr r + wr_offset r) ?n = {}"
    using span_disjoint_next [of ?o ?n "wr_begin_addr r"] by simp
  then have "load m' (wr_begin_addr r) ?o = load m (wr_begin_addr r) ?o"
    by (intro load_cong frame) auto
  then have "load m' (wr_begin_addr r) (?o + ?n) = take (?o + ?n) data"
    using pre new by (simp add: load_add prefix_received_def take_add)
  then show ?thesis
    using next_span(2) [OF wf, of c] by (simp add: prefix_received_def advance_def)
qed

locale record_store =
  fixes get_rec :: "'n get_record" and set_off :: "'n set_offset"
  assumes set_offset: "get_rec mid n = Inr r \<Longrightarrow>
    \<exists>n'. set_off mid off n = Inr n' \<and> get_rec mid n' = Inr (r\<lparr>wr_offset := off\<rparr>)"
begin

lemma SyncRead_advances:
  assumes ok: "config_ok c" and get_r: "get_rec mid n = Inr r"
    and more: "wr_offset r < wr_bytes r"
    and ready: "piece_ready c data r d m" and pre: "prefix_received data r m"
  shows "\<exists>m' n' is_last. SyncRead c get_rec set_off r2n mid b d (m, n) = r2n mid b is_last (m', n') \<and>
    get_rec mid n' = Inr (advance c r) \<and> prefix_received data (advance c r) m' \<and>
    (is_last \<longleftrightarrow> wr_offset (advance c r) = wr_bytes r) \<and>
    (\<forall>x. x \<notin> span (wr_begin_addr r) (unat (wr_bytes r)) \<longrightarrow> m' x = m x)"
proof -
  have wf: "wf_record r" using more by (simp add: wf_record_def)
  obtain base where base: "buffer_desc c d base"
    "span base (next_bytes c r) \<inter> span (wr_begin_addr r) (unat (wr_bytes r)) = {}"
    "load m base (next_bytes c r) = take (next_bytes c r) (drop (unat (wr_offset r)) data)"
    using ready by (auto simp: piece_ready_def)
  have apart: "span base (next_bytes c r) \<inter> span (wr_begin_addr r + wr_offset r) (next_bytes c r) = {}"
    using base(2) next_span(1) [OF wf, of c] by blast
  obtain n' where n': "set_off mid (wr_offset (advance c r)) n = Inr n'"
    "get_rec mid n' = Inr (advance c r)"
    using set_offset [OF get_r, of "wr_offset (advance c r)"] by (auto simp: advance_def)
  define m' where "m' = memcpy m (wr_begin_addr r + wr_offset r) base (next_bytes c r)"
  have m': "SyncRead c get_rec set_off r2n mid b d (m, n) =
      r2n mid b (wr_bytes r \<le> wr_offset (advance c r)) (m', n')"
    "load m' (wr_begin_addr r + wr_offset r) (next_bytes c r) =
      take (next_bytes c r) (drop (unat (wr_offset r)) data)"
    "\<And>x. x \<notin> span (wr_begin_addr r + wr_offset r) (next_bytes c r) \<Longrightarrow> m' x = m x"
    using SyncRead_copies [where get_rec = get_rec and n = n and set_off = set_off and r2n = r2n and mid = mid and b = b,
        OF ok more base(1) get_r apart] n'(1) base(3) by (simp_all add: m'_def piece_arrives)
  have "prefix_received data (advance c r) m'" using wf pre m'(2,3) by (rule prefix_extends)
  moreover have "wr_bytes r \<le> wr_offset (advance c r) \<longleftrightarrow> wr_offset (advance c r) = wr_bytes r"
    using advance_offset(2,3) [OF wf, of c] by (auto simp: wf_record_def)
  ultimately show ?thesis using m'(1,3) n'(2) next_span(1) [OF wf, of c] by blast
qed

end

end
