(* ===== verification/ReadLink.thy ===== *)
theory ReadLink
  imports ReadHelper
begin

text \<open>
  A read from one machine to another, end to end: the reader's queue of work records and its
  \<open>SyncRead\<close>, the peer's write helper, and the three kinds of message between them (the
  requests, the RDMA writes with a buffer id, the answers that free a buffer). The operations
  of the two sides are those of \<open>WriteHelper\<close> and \<open>ReadHelper\<close>; this theory adds the
  connection, whose messages arrive in the order they were sent, and what one RDMA write of
  one element does, a parameter that is assumed to copy the element's bytes.
\<close>

section \<open>The connection\<close>

type_synonym rdma = "ibv_sge \<Rightarrow> u64 \<Rightarrow> memory \<Rightarrow> memory \<Rightarrow> memory"

text \<open>\<open>R sge a src dst\<close>: the memory \<open>dst\<close> after the element of \<open>src\<close> was written to \<open>a\<close>.\<close>

definition rdma_copies :: "rdma \<Rightarrow> bool" where
  "rdma_copies R \<longleftrightarrow> (\<forall>sge a src dst.
     load (R sge a src dst) a (unat (sge_length sge)) = load src (sge_addr sge) (unat (sge_length sge)) \<and>
     (\<forall>x. x \<notin> span a (unat (sge_length sge)) \<longrightarrow> R sge a src dst x = dst x))"

text \<open>The elements of one posted write, in order (\<open>PostWriteRequest\<close>).\<close>

fun rdma_elems :: "rdma \<Rightarrow> mem_desc \<Rightarrow> mem_desc_proto \<Rightarrow> nat \<Rightarrow> nat \<Rightarrow> memory \<Rightarrow> memory \<Rightarrow> memory res" where
  "rdma_elems R d p i 0 src dst = Inr dst"
| "rdma_elems R d p i (Suc k) src dst =
     rbind (vec_at (sge_vec d) i) (\<lambda>sge.
     rbind (vec_index (mem_ptr p) i) (\<lambda>a.
       rdma_elems R d p (Suc i) k src (R sge a src dst)))"

record link_cfg =
  lc_cfg :: comm_net_config
  lc_rdma :: rdma
  lc_pairs :: "(mem_desc \<times> mem_desc_proto) list"
  lc_recv :: "mem_desc list"
  lc_reader :: i64
  lc_writer :: i64
  lc_wother :: "u64 set"
  lc_rother :: "u64 set"

text \<open>
  The reader's part that \<open>SyncRead\<close> works on: the queue of work records, the answers on
  their way, and how many reads are complete.
\<close>

type_synonym reader = "work_record list \<times> (i32 \<times> bool) list \<times> nat"

record link =
  l_helper :: write_helper
  l_wmem :: memory
  l_wire :: "(i32 \<times> i32) list"
  l_rmem :: memory
  l_reader :: reader
  l_asked :: "work_record list"
  l_log :: "(u64 \<times> u64 \<times> u64) list"

definition link_n2r :: "(i32 \<times> i32) list n2r" where
  "link_n2r mid d p b num wire = Inr (wire @ [(b, num)])"

definition link_get :: "reader get_record" where
  "link_get mid n = queue_front (fst n)"

definition link_set :: "reader set_offset" where
  "link_set mid off n = rbind (queue_front (fst n)) (\<lambda>r.
     Inr (r\<lparr>wr_offset := off\<rparr> # tl (fst n), snd n))"

text \<open>\<open>Register2NormalDone\<close>: the answer, and with the last piece the end of the read.\<close>

definition link_r2n :: "reader r2n" where
  "link_r2n mid b last_piece = (\<lambda>(m, rs, fs, k).
     if last_piece then rbind (queue_front rs) (\<lambda>_. Inr (m, tl rs, fs @ [(b, True)], Suc k))
     else Inr (m, rs, fs @ [(b, False)], k))"

datatype link_op = Read u64 u64 u64 "callback option" | ArriveRequest | ArriveWrite | ArriveFree | Other memory memory

text \<open>
  \<open>Read\<close> is \<open>DoRead\<close>; \<open>ArriveRequest\<close>, \<open>ArriveWrite\<close> and \<open>ArriveFree\<close> are the arrival of the oldest
  request at the writer, of the oldest posted write at the reader, and of the oldest answer at
  the writer. \<open>Other\<close> is all else the two machines do meanwhile (message buffers, callbacks,
  other connections, the user's threads): it leaves them with some memory.
\<close>

fun link_step :: "link_cfg \<Rightarrow> link \<Rightarrow> link_op \<Rightarrow> link res" where
  "link_step L s (Read src dst n cb) =
     Inr (s\<lparr>l_reader := apfst (\<lambda>rs. queue_push rs (WorkRecord (lc_writer L) dst n 0 cb)) (l_reader s),
       l_asked := l_asked s @ [WorkRecord (lc_reader L) src n 0 None],
       l_log := l_log s @ [(src, dst, n)]\<rparr>)"
| "link_step L s ArriveRequest =
     rbind (queue_front (l_asked s)) (\<lambda>r.
     rbind (AsyncWrite (lc_cfg L) link_n2r r (l_helper s, l_wmem s, l_wire s)) (\<lambda>(h, m, w).
       Inr (s\<lparr>l_asked := tl (l_asked s), l_helper := h, l_wmem := m, l_wire := w\<rparr>)))"
| "link_step L s ArriveFree =
     rbind (queue_front (fst (snd (l_reader s)))) (\<lambda>(b, _).
     rbind (FreeBuffer (lc_cfg L) link_n2r b (l_helper s, l_wmem s, l_wire s)) (\<lambda>(h, m, w).
       Inr (s\<lparr>l_reader := apsnd (apfst tl) (l_reader s), l_helper := h, l_wmem := m, l_wire := w\<rparr>)))"
| "link_step L s ArriveWrite =
     rbind (queue_front (l_wire s)) (\<lambda>(b, num).
     rbind (vec_index (lc_pairs L) (nat (sint b))) (\<lambda>(sd, rp).
     rbind (rdma_elems (lc_rdma L) sd rp 0 (nat (sint num)) (l_wmem s) (l_rmem s)) (\<lambda>m1.
     rbind (vec_index (lc_recv L) (nat (sint b))) (\<lambda>rd.
     rbind (SyncRead (lc_cfg L) link_get link_set link_r2n (lc_writer L) b rd (m1, l_reader s)) (\<lambda>(m2, n).
       Inr (s\<lparr>l_wire := tl (l_wire s), l_rmem := m2, l_reader := n\<rparr>))))))"
| "link_step L s (Other wm rm) = Inr (s\<lparr>l_wmem := wm, l_rmem := rm\<rparr>)"

interpretation link_store: record_store link_get link_set
  by unfold_locales (auto simp: link_get_def link_set_def queue_front_def split: list.splits)

section \<open>A usable connection\<close>

text \<open>
  The registered buffers as the queue pairs set them up: buffer \<open>i\<close> of the writer lies at
  \<open>sb i\<close> and is written to the reader's buffer \<open>i\<close> at \<open>rb i\<close>; both have all their elements;
  the buffers of one machine do not overlap, and nothing else is done with them: the
  addresses \<open>lc_wother\<close> and \<open>lc_rother\<close> that other activity writes lie outside.
\<close>

abbreviation size_of :: "link_cfg \<Rightarrow> nat" where
  "size_of L \<equiv> unat (buffer_bytes (lc_cfg L))"

definition link_ok :: "link_cfg \<Rightarrow> (nat \<Rightarrow> u64) \<Rightarrow> (nat \<Rightarrow> u64) \<Rightarrow> bool" where
  "link_ok L sb rb \<longleftrightarrow>
     config_ok (lc_cfg L) \<and> rdma_copies (lc_rdma L) \<and>
     0 < length (lc_pairs L) \<and> length (lc_pairs L) < 2 ^ 31 \<and>
     length (lc_recv L) = length (lc_pairs L) \<and>
     (\<forall>i < length (lc_pairs L).
        buffer_desc (lc_cfg L) (fst (lc_pairs L ! i)) (sb i) \<and>
        buffer_desc (lc_cfg L) (lc_recv L ! i) (rb i) \<and>
        mem_ptr (snd (lc_pairs L ! i)) = map sge_addr (sge_vec (lc_recv L ! i)) \<and>
        length (mr_rkeys (snd (lc_pairs L ! i))) = length (mem_ptr (snd (lc_pairs L ! i))) \<and>
        (\<forall>sge \<in> set (sge_vec (fst (lc_pairs L ! i))). unat (sge_length sge) = sge_size (lc_cfg L))) \<and>
     (\<forall>i < length (lc_pairs L). \<forall>j < length (lc_pairs L). i \<noteq> j \<longrightarrow>
        span (sb i) (size_of L) \<inter> span (sb j) (size_of L) = {} \<and>
        span (rb i) (size_of L) \<inter> span (rb j) (size_of L) = {}) \<and>
     (\<forall>i < length (lc_pairs L). span (sb i) (size_of L) \<inter> lc_wother L = {} \<and>
        span (rb i) (size_of L) \<inter> lc_rother L = {})"

definition buffer_space :: "link_cfg \<Rightarrow> (nat \<Rightarrow> u64) \<Rightarrow> u64 set" where
  "buffer_space L f = (\<Union>i < length (lc_pairs L). span (f i) (size_of L))"

text \<open>The addresses that change on the two machines beside the destinations of reads.\<close>

definition writer_space :: "link_cfg \<Rightarrow> (nat \<Rightarrow> u64) \<Rightarrow> u64 set" where
  "writer_space L sb = buffer_space L sb \<union> lc_wother L"

definition reader_space :: "link_cfg \<Rightarrow> (nat \<Rightarrow> u64) \<Rightarrow> u64 set" where
  "reader_space L rb = buffer_space L rb \<union> lc_rother L"

definition same_outside :: "u64 set \<Rightarrow> memory \<Rightarrow> memory \<Rightarrow> bool" where
  "same_outside A m m' \<longleftrightarrow> (\<forall>x. x \<notin> A \<longrightarrow> m' x = m x)"

text \<open>
  What may happen: a read of at least one byte, whose source and destination lie outside the
  registered buffers and what other activity writes, and whose destination is not that of
  another read; any arrival; and other activity where it belongs.
\<close>

definition read_ok :: "link_cfg \<Rightarrow> (nat \<Rightarrow> u64) \<Rightarrow> (nat \<Rightarrow> u64) \<Rightarrow> (u64 \<times> u64 \<times> u64) \<Rightarrow> bool" where
  "read_ok L sb rb e \<longleftrightarrow> 0 < snd (snd e) \<and>
     span (fst e) (unat (snd (snd e))) \<inter> writer_space L sb = {} \<and>
     span (fst (snd e)) (unat (snd (snd e))) \<inter> reader_space L rb = {}"

definition dst_span :: "(u64 \<times> u64 \<times> u64) \<Rightarrow> u64 set" where
  "dst_span e = span (fst (snd e)) (unat (snd (snd e)))"

fun link_allowed :: "link_cfg \<Rightarrow> (nat \<Rightarrow> u64) \<Rightarrow> (nat \<Rightarrow> u64) \<Rightarrow> link \<Rightarrow> link_op \<Rightarrow> bool" where
  "link_allowed L sb rb s (Read src dst n cb) =
     (read_ok L sb rb (src, dst, n) \<and> (\<forall>e \<in> set (l_log s). dst_span e \<inter> span dst (unat n) = {}))"
| "link_allowed L sb rb s ArriveRequest = (l_asked s \<noteq> [])"
| "link_allowed L sb rb s ArriveWrite = (l_wire s \<noteq> [])"
| "link_allowed L sb rb s ArriveFree = (fst (snd (l_reader s)) \<noteq> [])"
| "link_allowed L sb rb s (Other wm rm) =
     (same_outside (lc_wother L) (l_wmem s) wm \<and> same_outside (lc_rother L) (l_rmem s) rm)"

section \<open>What an RDMA write of a piece does\<close>

lemma rdma_elems_copy:
  assumes R: "rdma_copies R" and s: "adjacent d sb s" "adjacent rd rb s"
    and len: "\<forall>sge \<in> set (sge_vec d). unat (sge_length sge) = unat s"
    and p: "mem_ptr p = map sge_addr (sge_vec rd)"
    and k: "i + k \<le> length (sge_vec d)" "i + k \<le> length (sge_vec rd)" "(i + k) * unat s \<le> 2 ^ 64"
    and pre: "load dst rb (i * unat s) = load src sb (i * unat s)"
  shows "\<exists>dst'. rdma_elems R d p i k src dst = Inr dst' \<and>
    load dst' rb ((i + k) * unat s) = load src sb ((i + k) * unat s) \<and>
    (\<forall>x. x \<notin> span rb ((i + k) * unat s) \<longrightarrow> dst' x = dst x)"
  using k pre
proof (induction k arbitrary: i dst)
  case (Suc k)
  let ?sge = "sge_vec d ! i" and ?n = "unat s"
  let ?a = "rb + of_nat i * s" and ?b = "sb + of_nat i * s"
  have off: "of_nat i * s = of_nat (i * ?n)" by simp
  have i: "i < length (sge_vec d)" "i < length (sge_vec rd)" using Suc.prems by simp_all
  then have addr: "sge_addr ?sge = ?b" "mem_ptr p ! i = ?a" "unat (sge_length ?sge) = ?n"
    using s len p by (simp_all add: adjacent_def)
  let ?dst = "R ?sge ?a src dst"
  have "load ?dst ?a (unat (sge_length ?sge)) = load src (sge_addr ?sge) (unat (sge_length ?sge)) \<and>
      (\<forall>x. x \<notin> span ?a (unat (sge_length ?sge)) \<longrightarrow> ?dst x = dst x)"
    using R unfolding rdma_copies_def by blast
  then have new: "load ?dst ?a ?n = load src ?b ?n" and frame: "\<And>x. x \<notin> span ?a ?n \<Longrightarrow> ?dst x = dst x"
    unfolding addr by blast+
  have le: "i * ?n + ?n \<le> 2 ^ 64" using Suc.prems(3) by (simp add: algebra_simps)
  have "span rb (i * ?n) \<inter> span ?a ?n = {}"
    unfolding off by (rule span_disjoint_next [OF le])
  then have "load ?dst rb (i * ?n) = load dst rb (i * ?n)"
    by (intro load_cong frame) auto
  then have pre': "load ?dst rb (Suc i * ?n) = load src sb (Suc i * ?n)"
  proof -
    have "load ?dst rb (i * ?n + ?n) = load src sb (i * ?n + ?n)"
      unfolding load_add off [symmetric] using new Suc.prems(4) \<open>load ?dst rb (i * ?n) = load dst rb (i * ?n)\<close>
      by simp
    then show ?thesis by (simp add: add.commute)
  qed
  obtain dst' where dst': "rdma_elems R d p (Suc i) k src ?dst = Inr dst'"
    "load dst' rb ((Suc i + k) * ?n) = load src sb ((Suc i + k) * ?n)"
    "\<And>x. x \<notin> span rb ((Suc i + k) * ?n) \<Longrightarrow> dst' x = ?dst x"
    using Suc.IH [of "Suc i" ?dst] Suc.prems(1-3) pre' by auto
  have "span ?a ?n \<subseteq> span rb ((i + Suc k) * ?n)"
    unfolding off by (rule span_part) (simp add: algebra_simps)
  then have "dst' x = dst x" if "x \<notin> span rb ((i + Suc k) * ?n)" for x
    using dst'(3) [of x] frame [of x] that by auto
  with dst' i addr p show ?case by (intro exI [of _ dst']) (simp add: vec_at_def vec_index_def)
qed simp

section \<open>The writer's side\<close>

lemma link_okD:
  assumes "link_ok L sb rb"
  shows "config_ok (lc_cfg L)" "rdma_copies (lc_rdma L)" "0 < length (lc_pairs L)"
    "length (lc_pairs L) < 2 ^ 31" "length (lc_recv L) = length (lc_pairs L)"
    and "\<And>i. i < length (lc_pairs L) \<Longrightarrow> buffer_desc (lc_cfg L) (fst (lc_pairs L ! i)) (sb i)"
    and "\<And>i. i < length (lc_pairs L) \<Longrightarrow> buffer_desc (lc_cfg L) (lc_recv L ! i) (rb i)"
    and "\<And>i. i < length (lc_pairs L) \<Longrightarrow>
      mem_ptr (snd (lc_pairs L ! i)) = map sge_addr (sge_vec (lc_recv L ! i))"
    and "\<And>i. i < length (lc_pairs L) \<Longrightarrow>
      \<forall>sge \<in> set (sge_vec (fst (lc_pairs L ! i))). unat (sge_length sge) = sge_size (lc_cfg L)"
    and "\<And>i j. i < length (lc_pairs L) \<Longrightarrow> j < length (lc_pairs L) \<Longrightarrow> i \<noteq> j \<Longrightarrow>
      span (sb i) (size_of L) \<inter> span (sb j) (size_of L) = {}"
    and "\<And>i. i < length (lc_pairs L) \<Longrightarrow> span (sb i) (size_of L) \<inter> lc_wother L = {}"
    and "\<And>i. i < length (lc_pairs L) \<Longrightarrow>
      length (mr_rkeys (snd (lc_pairs L ! i))) = length (mem_ptr (snd (lc_pairs L ! i)))"
  using assms by (simp_all add: link_ok_def)

lemma buffer_sub:
  assumes "i < length (lc_pairs L)"
  shows "span (f i) (size_of L) \<subseteq> writer_space L f" and "span (f i) (size_of L) \<subseteq> reader_space L f"
  using assms by (auto simp: buffer_space_def writer_space_def reader_space_def)

lemma next_bytes_le: "next_bytes c r \<le> unat (buffer_bytes c)"
  by (simp add: transfer_bytes_def unat_min_word)

definition buf :: "i32 \<Rightarrow> nat" where
  "buf b = nat (sint b)"

definition buf_ok :: "link_cfg \<Rightarrow> i32 \<Rightarrow> bool" where
  "buf_ok L b \<longleftrightarrow> 0 \<le> sint b \<and> buf b < length (lc_pairs L)"

lemma buf_inject:
  assumes "buf_ok L b" and "buf_ok L b'"
  shows "buf b = buf b' \<longleftrightarrow> b = b'"
proof
  assume "buf b = buf b'"
  with assms have "sint b = sint b'" by (simp add: buf_ok_def buf_def eq_nat_nat_iff)
  then show "b = b'" by (rule signed_word_eqI)
qed simp

text \<open>
  A posted piece: its bytes are in its send buffer, and the elements written cover them.
\<close>

definition carries ::
  "link_cfg \<Rightarrow> (nat \<Rightarrow> u64) \<Rightarrow> memory \<Rightarrow> memory \<Rightarrow> work_record \<Rightarrow> i32 \<times> i32 \<Rightarrow> bool"
where
  "carries L sb m0 m p bn \<longleftrightarrow> buf_ok L (fst bn) \<and>
     nat (sint (snd bn)) \<le> nat (sint (sge_num (lc_cfg L))) \<and>
     next_bytes (lc_cfg L) p \<le> nat (sint (snd bn)) * sge_size (lc_cfg L) \<and>
     load m (sb (buf (fst bn))) (next_bytes (lc_cfg L) p) =
       load m0 (wr_begin_addr p + wr_offset p) (next_bytes (lc_cfg L) p)"

text \<open>A piece whose source bytes lie outside the buffers.\<close>

definition src_ok :: "link_cfg \<Rightarrow> (nat \<Rightarrow> u64) \<Rightarrow> work_record \<Rightarrow> bool" where
  "src_ok L sb p \<longleftrightarrow> wr_offset p < wr_bytes p \<and>
     span (wr_begin_addr p + wr_offset p) (next_bytes (lc_cfg L) p) \<inter> writer_space L sb = {}"

lemma same_outside_mono: "same_outside A m m' \<Longrightarrow> A \<subseteq> B \<Longrightarrow> same_outside B m m'"
  by (auto simp: same_outside_def)

lemma same_outside_trans: "same_outside A m m' \<Longrightarrow> same_outside A m' m'' \<Longrightarrow> same_outside A m m''"
  by (simp add: same_outside_def)

lemma same_outside_load: "same_outside A m m' \<Longrightarrow> span a n \<inter> A = {} \<Longrightarrow> load m' a n = load m a n"
  by (intro load_cong) (auto simp: same_outside_def)

lemma post_piece:
  assumes L: "link_ok L sb rb" and p: "src_ok L sb p" and b: "buf_ok L b"
    and m: "same_outside (writer_space L sb) m0 m"
  shows "\<exists>num m'. write_piece (lc_cfg L) link_n2r (lc_pairs L) p b (m, wire) =
      Inr (m', wire @ [(b, num)]) \<and> carries L sb m0 m' p (b, num) \<and>
    same_outside (span (sb (buf b)) (size_of L)) m m'"
proof -
  let ?c = "lc_cfg L" and ?i = "buf b" and ?a = "wr_begin_addr p + wr_offset p"
  let ?n = "next_bytes ?c p"
  have i: "?i < length (lc_pairs L)" and b0: "0 \<le> sint b" using b by (simp_all add: buf_ok_def)
  have ok: "config_ok ?c" and more: "wr_offset p < wr_bytes p"
    using link_okD(1) [OF L] p by (simp_all add: src_ok_def)
  have sub: "span (sb ?i) ?n \<subseteq> span (sb ?i) (size_of L)" by (rule span_mono [OF next_bytes_le])
  with buffer_sub(1) [OF i, of sb] p have apart: "span (sb ?i) ?n \<inter> span ?a ?n = {}"
    by (auto simp: src_ok_def)
  obtain s num where s: "SgeBytes ?c = Inr s"
    and num: "piece_sge_num ?c s (transfer_bytes ?c (wr_bytes p) (wr_offset p)) = Inr num"
      "0 < sint num" "sint num \<le> sint (sge_num ?c)"
    and copy: "copy_loop to_register (nat (sint num)) 0 (fst (lc_pairs L ! ?i)) s
      (transfer_bytes ?c (wr_bytes p) (wr_offset p)) 0 ?a m = Inr (memcpy m (sb ?i) ?a ?n)"
    using piece_copied [OF ok link_okD(6) [OF L i] more apart, of m] by metis
  let ?m = "memcpy m (sb ?i) ?a ?n"
  obtain k where "piece_sge_num ?c s (transfer_bytes ?c (wr_bytes p) (wr_offset p)) = Inr k"
    "moved s (transfer_bytes ?c (wr_bytes p) (wr_offset p)) (nat (sint k)) = ?n"
    using piece_elements [OF ok s transfer_bytes_pos [OF more ok]] by metis
  with num have "moved s (transfer_bytes ?c (wr_bytes p) (wr_offset p)) (nat (sint num)) = ?n" by simp
  moreover have "unat s = sge_size ?c"
    using ok s SgeBytes_eq [of ?c] by (metis Inr_inject config_ok_def)
  ultimately have cover: "?n \<le> nat (sint num) * sge_size ?c" by (simp add: moved_def)
  have "load ?m (sb ?i) ?n = load m ?a ?n"
    by (simp add: load_memcpy_same less_imp_le [OF unat_u64_less, simplified])
  also have "\<dots> = load m0 ?a ?n" using m p by (intro same_outside_load) (auto simp: src_ok_def)
  finally have "carries L sb m0 ?m p (b, num)" using b num cover by (simp add: carries_def)
  moreover have "same_outside (span (sb ?i) (size_of L)) m ?m"
    using sub by (auto simp: same_outside_def intro!: memcpy_outside)
  moreover have "write_piece ?c link_n2r (lc_pairs L) p b (m, wire) = Inr (?m, wire @ [(b, num)])"
    using i b0 s num(1) copy
    by (cases "lc_pairs L ! ?i") (simp add: write_piece_def vec_index_def buf_def link_n2r_def Let_def)
  ultimately show ?thesis by blast
qed

text \<open>Posting into another buffer leaves a posted piece alone.\<close>

lemma carries_other:
  assumes L: "link_ok L sb rb" and c: "carries L sb m0 m p bn" and b: "buf_ok L b" "b \<noteq> fst bn"
    and m: "same_outside (span (sb (buf b)) (size_of L)) m m'"
  shows "carries L sb m0 m' p bn"
proof -
  have b': "buf_ok L (fst bn)" using c by (simp add: carries_def)
  with b have "buf (fst bn) \<noteq> buf b" using buf_inject by blast
  with b b' link_okD(10) [OF L, of "buf (fst bn)" "buf b"]
  have "span (sb (buf (fst bn))) (size_of L) \<inter> span (sb (buf b)) (size_of L) = {}"
    by (auto simp: buf_ok_def)
  moreover have "span (sb (buf (fst bn))) (next_bytes (lc_cfg L) p) \<subseteq>
      span (sb (buf (fst bn))) (size_of L)" by (rule span_mono [OF next_bytes_le])
  ultimately have "load m' (sb (buf (fst bn))) (next_bytes (lc_cfg L) p) =
      load m (sb (buf (fst bn))) (next_bytes (lc_cfg L) p)"
    by (intro same_outside_load [OF m]) blast
  with c show ?thesis by (simp add: carries_def)
qed

lemma post_pieces:
  assumes L: "link_ok L sb rb"
  shows "\<lbrakk>\<forall>q \<in> set ps. src_ok L sb (fst q) \<and> buf_ok L (snd q); distinct (map fst wire @ map snd ps);
     list_all2 (carries L sb m0 m) fl wire; same_outside (writer_space L sb) m0 m\<rbrakk> \<Longrightarrow>
   \<exists>m' new. write_pieces (lc_cfg L) link_n2r (lc_pairs L) ps (m, wire) = Inr (m', wire @ new) \<and>
     map fst new = map snd ps \<and> list_all2 (carries L sb m0 m') (fl @ map fst ps) (wire @ new) \<and>
     same_outside (writer_space L sb) m0 m' \<and> same_outside (buffer_space L sb) m m'"
proof (induction ps arbitrary: m wire fl)
  case (Cons q ps)
  obtain p b where q: "q = (p, b)" by (cases q)
  with Cons.prems have p: "src_ok L sb p" and b: "buf_ok L b" by simp_all
  obtain num m1 where m1: "write_piece (lc_cfg L) link_n2r (lc_pairs L) p b (m, wire) =
      Inr (m1, wire @ [(b, num)])" "carries L sb m0 m1 p (b, num)"
    "same_outside (span (sb (buf b)) (size_of L)) m m1"
    using post_piece [OF L p b Cons.prems(4)] by blast
  have "list_all2 (carries L sb m0 m1) fl wire"
  proof (rule list_all2_all_nthI)
    show "length fl = length wire" by (rule list_all2_lengthD [OF Cons.prems(3)])
    fix n assume n: "n < length fl"
    with \<open>length fl = length wire\<close> have "fst (wire ! n) \<in> set (map fst wire)" by simp
    with Cons.prems(2) q have "b \<noteq> fst (wire ! n)" by auto
    with list_all2_nthD [OF Cons.prems(3) n] show "carries L sb m0 m1 (fl ! n) (wire ! n)"
      by (intro carries_other [OF L _ b _ m1(3)])
  qed
  then have c: "list_all2 (carries L sb m0 m1) (fl @ [p]) (wire @ [(b, num)])"
    using m1(2) by (intro list_all2_appendI) simp_all
  have bs: "same_outside (buffer_space L sb) m m1"
    using b by (intro same_outside_mono [OF m1(3)]) (auto simp: buf_ok_def buffer_space_def)
  have "same_outside (writer_space L sb) m m1"
    using same_outside_mono [OF m1(3)] buffer_sub(1) [of "buf b" L sb] b by (simp add: buf_ok_def)
  then have "same_outside (writer_space L sb) m0 m1" using Cons.prems(4) same_outside_trans by blast
  with Cons.IH [OF _ _ c] Cons.prems(1,2) q obtain m' new where
    "write_pieces (lc_cfg L) link_n2r (lc_pairs L) ps (m1, wire @ [(b, num)]) =
      Inr (m', (wire @ [(b, num)]) @ new)"
    "map fst new = map snd ps"
    "list_all2 (carries L sb m0 m') ((fl @ [p]) @ map fst ps) ((wire @ [(b, num)]) @ new)"
    "same_outside (writer_space L sb) m0 m'" "same_outside (buffer_space L sb) m1 m'" by auto
  with m1(1) q same_outside_trans [OF bs] show ?case by (intro exI [of _ m'] exI [of _ "(b, num) # new"]) simp
qed (auto simp: same_outside_def)

definition writer_inv ::
  "link_cfg \<Rightarrow> (nat \<Rightarrow> u64) \<Rightarrow> memory \<Rightarrow> write_helper \<Rightarrow> memory \<Rightarrow> (i32 \<times> i32) list \<Rightarrow>
   work_record list \<Rightarrow> bool"
where
  "writer_inv L sb m0 h m wire fl \<longleftrightarrow>
     wf_helper (lc_cfg L) h \<and> settled h \<and> send_recv_pair h = lc_pairs L \<and>
     list_all2 (carries L sb m0 m) fl wire \<and> same_outside (writer_space L sb) m0 m"

lemma distinct_append_take: "distinct (xs @ ys) \<Longrightarrow> distinct (xs @ take n ys)"
  using set_take_subset [of n ys] by (auto intro: distinct_take)

lemma writer_op:
  assumes L: "link_ok L sb rb" and w: "writer_inv L sb m0 h m wire fl" and opn: "wf_op opn"
    and src: "\<forall>p \<in> set (backlog (lc_cfg L) h @ op_pieces (lc_cfg L) [opn]). src_ok L sb p"
    and bufs: "\<forall>b \<in> set (avail h @ op_buffers [opn]). buf_ok L b"
    and dist: "distinct (map fst wire @ avail h @ op_buffers [opn])"
  shows "\<exists>h' m' new fln. perform_op (lc_cfg L) link_n2r (h, m, wire) opn = Inr (h', m', wire @ new) \<and>
    writer_inv L sb m0 h' m' (wire @ new) (fl @ fln) \<and>
    fln @ backlog (lc_cfg L) h' = backlog (lc_cfg L) h @ op_pieces (lc_cfg L) [opn] \<and>
    map fst new @ avail h' = avail h @ op_buffers [opn] \<and> length new = length fln \<and>
    same_outside (buffer_space L sb) m m'"
proof -
  let ?c = "lc_cfg L"
  let ?X = "backlog ?c h @ op_pieces ?c [opn]" and ?Y = "avail h @ op_buffers [opn]"
  obtain h' where h': "posts (\<lambda>m n. perform_op ?c link_n2r (h, m, n) opn) ?c link_n2r (lc_pairs L) (zip ?X ?Y) h'"
    "settled h'" "wf_helper ?c h'" "send_recv_pair h' = lc_pairs L"
    "backlog ?c h' = drop (length ?Y) ?X" "avail h' = drop (length ?X) ?Y"
    using perform_op_step [of ?c h opn link_n2r link_n2r] w opn by (auto simp: writer_inv_def)
  have parts: "map fst (zip ?X ?Y) = take (length ?Y) ?X" "map snd (zip ?X ?Y) = take (length ?X) ?Y"
    by (simp_all only: map_fst_zip_take map_snd_zip_take) (simp_all add: min_def)
  have ok: "\<forall>q \<in> set (zip ?X ?Y). src_ok L sb (fst q) \<and> buf_ok L (snd q)"
    using src bufs by (auto dest: set_zip_leftD set_zip_rightD simp del: set_append)
  have d: "distinct (map fst wire @ map snd (zip ?X ?Y))"
    unfolding parts(2) by (rule distinct_append_take) (rule dist)
  have wi: "list_all2 (carries L sb m0 m) fl wire" "same_outside (writer_space L sb) m0 m"
    using w by (simp_all add: writer_inv_def)
  obtain m' new where new: "write_pieces ?c link_n2r (lc_pairs L) (zip ?X ?Y) (m, wire) = Inr (m', wire @ new)"
    "map fst new = map snd (zip ?X ?Y)"
    "list_all2 (carries L sb m0 m') (fl @ map fst (zip ?X ?Y)) (wire @ new)"
    "same_outside (writer_space L sb) m0 m'" "same_outside (buffer_space L sb) m m'"
    using post_pieces [OF L ok d wi] by blast
  have "length new = length (map fst (zip ?X ?Y))" using arg_cong [OF new(2), of length] by simp
  moreover have "perform_op ?c link_n2r (h, m, wire) opn = Inr (h', m', wire @ new)"
    using h'(1) new(1) by (simp add: posts_def)
  moreover have "map fst (zip ?X ?Y) @ backlog ?c h' = ?X" "map fst new @ avail h' = ?Y"
    unfolding new(2) parts h'(5,6) by (rule append_take_drop_id)+
  ultimately show ?thesis using h'(2-4) new(3-5)
    by (intro exI [of _ h'] exI [of _ m'] exI [of _ new] exI [of _ "map fst (zip ?X ?Y)"])
      (simp add: writer_inv_def)
qed

end
