(* ===== verification/ReadProtocol.thy ===== *)
theory ReadProtocol
  imports ReadLink "HOL-Library.Multiset"
begin

text \<open>
  The read protocol of ReadLink.thy: the invariant that ties the pieces still under way to the
  reads that are not complete, its preservation by every step, and what follows for every
  schedule of reads and arrivals: the bytes delivered, the number of messages, the buffers.
\<close>

section \<open>The invariant of a connection\<close>

text \<open>
  The record the writer has for an entry of the log whose record at the reader is \<open>r\<close>.
\<close>

definition src_record :: "link_cfg \<Rightarrow> work_record \<Rightarrow> u64 \<times> u64 \<times> u64 \<Rightarrow> work_record" where
  "src_record L r e = r\<lparr>wr_machine_id := lc_reader L, wr_begin_addr := fst e, wr_cb := None\<rparr>"

abbreviation pieces_of :: "link_cfg \<Rightarrow> work_record list \<Rightarrow> work_record list" where
  "pieces_of L rs \<equiv> concat (map (piece_records (lc_cfg L)) rs)"

definition source_data :: "memory \<Rightarrow> u64 \<times> u64 \<times> u64 \<Rightarrow> byte list" where
  "source_data m0 e = load m0 (fst e) (unat (snd (snd e)))"

text \<open>The reader's records for the log entries that are not complete yet.\<close>

definition reads_match :: "work_record list \<Rightarrow> (u64 \<times> u64 \<times> u64) list \<Rightarrow> bool" where
  "reads_match rs es \<longleftrightarrow>
     list_all2 (\<lambda>r e. wr_begin_addr r = fst (snd e) \<and> wr_bytes r = snd (snd e) \<and>
       wr_offset r < wr_bytes r) rs es \<and>
     (\<forall>r \<in> set (tl rs). wr_offset r = 0)"

definition log_ok :: "link_cfg \<Rightarrow> (nat \<Rightarrow> u64) \<Rightarrow> (nat \<Rightarrow> u64) \<Rightarrow> (u64 \<times> u64 \<times> u64) list \<Rightarrow> bool" where
  "log_ok L sb rb es \<longleftrightarrow> list_all (read_ok L sb rb) es \<and>
     sorted_wrt (\<lambda>e e'. dst_span e \<inter> dst_span e' = {}) es"

text \<open>What the reader's memory holds: complete reads, and the start of the current one.\<close>

definition received ::
  "memory \<Rightarrow> (u64 \<times> u64 \<times> u64) list \<Rightarrow> nat \<Rightarrow> work_record list \<Rightarrow> memory \<Rightarrow> bool"
where
  "received m0 es k rs m \<longleftrightarrow>
     (\<forall>e \<in> set (take k es). load m (fst (snd e)) (unat (snd (snd e))) = source_data m0 e) \<and>
     (rs \<noteq> [] \<longrightarrow> prefix_received (source_data m0 (es ! k)) (hd rs) m)"

definition bufs_of :: "link \<Rightarrow> i32 list" where
  "bufs_of s = avail (l_helper s) @ map fst (l_wire s) @ map fst (fst (snd (l_reader s)))"

text \<open>A request as the writer's \<open>RecvDone\<close> makes it from the message.\<close>

definition request_ok :: "link_cfg \<Rightarrow> work_record \<Rightarrow> bool" where
  "request_ok L r \<longleftrightarrow> 0 < wr_bytes r \<and>
     r = WorkRecord (lc_reader L) (wr_begin_addr r) (wr_bytes r) 0 None"

lemma request_okD: "request_ok L r \<Longrightarrow> wr_offset r < wr_bytes r"
  by (cases r) (simp add: request_ok_def WorkRecord_def)

definition link_inv ::
  "link_cfg \<Rightarrow> (nat \<Rightarrow> u64) \<Rightarrow> (nat \<Rightarrow> u64) \<Rightarrow> memory \<Rightarrow> memory \<Rightarrow> link \<Rightarrow> bool"
where
  "link_inv L sb rb m0 r0 s \<longleftrightarrow> (case l_reader s of (rs, fs, k) \<Rightarrow>
     (\<exists>fl. writer_inv L sb m0 (l_helper s) (l_wmem s) (l_wire s) fl \<and>
        fl @ backlog (lc_cfg L) (l_helper s) @ pieces_of L (l_asked s) =
          pieces_of L (map2 (src_record L) rs (drop k (l_log s)))) \<and>
     (\<forall>r \<in> set (l_asked s). request_ok L r) \<and>
     distinct (bufs_of s) \<and> length (bufs_of s) = length (lc_pairs L) \<and>
     (\<forall>b \<in> set (bufs_of s). buf_ok L b) \<and>
     k \<le> length (l_log s) \<and> reads_match rs (drop k (l_log s)) \<and> log_ok L sb rb (l_log s) \<and>
     received m0 (l_log s) k rs (l_rmem s) \<and>
     same_outside (reader_space L rb \<union> \<Union> (dst_span ` set (l_log s))) r0 (l_rmem s))"

text \<open>Every piece that is still to be read has its source outside the buffers.\<close>

lemma piece_records_src_ok:
  assumes L: "link_ok L sb rb"
  shows "wr_offset r < wr_bytes r \<Longrightarrow>
    span (wr_begin_addr r) (unat (wr_bytes r)) \<inter> writer_space L sb = {} \<Longrightarrow>
    p \<in> set (piece_records (lc_cfg L) r) \<Longrightarrow> src_ok L sb p"
proof (induction "unat (wr_bytes r) - unat (wr_offset r)" arbitrary: r rule: less_induct)
  case less
  let ?c = "lc_cfg L"
  have wf: "wf_record r" using less.prems(1) by (simp add: wf_record_def)
  have ok: "config_ok ?c" by (rule link_okD(1) [OF L])
  have C: "0 < buffer_bytes ?c" using config_ok_sizes(3) [OF ok] by (simp add: word_less_nat_alt)
  have here: "src_ok L sb r"
    using less.prems(1,2) next_span(1) [OF wf, of ?c] by (auto simp: src_ok_def)
  have adv: "wr_begin_addr (advance ?c r) = wr_begin_addr r" "wr_bytes (advance ?c r) = wr_bytes r"
    by (simp_all add: advance_def)
  have "0 < next_bytes ?c r" using transfer_bytes_pos(1) [OF less.prems(1) ok]
    by (simp add: word_less_nat_alt)
  then have "unat (wr_bytes r) - unat (wr_offset (advance ?c r)) < unat (wr_bytes r) - unat (wr_offset r)"
    using next_span(2,3) [OF wf, of ?c] by linarith
  with less.hyps [of "advance ?c r"] less.prems(2,3) here piece_records_step [OF wf C] adv
  show ?case by (auto split: if_splits)
qed

lemma remaining_src_ok:
  assumes L: "link_ok L sb rb" and inv: "link_inv L sb rb m0 r0 s" and r: "l_reader s = (rs, fs, k)"
    and p: "p \<in> set (pieces_of L (map2 (src_record L) rs (drop k (l_log s))))"
  shows "src_ok L sb p"
proof -
  from p obtain r e where re: "(r, e) \<in> set (zip rs (drop k (l_log s)))"
    "p \<in> set (piece_records (lc_cfg L) (src_record L r e))" by auto
  have m: "reads_match rs (drop k (l_log s))" and lg: "log_ok L sb rb (l_log s)"
    using inv r by (simp_all add: link_inv_def)
  have "e \<in> set (l_log s)" using re(1) by (meson in_set_dropD set_zip_rightD)
  with lg have "read_ok L sb rb e" by (simp add: log_ok_def list_all_iff)
  moreover have "wr_bytes r = snd (snd e)" "wr_offset r < wr_bytes r"
    using m re(1) by (auto simp: reads_match_def list_all2_iff)
  ultimately
  show ?thesis using re(2)
    by (intro piece_records_src_ok [OF L, of "src_record L r e"]) (auto simp: src_record_def read_ok_def)
qed

section \<open>Every step keeps the invariant\<close>

text \<open>The reads a schedule issues, and how many messages are still to arrive.\<close>

fun reads_of :: "link_op list \<Rightarrow> (u64 \<times> u64 \<times> u64) list" where
  "reads_of [] = []"
| "reads_of (Read src dst n _ # os) = (src, dst, n) # reads_of os"
| "reads_of (_ # os) = reads_of os"

definition is_Arrive :: "link_op \<Rightarrow> bool" where
  "is_Arrive e = (case e of Read _ _ _ _ \<Rightarrow> False | Other _ _ \<Rightarrow> False | _ \<Rightarrow> True)"

definition under_way :: "link_cfg \<Rightarrow> link \<Rightarrow> nat" where
  "under_way L s =
     length (l_asked s) + 2 * length (pieces_of L (l_asked s)) +
     2 * length (backlog (lc_cfg L) (l_helper s)) + 2 * length (l_wire s) +
     length (fst (snd (l_reader s)))"

definition read_messages :: "link_cfg \<Rightarrow> (u64 \<times> u64 \<times> u64) \<Rightarrow> nat" where
  "read_messages L e = 1 + 2 * block_count (unat (snd (snd e))) (size_of L)"

text \<open>What one step of the connection adds to the log and to the messages to come.\<close>

definition counted :: "link_cfg \<Rightarrow> link \<Rightarrow> link_op \<Rightarrow> link \<Rightarrow> bool" where
  "counted L s e s' \<longleftrightarrow> l_log s' = l_log s @ reads_of [e] \<and>
     under_way L s' + (if is_Arrive e then 1 else 0) =
       under_way L s + sum_list (map (read_messages L) (reads_of [e]))"

lemmas counted_defs = counted_def is_Arrive_def read_messages_def

text \<open>What the invariant says of the writer, for one sequence of buffers under way.\<close>

lemma link_invE:
  assumes "link_inv L sb rb m0 r0 s" and "l_reader s = (rs, fs, k)"
  obtains fl where "writer_inv L sb m0 (l_helper s) (l_wmem s) (l_wire s) fl"
    and "fl @ backlog (lc_cfg L) (l_helper s) @ pieces_of L (l_asked s) =
      pieces_of L (map2 (src_record L) rs (drop k (l_log s)))"
  using assms by (auto simp: link_inv_def)

lemma under_way_inv:
  assumes inv: "link_inv L sb rb m0 r0 s" and r: "l_reader s = (rs, fs, k)"
  shows "under_way L s = length (l_asked s) +
    2 * length (pieces_of L (map2 (src_record L) rs (drop k (l_log s)))) + length fs"
proof -
  obtain fl where fl: "writer_inv L sb m0 (l_helper s) (l_wmem s) (l_wire s) fl"
    "fl @ backlog (lc_cfg L) (l_helper s) @ pieces_of L (l_asked s) =
      pieces_of L (map2 (src_record L) rs (drop k (l_log s)))"
    using link_invE [OF inv r] by blast
  then have "length fl = length (l_wire s)" by (auto simp: writer_inv_def dest: list_all2_lengthD)
  moreover have "length (pieces_of L (map2 (src_record L) rs (drop k (l_log s)))) =
      length fl + (length (backlog (lc_cfg L) (l_helper s)) + length (pieces_of L (l_asked s)))"
    unfolding fl(2) [symmetric] by (simp only: length_append)
  ultimately show ?thesis unfolding under_way_def r fst_conv snd_conv by linarith
qed

lemma bufs_of_mset:
  assumes "mset bs = mset (bufs_of s)"
  shows "distinct bs \<longleftrightarrow> distinct (bufs_of s)" and "length bs = length (bufs_of s)"
    and "set bs = set (bufs_of s)"
  using assms by (rule mset_eq_imp_distinct_iff, rule mset_eq_length, rule mset_eq_setD)

lemma writer_arrival:
  assumes L: "link_ok L sb rb" and inv: "link_inv L sb rb m0 r0 s" and r: "l_reader s = (rs, fs, k)"
    and opn: "wf_op opn" "op_pieces (lc_cfg L) [opn] @ pieces_of L asked = pieces_of L (l_asked s)"
      "set asked \<subseteq> set (l_asked s)" "op_buffers [opn] @ map fst fs' = map fst fs"
  shows "\<exists>h m w. perform_op (lc_cfg L) link_n2r (l_helper s, l_wmem s, l_wire s) opn = Inr (h, m, w) \<and>
    link_inv L sb rb m0 r0
      (s\<lparr>l_asked := asked, l_reader := (rs, fs', k), l_helper := h, l_wmem := m, l_wire := w\<rparr>)"
proof -
  let ?c = "lc_cfg L" and ?h = "l_helper s"
  let ?all = "pieces_of L (map2 (src_record L) rs (drop k (l_log s)))"
  obtain fl where fl: "writer_inv L sb m0 ?h (l_wmem s) (l_wire s) fl"
    "fl @ backlog ?c ?h @ pieces_of L (l_asked s) = ?all"
    using link_invE [OF inv r] by blast
  have "set (backlog ?c ?h @ op_pieces ?c [opn]) \<subseteq> set ?all"
    unfolding fl(2) [symmetric] opn(2) [symmetric] by auto
  then have src: "\<forall>p \<in> set (backlog ?c ?h @ op_pieces ?c [opn]). src_ok L sb p"
    using remaining_src_ok [OF L inv r] by blast
  have bufs: "bufs_of s = avail ?h @ map fst (l_wire s) @ op_buffers [opn] @ map fst fs'"
    by (simp add: bufs_of_def r flip: opn(4))
  have ok: "distinct (bufs_of s)" "\<forall>b \<in> set (bufs_of s). buf_ok L b"
    using inv by (auto simp: link_inv_def r)
  obtain h m new fln where step:
    "perform_op ?c link_n2r (?h, l_wmem s, l_wire s) opn = Inr (h, m, l_wire s @ new)"
    "writer_inv L sb m0 h m (l_wire s @ new) (fl @ fln)"
    "fln @ backlog ?c h = backlog ?c ?h @ op_pieces ?c [opn]"
    "map fst new @ avail h = avail ?h @ op_buffers [opn]"
  proof -
    have "\<forall>b \<in> set (avail ?h @ op_buffers [opn]). buf_ok L b"
      "distinct (map fst (l_wire s) @ avail ?h @ op_buffers [opn])"
      using ok unfolding bufs by auto
    then show thesis using writer_op [OF L fl(1) opn(1) src] that by blast
  qed
  let ?s = "s\<lparr>l_asked := asked, l_reader := (rs, fs', k), l_helper := h, l_wmem := m, l_wire := l_wire s @ new\<rparr>"
  have "mset (map fst new) + mset (avail h) = mset (avail ?h) + mset (op_buffers [opn])"
    using arg_cong [OF step(4), of mset] by simp
  then have "mset (bufs_of ?s) = mset (bufs_of s)"
    unfolding bufs by (simp add: bufs_of_def ac_simps)
  note b = bufs_of_mset [OF this]
  have "(fl @ fln) @ backlog ?c h @ pieces_of L asked = ?all"
    using step(3) fl(2) opn(2) by (metis append.assoc)
  then have "link_inv L sb rb m0 r0 ?s"
    using inv step(2) b opn(3) unfolding link_inv_def by (auto simp: r)
  with step(1) show ?thesis by blast
qed

lemma ArriveRequest_keeps:
  assumes L: "link_ok L sb rb" and inv: "link_inv L sb rb m0 r0 s" and a: "l_asked s \<noteq> []"
  shows "\<exists>s'. link_step L s ArriveRequest = Inr s' \<and> link_inv L sb rb m0 r0 s' \<and> counted L s ArriveRequest s'"
proof -
  obtain r asked where asked: "l_asked s = r # asked" using a by (cases "l_asked s") auto
  obtain rs fs k where rd: "l_reader s = (rs, fs, k)" by (cases "l_reader s")
  have "wf_record r" using inv request_okD [of L r] by (auto simp: link_inv_def rd asked wf_record_def)
  then obtain h m w where s': "AsyncWrite (lc_cfg L) link_n2r r (l_helper s, l_wmem s, l_wire s) = Inr (h, m, w)"
    "link_inv L sb rb m0 r0 (s\<lparr>l_asked := asked, l_reader := (rs, fs, k), l_helper := h, l_wmem := m, l_wire := w\<rparr>)"
    using writer_arrival [OF L inv rd, of "op_AsyncWrite r" asked fs] asked
    by (auto simp: subset_insertI)
  have "under_way L s = Suc (under_way L
      (s\<lparr>l_asked := asked, l_reader := (rs, fs, k), l_helper := h, l_wmem := m, l_wire := w\<rparr>))"
    using under_way_inv [OF s'(2)] under_way_inv [OF inv rd] asked by simp
  with s' rd [symmetric] asked show ?thesis by (auto simp: queue_front_def counted_defs)
qed

lemma ArriveFree_keeps:
  assumes L: "link_ok L sb rb" and inv: "link_inv L sb rb m0 r0 s"
    and a: "fst (snd (l_reader s)) \<noteq> []"
  shows "\<exists>s'. link_step L s ArriveFree = Inr s' \<and> link_inv L sb rb m0 r0 s' \<and> counted L s ArriveFree s'"
proof -
  obtain rs fs k where rd: "l_reader s = (rs, fs, k)" by (cases "l_reader s")
  with a obtain b lst fs' where fs: "fs = (b, lst) # fs'" by (cases fs) auto
  obtain h m w where s': "FreeBuffer (lc_cfg L) link_n2r b (l_helper s, l_wmem s, l_wire s) = Inr (h, m, w)"
    "link_inv L sb rb m0 r0 (s\<lparr>l_asked := l_asked s, l_reader := (rs, fs', k), l_helper := h, l_wmem := m, l_wire := w\<rparr>)"
    using writer_arrival [OF L inv rd, of "op_FreeBuffer b" "l_asked s" fs'] fs by auto
  have "under_way L s = Suc (under_way L
      (s\<lparr>l_asked := l_asked s, l_reader := (rs, fs', k), l_helper := h, l_wmem := m, l_wire := w\<rparr>))"
    using under_way_inv [OF s'(2)] under_way_inv [OF inv rd] fs by simp
  with s' rd fs show ?thesis by (auto simp: queue_front_def counted_defs)
qed

lemma reads_match_length: "reads_match rs es \<Longrightarrow> length rs = length es"
  by (auto simp: reads_match_def dest: list_all2_lengthD)

lemma reads_match_snoc:
  assumes "reads_match rs es" and "wr_begin_addr r = fst (snd e)" "wr_bytes r = snd (snd e)"
    and "wr_offset r = 0" "0 < wr_bytes r"
  shows "reads_match (rs @ [r]) (es @ [e])"
proof -
  have "set (tl (rs @ [r])) \<subseteq> insert r (set (tl rs))" by (cases rs) auto
  with assms show ?thesis unfolding reads_match_def by (auto intro!: list_all2_appendI)
qed

lemma received_push:
  assumes rec: "received m0 es k rs m" and k: "k \<le> length es" "length rs = length es - k"
    and r: "wr_offset r = 0"
  shows "received m0 (es @ [e]) k (rs @ [r]) m"
proof (cases rs)
  case Nil
  with rec k r show ?thesis by (simp add: received_def prefix_received_def)
next
  case (Cons a as)
  with k have "k < length es" by auto
  with rec k Cons show ?thesis by (simp add: received_def nth_append)
qed

lemma piece_records_one:
  "wr_offset r = 0 \<Longrightarrow> 0 < wr_bytes r \<Longrightarrow> 0 < buffer_bytes c \<Longrightarrow>
   length (piece_records c r) = block_count (unat (wr_bytes r)) (unat (buffer_bytes c))"
  by (simp add: piece_records_def block_count_def word_less_nat_alt max_def)

lemma Read_keeps:
  assumes L: "link_ok L sb rb" and inv: "link_inv L sb rb m0 r0 s"
    and al: "link_allowed L sb rb s (Read src dst n cb)"
  shows "\<exists>s'. link_step L s (Read src dst n cb) = Inr s' \<and> link_inv L sb rb m0 r0 s' \<and> counted L s (Read src dst n cb) s'"
proof -
  obtain rs fs k where rd: "l_reader s = (rs, fs, k)" by (cases "l_reader s")
  let ?e = "(src, dst, n)" and ?r = "WorkRecord (lc_writer L) dst n 0 cb"
  let ?es = "drop k (l_log s)" and ?a = "WorkRecord (lc_reader L) src n 0 None"
  obtain fl where fl: "writer_inv L sb m0 (l_helper s) (l_wmem s) (l_wire s) fl"
    "fl @ backlog (lc_cfg L) (l_helper s) @ pieces_of L (l_asked s) = pieces_of L (map2 (src_record L) rs ?es)"
    using link_invE [OF inv rd] by blast
  have k: "k \<le> length (l_log s)" and rm: "reads_match rs ?es" and lg: "log_ok L sb rb (l_log s)"
    and rec: "received m0 (l_log s) k rs (l_rmem s)" and n: "0 < n" "read_ok L sb rb ?e"
    using inv al by (simp_all add: link_inv_def rd read_ok_def)
  have "0 < buffer_bytes (lc_cfg L)"
    using config_ok_sizes(3) [OF link_okD(1) [OF L]] by (simp add: word_less_nat_alt)
  then have cnt: "length (piece_records (lc_cfg L) ?a) = block_count (unat n) (size_of L)"
    using n(1) piece_records_one [of ?a] by (simp add: WorkRecord_def)
  have len: "length rs = length ?es" by (rule reads_match_length [OF rm])
  have "map2 (src_record L) (rs @ [?r]) (?es @ [?e]) = map2 (src_record L) rs ?es @ [?a]"
    by (simp add: len src_record_def WorkRecord_def)
  then have pieces: "fl @ backlog (lc_cfg L) (l_helper s) @ pieces_of L (l_asked s @ [?a]) =
      pieces_of L (map2 (src_record L) (rs @ [?r]) (?es @ [?e]))"
    using fl(2) by simp
  have "reads_match (rs @ [?r]) (?es @ [?e])"
    using n by (intro reads_match_snoc [OF rm]) (simp_all add: WorkRecord_def)
  moreover have "log_ok L sb rb (l_log s @ [?e])"
    using lg n al by (auto simp: log_ok_def sorted_wrt_append dst_span_def)
  moreover have "received m0 (l_log s @ [?e]) k (rs @ [?r]) (l_rmem s)"
    using rec k len by (intro received_push) (simp_all add: WorkRecord_def)
  moreover have "same_outside (reader_space L rb \<union> \<Union> (dst_span ` set (l_log s @ [?e]))) r0 (l_rmem s)"
    by (rule same_outside_mono [of "reader_space L rb \<union> \<Union> (dst_span ` set (l_log s))"])
      (use inv in \<open>auto simp: link_inv_def rd\<close>)
  moreover have "request_ok L ?a" using n(1) by (simp add: request_ok_def WorkRecord_def)
  ultimately show ?thesis
    using inv fl(1) pieces k n(1) cnt unfolding link_inv_def
    by (auto simp: rd queue_push_def bufs_of_def WorkRecord_def counted_defs under_way_def
        intro!: exI [of _ fl])
qed

text \<open>The elements of a posted piece fill the reader's buffer of the same number.\<close>

lemma rdma_fills_buffer:
  assumes L: "link_ok L sb rb" and c: "carries L sb m0 m p (b, num)"
  shows "\<exists>m1. rdma_elems (lc_rdma L) (fst (lc_pairs L ! buf b)) (snd (lc_pairs L ! buf b)) 0
      (nat (sint num)) m dst = Inr m1 \<and>
    load m1 (rb (buf b)) (next_bytes (lc_cfg L) p) =
      load m0 (wr_begin_addr p + wr_offset p) (next_bytes (lc_cfg L) p) \<and>
    same_outside (span (rb (buf b)) (size_of L)) dst m1"
proof -
  let ?c = "lc_cfg L" and ?i = "buf b" and ?k = "nat (sint num)" and ?n = "next_bytes (lc_cfg L) p"
  let ?sd = "fst (lc_pairs L ! buf b)" and ?rd = "lc_recv L ! buf b"
  have ok: "config_ok ?c" by (rule link_okD(1) [OF L])
  have i: "?i < length (lc_pairs L)" and k: "?k \<le> nat (sint (sge_num ?c))"
    and n: "?n \<le> ?k * sge_size ?c"
    and filled: "load m (sb ?i) ?n = load m0 (wr_begin_addr p + wr_offset p) ?n"
    using c by (simp_all add: carries_def buf_ok_def)
  obtain s where s: "SgeBytes ?c = Inr s" "adjacent ?sd (sb ?i) s"
    and ls: "nat (sint (sge_num ?c)) \<le> length (sge_vec ?sd)"
    using link_okD(6) [OF L i] by (auto simp: buffer_desc_def)
  have rd: "adjacent ?rd (rb ?i) s" "nat (sint (sge_num ?c)) \<le> length (sge_vec ?rd)"
    using link_okD(7) [OF L i] s(1) by (auto simp: buffer_desc_def)
  have size: "unat s = sge_size ?c" using ok s(1) SgeBytes_eq [of ?c] by (metis Inr_inject config_ok_def)
  have le: "?k * unat s \<le> size_of L"
    using k config_ok_sizes(2) [OF ok] unfolding size by (metis mult_le_mono1)
  obtain m1 where m1: "rdma_elems (lc_rdma L) ?sd (snd (lc_pairs L ! ?i)) 0 ?k m dst = Inr m1"
    "load m1 (rb ?i) (?k * unat s) = load m (sb ?i) (?k * unat s)"
    "\<And>x. x \<notin> span (rb ?i) (?k * unat s) \<Longrightarrow> m1 x = dst x"
  proof -
    have "(0 + ?k) * unat s \<le> 2 ^ 64" using le unat_u64_less [of "buffer_bytes ?c"] by simp
    then show thesis
      using rdma_elems_copy [OF link_okD(2) [OF L] s(2) rd(1), of "snd (lc_pairs L ! ?i)" 0 ?k dst m]
        link_okD(8,9) [OF L i] k ls rd(2) that by (auto simp: size)
  qed
  have "load m1 (rb ?i) ?n = load m (sb ?i) ?n"
    using arg_cong [OF m1(2), of "take ?n"] n by (simp add: take_load size)
  moreover have "same_outside (span (rb ?i) (size_of L)) dst m1"
    using m1(3) span_mono [OF le] by (auto simp: same_outside_def)
  ultimately show ?thesis using m1(1) filled by auto
qed

text \<open>\<open>SyncRead\<close> over the reader's part of the connection.\<close>

lemma link_SyncRead:
  assumes ok: "config_ok c" and r: "wr_offset r < wr_bytes r" and d: "buffer_desc c d base"
    and apart: "span base (next_bytes c r) \<inter> span (wr_begin_addr r + wr_offset r) (next_bytes c r) = {}"
  shows "SyncRead c link_get link_set link_r2n mid b d (m, (r # rs, fs, k)) =
      Inr (memcpy m (wr_begin_addr r + wr_offset r) base (next_bytes c r),
        if wr_bytes r \<le> wr_offset (advance c r) then (rs, fs @ [(b, True)], Suc k)
        else (advance c r # rs, fs @ [(b, False)], k))"
proof -
  have "link_get mid (r # rs, fs, k) = Inr r" by (simp add: link_get_def queue_front_def)
  from SyncRead_copies [where get_rec = link_get, OF ok r d this apart, of link_set link_r2n b]
  show ?thesis by (simp add: link_set_def queue_front_def link_r2n_def advance_def)
qed

lemma reads_match_hd:
  assumes "reads_match (r # rs) (drop k es)"
  shows "k < length es" and "wr_begin_addr r = fst (snd (es ! k))" and "wr_bytes r = snd (snd (es ! k))"
    and "wr_offset r < wr_bytes r"
proof -
  show k: "k < length es" using reads_match_length [OF assms] by simp
  from assms show "wr_begin_addr r = fst (snd (es ! k))" "wr_bytes r = snd (snd (es ! k))"
    "wr_offset r < wr_bytes r"
    by (auto simp: reads_match_def Cons_nth_drop_Suc [OF k, symmetric])
qed

text \<open>What was received is not touched by a write outside the destinations.\<close>

lemma received_frame:
  assumes rec: "received m0 es k rs m" and rm: "reads_match rs (drop k es)"
    and apart: "\<forall>e \<in> set es. dst_span e \<inter> A = {}" and m: "same_outside A m m'"
  shows "received m0 es k rs m'"
proof -
  have kept: "load m' (fst (snd e)) (unat (snd (snd e))) = load m (fst (snd e)) (unat (snd (snd e)))"
    if "e \<in> set (take k es)" for e
    using apart that by (intro same_outside_load [OF m]) (auto simp: dst_span_def dest: in_set_takeD)
  have "prefix_received (source_data m0 (es ! k)) (hd rs) m'" if rs: "rs \<noteq> []"
  proof -
    obtain r rs' where r: "rs = r # rs'" using rs by (cases rs) auto
    note hd = reads_match_hd [OF rm [unfolded r]]
    have "span (wr_begin_addr r) (unat (wr_offset r)) \<subseteq> dst_span (es ! k)"
      unfolding dst_span_def hd(2,3) [symmetric] using hd(4)
      by (intro span_mono) (simp add: word_less_nat_alt)
    moreover have "dst_span (es ! k) \<inter> A = {}" using apart hd(1) by simp
    ultimately have "load m' (wr_begin_addr r) (unat (wr_offset r)) = load m (wr_begin_addr r) (unat (wr_offset r))"
      by (intro same_outside_load [OF m]) blast
    with rec r show ?thesis by (simp add: received_def prefix_received_def)
  qed
  with rec kept show ?thesis by (simp add: received_def)
qed

text \<open>One more piece of the current read; with the last one the read is complete.\<close>

lemma received_piece:
  assumes rec: "received m0 es k (r # rs) m" and rm: "reads_match (r # rs) (drop k es)"
    and dist: "sorted_wrt (\<lambda>e e'. dst_span e \<inter> dst_span e' = {}) es"
    and new: "load m' (wr_begin_addr r + wr_offset r) (next_bytes c r) =
      load m0 (fst (es ! k) + wr_offset r) (next_bytes c r)"
    and m: "same_outside (span (wr_begin_addr r + wr_offset r) (next_bytes c r)) m m'"
  shows "received m0 es k (advance c r # rs) m'"
    and "wr_bytes r \<le> wr_offset (advance c r) \<Longrightarrow> received m0 es (Suc k) rs m'"
proof -
  note hd = reads_match_hd [OF rm]
  have wf: "wf_record r" using hd(4) by (simp add: wf_record_def)
  note sp = next_span [OF wf, of c]
  let ?data = "source_data m0 (es ! k)" and ?o = "unat (wr_offset r)" and ?n = "next_bytes c r"
  have piece: "take ?n (drop ?o ?data) = load m0 (fst (es ! k) + wr_offset r) ?n"
  proof -
    have "?data = load m0 (fst (es ! k)) (?o + ?n + (unat (wr_bytes r) - (?o + ?n)))"
      using sp(3) by (simp add: source_data_def hd(3))
    then show ?thesis by (simp add: load_add)
  qed
  have pre: "prefix_received ?data (advance c r) m'"
    using rec new m by (intro prefix_extends [OF wf]) (auto simp: received_def piece same_outside_def)
  have kept: "load m' (fst (snd e)) (unat (snd (snd e))) = source_data m0 e" if e: "e \<in> set (take k es)" for e
  proof -
    obtain j where j: "j < k" "e = es ! j" using e hd(1) by (auto simp: in_set_conv_nth)
    then have "dst_span e \<inter> dst_span (es ! k) = {}" using sorted_wrt_nth_less [OF dist j(1) hd(1)] by simp
    then have "load m' (fst (snd e)) (unat (snd (snd e))) = load m (fst (snd e)) (unat (snd (snd e)))"
      using sp(1) by (intro same_outside_load [OF m]) (auto simp: dst_span_def hd(2,3))
    with rec e show ?thesis by (simp add: received_def)
  qed
  with pre show "received m0 es k (advance c r # rs) m'" by (simp add: received_def)
  assume "wr_bytes r \<le> wr_offset (advance c r)"
  then have off: "wr_offset (advance c r) = wr_bytes r"
    using advance_offset(2,3) [OF wf, of c] by (simp add: wf_record_def)
  have "load m' (fst (snd (es ! k))) (unat (snd (snd (es ! k)))) = ?data"
    using pre unfolding prefix_received_def off
    by (simp add: advance_def hd(2,3) source_data_def)
  moreover have "prefix_received (source_data m0 (es ! Suc k)) (hd rs) m'" if "rs \<noteq> []"
    using that rm by (cases rs) (auto simp: prefix_received_def reads_match_def)
  ultimately show "received m0 es (Suc k) rs m'"
    using kept hd(1) by (auto simp: received_def take_Suc_conv_app_nth)
qed

lemma src_record_simps [simp]:
  "wr_offset (src_record L r e) = wr_offset r" "wr_bytes (src_record L r e) = wr_bytes r"
  "wr_begin_addr (src_record L r e) = fst e"
  by (simp_all add: src_record_def)

text \<open>
  The piece that arrives is the next piece of the current record; what is left are the
  pieces of the reader's records after it.
\<close>

definition next_reads :: "comm_net_config \<Rightarrow> work_record list \<Rightarrow> nat \<Rightarrow> work_record list \<times> nat" where
  "next_reads c rs k =
     (if wr_bytes (hd rs) \<le> wr_offset (advance c (hd rs)) then (tl rs, Suc k)
      else (advance c (hd rs) # tl rs, k))"

lemma next_reads_Cons:
  "next_reads c (r # rt) k =
     (if wr_offset (advance c r) < wr_bytes r then (advance c r # rt, k) else (rt, Suc k))"
  by (auto simp: next_reads_def not_less)

lemma next_reads_match:
  assumes rm: "reads_match (r # rs) (drop k es)" and n: "next_reads c (r # rs) k = (rs', k')"
  shows "reads_match rs' (drop k' es)" and "k' \<le> length es"
proof -
  note hd = reads_match_hd [OF rm]
  have d: "drop k es = es ! k # drop (Suc k) es" by (rule Cons_nth_drop_Suc [OF hd(1), symmetric])
  have tail: "list_all2 (\<lambda>r e. wr_begin_addr r = fst (snd e) \<and> wr_bytes r = snd (snd e) \<and>
      wr_offset r < wr_bytes r) rs (drop (Suc k) es)" "\<forall>r \<in> set rs. wr_offset r = 0"
    using rm unfolding d by (simp_all add: reads_match_def)
  have "\<forall>r \<in> set (tl rs). wr_offset r = 0" using tail(2) by (cases rs) simp_all
  with tail have rest: "reads_match rs (drop (Suc k) es)" by (simp add: reads_match_def)
  show "reads_match rs' (drop k' es)"
  proof (cases "wr_bytes r \<le> wr_offset (advance c r)")
    case True
    with n rest show ?thesis by (auto simp: next_reads_def)
  next
    case False
    with n have "rs' = advance c r # rs" "k' = k" by (auto simp: next_reads_def)
    with False tail hd show ?thesis
      by (simp add: reads_match_def d advance_def not_le)
  qed
  show "k' \<le> length es" using n hd(1) by (auto simp: next_reads_def split: if_splits)
qed

lemma next_reads_pieces:
  assumes C: "0 < buffer_bytes (lc_cfg L)" and rm: "reads_match rs (drop k es)"
    and eq: "p # ps = pieces_of L (map2 (src_record L) rs (drop k es))"
    and n: "next_reads (lc_cfg L) rs k = (rs', k')"
  shows "rs = hd rs # tl rs" and "p = src_record L (hd rs) (es ! k)"
    and "ps = pieces_of L (map2 (src_record L) rs' (drop k' es))"
proof -
  let ?c = "lc_cfg L"
  from eq obtain r rt where rs: "rs = r # rt" by (cases rs) auto
  then show "rs = hd rs # tl rs" by simp
  note hd = reads_match_hd [OF rm [unfolded rs]]
  let ?a = "src_record L r (es ! k)"
  have d: "drop k es = es ! k # drop (Suc k) es" by (rule Cons_nth_drop_Suc [OF hd(1), symmetric])
  have a: "wf_record ?a" "wr_bytes ?a = wr_bytes r" "wr_offset (advance ?c ?a) = wr_offset (advance ?c r)"
    "advance ?c ?a = src_record L (advance ?c r) (es ! k)"
    using hd(4) by (simp_all add: src_record_def wf_record_def advance_def)
  have "p # ps = (?a # (if wr_offset (advance ?c r) < wr_bytes r
      then piece_records ?c (src_record L (advance ?c r) (es ! k)) else [])) @
      pieces_of L (map2 (src_record L) rt (drop (Suc k) es))"
    using eq piece_records_step [OF a(1) C] unfolding a(2-4) by (simp add: rs d)
  then have ps: "p = ?a" "ps = (if wr_offset (advance ?c r) < wr_bytes r
      then piece_records ?c (src_record L (advance ?c r) (es ! k)) else []) @
      pieces_of L (map2 (src_record L) rt (drop (Suc k) es))"
    by simp_all
  from ps(1) show "p = src_record L (hd rs) (es ! k)" by (simp add: rs)
  show "ps = pieces_of L (map2 (src_record L) rs' (drop k' es))"
  proof (cases "wr_offset (advance ?c r) < wr_bytes r")
    case True
    with n have "rs' = advance ?c r # rt" "k' = k" by (auto simp: next_reads_Cons rs)
    with True show ?thesis unfolding ps(2) by (simp add: d)
  next
    case False
    with n have "rs' = rt" "k' = Suc k" by (auto simp: next_reads_Cons rs)
    with False show ?thesis unfolding ps(2) by simp
  qed
qed

text \<open>
  One write arrives: the reader's buffer is filled and copied to the next place of the
  destination, and nothing else outside the buffers is written.
\<close>

definition link_space :: "link_cfg \<Rightarrow> (nat \<Rightarrow> u64) \<Rightarrow> (u64 \<times> u64 \<times> u64) list \<Rightarrow> u64 set" where
  "link_space L rb es = reader_space L rb \<union> \<Union> (dst_span ` set es)"

lemma log_ok_apart:
  assumes "log_ok L sb rb es" and "e \<in> set es"
  shows "dst_span e \<inter> reader_space L rb = {}"
  using assms by (auto simp: log_ok_def list_all_iff read_ok_def dst_span_def)

lemma arrival_copies:
  assumes L: "link_ok L sb rb" and lg: "log_ok L sb rb es"
    and rm: "reads_match (r # rt) (drop k es)" and rec: "received m0 es k (r # rt) m"
    and c: "carries L sb m0 wm (src_record L r (es ! k)) (b, num)"
    and next_: "next_reads (lc_cfg L) (r # rt) k = (rs', k')"
  shows "\<exists>m1 m2 lst. rdma_elems (lc_rdma L) (fst (lc_pairs L ! buf b)) (snd (lc_pairs L ! buf b)) 0
      (nat (sint num)) wm m = Inr m1 \<and>
    SyncRead (lc_cfg L) link_get link_set link_r2n (lc_writer L) b (lc_recv L ! buf b)
      (m1, (r # rt, fs, k)) = Inr (m2, rs', fs @ [(b, lst)], k') \<and>
    received m0 es k' rs' m2 \<and> same_outside (link_space L rb es) m m2"
proof -
  let ?c = "lc_cfg L" and ?B = "span (rb (buf b)) (size_of L)"
  let ?D = "span (wr_begin_addr r + wr_offset r) (next_bytes ?c r)"
  note hd = reads_match_hd [OF rm]
  have i: "buf b < length (lc_pairs L)" using c by (simp add: carries_def buf_ok_def)
  have B: "?B \<subseteq> reader_space L rb" by (rule buffer_sub(2) [OF i])
  have D: "?D \<subseteq> dst_span (es ! k)"
    using next_span(1) [of r ?c] hd by (simp add: dst_span_def wf_record_def)
  have k: "es ! k \<in> set es" by (rule nth_mem [OF hd(1)])
  obtain m1 where m1: "rdma_elems (lc_rdma L) (fst (lc_pairs L ! buf b)) (snd (lc_pairs L ! buf b)) 0
      (nat (sint num)) wm m = Inr m1"
    "load m1 (rb (buf b)) (next_bytes ?c r) = load m0 (fst (es ! k) + wr_offset r) (next_bytes ?c r)"
    "same_outside ?B m m1"
    using rdma_fills_buffer [OF L c] by auto
  have "span (rb (buf b)) (next_bytes ?c r) \<inter> ?D = {}"
    using D B log_ok_apart [OF lg k] span_mono [OF next_bytes_le [of ?c r], of "rb (buf b)"] by blast
  note read = link_SyncRead [OF link_okD(1) [OF L] hd(4) link_okD(7) [OF L i] this]
  define m2 where "m2 = memcpy m1 (wr_begin_addr r + wr_offset r) (rb (buf b)) (next_bytes ?c r)"
  have m2: "SyncRead ?c link_get link_set link_r2n (lc_writer L) b (lc_recv L ! buf b)
      (m1, (r # rt, fs, k)) = Inr (m2, if wr_bytes r \<le> wr_offset (advance ?c r)
        then (rt, fs @ [(b, True)], Suc k) else (advance ?c r # rt, fs @ [(b, False)], k))"
    "load m2 (wr_begin_addr r + wr_offset r) (next_bytes ?c r) = load m1 (rb (buf b)) (next_bytes ?c r)"
    "same_outside ?D m1 m2"
    by (simp_all add: read m2_def piece_arrives same_outside_def)
  have "\<forall>e \<in> set es. dst_span e \<inter> ?B = {}" using log_ok_apart [OF lg] B by blast
  from received_frame [OF rec rm this m1(3)] have rec1: "received m0 es k (r # rt) m1" .
  have "received m0 es k' rs' m2"
    using received_piece [OF rec1 rm _ _ m2(3)] m1(2) m2(2) next_ lg
    by (auto simp: next_reads_def log_ok_def split: if_splits)
  moreover have "same_outside (link_space L rb es) m m2"
  proof (rule same_outside_trans)
    show "same_outside (link_space L rb es) m m1"
      using B by (intro same_outside_mono [OF m1(3)]) (simp add: link_space_def le_supI1)
    show "same_outside (link_space L rb es) m1 m2"
      using D k by (intro same_outside_mono [OF m2(3)]) (auto simp: link_space_def)
  qed
  ultimately show ?thesis using m1(1) m2(1) next_
    by (auto simp: next_reads_def split: if_splits)
qed

lemma ArriveWrite_keeps:
  assumes L: "link_ok L sb rb" and inv: "link_inv L sb rb m0 r0 s" and w: "l_wire s \<noteq> []"
  shows "\<exists>s'. link_step L s ArriveWrite = Inr s' \<and> link_inv L sb rb m0 r0 s' \<and> counted L s ArriveWrite s'"
proof -
  let ?c = "lc_cfg L" and ?es = "l_log s"
  obtain rs fs k where rd: "l_reader s = (rs, fs, k)" by (cases "l_reader s")
  obtain b num wire where wire: "l_wire s = (b, num) # wire" using w by (cases "l_wire s") auto
  obtain rs' k' where next_: "next_reads ?c rs k = (rs', k')" by (cases "next_reads ?c rs k")
  have C: "0 < buffer_bytes ?c"
    using config_ok_sizes(3) [OF link_okD(1) [OF L]] by (simp add: word_less_nat_alt)
  have rm: "reads_match rs (drop k ?es)" and lg: "log_ok L sb rb ?es"
    and rec: "received m0 ?es k rs (l_rmem s)"
    and outside: "same_outside (link_space L rb ?es) r0 (l_rmem s)"
    using inv by (simp_all add: link_inv_def link_space_def rd)
  obtain p fl where fl: "writer_inv L sb m0 (l_helper s) (l_wmem s) wire fl"
    "carries L sb m0 (l_wmem s) p (b, num)"
    "p # (fl @ backlog ?c (l_helper s) @ pieces_of L (l_asked s)) =
      pieces_of L (map2 (src_record L) rs (drop k ?es))"
    using link_invE [OF inv rd] unfolding wire
    by (metis (no_types, lifting) append_Cons list_all2_Cons2 writer_inv_def)
  note pcs = next_reads_pieces [OF C rm fl(3) next_]
  then obtain r rt where rs: "rs = r # rt" by blast
  have b: "buf b < length (lc_pairs L)" using fl(2) by (simp add: carries_def buf_ok_def)
  obtain m1 m2 lst where m: "rdma_elems (lc_rdma L) (fst (lc_pairs L ! buf b)) (snd (lc_pairs L ! buf b)) 0
      (nat (sint num)) (l_wmem s) (l_rmem s) = Inr m1"
    "SyncRead ?c link_get link_set link_r2n (lc_writer L) b (lc_recv L ! buf b)
      (m1, (rs, fs, k)) = Inr (m2, rs', fs @ [(b, lst)], k')"
    "received m0 ?es k' rs' m2" "same_outside (link_space L rb ?es) (l_rmem s) m2"
    using arrival_copies [OF L lg rm [unfolded rs] rec [unfolded rs]] fl(2) next_
    unfolding pcs(2) rs by fastforce
  let ?s = "s\<lparr>l_wire := wire, l_rmem := m2, l_reader := (rs', fs @ [(b, lst)], k')\<rparr>"
  have "mset (bufs_of ?s) = mset (bufs_of s)" by (simp add: bufs_of_def rd wire)
  note bm = bufs_of_mset [OF this]
  have "same_outside (link_space L rb ?es) r0 m2" by (rule same_outside_trans [OF outside m(4)])
  then have "link_inv L sb rb m0 r0 ?s"
    using inv fl(1) pcs(3) lg bm m(3) next_reads_match [OF rm [unfolded rs]] next_
    unfolding link_inv_def by (auto simp: rd rs link_space_def)
  moreover have "link_step L s ArriveWrite = Inr ?s"
    using b m(1,2) link_okD(5) [OF L]
    by (cases "lc_pairs L ! buf b") (simp add: wire queue_front_def vec_index_def buf_def rd)
  moreover have "counted L s ArriveWrite ?s"
    by (simp add: counted_defs under_way_def wire rd)
  ultimately show ?thesis by blast
qed

section \<open>The protocol\<close>

text \<open>Other activity touches neither a posted piece nor what was received.\<close>

lemma carries_frame:
  assumes L: "link_ok L sb rb" and c: "carries L sb m0 m p bn" and m: "same_outside (lc_wother L) m m'"
  shows "carries L sb m0 m' p bn"
proof -
  have "buf (fst bn) < length (lc_pairs L)" using c by (simp add: carries_def buf_ok_def)
  then have "span (sb (buf (fst bn))) (next_bytes (lc_cfg L) p) \<inter> lc_wother L = {}"
    using link_okD(11) [OF L] span_mono [OF next_bytes_le] by blast
  from same_outside_load [OF m this] c show ?thesis by (simp add: carries_def)
qed

lemma Other_keeps:
  assumes L: "link_ok L sb rb" and inv: "link_inv L sb rb m0 r0 s"
    and al: "link_allowed L sb rb s (Other wm rm)"
  shows "\<exists>s'. link_step L s (Other wm rm) = Inr s' \<and> link_inv L sb rb m0 r0 s' \<and>
    counted L s (Other wm rm) s'"
proof -
  let ?s = "s\<lparr>l_wmem := wm, l_rmem := rm\<rparr>"
  obtain rs fs k where rd: "l_reader s = (rs, fs, k)" by (cases "l_reader s")
  have w: "same_outside (lc_wother L) (l_wmem s) wm" and r: "same_outside (lc_rother L) (l_rmem s) rm"
    using al by simp_all
  have rm: "reads_match rs (drop k (l_log s))" and lg: "log_ok L sb rb (l_log s)"
    and rec: "received m0 (l_log s) k rs (l_rmem s)"
    and out: "same_outside (reader_space L rb \<union> \<Union> (dst_span ` set (l_log s))) r0 (l_rmem s)"
    using inv by (simp_all add: link_inv_def rd)
  obtain fl where fl: "writer_inv L sb m0 (l_helper s) (l_wmem s) (l_wire s) fl"
    "fl @ backlog (lc_cfg L) (l_helper s) @ pieces_of L (l_asked s) =
      pieces_of L (map2 (src_record L) rs (drop k (l_log s)))"
    using link_invE [OF inv rd] by blast
  have "list_all2 (carries L sb m0 wm) fl (l_wire s)"
    using fl(1) carries_frame [OF L _ w] by (auto simp: writer_inv_def elim!: list_all2_mono)
  moreover have "same_outside (writer_space L sb) m0 wm"
    using fl(1) same_outside_mono [OF w, of "writer_space L sb"] same_outside_trans
    by (auto simp: writer_inv_def writer_space_def)
  ultimately have "writer_inv L sb m0 (l_helper s) wm (l_wire s) fl"
    using fl(1) by (simp add: writer_inv_def)
  moreover have "\<forall>e \<in> set (l_log s). dst_span e \<inter> lc_rother L = {}"
    using lg by (auto simp: log_ok_def list_all_iff read_ok_def dst_span_def reader_space_def)
  from received_frame [OF rec rm this r] have "received m0 (l_log s) k rs rm" .
  moreover have "same_outside (reader_space L rb \<union> \<Union> (dst_span ` set (l_log s))) r0 rm"
    by (rule same_outside_trans [OF out same_outside_mono [OF r]]) (auto simp: reader_space_def)
  ultimately have "link_inv L sb rb m0 r0 ?s"
    using inv fl(2) unfolding link_inv_def by (auto simp: rd bufs_of_def)
  moreover have "counted L s (Other wm rm) ?s" by (simp add: counted_defs under_way_def)
  ultimately show ?thesis by simp
qed

lemma link_keeps:
  assumes L: "link_ok L sb rb" and inv: "link_inv L sb rb m0 r0 s" and al: "link_allowed L sb rb s e"
  shows "\<exists>s'. link_step L s e = Inr s' \<and> link_inv L sb rb m0 r0 s' \<and> counted L s e s'"
proof (cases e)
  case (Read src dst n cb)
  show ?thesis unfolding Read by (rule Read_keeps [OF L inv]) (use al Read in simp)
next
  case ArriveRequest
  show ?thesis unfolding ArriveRequest by (rule ArriveRequest_keeps [OF L inv]) (use al ArriveRequest in simp)
next
  case ArriveWrite
  show ?thesis unfolding ArriveWrite by (rule ArriveWrite_keeps [OF L inv]) (use al ArriveWrite in simp)
next
  case ArriveFree
  show ?thesis unfolding ArriveFree by (rule ArriveFree_keeps [OF L inv]) (use al ArriveFree in simp)
next
  case (Other wm rm)
  show ?thesis unfolding Other by (rule Other_keeps [OF L inv]) (use al Other in simp)
qed

interpretation read_link: safe_ops "link_step L" "\<lambda>s. link_ok L sb rb \<and> link_inv L sb rb m0 r0 s"
  "link_allowed L sb rb"
proof
  fix s e
  assume inv: "link_ok L sb rb \<and> link_inv L sb rb m0 r0 s" and al: "link_allowed L sb rb s e"
  with link_keeps [of L sb rb m0 r0 s e] obtain s' where
    s': "link_step L s e = Inr s'" "link_inv L sb rb m0 r0 s'" by blast
  then show "\<exists>s'. link_step L s e = Inr s'" by blast
  fix t
  assume "link_step L s e = Inr t"
  with s' inv show "link_ok L sb rb \<and> link_inv L sb rb m0 r0 t" by simp
qed

definition new_link :: "write_helper \<Rightarrow> memory \<Rightarrow> memory \<Rightarrow> link" where
  "new_link h m0 r0 =
     \<lparr>l_helper = h, l_wmem = m0, l_wire = [], l_rmem = r0, l_reader = ([], [], 0), l_asked = [], l_log = []\<rparr>"

definition link_start :: "link_cfg \<Rightarrow> write_helper \<Rightarrow> bool" where
  "link_start L h \<longleftrightarrow> (\<exists>jb jr. new_write_helper (lc_cfg L) (lc_pairs L) jb jr = Inr h) \<and>
     nat (sint (RegisterBufferNum (lc_cfg L))) = length (lc_pairs L)"

lemma new_link_inv:
  assumes L: "link_ok L sb rb" and h: "link_start L h"
  shows "link_inv L sb rb m0 r0 (new_link h m0 r0)"
proof -
  let ?n = "length (lc_pairs L)" and ?bs = "map of_nat [0..<length (lc_pairs L)] :: i32 list"
  have C: "0 < buffer_bytes (lc_cfg L)"
    using config_ok_sizes(3) [OF link_okD(1) [OF L]] by (simp add: word_less_nat_alt)
  from h obtain jb jr where hh: "h = \<lparr>buffer_id = jb, pending_record_queue = [], cur_record_queue = [],
      idle_buffer_queue = ?bs, cur_record = jr, cur_write_handle = h_InitWriteHandle,
      send_recv_pair = lc_pairs L\<rparr>"
    by (auto simp: link_start_def new_write_helper_def split: if_splits)
  have sint: "sint (of_nat i :: i32) = int i" if "i < ?n" for i
    using that link_okD(4) [OF L] by (simp add: signed_of_nat signed_take_bit_int_eq_self)
  have ids: "buf (of_nat i) = i" "buf_ok L (of_nat i)" if "i < ?n" for i
    using sint [OF that] that by (simp_all add: buf_ok_def buf_def)
  have "distinct ?bs" using ids(1) by (auto simp: distinct_map intro!: inj_onI) metis
  moreover have "\<forall>b \<in> set ?bs. buf_ok L b" using ids(2) by auto
  moreover have "bufs_of (new_link h m0 r0) = ?bs" by (simp add: bufs_of_def new_link_def hh avail_def)
  moreover have "writer_inv L sb m0 h m0 [] []"
    using C by (simp add: writer_inv_def hh wf_helper_def settled_def same_outside_def queued_records_def)
  moreover have "backlog (lc_cfg L) h = []" by (simp add: hh abs_defs)
  ultimately show ?thesis
    by (simp add: link_inv_def new_link_def reads_match_def log_ok_def received_def same_outside_def)
qed

abbreviation completed :: "link \<Rightarrow> nat" where
  "completed s \<equiv> snd (snd (l_reader s))"

lemma link_history:
  assumes L: "link_ok L sb rb" and h: "link_start L h"
    and os: "schedule (link_step L) (link_allowed L sb rb) (new_link h m0 r0) os"
  obtains s where "run (link_step L) (new_link h m0 r0) os = Inr s" and "link_inv L sb rb m0 r0 s"
    and "l_log s = reads_of os"
    and "length (filter is_Arrive os) + under_way L s = sum_list (map (read_messages L) (reads_of os))"
proof -
  let ?H = "\<lambda>es s. l_log s = reads_of es \<and>
    length (filter is_Arrive es) + under_way L s = sum_list (map (read_messages L) (reads_of es))"
  have snoc: "reads_of (es @ [e]) = reads_of es @ reads_of [e]" for es e
    by (induction es rule: reads_of.induct) simp_all
  have "backlog (lc_cfg L) h = []"
    using h by (auto simp: link_start_def new_write_helper_def abs_defs split: if_splits)
  then have "?H [] (new_link h m0 r0)" by (simp add: new_link_def under_way_def)
  moreover have "?H (es @ [e]) t'"
    if "?H es t" "link_ok L sb rb \<and> link_inv L sb rb m0 r0 t" "link_allowed L sb rb t e"
      "link_step L t e = Inr t'" for es t e t'
    using that link_keeps [of L sb rb m0 r0 t e] unfolding snoc by (auto simp: counted_def)
  ultimately have "\<exists>s. run (link_step L) (new_link h m0 r0) os = Inr s \<and>
      (link_ok L sb rb \<and> link_inv L sb rb m0 r0 s) \<and> ?H os s"
    using new_link_inv [OF L h] L by (intro read_link.run_history [OF _ os]) blast+
  then show thesis using that by blast
qed

lemma link_complete:
  assumes inv: "link_inv L sb rb m0 r0 s" and "under_way L s = 0"
  shows "completed s = length (l_log s)"
proof -
  obtain rs fs k where rd: "l_reader s = (rs, fs, k)" by (cases "l_reader s")
  have "pieces_of L (map2 (src_record L) rs (drop k (l_log s))) = []"
    using assms(2) unfolding under_way_inv [OF inv rd] by simp
  moreover have "length rs = length (drop k (l_log s))" and "k \<le> length (l_log s)"
    using inv by (auto simp: link_inv_def rd dest: reads_match_length)
  ultimately show ?thesis
    by (cases rs; cases "drop k (l_log s)") (auto simp: rd piece_records_def)
qed

text \<open>The connection never gets stuck: while messages are owed, one can arrive.\<close>

lemma link_progress:
  assumes L: "link_ok L sb rb" and inv: "link_inv L sb rb m0 r0 s" and "under_way L s \<noteq> 0"
  shows "\<exists>a \<in> {ArriveRequest, ArriveWrite, ArriveFree}. link_allowed L sb rb s a"
proof (rule ccontr)
  assume "\<not> ?thesis"
  then have none: "l_asked s = []" "l_wire s = []" "fst (snd (l_reader s)) = []" by simp_all
  obtain rs fs k where rd: "l_reader s = (rs, fs, k)" by (cases "l_reader s")
  have "length (avail (l_helper s)) = length (lc_pairs L)"
    using inv none by (auto simp: link_inv_def rd bufs_of_def)
  then have "avail (l_helper s) \<noteq> []" using link_okD(3) [OF L] by auto
  moreover have "settled (l_helper s)" using inv by (auto simp: link_inv_def rd writer_inv_def)
  ultimately have "backlog (lc_cfg L) (l_helper s) = []" using settled_idle by blast
  with none assms(3) show False by (simp add: under_way_def)
qed

text \<open>
  C1: a read delivers exactly the bytes of the source. From a new connection, for any
  schedule of reads (of disjoint destinations, outside the registered buffers), message
  arrivals and other activity on both machines, neither side faults; at every moment the reads that are complete, in the order
  they were issued, have in their destination the bytes the source had; nothing else is
  written on the reader's machine outside the buffers, the destinations and what the other
  activity writes, nor on the writer's; and when no message is owed any more all reads are complete.
\<close>

theorem read_delivers_source:
  assumes "link_ok L sb rb" and "link_start L h"
    and "schedule (link_step L) (link_allowed L sb rb) (new_link h m0 r0) os"
  shows "\<exists>s. run (link_step L) (new_link h m0 r0) os = Inr s \<and>
    (\<forall>e \<in> set (take (completed s) (reads_of os)).
       load (l_rmem s) (fst (snd e)) (unat (snd (snd e))) = load m0 (fst e) (unat (snd (snd e)))) \<and>
    same_outside (link_space L rb (reads_of os)) r0 (l_rmem s) \<and>
    same_outside (writer_space L sb) m0 (l_wmem s) \<and>
    (under_way L s = 0 \<longrightarrow> completed s = length (reads_of os))"
proof -
  obtain s where s: "run (link_step L) (new_link h m0 r0) os = Inr s" "link_inv L sb rb m0 r0 s"
    "l_log s = reads_of os"
    using link_history [OF assms] by blast
  obtain rs fs k where rd: "l_reader s = (rs, fs, k)" by (cases "l_reader s")
  have "received m0 (reads_of os) k rs (l_rmem s)" "same_outside (link_space L rb (reads_of os)) r0 (l_rmem s)"
    "same_outside (writer_space L sb) m0 (l_wmem s)"
    using s(2) by (auto simp: link_inv_def rd s(3) link_space_def writer_inv_def)
  with s link_complete [OF s(2)] show ?thesis
    by (intro exI [of _ s]) (simp add: received_def source_data_def rd)
qed

text \<open>
  C2: reads complete. Every read costs exactly one request and two messages for each of its
  \<open>n\<close> divided by the buffer size, rounded up, pieces: the arrivals so far and those still
  owed add up to that number, whatever the interleaving; and as long as one is owed, one
  is on its way, although a machine has only a few buffers for any number of pieces.
\<close>

theorem read_message_count:
  assumes "link_ok L sb rb" and "link_start L h"
    and "schedule (link_step L) (link_allowed L sb rb) (new_link h m0 r0) os"
  shows "\<exists>s. run (link_step L) (new_link h m0 r0) os = Inr s \<and>
    length (filter is_Arrive os) + under_way L s = sum_list (map (read_messages L) (reads_of os)) \<and>
    (under_way L s = 0 \<or> (\<exists>a \<in> {ArriveRequest, ArriveWrite, ArriveFree}. link_allowed L sb rb s a))"
  using link_history [OF assms] link_progress [OF assms(1)] by metis

text \<open>
  C3: buffers are neither lost nor shared. At every moment each registered buffer pair is in
  exactly one place: idle at the writer, filled and on its way, or freed and on its way back.
\<close>

theorem buffers_conserved:
  assumes "link_ok L sb rb" and "link_start L h"
    and "schedule (link_step L) (link_allowed L sb rb) (new_link h m0 r0) os"
  shows "\<exists>s. run (link_step L) (new_link h m0 r0) os = Inr s \<and> distinct (map buf (bufs_of s)) \<and>
    set (map buf (bufs_of s)) = {..<length (lc_pairs L)}"
proof -
  obtain s where s: "run (link_step L) (new_link h m0 r0) os = Inr s" "link_inv L sb rb m0 r0 s"
    using link_history [OF assms] by blast
  obtain rs fs k where rd: "l_reader s = (rs, fs, k)" by (cases "l_reader s")
  have b: "distinct (bufs_of s)" "length (bufs_of s) = length (lc_pairs L)"
    "\<forall>b \<in> set (bufs_of s). buf_ok L b"
    using s(2) by (auto simp: link_inv_def rd)
  have d: "distinct (map buf (bufs_of s))"
    using b(1,3) by (simp add: distinct_map inj_on_def) (metis buf_inject)
  have "set (map buf (bufs_of s)) \<subseteq> {..<length (lc_pairs L)}" using b(3) by (auto simp: buf_ok_def)
  moreover have "card (set (map buf (bufs_of s))) = card {..<length (lc_pairs L)}"
    using distinct_card [OF d] b(2) by simp
  ultimately have "set (map buf (bufs_of s)) = {..<length (lc_pairs L)}" by (intro card_subset_eq) simp_all
  with s(1) d show ?thesis by blast
qed

section \<open>A concrete connection\<close>

definition demo_buffer :: "u64 \<Rightarrow> mem_desc" where
  "demo_buffer a = \<lparr>sge_vec = [\<lparr>sge_addr = a, sge_length = 4194304, sge_lkey = 1\<rparr>],
     mr_vec = [\<lparr>mr_lkey = 1, mr_rkey = 2\<rparr>]\<rparr>"

definition demo_base :: "nat \<Rightarrow> u64" where
  "demo_base i = (if i = 0 then 16777216 else 33554432)"

definition demo_link :: link_cfg where
  "demo_link = \<lparr>lc_cfg = default_config [] 1,
     lc_rdma = (\<lambda>sge a src dst. store dst a (load src (sge_addr sge) (unat (sge_length sge)))),
     lc_pairs = [(demo_buffer 16777216, \<lparr>mem_ptr = [16777216], mr_rkeys = [2]\<rparr>),
       (demo_buffer 33554432, \<lparr>mem_ptr = [33554432], mr_rkeys = [2]\<rparr>)],
     lc_recv = [demo_buffer 16777216, demo_buffer 33554432], lc_reader = 0, lc_writer = 1,
     lc_wother = span 1024 1024, lc_rother = span 1024 1024\<rparr>"

lemma span_apart:
  assumes "unat a + n \<le> unat b" and "unat b + k \<le> 2 ^ 64"
  shows "span a n \<inter> span b k = {}"
proof -
  have "unat (a + of_nat i) < unat (b + of_nat j)" if "i < n" "j < k" for i j
  proof -
    have "unat (a + of_nat i) = unat a + i" "unat (b + of_nat j) = unat b + j"
      using assms that by (simp_all add: unat_add_no_wrap unat_of_nat_u64)
    with that assms show ?thesis by simp
  qed
  then show ?thesis by (auto simp: span_def) (metis less_irrefl)
qed

lemma demo_sizes:
  "buffer_bytes (lc_cfg demo_link) = 4194304" "RegisterBufferNum (lc_cfg demo_link) = 2"
  "sge_num (lc_cfg demo_link) = 1" "SgeBytes (lc_cfg demo_link) = Inr 4194304"
  "sge_size (lc_cfg demo_link) = 4194304" "config_ok (lc_cfg demo_link)"
  by (simp_all add: demo_link_def default_config_def buffer_bytes_def PerRegisterBufferMBytes_def
      RegisterBufferNum_def SgeBytes_def sge_size_def config_ok_def)

lemma demo_link_ok: "link_ok demo_link demo_base demo_base"
proof -
  have two: "(\<forall>i < length (lc_pairs demo_link). P i) \<longleftrightarrow> P 0 \<and> P (Suc 0)" for P
    by (auto simp: demo_link_def less_Suc_eq numeral_2_eq_2)
  have "rdma_copies (lc_rdma demo_link)"
  proof -
    have "load (store dst a (load src b (unat l))) a (unat l) = load src b (unat l)"
      for dst src :: memory and a b and l :: u32
    proof -
      have "unat l < 2 ^ 32" using unsigned_less [of l] by simp
      then show ?thesis using load_store_same [of "load src b (unat l)" dst a] by simp
    qed
    then show ?thesis by (simp add: rdma_copies_def demo_link_def store_outside)
  qed
  moreover have "span (16777216 :: u64) 4194304 \<inter> span 33554432 4194304 = {}"
    by (rule span_apart) simp_all
  ultimately show ?thesis
    unfolding link_ok_def two
    using span_apart [of 1024 1024 16777216 4194304] span_apart [of 1024 1024 33554432 4194304]
    by (auto simp: demo_sizes buffer_desc_def adjacent_def demo_base_def)
      (simp_all add: demo_link_def demo_buffer_def Int_commute, blast+)
qed

lemma demo_start:
  obtains h where "link_start demo_link h"
proof -
  obtain h where "new_write_helper (lc_cfg demo_link) (lc_pairs demo_link) 0 (WorkRecord 0 0 0 0 None) = Inr h"
    by (simp add: new_write_helper_def demo_sizes)
  moreover have "length (lc_pairs demo_link) = 2" by (simp add: demo_link_def)
  ultimately show thesis by (intro that [of h]) (auto simp: link_start_def demo_sizes)
qed

definition demo_ops :: "link_op list" where
  "demo_ops = [Read 100 200 3 None, ArriveRequest, ArriveWrite, ArriveFree]"

lemma demo_schedule:
  assumes h: "link_start demo_link h"
  shows "schedule (link_step demo_link) (link_allowed demo_link demo_base demo_base)
    (new_link h m0 r0) demo_ops"
proof -
  let ?L = demo_link and ?A = "link_allowed demo_link demo_base demo_base"
  let ?inv = "link_inv ?L demo_base demo_base m0 r0"
  note keeps = link_keeps [OF demo_link_ok, of m0 r0]
  have space: "span a 3 \<inter> (buffer_space ?L demo_base \<union> span 1024 1024) = {}" if "unat a \<le> 200" for a
  proof -
    have "span a 3 \<inter> span (demo_base i) 4194304 = {}" for i
      using that by (intro span_apart) (simp_all add: demo_base_def)
    moreover have "span a 3 \<inter> span 1024 1024 = {}" using that by (intro span_apart) simp_all
    ultimately show ?thesis by (auto simp: buffer_space_def demo_sizes)
  qed
  let ?s0 = "new_link h m0 r0"
  have start: "?inv ?s0" "under_way ?L ?s0 = 0"
    using new_link_inv [OF demo_link_ok h] h
    by (auto simp: new_link_def under_way_def link_start_def new_write_helper_def abs_defs split: if_splits)
  have "lc_wother ?L = span 1024 1024" "lc_rother ?L = span 1024 1024" by (simp_all add: demo_link_def)
  then have a0: "?A ?s0 (Read 100 200 3 None)"
    using space [of 100] space [of 200]
    by (simp add: new_link_def read_ok_def writer_space_def reader_space_def Int_Un_distrib)
  with keeps start obtain s1 where s1: "link_step ?L ?s0 (Read 100 200 3 None) = Inr s1" "?inv s1"
    "under_way ?L s1 = 3"
    by (fastforce simp: counted_defs demo_sizes block_count_def)
  then have a1: "?A s1 ArriveRequest" by (auto simp: new_link_def)
  with keeps s1 obtain s2 where s2: "link_step ?L s1 ArriveRequest = Inr s2" "?inv s2" "under_way ?L s2 = 2"
    by (fastforce simp: counted_defs)
  then have q2: "l_asked s2 = []" "fst (snd (l_reader s2)) = []"
    using s1(1) by (auto simp: rbind_eq_Inr new_link_def)
  with link_progress [OF demo_link_ok s2(2)] s2(3) have a2: "?A s2 ArriveWrite" by auto
  with keeps s2 obtain s3 where s3: "link_step ?L s2 ArriveWrite = Inr s3" "?inv s3" "under_way ?L s3 = 1"
    by (fastforce simp: counted_defs)
  then have q3: "l_asked s3 = []" using q2 by (auto simp: rbind_eq_Inr)
  have "l_wire s3 = []" using s3(3) by (cases "l_wire s3") (simp_all add: under_way_def)
  with link_progress [OF demo_link_ok s3(2)] s3(3) q3 have a3: "?A s3 ArriveFree" by auto
  from a0 a1 a2 a3 s1(1) s2(1) s3(1) show ?thesis
    unfolding demo_ops_def by (simp del: link_step.simps link_allowed.simps split: sum.split)
qed

text \<open>Three bytes, read with one request, one write and one freed buffer.\<close>

lemma demo_reads: "reads_of demo_ops = [(100, 200, 3)]" "length (filter is_Arrive demo_ops) = 3"
  by (simp_all add: demo_ops_def is_Arrive_def)

theorem read_delivers_source_witness:
  "\<exists>h s. run (link_step demo_link) (new_link h (\<lambda>a. ucast a) (\<lambda>_. 0)) demo_ops = Inr s \<and>
    load (l_rmem s) 200 3 = [100, 101, 102] \<and> l_rmem s 203 = 0"
proof -
  obtain h where h: "link_start demo_link h" by (rule demo_start)
  let ?m = "\<lambda>a :: u64. ucast a :: byte" and ?r = "\<lambda>_ :: u64. 0 :: byte"
  note sched = demo_schedule [OF h, of ?m ?r]
  obtain s where s: "run (link_step demo_link) (new_link h ?m ?r) demo_ops = Inr s"
    "\<forall>e \<in> set (take (completed s) [(100, 200, 3 :: u64)]).
       load (l_rmem s) (fst (snd e)) (unat (snd (snd e))) = load ?m (fst e) (unat (snd (snd e)))"
    "same_outside (link_space demo_link demo_base [(100, 200, 3)]) ?r (l_rmem s)"
    "under_way demo_link s = 0 \<longrightarrow> completed s = length [(100 :: u64, 200 :: u64, 3 :: u64)]"
    using read_delivers_source [OF demo_link_ok h sched] unfolding demo_reads
    by (elim exE conjE) (rule that)
  have "under_way demo_link s = 0"
    using link_history [OF demo_link_ok h sched] s(1)
    by (fastforce simp: demo_reads read_messages_def block_count_def demo_sizes)
  with s(2,4) have "load (l_rmem s) 200 3 = load ?m 100 3" by simp
  moreover have "(203 :: u64) \<notin> link_space demo_link demo_base [(100, 200, 3)]"
  proof -
    have "span (203 :: u64) 1 \<inter> span (demo_base i) 4194304 = {}" for i
      by (intro span_apart) (simp_all add: demo_base_def)
    moreover have "span (200 :: u64) 3 \<inter> span 203 1 = {}" by (rule span_apart) simp_all
    moreover have "(203 :: u64) \<in> span 203 1" by (simp add: span_def)
    moreover have "span (203 :: u64) 1 \<inter> span 1024 1024 = {}" by (rule span_apart) simp_all
    moreover have "lc_rother demo_link = span 1024 1024" by (simp add: demo_link_def)
    ultimately show ?thesis
      by (fastforce simp: link_space_def reader_space_def buffer_space_def demo_sizes dst_span_def)
  qed
  ultimately show ?thesis
    using s(1,3) by (intro exI [of _ h] exI [of _ s]) (simp add: same_outside_def numeral_3_eq_3)
qed

theorem read_message_count_witness:
  "\<exists>h s. run (link_step demo_link) (new_link h (\<lambda>_. 7) (\<lambda>_. 0)) demo_ops = Inr s \<and> under_way demo_link s = 0"
proof -
  obtain h where h: "link_start demo_link h" by (rule demo_start)
  from read_message_count [OF demo_link_ok h demo_schedule [OF h, of "\<lambda>_. 7" "\<lambda>_. 0"]] show ?thesis
    by (fastforce simp: demo_reads read_messages_def block_count_def demo_sizes)
qed

theorem buffers_conserved_witness:
  "\<exists>h s. run (link_step demo_link) (new_link h (\<lambda>_. 7) (\<lambda>_. 0)) demo_ops = Inr s \<and>
    set (map buf (bufs_of s)) = {0, 1}"
proof -
  obtain h where h: "link_start demo_link h" by (rule demo_start)
  have "{..<length (lc_pairs demo_link)} = {0, 1}" by (auto simp: demo_link_def)
  with buffers_conserved [OF demo_link_ok h demo_schedule [OF h, of "\<lambda>_. 7" "\<lambda>_. 0"]] show ?thesis
    by metis
qed

end
