(* ===== verification/QP.thy ===== *)
theory QP
  imports ReadHelper
begin

text \<open>
  \<open>ibverbs/ibverbs_qp.{h,cpp}\<close> and the dispatching methods of
  \<open>ibverbs/ibverbs_comm_network.cpp\<close>: the queue pairs of one machine, the message buffers
  and work-request objects they own, and the handlers of completed work requests. The two
  files call each other (a completion of a queue pair answers through \<open>IBVerbsCommNet\<close>,
  which picks the queue pair), so they are one theory, in the order of the calls.

  A machine is a \<open>node\<close>. Objects the C++ code passes by pointer (\<open>MsgMR\<close>,
  \<open>WorkRequestId\<close>) are heap entries named by numbers; a queue pair is named by its index
  in \<open>qp_vec_\<close>, the peer's machine id. Code outside the repository is the record
  \<open>env\<close>: the allocator, the verbs calls (over their own state \<open>'v\<close>), and the user's
  callbacks and message handlers, which may change the node.
\<close>

section \<open>The state of one machine\<close>

record msg_mr =
  mr_desc :: mem_desc
  mr_ptr :: u64
  mr_msg_type_key :: i32
  mr_cb :: "callback option"

record work_request_id =
  wrid_qp :: nat
  outstanding_sge_cnt :: i32
  wrid_msg_mr :: "nat option"

datatype opcode = IBV_WR_RDMA_WRITE_WITH_IMM | IBV_WR_SEND_WITH_IMM

record send_wr =
  sw_wr_id :: nat
  sw_sge :: ibv_sge
  sw_opcode :: opcode
  sw_imm_data :: i32
  sw_remote_addr :: u64
  sw_rkey :: u32

record recv_wr =
  rw_wr_id :: nat
  rw_sge :: ibv_sge

record qp =
  this_machine_id :: i64
  peer_machine_id :: i64
  recv_msg_buf :: "nat list"
  send_msg_buf :: "nat list"
  helper :: "write_helper option"
  qp_mem_desc :: "(mem_desc \<times> mem_desc) list"
  send_recv_mem_desc :: "(mem_desc \<times> mem_desc_proto) list"
  read_queue :: "work_record list"
  read_done_cbs :: "callback option list"

record 'v node =
  n_mem :: memory
  n_mrs :: "nat \<Rightarrow> msg_mr option"
  next_mr :: nat
  n_wrs :: "nat \<Rightarrow> work_request_id option"
  next_wr :: nat
  qp_vec :: "qp option list"
  msg_handlers :: "i32 \<Rightarrow> nat option option"
  n_ext :: 'v

record 'v env =
  e_cfg :: comm_net_config
  e_malloc :: "'v \<Rightarrow> u64 \<Rightarrow> u64 \<times> 'v"
  e_reg_mr :: "'v reg_mr"
  e_post_send :: "'v \<Rightarrow> nat \<Rightarrow> send_wr \<Rightarrow> int \<times> 'v"
  e_post_recv :: "'v \<Rightarrow> nat \<Rightarrow> recv_wr \<Rightarrow> int \<times> 'v"
  e_padding :: "byte \<times> byte \<times> byte"
  e_run_cb :: "callback \<Rightarrow> 'v node \<Rightarrow> 'v node res"
  e_run_handler :: "nat \<Rightarrow> u64 \<Rightarrow> u64 \<Rightarrow> 'v node \<Rightarrow> 'v node res"

text \<open>Access to a queue pair through a valid \<open>this\<close> or \<open>qp\<close> pointer.\<close>

definition get_qp :: "nat \<Rightarrow> 'v node \<Rightarrow> qp res" where
  "get_qp p s =
     (if p < length (qp_vec s)
      then (case qp_vec s ! p of None \<Rightarrow> Inl Undefined | Some q \<Rightarrow> Inr q)
      else Inl Undefined)"

definition put_qp :: "nat \<Rightarrow> qp \<Rightarrow> 'v node \<Rightarrow> 'v node" where
  "put_qp p q s = s\<lparr>qp_vec := (qp_vec s)[p := Some q]\<rparr>"

text \<open>\<open>qp_vec_.at(machine_id)\<close> followed by \<open>CHECK(qp)\<close>.\<close>

definition checked_qp :: "i64 \<Rightarrow> 'v node \<Rightarrow> nat res" where
  "checked_qp mid s =
     rbind (vec_at (qp_vec s) (unat mid)) (\<lambda>q. check (q \<noteq> None) (Inr (unat mid)))"

text \<open>A call of a user callback: the empty function is tested for and skipped.\<close>

definition run_callback :: "'v env \<Rightarrow> callback option \<Rightarrow> 'v node \<Rightarrow> 'v node res" where
  "run_callback E cb s = (case cb of None \<Rightarrow> Inr s | Some f \<Rightarrow> e_run_cb E f s)"

section \<open>Message buffers\<close>

definition new_MsgMR :: "'v env \<Rightarrow> 'v node \<Rightarrow> (nat \<times> 'v node) res" where
  "new_MsgMR E s =
     (let max_bytes = MaxMsgBytes (e_cfg E);
          (p, v1) = e_malloc E (n_ext s) max_bytes
      in if p = 0 then Inl Undefined
         else rbind (IBVerbsMemDesc (e_cfg E) (e_reg_mr E) p max_bytes v1) (\<lambda>(d, v2).
           check (length (sge_vec d) = 1)
             (Inr (next_mr s, s\<lparr>
                n_mem := store (n_mem s) p (replicate (unat max_bytes) 0),
                n_mrs := (n_mrs s)(next_mr s \<mapsto>
                  \<lparr>mr_desc = d, mr_ptr = p, mr_msg_type_key = 0, mr_cb = None\<rparr>),
                next_mr := Suc (next_mr s), n_ext := v2\<rparr>))))"

definition get_mr :: "nat \<Rightarrow> 'v node \<Rightarrow> msg_mr res" where
  "get_mr i s = (case n_mrs s i of None \<Rightarrow> Inl Undefined | Some mr \<Rightarrow> Inr mr)"

text \<open>
  \<open>set_msg\<close>: the length in front, then the message. The source is user memory or the bytes
  owned by a \<open>Msg\<close>. \<open>max_msg_bytes - sizeof(size_t)\<close> is an unsigned subtraction: below
  eight it wraps around, the check passes and the copies leave the allocation.
\<close>

datatype msg_source = FromAddr u64 | FromBytes "byte list"

fun source_bytes :: "memory \<Rightarrow> msg_source \<Rightarrow> nat \<Rightarrow> byte list" where
  "source_bytes m (FromAddr a) n = load m a n"
| "source_bytes m (FromBytes bs) n = bs"

definition set_msg ::
  "'v env \<Rightarrow> nat \<Rightarrow> i32 \<Rightarrow> msg_source \<Rightarrow> u64 \<Rightarrow> callback option \<Rightarrow> 'v node \<Rightarrow> 'v node res"
where
  "set_msg E i key src bytes cb s =
     rbind (get_mr i s) (\<lambda>mr.
       check (bytes \<le> MaxMsgBytes (e_cfg E) - 8)
        (if unat (MaxMsgBytes (e_cfg E)) < unat bytes + 8 then Inl Undefined
         else
           let m1 = store (n_mem s) (mr_ptr mr) (le_encode 8 bytes);
               m2 = store m1 (mr_ptr mr + 8) (source_bytes m1 src (unat bytes))
           in Inr (s\<lparr>n_mem := m2,
                n_mrs := (n_mrs s)(i \<mapsto> mr\<lparr>mr_msg_type_key := key, mr_cb := cb\<rparr>)\<rparr>)))"

definition msg_ptr :: "msg_mr \<Rightarrow> u64" where
  "msg_ptr mr = mr_ptr mr + 8"

definition msg_bytes :: "memory \<Rightarrow> msg_mr \<Rightarrow> u64" where
  "msg_bytes m mr = le_decode (load m (mr_ptr mr) 8)"

definition is_user_msg :: "msg_mr \<Rightarrow> bool" where
  "is_user_msg mr \<longleftrightarrow> sint (msg_type_int kNumType) \<le> sint (mr_msg_type_key mr)"

section \<open>Work-request objects and posting\<close>

definition NewWorkRequestId :: "nat \<Rightarrow> 'v node \<Rightarrow> nat \<times> 'v node" where
  "NewWorkRequestId p s =
     (next_wr s,
      s\<lparr>n_wrs := (n_wrs s)(next_wr s \<mapsto>
          \<lparr>wrid_qp = p, outstanding_sge_cnt = 0, wrid_msg_mr = None\<rparr>),
        next_wr := Suc (next_wr s)\<rparr>)"

definition get_wr :: "nat \<Rightarrow> 'v node \<Rightarrow> work_request_id res" where
  "get_wr w s = (case n_wrs s w of None \<Rightarrow> Inl Undefined | Some x \<Rightarrow> Inr x)"

definition put_wr :: "nat \<Rightarrow> work_request_id \<Rightarrow> 'v node \<Rightarrow> 'v node" where
  "put_wr w x s = s\<lparr>n_wrs := (n_wrs s)(w \<mapsto> x)\<rparr>"

definition DeleteWorkRequestId :: "nat \<Rightarrow> nat \<Rightarrow> 'v node \<Rightarrow> 'v node res" where
  "DeleteWorkRequestId p w s =
     rbind (get_wr w s) (\<lambda>x. check (wrid_qp x = p) (Inr (s\<lparr>n_wrs := (n_wrs s)(w := None)\<rparr>)))"

definition the_mr :: "work_request_id \<Rightarrow> nat res" where
  "the_mr x = (case wrid_msg_mr x of None \<Rightarrow> Inl Undefined | Some i \<Rightarrow> Inr i)"

definition post_send :: "'v env \<Rightarrow> nat \<Rightarrow> send_wr \<Rightarrow> 'v node \<Rightarrow> 'v node res" where
  "post_send E p wr s =
     (let (rc, v) = e_post_send E (n_ext s) p wr in check (rc = 0) (Inr (s\<lparr>n_ext := v\<rparr>)))"

definition PostRecvRequest :: "'v env \<Rightarrow> nat \<Rightarrow> nat \<Rightarrow> 'v node \<Rightarrow> 'v node res" where
  "PostRecvRequest E p i s =
     (let (w, s1) = NewWorkRequestId p s;
          s2 = put_wr w \<lparr>wrid_qp = p, outstanding_sge_cnt = 0, wrid_msg_mr = Some i\<rparr> s1
      in rbind (get_mr i s2) (\<lambda>mr.
         rbind (vec_at (sge_vec (mr_desc mr)) 0) (\<lambda>sge.
           let (rc, v) = e_post_recv E (n_ext s2) p \<lparr>rw_wr_id = w, rw_sge = sge\<rparr>
           in check (rc = 0) (Inr (s2\<lparr>n_ext := v\<rparr>)))))"

definition PostAllRecvRequest :: "'v env \<Rightarrow> nat \<Rightarrow> 'v node \<Rightarrow> 'v node res" where
  "PostAllRecvRequest E p s =
     rbind (get_qp p s) (\<lambda>q. run (\<lambda>s' i. PostRecvRequest E p i s') s (recv_msg_buf q))"

text \<open>
  \<open>PostWriteRequest\<close>: one RDMA write for each element; only the last one carries the buffer
  id, the others \<open>INT_MAX\<close>. The unsigned loop bound is the signed count converted.
\<close>

fun post_writes ::
  "'v env \<Rightarrow> nat \<Rightarrow> nat \<Rightarrow> mem_desc_proto \<Rightarrow> mem_desc \<Rightarrow> i32 \<Rightarrow> i32 \<Rightarrow> nat \<Rightarrow> nat \<Rightarrow>
   'v node \<Rightarrow> 'v node res"
where
  "post_writes E p w remote_mem local_mem b num 0 i s = Inr s"
| "post_writes E p w remote_mem local_mem b num (Suc k) i s =
     rbind (vec_at (sge_vec local_mem) i) (\<lambda>sge.
     rbind (vec_index (mem_ptr remote_mem) i) (\<lambda>raddr.
     rbind (vec_index (mr_rkeys remote_mem) i) (\<lambda>rkey.
     rbind (post_send E p
        \<lparr>sw_wr_id = w, sw_sge = sge, sw_opcode = IBV_WR_RDMA_WRITE_WITH_IMM,
         sw_imm_data = (if of_nat i = (scast (num - 1) :: u64) then b else INT_MAX),
         sw_remote_addr = raddr, sw_rkey = rkey\<rparr> s)
       (post_writes E p w remote_mem local_mem b num k (Suc i)))))"

definition PostWriteRequest ::
  "'v env \<Rightarrow> nat \<Rightarrow> mem_desc_proto \<Rightarrow> mem_desc \<Rightarrow> i32 \<Rightarrow> i32 \<Rightarrow> 'v node \<Rightarrow> 'v node res"
where
  "PostWriteRequest E p remote_mem local_mem b num s =
     (let (w, s1) = NewWorkRequestId p s;
          s2 = put_wr w \<lparr>wrid_qp = p, outstanding_sge_cnt = num, wrid_msg_mr = None\<rparr> s1
      in post_writes E p w remote_mem local_mem b num (unat (scast num :: u64)) 0 s2)"

definition GetOneSendMsgMRFromBuf :: "'v env \<Rightarrow> nat \<Rightarrow> 'v node \<Rightarrow> (nat \<times> 'v node) res" where
  "GetOneSendMsgMRFromBuf E p s =
     rbind (get_qp p s) (\<lambda>q.
     rbind (if send_msg_buf q = []
            then rbind (new_MsgMR E s) (\<lambda>(i, s1). Inr ([i], s1))
            else Inr (send_msg_buf q, s)) (\<lambda>(buf, s1).
     rbind (queue_front buf) (\<lambda>i. Inr (i, put_qp p (q\<lparr>send_msg_buf := tl buf\<rparr>) s1))))"

section \<open>Sending a message\<close>

text \<open>
  The switch of \<open>PostSendRequest\<close>: the message key, the source and size of the message. A
  user key is offset by \<open>kNumType\<close>, a signed addition. The answer for a last piece first
  removes the record just received from \<open>read_queue_\<close> and runs its callback.
\<close>

definition send_switch ::
  "'v env \<Rightarrow> nat \<Rightarrow> msg \<Rightarrow> 'v node \<Rightarrow> (i32 \<times> msg_source \<times> u64 \<times> 'v node) res"
where
  "send_switch E p msg s =
     (case (m_type msg, m_body msg) of
        (kUserMsg, UserBody u) \<Rightarrow>
          check (m_bytes msg = of_nat sizeof_UserMsg)
           (if 2 ^ 31 - 1 < sint (msg_type_int kNumType) + sint (um_msg_type u)
            then Inl Undefined
            else Inr (msg_type_int kNumType + um_msg_type u, FromAddr (um_ptr u), um_bytes u, s))
      | (kPleaseWrite, CtrlBody bs) \<Rightarrow>
          check (m_bytes msg = of_nat sizeof_PleaseWrite)
           (Inr (msg_type_int kPleaseWrite, FromBytes bs, m_bytes msg, s))
      | (kFreeBufferPair, CtrlBody bs) \<Rightarrow>
          check (m_bytes msg = of_nat sizeof_FreeBufferPair)
           (rbind
             (if fb_last_piece (decode_FreeBufferPair bs)
              then rbind (get_qp p s) (\<lambda>q.
                   rbind (queue_front (read_queue q)) (\<lambda>record.
                   run_callback E (wr_cb record)
                     (put_qp p (q\<lparr>read_queue := tl (read_queue q)\<rparr>) s)))
              else Inr s)
             (\<lambda>s1. Inr (msg_type_int kFreeBufferPair, FromBytes bs, m_bytes msg, s1)))
      | (kNumType, CtrlBody bs) \<Rightarrow> Inr (- 1, FromBytes bs, m_bytes msg, s)
      | _ \<Rightarrow> Inl Undefined)"

definition PostSendRequest :: "'v env \<Rightarrow> nat \<Rightarrow> msg \<Rightarrow> 'v node \<Rightarrow> 'v node res" where
  "PostSendRequest E p msg s =
     rbind (send_switch E p msg s) (\<lambda>(msg_type_key, src, bytes, s1).
       check (src \<noteq> FromAddr 0)
        (check (0 < bytes)
          (rbind (GetOneSendMsgMRFromBuf E p s1) (\<lambda>(i, s2).
           rbind (set_msg E i msg_type_key src bytes (m_cb msg) s2) (\<lambda>s3.
             let (w, s4) = NewWorkRequestId p s3;
                 s5 = put_wr w \<lparr>wrid_qp = p, outstanding_sge_cnt = 0, wrid_msg_mr = Some i\<rparr> s4
             in rbind (get_mr i s5) (\<lambda>mr.
                rbind (vec_at (sge_vec (mr_desc mr)) 0) (\<lambda>sge.
                  post_send E p
                    \<lparr>sw_wr_id = w, sw_sge = sge, sw_opcode = IBV_WR_SEND_WITH_IMM,
                     sw_imm_data = msg_type_key, sw_remote_addr = 0, sw_rkey = 0\<rparr> s5)))))))"

definition push_read_record :: "nat \<Rightarrow> work_record \<Rightarrow> 'v node \<Rightarrow> 'v node res" where
  "push_read_record p record s =
     rbind (get_qp p s)
       (\<lambda>q. Inr (put_qp p (q\<lparr>read_queue := queue_push (read_queue q) record\<rparr>) s))"

definition DealWorkRecord :: "'v env \<Rightarrow> nat \<Rightarrow> work_record \<Rightarrow> u64 \<Rightarrow> 'v node \<Rightarrow> 'v node res" where
  "DealWorkRecord E p record src_addr s =
     rbind (get_qp p s) (\<lambda>q.
       let msg = Msg_PleaseWrite \<lparr>pw_dst_machine_id = this_machine_id q, pw_src_addr = src_addr,
                   pw_bytes = wr_bytes record\<rparr>
       in rbind (push_read_record p record s) (PostSendRequest E p msg))"

section \<open>IBVerbsCommNet: choosing the queue pair\<close>

text \<open>\<open>SendMsg\<close> follows the pointer without the \<open>CHECK\<close> the other methods have.\<close>

definition SendMsg ::
  "'v env \<Rightarrow> i64 \<Rightarrow> i32 \<Rightarrow> u64 \<Rightarrow> u64 \<Rightarrow> callback option \<Rightarrow> 'v node \<Rightarrow> 'v node res"
where
  "SendMsg E dst_machine_id msg_type p bytes cb s =
     (let msg = Msg_UserMsg \<lparr>um_msg_type = msg_type, um_ptr = p, um_bytes = bytes\<rparr> cb in
      rbind (vec_at (qp_vec s) (unat dst_machine_id)) (\<lambda>q.
        if q = None then Inl Undefined else PostSendRequest E (unat dst_machine_id) msg s))"

definition DoRead ::
  "'v env \<Rightarrow> i64 \<Rightarrow> u64 \<Rightarrow> u64 \<Rightarrow> u64 \<Rightarrow> callback option \<Rightarrow> 'v node \<Rightarrow> 'v node res"
where
  "DoRead E src_machine_id src_addr bytes dst_addr cb s =
     rbind (checked_qp src_machine_id s) (\<lambda>p.
       DealWorkRecord E p (WorkRecord src_machine_id dst_addr bytes 0 cb) src_addr s)"

definition qp_RegisterReadDoneCb :: "nat \<Rightarrow> callback option \<Rightarrow> 'v node \<Rightarrow> 'v node res" where
  "qp_RegisterReadDoneCb p cb s =
     rbind (get_qp p s)
       (\<lambda>q. Inr (put_qp p (q\<lparr>read_done_cbs := queue_push (read_done_cbs q) cb\<rparr>) s))"

definition RegisterReadDoneCb :: "i64 \<Rightarrow> callback option \<Rightarrow> 'v node \<Rightarrow> 'v node res" where
  "RegisterReadDoneCb dst_machine_id cb s =
     rbind (checked_qp dst_machine_id s) (\<lambda>p. qp_RegisterReadDoneCb p cb s)"

definition Normal2RegisterDone :: "'v env \<Rightarrow> 'v node n2r" where
  "Normal2RegisterDone E dst_machine_id send_mem_desc recv_mem_desc_proto b num s =
     rbind (checked_qp dst_machine_id s) (\<lambda>p.
       PostWriteRequest E p recv_mem_desc_proto send_mem_desc b num s)"

definition Register2NormalDone :: "'v env \<Rightarrow> i64 \<Rightarrow> i32 \<Rightarrow> bool \<Rightarrow> 'v node \<Rightarrow> 'v node res" where
  "Register2NormalDone E machine_id b last_piece s =
     (let msg = Msg_FreeBufferPair (e_padding E)
            \<lparr>fb_src_machine_id = machine_id, fb_buffer_id = b, fb_last_piece = last_piece\<rparr>
      in rbind (checked_qp machine_id s) (\<lambda>p. PostSendRequest E p msg s))"

definition qp_GetWorkRecord :: "nat \<Rightarrow> 'v node \<Rightarrow> work_record res" where
  "qp_GetWorkRecord p s = rbind (get_qp p s) (\<lambda>q. queue_front (read_queue q))"

definition GetWorkRecord :: "'v node get_record" where
  "GetWorkRecord machine_id s = rbind (checked_qp machine_id s) (\<lambda>p. qp_GetWorkRecord p s)"

definition qp_SetWorkRecordOffset :: "nat \<Rightarrow> u64 \<Rightarrow> 'v node \<Rightarrow> 'v node res" where
  "qp_SetWorkRecordOffset p offset s =
     rbind (get_qp p s) (\<lambda>q.
     rbind (queue_front (read_queue q)) (\<lambda>r.
       Inr (put_qp p (q\<lparr>read_queue := r\<lparr>wr_offset := offset\<rparr> # tl (read_queue q)\<rparr>) s)))"

definition SetWorkRecordOffset :: "'v node set_offset" where
  "SetWorkRecordOffset machine_id offset s =
     rbind (checked_qp machine_id s) (\<lambda>p. qp_SetWorkRecordOffset p offset s)"

definition RegisterMsgHandler :: "i32 \<Rightarrow> nat option \<Rightarrow> 'v node \<Rightarrow> 'v node" where
  "RegisterMsgHandler msg_type handler s =
     s\<lparr>msg_handlers := (case msg_handlers s msg_type of
         None \<Rightarrow> (msg_handlers s)(msg_type \<mapsto> handler)
       | Some _ \<Rightarrow> msg_handlers s)\<rparr>"

definition GetMsgHandler :: "i32 \<Rightarrow> 'v node \<Rightarrow> nat option res" where
  "GetMsgHandler msg_type s =
     (case msg_handlers s msg_type of None \<Rightarrow> Inl CheckFailed | Some h \<Rightarrow> Inr h)"

section \<open>IBVerbsHelper: the helpers of a queue pair\<close>

definition with_helper ::
  "nat \<Rightarrow> ('v node wstate \<Rightarrow> 'v node wstate res) \<Rightarrow> 'v node \<Rightarrow> 'v node res"
where
  "with_helper p f s =
     rbind (get_qp p s) (\<lambda>q.
       case helper q of
         None \<Rightarrow> Inl Undefined
       | Some h \<Rightarrow>
           rbind (f (h, n_mem s, s)) (\<lambda>(h', m', s').
           rbind (get_qp p s') (\<lambda>q'. Inr ((put_qp p (q'\<lparr>helper := Some h'\<rparr>) s')\<lparr>n_mem := m'\<rparr>))))"

definition helper_AsyncWrite :: "'v env \<Rightarrow> nat \<Rightarrow> work_record \<Rightarrow> 'v node \<Rightarrow> 'v node res" where
  "helper_AsyncWrite E p record =
     with_helper p (AsyncWrite (e_cfg E) (Normal2RegisterDone E) record)"

definition helper_FreeBuffer :: "'v env \<Rightarrow> nat \<Rightarrow> i32 \<Rightarrow> 'v node \<Rightarrow> 'v node res" where
  "helper_FreeBuffer E p b = with_helper p (FreeBuffer (e_cfg E) (Normal2RegisterDone E) b)"

text \<open>\<open>Register2NormalDone\<close> as \<open>SyncRead\<close> calls it: on the node with the copied memory.\<close>

definition node_r2n :: "'v env \<Rightarrow> 'v node r2n" where
  "node_r2n E mid b is_last = (\<lambda>(m, s).
     rbind (Register2NormalDone E mid b is_last (s\<lparr>n_mem := m\<rparr>)) (\<lambda>s'. Inr (n_mem s', s')))"

definition helper_SyncRead :: "'v env \<Rightarrow> nat \<Rightarrow> i64 \<Rightarrow> i32 \<Rightarrow> mem_desc \<Rightarrow> 'v node \<Rightarrow> 'v node res" where
  "helper_SyncRead E p machine_id b recv_mem_desc s =
     rbind (get_qp p s) (\<lambda>q.
       if helper q = None then Inl Undefined
       else rbind (SyncRead (e_cfg E) GetWorkRecord SetWorkRecordOffset (node_r2n E)
              machine_id b recv_mem_desc (n_mem s, s)) (\<lambda>(m', s'). Inr (s'\<lparr>n_mem := m'\<rparr>)))"

section \<open>Completion handlers\<close>

definition RDMARecvDone :: "'v env \<Rightarrow> nat \<Rightarrow> nat \<Rightarrow> i32 \<Rightarrow> 'v node \<Rightarrow> 'v node res" where
  "RDMARecvDone E p w imm_data s =
     rbind
       (if imm_data \<noteq> INT_MAX
        then rbind (get_qp p s) (\<lambda>q.
             if sint imm_data < 0 then Inl Undefined
             else rbind (vec_index (qp_mem_desc q) (nat (sint imm_data))) (\<lambda>d.
               helper_SyncRead E p (peer_machine_id q) imm_data (snd d) s))
        else Inr s)
       (\<lambda>s1. rbind (get_wr w s1) (\<lambda>x. rbind (the_mr x) (\<lambda>i.
         rbind (PostRecvRequest E p i s1) (DeleteWorkRequestId p w))))"

definition RDMAWriteDone :: "nat \<Rightarrow> nat \<Rightarrow> 'v node \<Rightarrow> 'v node res" where
  "RDMAWriteDone p w s =
     rbind (get_wr w s) (\<lambda>x.
       if sint (outstanding_sge_cnt x) = - (2 ^ 31) then Inl Undefined
       else
         let x' = x\<lparr>outstanding_sge_cnt := outstanding_sge_cnt x - 1\<rparr>;
             s1 = put_wr w x' s
         in if outstanding_sge_cnt x' = 0 then DeleteWorkRequestId p w s1 else Inr s1)"

definition SendDone :: "'v env \<Rightarrow> nat \<Rightarrow> nat \<Rightarrow> 'v node \<Rightarrow> 'v node res" where
  "SendDone E p w s =
     rbind (get_wr w s) (\<lambda>x. rbind (the_mr x) (\<lambda>i. rbind (get_mr i s) (\<lambda>mr.
     rbind (if is_user_msg mr then run_callback E (mr_cb mr) s else Inr s) (\<lambda>s1.
     rbind (get_qp p s1) (\<lambda>q.
       DeleteWorkRequestId p w
         (put_qp p (q\<lparr>send_msg_buf := queue_push (send_msg_buf q) i\<rparr>) s1))))))"

text \<open>
  The switch of \<open>RecvDone\<close> on a control message, and the call of the user's handler
  otherwise. The last piece of a read takes the oldest registered read-done callback.
\<close>

definition recv_control ::
  "'v env \<Rightarrow> nat \<Rightarrow> i32 \<Rightarrow> u64 \<Rightarrow> u64 \<Rightarrow> 'v node \<Rightarrow> 'v node res"
where
  "recv_control E p msg_type_key ptr bytes s =
     (if msg_type_key = msg_type_int kPleaseWrite then
        check (bytes = of_nat sizeof_PleaseWrite)
         (let please_write = decode_PleaseWrite (load (n_mem s) ptr sizeof_PleaseWrite)
          in helper_AsyncWrite E p
               (WorkRecord (pw_dst_machine_id please_write) (pw_src_addr please_write)
                 (pw_bytes please_write) 0 None) s)
      else if msg_type_key = msg_type_int kFreeBufferPair then
        check (bytes = of_nat sizeof_FreeBufferPair)
         (let free_buffer_pair = decode_FreeBufferPair (load (n_mem s) ptr sizeof_FreeBufferPair)
          in rbind (helper_FreeBuffer E p (fb_buffer_id free_buffer_pair) s) (\<lambda>s1.
             if fb_last_piece (decode_FreeBufferPair (load (n_mem s1) ptr sizeof_FreeBufferPair))
             then rbind (get_qp p s1) (\<lambda>q.
                  rbind (queue_front (read_done_cbs q)) (\<lambda>cb.
                    check (cb \<noteq> None)
                     (run_callback E cb
                       (put_qp p (q\<lparr>read_done_cbs := tl (read_done_cbs q)\<rparr>) s1))))
             else Inr s1))
      else Inr s)"

definition recv_user ::
  "'v env \<Rightarrow> i32 \<Rightarrow> u64 \<Rightarrow> u64 \<Rightarrow> 'v node \<Rightarrow> 'v node res"
where
  "recv_user E msg_type_key ptr bytes s =
     rbind (GetMsgHandler (msg_type_key - msg_type_int kNumType) s) (\<lambda>handler.
       case handler of None \<Rightarrow> Inl CheckFailed | Some f \<Rightarrow> e_run_handler E f ptr bytes s)"

definition recv_switch ::
  "'v env \<Rightarrow> nat \<Rightarrow> i32 \<Rightarrow> u64 \<Rightarrow> u64 \<Rightarrow> 'v node \<Rightarrow> 'v node res"
where
  "recv_switch E p msg_type_key ptr bytes s =
     (if sint msg_type_key < sint (msg_type_int kNumType)
      then recv_control E p msg_type_key ptr bytes s
      else recv_user E msg_type_key ptr bytes s)"

definition RecvDone :: "'v env \<Rightarrow> nat \<Rightarrow> nat \<Rightarrow> i32 \<Rightarrow> 'v node \<Rightarrow> 'v node res" where
  "RecvDone E p w msg_type_key s =
     rbind (get_wr w s) (\<lambda>x. rbind (the_mr x) (\<lambda>i. rbind (get_mr i s) (\<lambda>mr.
       let ptr = msg_ptr mr; bytes = msg_bytes (n_mem s) mr in
       rbind (recv_switch E p msg_type_key ptr bytes s) (\<lambda>s1.
       rbind (PostRecvRequest E p i s1) (DeleteWorkRequestId p w)))))"

end
