(* ===== verification/QPProps.thy ===== *)
theory QPProps
  imports QP
begin

text \<open>
  Properties of the queue pairs: what a message buffer carries, which handler a message
  reaches, what one \<open>PostWriteRequest\<close> posts and when its work-request object is deleted,
  and the bytes \<open>SyncRead\<close> delivers on a node.
\<close>

section \<open>Access lemmas\<close>

lemma checked_qp_Inr:
  "checked_qp mid s = Inr p \<longleftrightarrow>
     p = unat mid \<and> p < length (qp_vec s) \<and> (\<exists>q. qp_vec s ! p = Some q)"
  by (auto simp: checked_qp_def res_eqs vec_at_Inr)

lemma get_qp_Inr: "get_qp p s = Inr q \<longleftrightarrow> p < length (qp_vec s) \<and> qp_vec s ! p = Some q"
  by (auto simp: get_qp_def split: option.splits)

lemma get_put_qp [simp]: "p < length (qp_vec s) \<Longrightarrow> get_qp p (put_qp p q s) = Inr q"
  by (simp add: get_qp_def put_qp_def)

lemma checked_put_qp [simp]:
  "p < length (qp_vec s) \<Longrightarrow> p = unat mid \<Longrightarrow> checked_qp mid (put_qp p q s) = Inr p"
  by (simp add: checked_qp_Inr put_qp_def)

lemma mem_frame [simp]:
  "get_qp p (s\<lparr>n_mem := m\<rparr>) = get_qp p s" "checked_qp mid (s\<lparr>n_mem := m\<rparr>) = checked_qp mid s"
  by (simp_all add: get_qp_def checked_qp_def)

lemma put_qp_fields [simp]:
  "n_wrs (put_qp p q s) = n_wrs s" "n_mrs (put_qp p q s) = n_mrs s" "n_mem (put_qp p q s) = n_mem s"
  by (simp_all add: put_qp_def)

section \<open>A concrete machine for the witnesses\<close>

definition demo_env :: "unit env" where
  "demo_env =
     \<lparr>e_cfg = default_config [] 1, e_malloc = (\<lambda>v n. (65536, v)),
      e_reg_mr = (\<lambda>v a n. (Some \<lparr>mr_lkey = 1, mr_rkey = 2\<rparr>, v)),
      e_post_send = (\<lambda>v p wr. (0, v)), e_post_recv = (\<lambda>v p wr. (0, v)),
      e_padding = (0, 0, 0), e_run_cb = (\<lambda>f s. Inr s), e_run_handler = (\<lambda>f p n s. Inr s)\<rparr>"

definition demo_helper :: write_helper where
  "demo_helper =
     \<lparr>buffer_id = 0, pending_record_queue = [], cur_record_queue = [], idle_buffer_queue = [0],
      cur_record = WorkRecord 0 0 0 0 None, cur_write_handle = h_InitWriteHandle,
      send_recv_pair = [demo_pair]\<rparr>"

definition demo_qp :: qp where
  "demo_qp =
     \<lparr>this_machine_id = 0, peer_machine_id = 1, recv_msg_buf = [], send_msg_buf = [],
      helper = Some demo_helper, qp_mem_desc = [(fst demo_pair, fst demo_pair)],
      send_recv_mem_desc = [demo_pair], read_queue = [WorkRecord 1 100 3 0 None],
      read_done_cbs = []\<rparr>"

definition demo_node :: "unit node" where
  "demo_node =
     \<lparr>n_mem = (\<lambda>_. 7), n_mrs = [0 \<mapsto> \<lparr>mr_desc = fst demo_pair, mr_ptr = 65536,
        mr_msg_type_key = 0, mr_cb = None\<rparr>], next_mr = 1,
      n_wrs = [0 \<mapsto> \<lparr>wrid_qp = 1, outstanding_sge_cnt = 2, wrid_msg_mr = None\<rparr>], next_wr = 1,
      qp_vec = [None, Some demo_qp], msg_handlers = [10 \<mapsto> Some 4], n_ext = ()\<rparr>"

lemma demo_buffer_bytes: "buffer_bytes (default_config [] 1) = 4194304"
  by (simp add: buffer_bytes_def PerRegisterBufferMBytes_def default_config_def)

lemma demo_config_ok: "config_ok (default_config [] 1)"
  by (simp add: config_ok_def default_config_def)

lemma demo_buffer_desc: "buffer_desc (default_config [] 1) (fst demo_pair) 4096"
  by (simp add: buffer_desc_def SgeBytes_def default_config_def adjacent_def demo_pair_def)

section \<open>The record being received\<close>

text \<open>The queue pair provides what \<open>SyncRead\<close> relies on.\<close>

interpretation node_store: record_store GetWorkRecord SetWorkRecordOffset
proof unfold_locales
  fix mid :: i64 and s :: "'v node" and r off
  assume "GetWorkRecord mid s = Inr r"
  then obtain p q rs where p: "checked_qp mid s = Inr p" "get_qp p s = Inr q"
    "read_queue q = r # rs"
    by (auto simp: GetWorkRecord_def qp_GetWorkRecord_def res_eqs queue_front_Inr)
  let ?t = "put_qp p (q\<lparr>read_queue := r\<lparr>wr_offset := off\<rparr> # rs\<rparr>) s"
  have "SetWorkRecordOffset mid off s = Inr ?t"
    using p by (simp add: SetWorkRecordOffset_def qp_SetWorkRecordOffset_def queue_front_def)
  moreover have "GetWorkRecord mid ?t = Inr (r\<lparr>wr_offset := off\<rparr>)"
    using p by (simp add: GetWorkRecord_def qp_GetWorkRecord_def checked_qp_Inr queue_front_def)
  ultimately show "\<exists>n'. SetWorkRecordOffset mid off s = Inr n' \<and>
      GetWorkRecord mid n' = Inr (r\<lparr>wr_offset := off\<rparr>)" by blast
qed

lemma GetWorkRecord_mem [simp]: "GetWorkRecord mid (s\<lparr>n_mem := m\<rparr>) = GetWorkRecord mid s"
  by (simp add: GetWorkRecord_def qp_GetWorkRecord_def)

text \<open>
  C13: data integrity of a read. While a record is received, its destination holds the part
  received so far; when a registered buffer holds the next piece, \<open>SyncRead\<close> copies exactly
  that piece behind it, touches nothing outside the destination, moves the record on and
  answers the sender, with \<open>last_piece\<close> exactly when all bytes are in place, so the
  read callback, which that answer runs, always sees the complete data.
\<close>

theorem read_data_integrity:
  assumes "config_ok (e_cfg E)" and "get_qp p s = Inr q" and "helper q \<noteq> None"
    and "GetWorkRecord mid s = Inr r" and "wr_offset r < wr_bytes r"
    and "piece_ready (e_cfg E) data r d (n_mem s)" and "prefix_received data r (n_mem s)"
  shows "\<exists>t is_last. helper_SyncRead E p mid b d s = Register2NormalDone E mid b is_last t \<and>
    GetWorkRecord mid t = Inr (advance (e_cfg E) r) \<and>
    prefix_received data (advance (e_cfg E) r) (n_mem t) \<and>
    (is_last \<longleftrightarrow> wr_offset (advance (e_cfg E) r) = wr_bytes r) \<and>
    (is_last \<longrightarrow> load (n_mem t) (wr_begin_addr r) (unat (wr_bytes r)) = take (unat (wr_bytes r)) data) \<and>
    (\<forall>x. x \<notin> span (wr_begin_addr r) (unat (wr_bytes r)) \<longrightarrow> n_mem t x = n_mem s x)"
proof -
  obtain m' s' is_last where sr: "SyncRead (e_cfg E) GetWorkRecord SetWorkRecordOffset (node_r2n E)
      mid b d (n_mem s, s) = node_r2n E mid b is_last (m', s')"
    "GetWorkRecord mid s' = Inr (advance (e_cfg E) r)"
    "prefix_received data (advance (e_cfg E) r) m'"
    "is_last \<longleftrightarrow> wr_offset (advance (e_cfg E) r) = wr_bytes r"
    "\<forall>x. x \<notin> span (wr_begin_addr r) (unat (wr_bytes r)) \<longrightarrow> m' x = n_mem s x"
    using node_store.SyncRead_advances [OF assms(1,4-7), where b = b
        and r2n = "node_r2n E"] by blast
  let ?t = "s'\<lparr>n_mem := m'\<rparr>"
  have "helper_SyncRead E p mid b d s = Register2NormalDone E mid b is_last ?t"
    using assms(2,3) by (auto simp: helper_SyncRead_def sr(1) node_r2n_def rbind_def split: sum.splits)
  moreover have "load m' (wr_begin_addr r) (unat (wr_bytes r)) = take (unat (wr_bytes r)) data"
    if is_last using sr(3,4) that by (simp add: prefix_received_def advance_def)
  ultimately show ?thesis using sr(2-5) by (intro exI [of _ ?t] exI [of _ is_last]) simp
qed

theorem read_data_integrity_witness:
  "\<exists>t. helper_SyncRead demo_env 1 1 0 (fst demo_pair) demo_node = Register2NormalDone demo_env 1 0 True t \<and>
    load (n_mem t) 100 3 = [7, 7, 7]"
proof -
  let ?r = "WorkRecord 1 100 3 0 None" and ?c = "default_config [] 1"
  have n: "next_bytes ?c ?r = 3"
    by (simp add: transfer_bytes_def demo_buffer_bytes WorkRecord_def)
  have p: "get_qp 1 demo_node = Inr demo_qp" "helper demo_qp \<noteq> None"
    "GetWorkRecord 1 demo_node = Inr ?r" "wr_offset ?r < wr_bytes ?r"
    by (simp_all add: get_qp_def demo_node_def demo_qp_def GetWorkRecord_def qp_GetWorkRecord_def
        checked_qp_def vec_at_def queue_front_def WorkRecord_def)
  have "span 4096 3 \<inter> span 100 3 = {}" by (simp add: span_Suc numeral_3_eq_3)
  moreover have "load (n_mem demo_node) 4096 3 = [7, 7, 7]"
    by (simp add: demo_node_def numeral_3_eq_3)
  ultimately have ready: "piece_ready ?c [7, 7, 7] ?r (fst demo_pair) (n_mem demo_node)"
    using demo_buffer_desc n unfolding piece_ready_def
    by (intro exI [of _ 4096]) (simp add: WorkRecord_def)
  have pre: "prefix_received [7, 7, 7] ?r (n_mem demo_node)"
    by (simp add: prefix_received_def WorkRecord_def)
  have c: "e_cfg demo_env = ?c" by (simp add: demo_env_def)
  have last: "wr_offset (advance ?c ?r) = wr_bytes ?r"
    by (simp add: advance_def transfer_bytes_def demo_buffer_bytes WorkRecord_def)
  have "wr_begin_addr ?r = 100" "unat (wr_bytes ?r) = 3" by (simp_all add: WorkRecord_def)
  with read_data_integrity [of demo_env 1 demo_node demo_qp 1 ?r "[7, 7, 7]" "fst demo_pair" 0]
    p ready pre last demo_config_ok show ?thesis
    unfolding c by auto
qed

section \<open>Message buffers\<close>

text \<open>
  C17: a message survives the trip. If a message was put in a send buffer and a receive
  buffer holds the same bytes (what the posted send does), the receiver reads the length
  that was sent, and finds behind it exactly the bytes of the message.
\<close>

theorem message_buffer_roundtrip:
  assumes mr: "get_mr i s = Inr mr" and set: "set_msg E i key src bytes cb s = Inr s'"
    and own: "\<And>bs. src = FromBytes bs \<Longrightarrow> length bs = unat bytes"
    and apart: "\<And>a. src = FromAddr a \<Longrightarrow> span a (unat bytes) \<inter> span (mr_ptr mr) 8 = {}"
    and arrived: "load m2 (mr_ptr mr2) (8 + unat bytes) = load (n_mem s') (mr_ptr mr) (8 + unat bytes)"
  shows "msg_bytes m2 mr2 = bytes \<and>
    load m2 (msg_ptr mr2) (unat bytes) = source_bytes (n_mem s) src (unat bytes)"
proof -
  let ?n = "unat bytes" and ?p = "mr_ptr mr"
  let ?m1 = "store (n_mem s) ?p (le_encode 8 bytes)"
  let ?data = "source_bytes ?m1 src ?n"
  have fits: "?n + 8 \<le> unat (MaxMsgBytes (e_cfg E))" and s': "n_mem s' = store ?m1 (?p + 8) ?data"
    using mr set by (auto simp: set_msg_def check_eq_Inr Let_def split: if_splits)
  have small: "8 + ?n \<le> 2 ^ 64"
    using fits unat_u64_less [of "MaxMsgBytes (e_cfg E)"] by simp
  have data: "?data = source_bytes (n_mem s) src ?n" "length ?data = ?n"
    using apart own by (cases src; simp add: load_store_other)+
  have "span ?p 8 \<inter> span (?p + 8) ?n = {}"
    using span_disjoint_next [of 8 ?n ?p] small by simp
  then have "load (n_mem s') ?p 8 = load ?m1 ?p 8"
    unfolding s' by (intro load_store_other) (simp add: data(2))
  also have "\<dots> = le_encode 8 bytes" using load_store_same [of "le_encode 8 bytes" "n_mem s" ?p] by simp
  finally have head: "load (n_mem s') ?p 8 = le_encode 8 bytes" .
  have body: "load (n_mem s') (?p + 8) ?n = ?data"
    using load_store_same [of ?data ?m1 "?p + 8"] small by (simp add: s' data(2))
  have "load m2 (mr_ptr mr2) 8 @ load m2 (mr_ptr mr2 + 8) ?n = le_encode 8 bytes @ ?data"
    using arrived head body by (simp add: load_add)
  then have "load m2 (mr_ptr mr2) 8 = le_encode 8 bytes" "load m2 (mr_ptr mr2 + 8) ?n = ?data"
    by (simp_all add: append_eq_append_conv)
  then show ?thesis using data(1) by (simp add: msg_bytes_def msg_ptr_def le_roundtrip_64)
qed

theorem message_buffer_roundtrip_witness:
  "\<exists>s' mr. get_mr 0 demo_node = Inr mr \<and>
    set_msg demo_env 0 13 (FromBytes [9]) 1 None demo_node = Inr s' \<and>
    msg_bytes (n_mem s') mr = 1 \<and> load (n_mem s') (msg_ptr mr) 1 = [9]"
proof -
  obtain mr where mr: "get_mr 0 demo_node = Inr mr"
    by (simp add: get_mr_def demo_node_def)
  obtain s' where s': "set_msg demo_env 0 13 (FromBytes [9]) 1 None demo_node = Inr s'"
    by (simp add: set_msg_def mr demo_env_def MaxMsgBytes_def default_config_def Let_def)
  from message_buffer_roundtrip [OF mr s', of "n_mem s'" mr] mr s' show ?thesis by auto
qed

section \<open>Which handler a message reaches\<close>



text \<open>
  The first handler registered for a message type stays: a later registration for the
  same type changes nothing, one for another type leaves it alone, and a type without any
  handler aborts the receiver.
\<close>

lemma first_handler_stays:
  "GetMsgHandler t' (RegisterMsgHandler t h s) =
     (if t' = t then Inr (case msg_handlers s t of None \<Rightarrow> h | Some h0 \<Rightarrow> h0)
      else GetMsgHandler t' s) \<and>
   RegisterMsgHandler t h' (RegisterMsgHandler t h s) = RegisterMsgHandler t h s \<and>
   (GetMsgHandler t' s = Inl CheckFailed) = (msg_handlers s t' = None)"
  by (auto simp: GetMsgHandler_def RegisterMsgHandler_def split: option.splits)



section \<open>What a write posts, and the life of its work-request object\<close>

definition write_wr ::
  "nat \<Rightarrow> mem_desc_proto \<Rightarrow> mem_desc \<Rightarrow> i32 \<Rightarrow> nat \<Rightarrow> nat \<Rightarrow> send_wr"
where
  "write_wr w remote_mem local_mem b count i =
     \<lparr>sw_wr_id = w, sw_sge = sge_vec local_mem ! i, sw_opcode = IBV_WR_RDMA_WRITE_WITH_IMM,
      sw_imm_data = (if Suc i = count then b else INT_MAX),
      sw_remote_addr = mem_ptr remote_mem ! i, sw_rkey = mr_rkeys remote_mem ! i\<rparr>"

lemma last_element:
  assumes "0 < sint (num :: i32)" and "i < nat (sint num)"
  shows "of_nat i = (scast (num - 1) :: u64) \<longleftrightarrow> Suc i = nat (sint num)"
proof -
  have s: "sint (num - 1) = sint num - 1" using assms(1) by (intro sint_minus_1_i32) simp
  then have "unat (scast (num - 1) :: u64) = nat (sint num) - 1"
    using assms(1) by (subst unat_scast_nonneg) auto
  moreover have "nat (sint num) < 2 ^ 64" using sint_lt [of num] by simp
  then have "unat (of_nat i :: u64) = i" using assms(2) by (intro unat_of_nat_u64) simp
  ultimately show ?thesis
    using assms by (metis Suc_diff_1 Suc_inject gr_implies_not0 not_gr_zero unsigned_word_eqI zero_less_nat_eq)
qed

lemma post_writes_run:
  assumes "0 < sint num" and "i + k \<le> nat (sint num)" and "i + k \<le> length (sge_vec local_mem)"
    and "i + k \<le> length (mem_ptr remote_mem)" and "i + k \<le> length (mr_rkeys remote_mem)"
  shows "post_writes E p w remote_mem local_mem b num k i s =
    run (\<lambda>s' wr. post_send E p wr s') s
      (map (write_wr w remote_mem local_mem b (nat (sint num))) [i..<i + k])"
  using assms(2-)
proof (induction k arbitrary: i s)
  case (Suc k)
  have "of_nat i = (scast (num - 1) :: u64) \<longleftrightarrow> Suc i = nat (sint num)"
    using Suc.prems(1) by (intro last_element [OF assms(1)]) simp
  moreover have "[i..<i + Suc k] = i # [Suc i..<Suc i + k]" by (simp add: upt_rec)
  ultimately show ?case
    using Suc by (simp add: vec_at_def vec_index_def write_wr_def cong: rbind_cong)
qed simp

text \<open>
  C18: \<open>PostWriteRequest\<close> of a buffer of \<open>num\<close> elements posts \<open>num\<close> RDMA writes, element
  \<open>i\<close> to remote address \<open>i\<close> under remote key \<open>i\<close>, in order and all on one new work-request
  object that counts \<open>num\<close>; the last one, and no other, carries the buffer id.
\<close>

theorem PostWriteRequest_posts:
  assumes "0 < sint num" and "nat (sint num) \<le> length (sge_vec local_mem)"
    and "nat (sint num) \<le> length (mem_ptr remote_mem)"
    and "nat (sint num) \<le> length (mr_rkeys remote_mem)"
  shows "PostWriteRequest E p remote_mem local_mem b num s =
    run (\<lambda>s' wr. post_send E p wr s')
      (s\<lparr>next_wr := Suc (next_wr s),
         n_wrs := (n_wrs s)(next_wr s \<mapsto>
           \<lparr>wrid_qp = p, outstanding_sge_cnt = num, wrid_msg_mr = None\<rparr>)\<rparr>)
      (map (write_wr (next_wr s) remote_mem local_mem b (nat (sint num))) [0..<nat (sint num)])"
proof -
  have "unat (scast num :: u64) = nat (sint num)"
    using assms(1) by (simp add: unat_scast_nonneg)
  with post_writes_run [OF assms(1), of 0 "nat (sint num)" local_mem remote_mem] assms(2-)
  show ?thesis by (simp add: PostWriteRequest_def NewWorkRequestId_def put_wr_def)
qed

theorem PostWriteRequest_posts_witness:
  "PostWriteRequest demo_env 1 (snd demo_pair) (fst demo_pair) 0 1 demo_node =
    run (\<lambda>s' wr. post_send demo_env 1 wr s')
      (demo_node\<lparr>next_wr := 2, n_wrs := (n_wrs demo_node)(1 \<mapsto>
         \<lparr>wrid_qp = 1, outstanding_sge_cnt = 1, wrid_msg_mr = None\<rparr>)\<rparr>)
      [\<lparr>sw_wr_id = 1, sw_sge = \<lparr>sge_addr = 4096, sge_length = 4194304, sge_lkey = 1\<rparr>,
        sw_opcode = IBV_WR_RDMA_WRITE_WITH_IMM, sw_imm_data = 0, sw_remote_addr = 8192, sw_rkey = 2\<rparr>]"
proof -
  have d: "next_wr demo_node = 1" by (simp add: demo_node_def)
  have p: "0 < sint (1 :: i32)" "nat (sint (1 :: i32)) \<le> length (sge_vec (fst demo_pair))"
    "nat (sint (1 :: i32)) \<le> length (mem_ptr (snd demo_pair))"
    "nat (sint (1 :: i32)) \<le> length (mr_rkeys (snd demo_pair))"
    by (simp_all add: demo_pair_def)
  have wrs: "map (write_wr 1 (snd demo_pair) (fst demo_pair) 0 (nat (sint (1 :: i32)))) [0..<nat (sint (1 :: i32))] =
      [\<lparr>sw_wr_id = 1, sw_sge = \<lparr>sge_addr = 4096, sge_length = 4194304, sge_lkey = 1\<rparr>,
        sw_opcode = IBV_WR_RDMA_WRITE_WITH_IMM, sw_imm_data = 0, sw_remote_addr = 8192, sw_rkey = 2\<rparr>]"
    by (simp add: write_wr_def demo_pair_def)
  from PostWriteRequest_posts [OF p, of demo_env 1 0 demo_node] show ?thesis
    unfolding d wrs by (simp add: numeral_2_eq_2)
qed

lemma sint_is_1: "sint (c :: i32) = 1 \<longleftrightarrow> c = 1"
  by (auto intro: signed_word_eqI)

lemma RDMAWriteDone_step:
  assumes "n_wrs s w = Some x" and "wrid_qp x = p" and "0 < sint (outstanding_sge_cnt x)"
  shows "RDMAWriteDone p w s =
    Inr (s\<lparr>n_wrs := (n_wrs s)(w :=
      (if sint (outstanding_sge_cnt x) = 1 then None
       else Some (x\<lparr>outstanding_sge_cnt := outstanding_sge_cnt x - 1\<rparr>)))\<rparr>)"
proof -
  have "outstanding_sge_cnt x - 1 = 0 \<longleftrightarrow> sint (outstanding_sge_cnt x) = 1"
    by (simp add: sint_is_1)
  with assms show ?thesis
    by (simp add: RDMAWriteDone_def get_wr_def put_wr_def DeleteWorkRequestId_def Let_def)
qed

text \<open>
  C20: the work-request object of a write of \<open>num\<close> elements lives through the first
  \<open>num - 1\<close> completions and is deleted by the last one, and nothing else on the node changes.
\<close>

theorem write_request_lifetime:
  assumes "n_wrs s w = Some x" and "wrid_qp x = p" and "0 < sint (outstanding_sge_cnt x)"
    and "k \<le> nat (sint (outstanding_sge_cnt x))"
  shows "\<exists>obj. run (\<lambda>s' _. RDMAWriteDone p w s') s (replicate k ()) =
      Inr (s\<lparr>n_wrs := (n_wrs s)(w := obj)\<rparr>) \<and>
    (obj = None \<longleftrightarrow> k = nat (sint (outstanding_sge_cnt x)))"
  using assms
proof (induction k arbitrary: s x)
  case 0
  then show ?case by (intro exI [of _ "Some x"]) (simp add: fun_upd_idem)
next
  case (Suc k)
  let ?n = "sint (outstanding_sge_cnt x)"
  let ?x = "x\<lparr>outstanding_sge_cnt := outstanding_sge_cnt x - 1\<rparr>"
  show ?case
  proof (cases "?n = 1")
    case True
    with Suc.prems have "k = 0" by simp
    with True Suc.prems RDMAWriteDone_step [OF Suc.prems(1-3)] show ?thesis
      by (intro exI [of _ None]) (simp add: fun_upd_def)
  next
    case False
    let ?s = "s\<lparr>n_wrs := (n_wrs s)(w \<mapsto> ?x)\<rparr>"
    have n: "sint (outstanding_sge_cnt ?x) = ?n - 1"
      using sint_minus_1_i32 [of "outstanding_sge_cnt x"] Suc.prems(3) by simp
    have "n_wrs ?s w = Some ?x" "wrid_qp ?x = p" "0 < sint (outstanding_sge_cnt ?x)"
      "k \<le> nat (sint (outstanding_sge_cnt ?x))"
      using Suc.prems False n by auto
    from Suc.IH [OF this] obtain obj where obj:
      "run (\<lambda>s' _. RDMAWriteDone p w s') ?s (replicate k ()) = Inr (?s\<lparr>n_wrs := (n_wrs ?s)(w := obj)\<rparr>)"
      "obj = None \<longleftrightarrow> k = nat (sint (outstanding_sge_cnt ?x))" by blast
    have "RDMAWriteDone p w s = Inr ?s"
      using RDMAWriteDone_step [OF Suc.prems(1-3)] False by simp
    then have "run (\<lambda>s' _. RDMAWriteDone p w s') s (replicate (Suc k) ()) =
        run (\<lambda>s' _. RDMAWriteDone p w s') ?s (replicate k ())" by simp
    also have "\<dots> = Inr (s\<lparr>n_wrs := (n_wrs s)(w := obj)\<rparr>)"
      unfolding obj(1) by simp
    finally have "run (\<lambda>s' _. RDMAWriteDone p w s') s (replicate (Suc k) ()) =
        Inr (s\<lparr>n_wrs := (n_wrs s)(w := obj)\<rparr>)" .
    moreover have "obj = None \<longleftrightarrow> Suc k = nat ?n" using obj(2) n Suc.prems(3) by auto
    ultimately show ?thesis by blast
  qed
qed

theorem write_request_lifetime_witness:
  "\<exists>obj. run (\<lambda>s' _. RDMAWriteDone 1 0 s') demo_node (replicate 2 ()) =
      Inr (demo_node\<lparr>n_wrs := (n_wrs demo_node)(0 := obj)\<rparr>) \<and> obj = None"
  using write_request_lifetime [of demo_node 0
      "\<lparr>wrid_qp = 1, outstanding_sge_cnt = 2, wrid_msg_mr = None\<rparr>" 1 2]
  by (auto simp: demo_node_def)

section \<open>Allocating a message buffer\<close>

text \<open>A buffer holds the longest control message, and takes one element.\<close>

definition message_size_ok :: "comm_net_config \<Rightarrow> bool" where
  "message_size_ok c \<longleftrightarrow> 8 + 24 \<le> unat (MaxMsgBytes c) \<and> (\<exists>s. SgeBytes c = Inr s \<and> MaxMsgBytes c \<le> s)"

lemma reg_blocks_state:
  "\<forall>v a n. f (snd (reg v a n)) = f v \<Longrightarrow> reg_blocks reg s p b d v = Inr (d', r, v') \<Longrightarrow> f v' = f v"
proof (induction reg s p b d v rule: reg_blocks.induct)
  case (1 reg s p b d v)
  obtain m v1 where m: "reg v p (min b s) = (m, v1)" by (cases "reg v p (min b s)")
  show ?case
  proof (cases "0 < b \<and> 0 < s")
    case True
    with m "1.prems"(2) obtain x where x: "m = Some x"
      by (cases m) (simp_all add: reg_blocks.simps [of reg s p b d v] Let_def)
    have "f v1 = f v" using "1.prems"(1) m by (metis snd_conv)
    with "1.IH" [OF True refl m [symmetric] x "1.prems"(1)] True m x "1.prems"(2) show ?thesis
      by (simp add: reg_blocks.simps [of reg s p b d v] Let_def)
  next
    case False
    with "1.prems"(2) show ?thesis by (simp add: reg_blocks.simps [of reg s p b d v])
  qed
qed

text \<open>A registration that the device grants, and that leaves \<open>f\<close> of its state alone.\<close>

lemma mem_desc_keeps:
  assumes reg: "\<forall>v a n. \<exists>m v'. reg v a n = (Some m, v') \<and> f v' = f v"
    and s: "SgeBytes c = Inr s" "0 < s" and n: "1 \<le> byte_size"
  shows "\<exists>d v'. IBVerbsMemDesc c reg p byte_size v = Inr (d, v') \<and>
    map sge_addr (sge_vec d) = tile_addrs p (unat byte_size) s \<and>
    map sge_length (sge_vec d) = tile_lengths (unat byte_size) s \<and>
    length (mr_vec d) = length (sge_vec d) \<and> f v' = f v"
proof -
  have "grants reg" using reg unfolding grants_def by metis
  from mem_desc_tiles [OF this s n, of p v] obtain d v' where d: "IBVerbsMemDesc c reg p byte_size v = Inr (d, v')"
    "map sge_addr (sge_vec d) = tile_addrs p (unat byte_size) s"
    "map sge_length (sge_vec d) = tile_lengths (unat byte_size) s"
    "length (mr_vec d) = block_count (unat byte_size) (unat s)" by blast
  moreover have "length (sge_vec d) = block_count (unat byte_size) (unat s)"
    using arg_cong [OF d(2), of length] by (simp add: tile_addrs_def)
  moreover have "\<exists>r. reg_blocks reg s p byte_size \<lparr>sge_vec = [], mr_vec = []\<rparr> v = Inr (d, r, v')"
    using d(1) by (auto simp: IBVerbsMemDesc_def s(1) res_eqs Let_def split: if_splits)
  moreover have "\<forall>v a n. f (snd (reg v a n)) = f v" using reg by (metis snd_conv)
  ultimately have "f v' = f v" using reg_blocks_state [of f reg] by blast
  with d \<open>length (sge_vec d) = block_count (unat byte_size) (unat s)\<close> show ?thesis by auto
qed

lemma new_MsgMR_alloc:
  assumes p: "e_malloc E (n_ext s) (MaxMsgBytes (e_cfg E)) = (p, v1)" "p \<noteq> 0"
    and reg: "\<forall>v a n. \<exists>m v'. e_reg_mr E v a n = (Some m, v') \<and> f v' = f v"
    and size: "message_size_ok (e_cfg E)"
  shows "\<exists>mr v. new_MsgMR E s = Inr (next_mr s,
      s\<lparr>n_mem := store (n_mem s) p (replicate (unat (MaxMsgBytes (e_cfg E))) 0),
        n_mrs := (n_mrs s)(next_mr s \<mapsto> mr), next_mr := Suc (next_mr s), n_ext := v\<rparr>) \<and>
    mr_ptr mr = p \<and> sge_vec (mr_desc mr) \<noteq> [] \<and> f v = f v1"
proof -
  let ?n = "MaxMsgBytes (e_cfg E)"
  obtain sz where sz: "SgeBytes (e_cfg E) = Inr sz" "?n \<le> sz" and n: "32 \<le> unat ?n"
    using size by (auto simp: message_size_ok_def)
  have pos: "0 < sz" "1 \<le> ?n" using sz(2) n by (simp_all add: word_less_nat_alt word_le_nat_alt)
  obtain d v2 where d: "IBVerbsMemDesc (e_cfg E) (e_reg_mr E) p ?n v1 = Inr (d, v2)"
    "map sge_addr (sge_vec d) = tile_addrs p (unat ?n) sz" "f v2 = f v1"
    using mem_desc_keeps [OF reg sz(1) pos] by blast
  have "block_count (unat ?n) (unat sz) = 1"
    using sz(2) n by (simp add: block_count_def word_le_nat_alt div_less)
  with arg_cong [OF d(2), of length] have len: "length (sge_vec d) = 1" by (simp add: tile_addrs_def)
  let ?mr = "\<lparr>mr_desc = d, mr_ptr = p, mr_msg_type_key = 0, mr_cb = None\<rparr>"
  show ?thesis
    using p d(1,3) len by (intro exI [of _ ?mr] exI [of _ v2]) (auto simp: new_MsgMR_def Let_def)
qed

end
