(* ===== verification/NodeLink.thy ===== *)
theory NodeLink
  imports QPProps ReadProtocol
begin

text \<open>
  The handlers of a machine implement the read protocol: each operation of the connection of
  ReadLink.thy is what one whole handler of a queue pair does (\<open>DoRead\<close>, \<open>RecvDone\<close> of a request
  and of an answer, \<open>RDMARecvDone\<close>). The messages and RDMA writes a handler hands to the device
  are read from the device's state by \<open>posted\<close>, a parameter; the name of the work request, which
  only the poster uses, is left out of the comparison.
\<close>

section \<open>The device\<close>

type_synonym 'v posted = "'v \<Rightarrow> (nat \<times> send_wr) list"

definition device_ok :: "'v env \<Rightarrow> 'v posted \<Rightarrow> bool" where
  "device_ok E posted \<longleftrightarrow>
     (\<forall>v p wr. \<exists>v'. e_post_send E v p wr = (0, v') \<and> posted v' = posted v @ [(p, wr)]) \<and>
     (\<forall>v p wr. \<exists>v'. e_post_recv E v p wr = (0, v') \<and> posted v' = posted v)"

definition unnamed :: "send_wr \<Rightarrow> send_wr" where
  "unnamed wr = wr\<lparr>sw_wr_id := 0\<rparr>"

definition sent :: "'v posted \<Rightarrow> 'v node \<Rightarrow> (nat \<times> send_wr) list" where
  "sent posted s = map (apsnd unnamed) (posted (n_ext s))"

text \<open>Steps that post \<open>xs\<close>, allocate work requests, and do nothing else.\<close>

definition only_posts :: "'v posted \<Rightarrow> (nat \<times> send_wr) list \<Rightarrow> 'v node \<Rightarrow> 'v node \<Rightarrow> bool" where
  "only_posts posted xs s s' \<longleftrightarrow> sent posted s' = sent posted s @ xs \<and>
     next_wr s \<le> next_wr s' \<and> (\<forall>w < next_wr s. n_wrs s' w = n_wrs s w) \<and>
     (\<exists>wrs k v. s' = s\<lparr>n_wrs := wrs, next_wr := k, n_ext := v\<rparr>)"

lemma only_postsI:
  assumes "s' = s\<lparr>n_wrs := wrs, next_wr := k, n_ext := v\<rparr>"
    and "map (apsnd unnamed) (posted v) = sent posted s @ xs"
    and "next_wr s \<le> k" and "\<And>w. w < next_wr s \<Longrightarrow> wrs w = n_wrs s w"
  shows "only_posts posted xs s s'"
  unfolding only_posts_def using assms by (auto simp: sent_def intro!: exI)

lemma only_posts_refl: "only_posts posted [] s s"
  by (rule only_postsI [where wrs = "n_wrs s" and k = "next_wr s" and v = "n_ext s"]) (simp_all add: sent_def)

lemma only_posts_trans:
  assumes "only_posts posted xs s s'" and "only_posts posted ys s' s''"
  shows "only_posts posted (xs @ ys) s s''"
proof -
  obtain wrs k v where s': "s' = s\<lparr>n_wrs := wrs, next_wr := k, n_ext := v\<rparr>"
    using assms(1) by (auto simp: only_posts_def)
  obtain wrs' k' v' where s'': "s'' = s'\<lparr>n_wrs := wrs', next_wr := k', n_ext := v'\<rparr>"
    using assms(2) by (auto simp: only_posts_def)
  show ?thesis
    using assms by (intro only_postsI [where wrs = wrs' and k = k' and v = v']) (auto simp: only_posts_def sent_def s' s'')
qed

lemma only_posts_frame:
  assumes "only_posts posted xs s s'"
  shows "get_qp p s' = get_qp p s" and "checked_qp mid s' = checked_qp mid s" and "n_mem s' = n_mem s"
    and "n_mrs s' = n_mrs s" and "qp_vec s' = qp_vec s" and "msg_handlers s' = msg_handlers s"
  using assms by (auto simp: only_posts_def get_qp_def checked_qp_def)

lemma post_send_posts:
  assumes "device_ok E posted"
  shows "\<exists>s'. post_send E p wr s = Inr s' \<and> only_posts posted [(p, unnamed wr)] s s'"
proof -
  obtain v' where "e_post_send E (n_ext s) p wr = (0, v')" "posted v' = posted (n_ext s) @ [(p, wr)]"
    using assms unfolding device_ok_def by blast
  then show ?thesis
    by (intro exI [of _ "s\<lparr>n_ext := v'\<rparr>"] conjI only_postsI [where wrs = "n_wrs s" and k = "next_wr s" and v = v'])
      (auto simp: post_send_def sent_def)
qed

lemma run_post_send:
  assumes dev: "device_ok E posted"
  shows "\<exists>s'. run (\<lambda>s' wr. post_send E p wr s') s wrs = Inr s' \<and>
    only_posts posted (map (\<lambda>wr. (p, unnamed wr)) wrs) s s'"
proof (induction wrs arbitrary: s)
  case Nil
  show ?case by (simp add: only_posts_refl)
next
  case (Cons wr wrs)
  obtain s1 where s1: "post_send E p wr s = Inr s1" "only_posts posted [(p, unnamed wr)] s s1"
    using post_send_posts [OF dev] by blast
  obtain s2 where s2: "run (\<lambda>s' wr. post_send E p wr s') s1 wrs = Inr s2"
    "only_posts posted (map (\<lambda>wr. (p, unnamed wr)) wrs) s1 s2" using Cons.IH by blast
  with s1 only_posts_trans [OF s1(2) s2(2)] show ?case by simp
qed

section \<open>Handing a piece over\<close>

definition rdma_posts :: "nat \<Rightarrow> (mem_desc \<times> mem_desc_proto) list \<Rightarrow> i32 \<times> i32 \<Rightarrow> (nat \<times> send_wr) list" where
  "rdma_posts p pairs bn = (case bn of (b, num) \<Rightarrow>
     map (\<lambda>i. (p, write_wr 0 (snd (pairs ! buf b)) (fst (pairs ! buf b)) b (nat (sint num)) i))
       [0..<nat (sint num)])"

definition postable :: "(mem_desc \<times> mem_desc_proto) list \<Rightarrow> i32 \<times> i32 \<Rightarrow> bool" where
  "postable pairs bn = (case bn of (b, num) \<Rightarrow> 0 < sint num \<and>
     nat (sint num) \<le> length (sge_vec (fst (pairs ! buf b))) \<and>
     nat (sint num) \<le> length (mem_ptr (snd (pairs ! buf b))) \<and>
     nat (sint num) \<le> length (mr_rkeys (snd (pairs ! buf b))))"

lemma Normal2RegisterDone_posts:
  assumes dev: "device_ok E posted" and p: "checked_qp mid s = Inr p" and bn: "postable pairs (b, num)"
  shows "\<exists>s'. Normal2RegisterDone E mid (fst (pairs ! buf b)) (snd (pairs ! buf b)) b num s = Inr s' \<and>
    only_posts posted (rdma_posts p pairs (b, num)) s s'"
proof -
  let ?d = "fst (pairs ! buf b)" and ?r = "snd (pairs ! buf b)" and ?k = "nat (sint num)"
  let ?wr = "\<lparr>wrid_qp = p, outstanding_sge_cnt = num, wrid_msg_mr = None\<rparr>"
  let ?s = "s\<lparr>next_wr := Suc (next_wr s), n_wrs := (n_wrs s)(next_wr s \<mapsto> ?wr)\<rparr>"
  have num: "0 < sint num" and k: "?k \<le> length (sge_vec ?d)" "?k \<le> length (mem_ptr ?r)"
    "?k \<le> length (mr_rkeys ?r)"
    using bn by (simp_all add: postable_def)
  have "unat (scast num :: u64) = ?k" using num by (simp add: unat_scast_nonneg)
  then have "PostWriteRequest E p ?r ?d b num s =
      run (\<lambda>s' wr. post_send E p wr s') ?s (map (write_wr (next_wr s) ?r ?d b ?k) [0..<?k])"
    using post_writes_run [OF num, of 0 ?k ?d ?r] k
    by (simp add: PostWriteRequest_def NewWorkRequestId_def put_wr_def)
  moreover obtain s' where s': "run (\<lambda>s' wr. post_send E p wr s') ?s
      (map (write_wr (next_wr s) ?r ?d b ?k) [0..<?k]) = Inr s'"
    "only_posts posted (map (\<lambda>wr. (p, unnamed wr)) (map (write_wr (next_wr s) ?r ?d b ?k) [0..<?k])) ?s s'"
    using run_post_send [OF dev] by blast
  moreover have "only_posts posted [] s ?s"
    by (rule only_postsI [where wrs = "n_wrs ?s" and k = "Suc (next_wr s)" and v = "n_ext s"]) (auto simp: sent_def)
  from only_posts_trans [OF this s'(2)] have "only_posts posted (rdma_posts p pairs (b, num)) s s'"
    by (simp add: rdma_posts_def unnamed_def write_wr_def comp_def)
  ultimately show ?thesis using p by (simp add: Normal2RegisterDone_def)
qed

text \<open>
  A piece is copied first and handed over then: what the hand-over is does not matter for the
  copy, so the pieces the connection posts are the pieces the machine posts.
\<close>

fun hand_all :: "'n n2r \<Rightarrow> (mem_desc \<times> mem_desc_proto) list \<Rightarrow> (i64 \<times> i32 \<times> i32) list \<Rightarrow> 'n \<Rightarrow> 'n res" where
  "hand_all n2r pairs [] n = Inr n"
| "hand_all n2r pairs ((mid, b, num) # xs) n =
     rbind (n2r mid (fst (pairs ! buf b)) (snd (pairs ! buf b)) b num n) (hand_all n2r pairs xs)"

lemma write_piece_hands:
  assumes "write_piece c link_n2r pairs r b (m, wire) = Inr (m', wire')"
  obtains num where "wire' = wire @ [(b, num)]"
    and "\<And>n. write_piece c n2r pairs r b (m, n) =
      rbind (hand_all n2r pairs [(wr_machine_id r, b, num)] n) (\<lambda>n'. Inr (m', n'))"
  using assms
  by (auto simp: write_piece_def link_n2r_def vec_index_def buf_def Let_def rbind_eq_Inr rbind_assoc
      split: if_splits prod.splits)

lemma write_pieces_hand:
  "write_pieces c link_n2r pairs ps (m, wire) = Inr (m', wire') \<Longrightarrow>
   \<exists>new. wire' = wire @ new \<and> length new = length ps \<and>
     (\<forall>n. write_pieces c n2r pairs ps (m, n) =
        rbind (hand_all n2r pairs (zip (map (\<lambda>q. wr_machine_id (fst q)) ps) new) n) (\<lambda>n'. Inr (m', n')))"
proof (induction ps arbitrary: m wire)
  case (Cons q ps)
  obtain r b where q: "q = (r, b)" by (cases q)
  obtain m1 wire1 where one: "write_piece c link_n2r pairs r b (m, wire) = Inr (m1, wire1)"
    "write_pieces c link_n2r pairs ps (m1, wire1) = Inr (m', wire')"
    using Cons.prems q by (auto simp: rbind_eq_Inr)
  obtain num where num: "wire1 = wire @ [(b, num)]"
    "\<And>n. write_piece c n2r pairs r b (m, n) =
      rbind (hand_all n2r pairs [(wr_machine_id r, b, num)] n) (\<lambda>n'. Inr (m1, n'))"
    using write_piece_hands [OF one(1), where n2r = n2r] by metis
  obtain new where new: "wire' = wire1 @ new" "length new = length ps"
    "\<And>n. write_pieces c n2r pairs ps (m1, n) =
      rbind (hand_all n2r pairs (zip (map (\<lambda>q. wr_machine_id (fst q)) ps) new) n) (\<lambda>n'. Inr (m', n'))"
    using Cons.IH [OF one(2)] by blast
  have "write_pieces c n2r pairs (q # ps) (m, n) =
      rbind (hand_all n2r pairs (zip (map (\<lambda>q. wr_machine_id (fst q)) (q # ps)) ((b, num) # new)) n)
        (\<lambda>n'. Inr (m', n'))" for n
    by (simp add: q num(2) new(3) rbind_assoc cong: rbind_cong)
  with num(1) new(1,2) show ?case by (intro exI [of _ "(b, num) # new"]) simp
qed simp

lemma hand_all_posts:
  assumes dev: "device_ok E posted" and p: "checked_qp mid s = Inr p"
  shows "\<forall>x \<in> set xs. fst x = mid \<and> postable pairs (snd x) \<Longrightarrow>
    \<exists>s'. hand_all (Normal2RegisterDone E) pairs xs s = Inr s' \<and>
      only_posts posted (concat (map (\<lambda>x. rdma_posts p pairs (snd x)) xs)) s s'"
  using p
proof (induction xs arbitrary: s)
  case Nil
  show ?case by (simp add: only_posts_refl)
next
  case (Cons x xs)
  obtain b num where x: "x = (mid, b, num)" using Cons.prems(1) by (cases x) auto
  obtain s1 where s1: "Normal2RegisterDone E mid (fst (pairs ! buf b)) (snd (pairs ! buf b)) b num s = Inr s1"
    "only_posts posted (rdma_posts p pairs (b, num)) s s1"
    using Normal2RegisterDone_posts [OF dev Cons.prems(2)] Cons.prems(1) x by fastforce
  have "checked_qp mid s1 = Inr p" using only_posts_frame(2) [OF s1(2)] Cons.prems(2) by simp
  with Cons.IH [of s1] Cons.prems(1) obtain s2 where
    "hand_all (Normal2RegisterDone E) pairs xs s1 = Inr s2"
    "only_posts posted (concat (map (\<lambda>x. rdma_posts p pairs (snd x)) xs)) s1 s2" by auto
  with s1 only_posts_trans [OF s1(2)] x show ?case by fastforce
qed

section \<open>The writer\<close>

text \<open>
  One operation of the write helper on a machine: the helper and the memory end as on the
  connection, and the RDMA writes posted are those of the buffers that go on the wire.
\<close>

lemma carries_postable:
  assumes L: "link_ok L sb rb" and c: "carries L sb m0 m q bn" and q: "src_ok L sb q"
  shows "postable (lc_pairs L) bn"
proof -
  let ?c = "lc_cfg L" and ?i = "buf (fst bn)" and ?k = "nat (sint (snd bn))"
  have i: "?i < length (lc_pairs L)" and k: "?k \<le> nat (sint (sge_num ?c))"
    and n: "next_bytes ?c q \<le> ?k * sge_size ?c"
    using c by (simp_all add: carries_def buf_ok_def)
  have "0 < next_bytes ?c q"
    using q transfer_bytes_pos(1) [of q ?c] link_okD(1) [OF L] by (simp add: src_ok_def word_less_nat_alt)
  with n have "0 < ?k" by (cases ?k) simp_all
  moreover have "nat (sint (sge_num ?c)) \<le> length (sge_vec (fst (lc_pairs L ! ?i)))"
    "nat (sint (sge_num ?c)) \<le> length (sge_vec (lc_recv L ! ?i))"
    using link_okD(6,7) [OF L i] by (simp_all add: buffer_desc_def)
  ultimately show ?thesis
    using k link_okD(8,12) [OF L i] by (auto simp: postable_def split: prod.splits)
qed

lemma map_snd_zip_fun: "length xs = length ys \<Longrightarrow> map (\<lambda>x. f (snd x)) (zip xs ys) = map f ys"
  by (induction rule: list_induct2) simp_all

lemma node_writer_op:
  assumes L: "link_ok L sb rb" and w: "writer_inv L sb m0 h m wire fl" and opn: "wf_op opn"
    and src: "\<forall>p \<in> set (backlog (lc_cfg L) h @ op_pieces (lc_cfg L) [opn]).
      src_ok L sb p \<and> wr_machine_id p = lc_reader L"
    and bufs: "\<forall>b \<in> set (avail h @ op_buffers [opn]). buf_ok L b"
    and dist: "distinct (map fst wire @ avail h @ op_buffers [opn])"
    and dev: "device_ok E posted" and p: "checked_qp (lc_reader L) s = Inr p"
  shows "\<exists>h' m' new s'. perform_op (lc_cfg L) link_n2r (h, m, wire) opn = Inr (h', m', wire @ new) \<and>
    perform_op (lc_cfg L) (Normal2RegisterDone E) (h, m, s) opn = Inr (h', m', s') \<and>
    only_posts posted (concat (map (rdma_posts p (lc_pairs L)) new)) s s' \<and>
    same_outside (buffer_space L sb) m m'"
proof -
  let ?c = "lc_cfg L" and ?pairs = "lc_pairs L"
  let ?ps = "zip (backlog ?c h @ op_pieces ?c [opn]) (avail h @ op_buffers [opn])"
  obtain h' m' new fln where link: "perform_op ?c link_n2r (h, m, wire) opn = Inr (h', m', wire @ new)"
    "writer_inv L sb m0 h' m' (wire @ new) (fl @ fln)" "length new = length fln"
    "fln @ backlog ?c h' = backlog ?c h @ op_pieces ?c [opn]" "same_outside (buffer_space L sb) m m'"
    using writer_op [OF L w opn _ bufs dist] src by blast
  obtain h'' where h'': "posts (\<lambda>m n. perform_op ?c link_n2r (h, m, n) opn) ?c link_n2r ?pairs ?ps h''"
    "posts (\<lambda>m n. perform_op ?c (Normal2RegisterDone E) (h, m, n) opn) ?c (Normal2RegisterDone E) ?pairs ?ps h''"
    using perform_op_step [of ?c h opn link_n2r "Normal2RegisterDone E"] w opn by (auto simp: writer_inv_def)
  have "h'' = h'" and pieces: "write_pieces ?c link_n2r ?pairs ?ps (m, wire) = Inr (m', wire @ new)"
    using h''(1) link(1) by (auto simp: posts_def rbind_eq_Inr)
  have len: "length new = length ?ps"
    and hand: "write_pieces ?c (Normal2RegisterDone E) ?pairs ?ps (m, s) =
      rbind (hand_all (Normal2RegisterDone E) ?pairs (zip (map (\<lambda>q. wr_machine_id (fst q)) ?ps) new) s)
        (\<lambda>n'. Inr (m', n'))"
    using write_pieces_hand [OF pieces, of "Normal2RegisterDone E"] by auto
  have "set fln \<subseteq> set (backlog ?c h @ op_pieces ?c [opn])" unfolding link(4) [symmetric] by simp
  then have fln: "\<forall>q \<in> set fln. src_ok L sb q" using src by blast
  have "length fl = length wire" using w by (auto simp: writer_inv_def dest: list_all2_lengthD)
  then have c: "list_all2 (carries L sb m0 m') fln new"
    using link(2) by (simp add: writer_inv_def list_all2_append)
  have "postable ?pairs bn" if "bn \<in> set new" for bn
  proof -
    from that obtain i where i: "i < length new" "bn = new ! i" by (auto simp: in_set_conv_nth)
    have "fln ! i \<in> set fln" using i(1) link(3) by simp
    with fln list_all2_nthD2 [OF c i(1)] i(2) show ?thesis using carries_postable [OF L] by blast
  qed
  moreover have "\<forall>mid \<in> set (map (\<lambda>q. wr_machine_id (fst q)) ?ps). mid = lc_reader L"
    using src by (auto dest: set_zip_leftD simp del: set_append)
  ultimately have "\<forall>x \<in> set (zip (map (\<lambda>q. wr_machine_id (fst q)) ?ps) new). fst x = lc_reader L \<and> postable ?pairs (snd x)"
    by (metis in_set_zipE prod.collapse)
  from hand_all_posts [OF dev p this] obtain s' where s':
    "hand_all (Normal2RegisterDone E) ?pairs (zip (map (\<lambda>q. wr_machine_id (fst q)) ?ps) new) s = Inr s'"
    "only_posts posted (concat (map (\<lambda>x. rdma_posts p ?pairs (snd x)) (zip (map (\<lambda>q. wr_machine_id (fst q)) ?ps) new))) s s'"
    by blast
  have "only_posts posted (concat (map (rdma_posts p ?pairs) new)) s s'"
    using s'(2) len map_snd_zip_fun [of "map (\<lambda>q. wr_machine_id (fst q)) ?ps" new "rdma_posts p ?pairs"]
    by simp
  moreover have "perform_op ?c (Normal2RegisterDone E) (h, m, s) opn = Inr (h', m', s')"
    using h''(2) hand s'(1) \<open>h'' = h'\<close> by (simp add: posts_def)
  ultimately show ?thesis using link(1,5) by blast
qed

definition writer_node :: "nat \<Rightarrow> 'v node \<Rightarrow> link \<Rightarrow> bool" where
  "writer_node p s l \<longleftrightarrow>
     (\<exists>q. get_qp p s = Inr q \<and> helper q = Some (l_helper l)) \<and> n_mem s = l_wmem l"

lemma get_qp_cong: "qp_vec s' = qp_vec s \<Longrightarrow> get_qp p s' = get_qp p s"
  by (simp add: get_qp_def)

lemma writer_node_cong:
  "qp_vec s' = qp_vec s \<Longrightarrow> n_mem s' = n_mem s \<Longrightarrow> writer_node p s' l = writer_node p s l"
  by (simp add: writer_node_def get_qp_def)

text \<open>The connections that a schedule from a new one reaches.\<close>

definition link_reached :: "link_cfg \<Rightarrow> (nat \<Rightarrow> u64) \<Rightarrow> (nat \<Rightarrow> u64) \<Rightarrow> link \<Rightarrow> bool" where
  "link_reached L sb rb l \<longleftrightarrow> (\<exists>h m0 r0 os. link_start L h \<and>
     schedule (link_step L) (link_allowed L sb rb) (new_link h m0 r0) os \<and>
     run (link_step L) (new_link h m0 r0) os = Inr l)"

lemma link_reached_inv:
  assumes "link_ok L sb rb" and "link_reached L sb rb l"
  obtains m0 r0 where "link_inv L sb rb m0 r0 l"
proof -
  from assms(2) obtain h m0 r0 os where h: "link_start L h"
    "schedule (link_step L) (link_allowed L sb rb) (new_link h m0 r0) os"
    "run (link_step L) (new_link h m0 r0) os = Inr l"
    unfolding link_reached_def by blast
  obtain s where "run (link_step L) (new_link h m0 r0) os = Inr s" "link_inv L sb rb m0 r0 s"
    using link_history [OF assms(1) h(1,2)] by blast
  with h(3) have "link_inv L sb rb m0 r0 l" by simp
  then show thesis by (rule that)
qed

lemma remaining_machine:
  "q \<in> set (pieces_of L (map2 (src_record L) rs es)) \<Longrightarrow> wr_machine_id q = lc_reader L"
  by (auto simp: piece_records_def src_record_def)

lemma node_helper_op:
  assumes L: "link_ok L sb rb" and inv: "link_inv L sb rb m0 r0 l" and r: "l_reader l = (rs, fs, k)"
    and opn: "wf_op opn" "set (op_pieces (lc_cfg L) [opn]) \<subseteq> set (pieces_of L (l_asked l))"
      "op_buffers [opn] @ map fst fs' = map fst fs"
    and dev: "device_ok E posted" and c: "e_cfg E = lc_cfg L" and p: "unat (lc_reader L) = p"
    and s: "writer_node p s l" "get_qp p s = Inr q"
  shows "\<exists>h m new s'. perform_op (lc_cfg L) link_n2r (l_helper l, l_wmem l, l_wire l) opn = Inr (h, m, l_wire l @ new) \<and>
    with_helper p (\<lambda>st. perform_op (lc_cfg L) (Normal2RegisterDone E) st opn) s =
      Inr ((put_qp p (q\<lparr>helper := Some h\<rparr>) s')\<lparr>n_mem := m\<rparr>) \<and>
    only_posts posted (concat (map (rdma_posts p (lc_pairs L)) new)) s s' \<and>
    same_outside (buffer_space L sb) (l_wmem l) m"
proof -
  let ?c = "lc_cfg L" and ?h = "l_helper l"
  obtain fl where fl: "writer_inv L sb m0 ?h (l_wmem l) (l_wire l) fl"
    "fl @ backlog ?c ?h @ pieces_of L (l_asked l) = pieces_of L (map2 (src_record L) rs (drop k (l_log l)))"
    using link_invE [OF inv r] by blast
  have "set (backlog ?c ?h @ op_pieces ?c [opn]) \<subseteq> set (pieces_of L (map2 (src_record L) rs (drop k (l_log l))))"
    unfolding fl(2) [symmetric] using opn(2) by auto
  then have src: "\<forall>q \<in> set (backlog ?c ?h @ op_pieces ?c [opn]). src_ok L sb q \<and> wr_machine_id q = lc_reader L"
    using remaining_src_ok [OF L inv r] remaining_machine by blast
  have bufs: "bufs_of l = avail ?h @ map fst (l_wire l) @ op_buffers [opn] @ map fst fs'"
    by (simp add: bufs_of_def r flip: opn(3))
  have ok: "distinct (bufs_of l)" "\<forall>b \<in> set (bufs_of l). buf_ok L b"
    using inv by (auto simp: link_inv_def r)
  have bd: "\<forall>b \<in> set (avail ?h @ op_buffers [opn]). buf_ok L b"
    "distinct (map fst (l_wire l) @ avail ?h @ op_buffers [opn])"
    using ok unfolding bufs by auto
  have "checked_qp (lc_reader L) s = Inr p" using s(2) p by (auto simp: checked_qp_Inr get_qp_Inr)
  from node_writer_op [OF L fl(1) opn(1) src bd dev this] obtain h m new s' where
    op: "perform_op ?c link_n2r (?h, l_wmem l, l_wire l) opn = Inr (h, m, l_wire l @ new)"
    "perform_op ?c (Normal2RegisterDone E) (?h, l_wmem l, s) opn = Inr (h, m, s')"
    "only_posts posted (concat (map (rdma_posts p (lc_pairs L)) new)) s s'"
    "same_outside (buffer_space L sb) (l_wmem l) m" by blast
  have "helper q = Some ?h" "n_mem s = l_wmem l" using s by (auto simp: writer_node_def)
  moreover have "get_qp p s' = Inr q" using only_posts_frame(1) [OF op(3)] s(2) by simp
  ultimately have "with_helper p (\<lambda>st. perform_op ?c (Normal2RegisterDone E) st opn) s =
      Inr ((put_qp p (q\<lparr>helper := Some h\<rparr>) s')\<lparr>n_mem := m\<rparr>)"
    using s(2) op(2) by (simp add: with_helper_def)
  with op show ?thesis by blast
qed

text \<open>A completed receive of a message that lies in the buffer \<open>mr\<close>.\<close>

definition received_at :: "nat \<Rightarrow> nat \<Rightarrow> 'v node \<Rightarrow> nat \<Rightarrow> msg_mr \<Rightarrow> bool" where
  "received_at p w s i mr \<longleftrightarrow> n_mrs s i = Some mr \<and> sge_vec (mr_desc mr) \<noteq> [] \<and> w < next_wr s \<and>
     (\<exists>x. n_wrs s w = Some x \<and> wrid_qp x = p \<and> wrid_msg_mr x = Some i)"

text \<open>The end of \<open>RecvDone\<close>: the buffer is posted for the next message.\<close>

lemma repost:
  assumes dev: "device_ok E posted" and r: "received_at p w s i mr"
  shows "\<exists>s'. rbind (PostRecvRequest E p i s) (DeleteWorkRequestId p w) = Inr s' \<and> n_wrs s' w = None \<and>
    sent posted s' = sent posted s \<and> qp_vec s' = qp_vec s \<and> n_mem s' = n_mem s \<and> n_mrs s' = n_mrs s \<and>
    n_wrs s' (next_wr s) = Some \<lparr>wrid_qp = p, outstanding_sge_cnt = 0, wrid_msg_mr = Some i\<rparr>"
proof -
  let ?new = "\<lparr>wrid_qp = p, outstanding_sge_cnt = 0, wrid_msg_mr = Some i\<rparr>"
  let ?rwr = "\<lparr>rw_wr_id = next_wr s, rw_sge = sge_vec (mr_desc mr) ! 0\<rparr>"
  obtain v' where v': "e_post_recv E (n_ext s) p ?rwr = (0, v')" "posted v' = posted (n_ext s)"
    using dev unfolding device_ok_def by blast
  from r obtain x where x: "n_mrs s i = Some mr" "sge_vec (mr_desc mr) \<noteq> []" "w < next_wr s"
    "n_wrs s w = Some x" "wrid_qp x = p" by (auto simp: received_at_def)
  let ?s = "s\<lparr>n_wrs := (n_wrs s)(next_wr s \<mapsto> ?new), next_wr := Suc (next_wr s), n_ext := v'\<rparr>"
  have "PostRecvRequest E p i s = Inr ?s"
    using x(1,2) v'(1) by (simp add: PostRecvRequest_def NewWorkRequestId_def put_wr_def get_mr_def vec_at_def)
  moreover have "DeleteWorkRequestId p w ?s = Inr (?s\<lparr>n_wrs := (n_wrs ?s)(w := None)\<rparr>)"
    using x(3-5) by (simp add: DeleteWorkRequestId_def get_wr_def)
  ultimately show ?thesis using v'(2) x(3)
    by (intro exI [of _ "?s\<lparr>n_wrs := (n_wrs ?s)(w := None)\<rparr>"]) (simp add: sent_def)
qed

lemma received_at_posts:
  assumes "received_at p w s i mr" and "only_posts posted xs s s'"
  shows "received_at p w ((put_qp p' q s')\<lparr>n_mem := m\<rparr>) i mr"
  using assms by (auto simp: received_at_def only_posts_def put_qp_def)

lemma RecvDone_received:
  "received_at p w s i mr \<Longrightarrow> RecvDone E p w key s =
     rbind (recv_switch E p key (msg_ptr mr) (msg_bytes (n_mem s) mr) s) (\<lambda>s1.
       rbind (PostRecvRequest E p i s1) (DeleteWorkRequestId p w))"
  by (auto simp: received_at_def RecvDone_def get_wr_def the_mr_def get_mr_def)

lemma recv_switch_control:
  "recv_switch E p (msg_type_int kPleaseWrite) = recv_control E p (msg_type_int kPleaseWrite)"
  "recv_switch E p (msg_type_int kFreeBufferPair) = recv_control E p (msg_type_int kFreeBufferPair)"
  by (intro ext; simp add: recv_switch_def)+

lemma writer_node_put:
  assumes "writer_node p s l" and "only_posts posted xs s s'" and "get_qp p s = Inr q"
  shows "writer_node p ((put_qp p (q\<lparr>helper := Some h\<rparr>) s')\<lparr>n_mem := m\<rparr>)
    (l\<lparr>l_helper := h, l_wmem := m, l_wire := w, l_reader := rd, l_asked := as\<rparr>)"
  using assms only_posts_frame(5) [OF assms(2)] by (auto simp: writer_node_def get_qp_Inr put_qp_def)


text \<open>User callbacks that write only memory of their own.\<close>

definition callbacks_within :: "'v env \<Rightarrow> u64 set \<Rightarrow> bool" where
  "callbacks_within E A \<longleftrightarrow>
     (\<forall>f s. \<exists>m. e_run_cb E f s = Inr (s\<lparr>n_mem := m\<rparr>) \<and> same_outside A (n_mem s) m)"

lemma received_at_cong:
  "n_mrs s' = n_mrs s \<Longrightarrow> n_wrs s' = n_wrs s \<Longrightarrow> next_wr s' = next_wr s \<Longrightarrow>
   received_at p w s' i mr = received_at p w s i mr"
  by (simp add: received_at_def)

lemma message_kept:
  assumes L: "link_ok L sb rb" and "span a n \<subseteq> lc_wother L" and m: "same_outside (buffer_space L sb) m m'"
  shows "load m' a n = load m a n"
proof (rule same_outside_load [OF m])
  show "span a n \<inter> buffer_space L sb = {}"
    using link_okD(11) [OF L] assms(2) by (fastforce simp: buffer_space_def)
qed

text \<open>The read-done callback of the writer: taken with the last answer of a read.\<close>

definition run_read_done :: "'v env \<Rightarrow> nat \<Rightarrow> bool \<Rightarrow> 'v node \<Rightarrow> 'v node res" where
  "run_read_done E p last_piece s =
     (if last_piece
      then rbind (get_qp p s) (\<lambda>q. rbind (queue_front (read_done_cbs q)) (\<lambda>cb.
             check (cb \<noteq> None)
              (run_callback E cb (put_qp p (q\<lparr>read_done_cbs := tl (read_done_cbs q)\<rparr>) s))))
      else Inr s)"

lemma run_read_done_ok:
  assumes cbs: "callbacks_within E A" and q: "get_qp p s = Inr q"
    and f: "lst \<Longrightarrow> read_done_cbs q = Some f # rest"
  shows "\<exists>m q'. run_read_done E p lst s = Inr ((put_qp p q' s)\<lparr>n_mem := m\<rparr>) \<and>
    same_outside A (n_mem s) m \<and> helper q' = helper q \<and>
    read_done_cbs q' = (if lst then rest else read_done_cbs q)"
proof (cases lst)
  case True
  let ?s = "put_qp p (q\<lparr>read_done_cbs := rest\<rparr>) s"
  obtain m where "e_run_cb E f ?s = Inr (?s\<lparr>n_mem := m\<rparr>)" "same_outside A (n_mem ?s) m"
    using cbs unfolding callbacks_within_def by blast
  with True q f [OF True] show ?thesis
    by (intro exI [of _ m] exI [of _ "q\<lparr>read_done_cbs := rest\<rparr>"])
      (simp add: run_read_done_def queue_front_def run_callback_def)
next
  case False
  have "put_qp p q s = s" using q by (simp add: put_qp_def get_qp_Inr list_update_same_conv)
  with False show ?thesis
    by (intro exI [of _ "n_mem s"] exI [of _ q]) (simp add: run_read_done_def same_outside_def)
qed


end
