(* ===== verification/NodeReader.thy ===== *)
theory NodeReader
  imports NodeLink
begin

text \<open>
  The reader's side of the read protocol on a machine: \<open>DoRead\<close> and \<open>RDMARecvDone\<close> as whole
  handlers, with the message each of them sends. The buffers of messages are allocated by the
  handlers where none is free, so the next allocation and the registration are assumed to succeed
  (\<open>allocates_within\<close>), in an address set that the connection leaves to other activity.
\<close>

section \<open>Message buffers\<close>

definition allocates_within :: "'v env \<Rightarrow> 'v posted \<Rightarrow> u64 set \<Rightarrow> 'v \<Rightarrow> bool" where
  "allocates_within E posted A v \<longleftrightarrow>
     (\<exists>p v'. e_malloc E v (MaxMsgBytes (e_cfg E)) = (p, v') \<and> p \<noteq> 0 \<and>
        span p (unat (MaxMsgBytes (e_cfg E))) \<subseteq> A \<and> posted v' = posted v) \<and>
     (\<forall>v a n. \<exists>m v'. e_reg_mr E v a n = (Some m, v') \<and> posted v' = posted v)"

definition buffers_ok :: "'v env \<Rightarrow> u64 set \<Rightarrow> 'v node \<Rightarrow> bool" where
  "buffers_ok E A s \<longleftrightarrow> (\<forall>i mr. n_mrs s i = Some mr \<longrightarrow>
     sge_vec (mr_desc mr) \<noteq> [] \<and> span (mr_ptr mr) (unat (MaxMsgBytes (e_cfg E))) \<subseteq> A)"

definition send_buffers_ok :: "qp \<Rightarrow> 'v node \<Rightarrow> bool" where
  "send_buffers_ok q s \<longleftrightarrow> (\<forall>i \<in> set (send_msg_buf q). n_mrs s i \<noteq> None)"

lemma new_MsgMR_ok:
  assumes al: "allocates_within E posted A (n_ext s)" and size: "message_size_ok (e_cfg E)" and b: "buffers_ok E A s"
  shows "\<exists>m mr v. new_MsgMR E s = Inr (next_mr s, s\<lparr>n_mem := m, n_mrs := (n_mrs s)(next_mr s \<mapsto> mr),
      next_mr := Suc (next_mr s), n_ext := v\<rparr>) \<and> same_outside A (n_mem s) m \<and>
    sge_vec (mr_desc mr) \<noteq> [] \<and> span (mr_ptr mr) (unat (MaxMsgBytes (e_cfg E))) \<subseteq> A \<and>
    posted v = posted (n_ext s)"
proof -
  let ?n = "MaxMsgBytes (e_cfg E)"
  obtain p v1 where p: "e_malloc E (n_ext s) ?n = (p, v1)"
    and p': "p \<noteq> 0" "span p (unat ?n) \<subseteq> A" "posted v1 = posted (n_ext s)"
    using al unfolding allocates_within_def by blast
  have reg: "\<forall>v a n. \<exists>m v'. e_reg_mr E v a n = (Some m, v') \<and> posted v' = posted v"
    using al by (simp add: allocates_within_def)
  obtain mr v where "new_MsgMR E s = Inr (next_mr s, s\<lparr>n_mem := store (n_mem s) p (replicate (unat ?n) 0),
      n_mrs := (n_mrs s)(next_mr s \<mapsto> mr), next_mr := Suc (next_mr s), n_ext := v\<rparr>)"
    "mr_ptr mr = p" "sge_vec (mr_desc mr) \<noteq> []" "posted v = posted v1"
    using new_MsgMR_alloc [OF p p'(1) reg size] by blast
  moreover have "same_outside A (n_mem s) (store (n_mem s) p (replicate (unat ?n) 0))"
    using p'(2) by (auto simp: same_outside_def intro!: store_outside)
  ultimately show ?thesis using p'
    by (intro exI [of _ "store (n_mem s) p (replicate (unat ?n) 0)"] exI [of _ mr] exI [of _ v]) auto
qed

text \<open>A node that only filled message buffers and took one from the free ones.\<close>

definition takes_buffer :: "'v env \<Rightarrow> 'v posted \<Rightarrow> u64 set \<Rightarrow> nat \<Rightarrow> 'v node \<Rightarrow> 'v node \<Rightarrow> bool" where
  "takes_buffer E posted A p s s' \<longleftrightarrow>
     same_outside A (n_mem s) (n_mem s') \<and> sent posted s' = sent posted s \<and> buffers_ok E A s' \<and>
     n_wrs s' = n_wrs s \<and> next_wr s' = next_wr s \<and> (\<forall>j mr. n_mrs s j = Some mr \<longrightarrow> n_mrs s' j \<noteq> None) \<and>
     (\<exists>q buf. get_qp p s = Inr q \<and> qp_vec s' = (qp_vec s)[p := Some (q\<lparr>send_msg_buf := buf\<rparr>)] \<and>
        send_buffers_ok (q\<lparr>send_msg_buf := buf\<rparr>) s')"

lemma GetOne_ok:
  assumes al: "allocates_within E posted A (n_ext s)" and size: "message_size_ok (e_cfg E)" and b: "buffers_ok E A s"
    and q: "get_qp p s = Inr q" and sb: "send_buffers_ok q s"
  shows "\<exists>i mr s'. GetOneSendMsgMRFromBuf E p s = Inr (i, s') \<and> n_mrs s' i = Some mr \<and>
    takes_buffer E posted A p s s'"
proof (cases "send_msg_buf q")
  case Nil
  obtain m mr v where new: "new_MsgMR E s = Inr (next_mr s, s\<lparr>n_mem := m, n_mrs := (n_mrs s)(next_mr s \<mapsto> mr),
      next_mr := Suc (next_mr s), n_ext := v\<rparr>)" "same_outside A (n_mem s) m"
    "sge_vec (mr_desc mr) \<noteq> []" "span (mr_ptr mr) (unat (MaxMsgBytes (e_cfg E))) \<subseteq> A"
    "posted v = posted (n_ext s)"
    using new_MsgMR_ok [OF al size b] by blast
  let ?s = "put_qp p (q\<lparr>send_msg_buf := []\<rparr>) (s\<lparr>n_mem := m, n_mrs := (n_mrs s)(next_mr s \<mapsto> mr),
      next_mr := Suc (next_mr s), n_ext := v\<rparr>)"
  have "GetOneSendMsgMRFromBuf E p s = Inr (next_mr s, ?s)"
    using q new(1) Nil by (simp add: GetOneSendMsgMRFromBuf_def queue_front_def)
  moreover have "takes_buffer E posted A p s ?s"
    using q b new(2-5)
    by (auto simp: takes_buffer_def sent_def put_qp_def buffers_ok_def send_buffers_ok_def intro!: exI [of _ "[]"])
  ultimately show ?thesis by (intro exI [of _ "next_mr s"] exI [of _ mr] exI [of _ ?s]) simp
next
  case (Cons i rest)
  let ?s = "put_qp p (q\<lparr>send_msg_buf := rest\<rparr>) s"
  obtain mr where mr: "n_mrs s i = Some mr" using sb Cons by (auto simp: send_buffers_ok_def)
  have "GetOneSendMsgMRFromBuf E p s = Inr (i, ?s)"
    using q Cons by (simp add: GetOneSendMsgMRFromBuf_def queue_front_def)
  moreover have "takes_buffer E posted A p s ?s"
    using q b sb Cons
    by (auto simp: takes_buffer_def sent_def put_qp_def buffers_ok_def send_buffers_ok_def same_outside_def
        intro!: exI [of _ rest])
  ultimately show ?thesis using mr by (intro exI [of _ i] exI [of _ mr] exI [of _ ?s]) simp
qed

text \<open>What \<open>set_msg\<close> leaves in the buffer: the length, and the bytes behind it.\<close>

lemma set_msg_holds:
  assumes mr: "n_mrs s i = Some mr" and n: "bytes = of_nat (length bs)" "length bs < 2 ^ 64"
    and fits: "8 + length bs \<le> unat (MaxMsgBytes (e_cfg E))"
  shows "\<exists>s'. set_msg E i key (FromBytes bs) bytes cb s = Inr s' \<and>
    msg_bytes (n_mem s') mr = bytes \<and> load (n_mem s') (msg_ptr mr) (length bs) = bs \<and>
    same_outside (span (mr_ptr mr) (unat (MaxMsgBytes (e_cfg E)))) (n_mem s) (n_mem s') \<and>
    s' = s\<lparr>n_mem := n_mem s', n_mrs := (n_mrs s)(i \<mapsto> mr\<lparr>mr_msg_type_key := key, mr_cb := cb\<rparr>)\<rparr>"
proof -
  let ?n = "MaxMsgBytes (e_cfg E)" and ?p = "mr_ptr mr"
  let ?all = "le_encode 8 bytes @ bs"
  let ?m = "store (n_mem s) ?p ?all"
  have ub: "unat bytes = length bs" using n by simp
  have m: "?m = store (store (n_mem s) ?p (le_encode 8 bytes)) (?p + 8) bs"
    using store_append [of "n_mem s" ?p "le_encode 8 bytes" bs] by simp
  have "8 \<le> ?n" using fits by (simp add: word_le_nat_alt)
  then have "unat (?n - 8) = unat ?n - 8" by (simp add: unat_sub_word)
  then have le: "bytes \<le> ?n - 8" using fits ub by (simp add: word_le_nat_alt)
  have all: "load ?m ?p (8 + length bs) = ?all"
    using load_store_same [of ?all "n_mem s" ?p] fits unat_u64_less [of ?n] by simp
  then have "load ?m ?p 8 = le_encode 8 bytes" "load ?m (?p + 8) (length bs) = bs"
    by (simp_all add: load_add append_eq_append_conv)
  then have "msg_bytes ?m mr = bytes" "load ?m (msg_ptr mr) (length bs) = bs"
    by (simp_all add: msg_bytes_def msg_ptr_def le_roundtrip_64)
  moreover have "same_outside (span ?p (unat ?n)) (n_mem s) ?m"
    using span_mono [OF fits, of ?p] by (auto simp: same_outside_def intro!: store_outside)
  moreover have "set_msg E i key (FromBytes bs) bytes cb s =
      Inr (s\<lparr>n_mem := ?m, n_mrs := (n_mrs s)(i \<mapsto> mr\<lparr>mr_msg_type_key := key, mr_cb := cb\<rparr>)\<rparr>)"
    using mr le fits ub by (simp add: set_msg_def get_mr_def Let_def m)
  ultimately show ?thesis
    by (intro exI [of _ "s\<lparr>n_mem := ?m, n_mrs := (n_mrs s)(i \<mapsto> mr\<lparr>mr_msg_type_key := key, mr_cb := cb\<rparr>)\<rparr>"]) simp
qed

section \<open>Sending a control message\<close>

text \<open>The posted send of the message in buffer \<open>mr\<close>.\<close>

definition message_wr :: "i32 \<Rightarrow> msg_mr \<Rightarrow> send_wr" where
  "message_wr key mr =
     \<lparr>sw_wr_id = 0, sw_sge = sge_vec (mr_desc mr) ! 0, sw_opcode = IBV_WR_SEND_WITH_IMM,
      sw_imm_data = key, sw_remote_addr = 0, sw_rkey = 0\<rparr>"

text \<open>One message with the bytes \<open>bs\<close> was posted, from a buffer that holds them.\<close>

definition message_sent ::
  "'v posted \<Rightarrow> nat \<Rightarrow> i32 \<Rightarrow> byte list \<Rightarrow> 'v node \<Rightarrow> 'v node \<Rightarrow> bool"
where
  "message_sent posted p key bs s s' \<longleftrightarrow> (\<exists>i mr. n_mrs s' i = Some mr \<and>
     sent posted s' = sent posted s @ [(p, message_wr key mr)] \<and>
     msg_bytes (n_mem s') mr = of_nat (length bs) \<and> load (n_mem s') (msg_ptr mr) (length bs) = bs)"

text \<open>The rest of the machine: what a send leaves as it was.\<close>

definition send_frame :: "'v env \<Rightarrow> u64 set \<Rightarrow> nat \<Rightarrow> qp \<Rightarrow> 'v node \<Rightarrow> 'v node \<Rightarrow> bool" where
  "send_frame E A p q s s' \<longleftrightarrow> same_outside A (n_mem s) (n_mem s') \<and> buffers_ok E A s' \<and>
     (\<exists>buf. qp_vec s' = (qp_vec s)[p := Some (q\<lparr>send_msg_buf := buf\<rparr>)] \<and>
        send_buffers_ok (q\<lparr>send_msg_buf := buf\<rparr>) s') \<and>
     next_wr s \<le> next_wr s' \<and> (\<forall>w < next_wr s. n_wrs s' w = n_wrs s w) \<and>
     (\<forall>j mr. n_mrs s j = Some mr \<longrightarrow> n_mrs s' j \<noteq> None)"

lemma control_send:
  assumes dev: "device_ok E posted" and al: "allocates_within E posted A (n_ext s)"
    and size: "message_size_ok (e_cfg E)" and b: "buffers_ok E A s"
    and q: "get_qp p s = Inr q" and sb: "send_buffers_ok q s"
    and sw: "send_switch E p msg t = Inr (key, FromBytes bs, of_nat (length bs), s)"
    and len: "0 < length bs" "length bs \<le> 24"
  shows "\<exists>s'. PostSendRequest E p msg t = Inr s' \<and> message_sent posted p key bs s s' \<and>
    send_frame E A p q s s'"
proof -
  obtain i mr s1 where one: "GetOneSendMsgMRFromBuf E p s = Inr (i, s1)" "n_mrs s1 i = Some mr"
    "takes_buffer E posted A p s s1"
    using GetOne_ok [OF al size b q sb] by blast
  have A: "span (mr_ptr mr) (unat (MaxMsgBytes (e_cfg E))) \<subseteq> A" "sge_vec (mr_desc mr) \<noteq> []"
    using one(2,3) unfolding takes_buffer_def buffers_ok_def by blast+
  have fits: "8 + length bs \<le> unat (MaxMsgBytes (e_cfg E))" "length bs < 2 ^ 64"
    using size len by (auto simp: message_size_ok_def)
  obtain s2 where s2: "set_msg E i key (FromBytes bs) (of_nat (length bs)) (m_cb msg) s1 = Inr s2"
    "msg_bytes (n_mem s2) mr = of_nat (length bs)" "load (n_mem s2) (msg_ptr mr) (length bs) = bs"
    "same_outside (span (mr_ptr mr) (unat (MaxMsgBytes (e_cfg E)))) (n_mem s1) (n_mem s2)"
    "s2 = s1\<lparr>n_mem := n_mem s2, n_mrs := (n_mrs s1)(i \<mapsto> mr\<lparr>mr_msg_type_key := key, mr_cb := m_cb msg\<rparr>)\<rparr>"
    using set_msg_holds [OF one(2) refl fits(2,1)] by blast
  let ?mr = "mr\<lparr>mr_msg_type_key := key, mr_cb := m_cb msg\<rparr>"
  let ?wr = "\<lparr>wrid_qp = p, outstanding_sge_cnt = 0, wrid_msg_mr = Some i\<rparr>"
  let ?s3 = "s2\<lparr>next_wr := Suc (next_wr s2), n_wrs := (n_wrs s2)(next_wr s2 \<mapsto> ?wr)\<rparr>"
  let ?swr = "\<lparr>sw_wr_id = next_wr s2, sw_sge = sge_vec (mr_desc mr) ! 0, sw_opcode = IBV_WR_SEND_WITH_IMM,
      sw_imm_data = key, sw_remote_addr = 0, sw_rkey = 0\<rparr>"
  obtain s' where s': "post_send E p ?swr ?s3 = Inr s'" "only_posts posted [(p, unnamed ?swr)] ?s3 s'"
    using post_send_posts [OF dev] by blast
  have mrs: "n_mrs s2 = (n_mrs s1)(i \<mapsto> ?mr)" and other: "qp_vec s2 = qp_vec s1" "n_wrs s2 = n_wrs s1"
    "next_wr s2 = next_wr s1" "n_ext s2 = n_ext s1"
    by (subst s2(5); simp)+
  have nz: "(0 :: u64) < of_nat (length bs)" using len fits(2) by (simp add: word_less_nat_alt)
  have "PostSendRequest E p msg t = Inr s'"
    using sw one(1) s2(1) s'(1) nz A(2)
    by (simp add: PostSendRequest_def NewWorkRequestId_def put_wr_def Let_def get_mr_def mrs vec_at_def)
  moreover have "message_sent posted p key bs s s'"
  proof -
    have "sent posted s' = sent posted s @ [(p, message_wr key ?mr)]"
      using s'(2) one(3) other(4)
      by (simp add: only_posts_def takes_buffer_def sent_def unnamed_def message_wr_def)
    moreover have "msg_bytes (n_mem s2) ?mr = of_nat (length bs)" "load (n_mem s2) (msg_ptr ?mr) (length bs) = bs"
      using s2(2,3) by (simp_all add: msg_bytes_def msg_ptr_def)
    ultimately show ?thesis
      using only_posts_frame(3,4) [OF s'(2)] unfolding message_sent_def
      by (intro conjI exI [of _ i] exI [of _ ?mr]) (simp_all add: mrs)
  qed
  moreover have "same_outside A (n_mem s) (n_mem s2)"
    using one(3) same_outside_mono [OF s2(4) A(1)] same_outside_trans by (auto simp: takes_buffer_def)
  then have "send_frame E A p q s s'"
    using one(2,3) only_posts_frame(3) [OF s'(2)] only_posts_frame(4,5) [OF s'(2)] s'(2) q A
    by (auto simp: send_frame_def takes_buffer_def mrs other only_posts_def buffers_ok_def send_buffers_ok_def)
  ultimately show ?thesis by blast
qed

section \<open>The reader\<close>

text \<open>A machine whose queue pair \<open>p\<close> is the reader's end of the connection.\<close>

definition reader_qp :: "link_cfg \<Rightarrow> work_record list \<Rightarrow> qp \<Rightarrow> bool" where
  "reader_qp L rs q \<longleftrightarrow> read_queue q = rs \<and> this_machine_id q = lc_reader L \<and>
     peer_machine_id q = lc_writer L \<and> helper q \<noteq> None \<and> map snd (qp_mem_desc q) = lc_recv L"

definition reader_node :: "'v env \<Rightarrow> link_cfg \<Rightarrow> nat \<Rightarrow> 'v node \<Rightarrow> link \<Rightarrow> bool" where
  "reader_node E L p s l \<longleftrightarrow> n_mem s = l_rmem l \<and> buffers_ok E (lc_rother L) s \<and>
     (\<exists>q. get_qp p s = Inr q \<and> reader_qp L (fst (l_reader l)) q \<and> send_buffers_ok q s)"

lemma reader_node_cong:
  "qp_vec s' = qp_vec s \<Longrightarrow> n_mem s' = n_mem s \<Longrightarrow> n_mrs s' = n_mrs s \<Longrightarrow>
   reader_node E L p s' l = reader_node E L p s l"
  by (simp add: reader_node_def get_qp_def buffers_ok_def send_buffers_ok_def)

lemma reader_qp_simps [simp]:
  "reader_qp L rs (q\<lparr>send_msg_buf := b\<rparr>) = reader_qp L rs q"
  "reader_qp L rs q \<Longrightarrow> reader_qp L rs' (q\<lparr>read_queue := rs'\<rparr>)"
  by (simp_all add: reader_qp_def)

lemma reader_node_sent:
  assumes "send_frame E (lc_rother L) p q s s'" and "get_qp p s = Inr q0"
    and "reader_qp L (fst (l_reader l)) q" and "l_rmem l = n_mem s'"
  shows "reader_node E L p s' l"
proof -
  obtain buf where "qp_vec s' = (qp_vec s)[p := Some (q\<lparr>send_msg_buf := buf\<rparr>)]"
    "send_buffers_ok (q\<lparr>send_msg_buf := buf\<rparr>) s'"
    using assms(1) by (auto simp: send_frame_def)
  with assms show ?thesis
    by (auto simp: reader_node_def send_frame_def get_qp_Inr)
qed

text \<open>
  C6: issuing a read. \<open>DoRead\<close> on the reader's machine does the connection's step: the work
  record is queued behind the others, and one message is posted whose bytes are the request
  (this machine, the source address, the size); only message buffers change in memory.
\<close>

theorem read_implements_link:
  assumes "link_allowed L sb rb l (Read src dst n cb)" and "device_ok E posted"
    and "allocates_within E posted (lc_rother L) (n_ext s)" and "message_size_ok (e_cfg E)"
    and "unat (lc_writer L) = p" and "reader_node E L p s l"
  shows "\<exists>s' l'. DoRead E (lc_writer L) src n dst cb s = Inr s' \<and>
    schedule (link_step L) (link_allowed L sb rb) l [Read src dst n cb, Other (l_wmem l) (n_mem s')] \<and>
    run (link_step L) l [Read src dst n cb, Other (l_wmem l) (n_mem s')] = Inr l' \<and>
    reader_node E L p s' l' \<and>
    message_sent posted p (msg_type_int kPleaseWrite)
      (encode_PleaseWrite \<lparr>pw_dst_machine_id = lc_reader L, pw_src_addr = src, pw_bytes = n\<rparr>) s s'"
proof -
  let ?r = "WorkRecord (lc_writer L) dst n 0 cb" and ?A = "lc_rother L"
  let ?msg = "\<lparr>pw_dst_machine_id = lc_reader L, pw_src_addr = src, pw_bytes = n\<rparr>"
  obtain q where q: "get_qp p s = Inr q" "reader_qp L (fst (l_reader l)) q" "send_buffers_ok q s"
    and mem: "n_mem s = l_rmem l" and b: "buffers_ok E ?A s"
    using assms(6) by (auto simp: reader_node_def)
  let ?q = "q\<lparr>read_queue := queue_push (fst (l_reader l)) ?r\<rparr>"
  let ?s = "put_qp p ?q s"
  have q1: "get_qp p ?s = Inr ?q" using q(1) by (simp add: get_qp_Inr)
  have al: "allocates_within E posted ?A (n_ext ?s)" using assms(3) by (simp add: put_qp_def)
  have sb: "buffers_ok E ?A ?s" "send_buffers_ok ?q ?s"
    using b q(3) by (simp_all add: put_qp_def buffers_ok_def send_buffers_ok_def)
  have sw: "send_switch E p (Msg_PleaseWrite ?msg) ?s =
      Inr (msg_type_int kPleaseWrite, FromBytes (encode_PleaseWrite ?msg),
        of_nat (length (encode_PleaseWrite ?msg)), ?s)"
    by (simp add: send_switch_def Msg_PleaseWrite_def)
  have len: "0 < length (encode_PleaseWrite ?msg)" "length (encode_PleaseWrite ?msg) \<le> 24"
    by (simp_all add: sizeof_PleaseWrite_def)
  obtain s' where s': "PostSendRequest E p (Msg_PleaseWrite ?msg) ?s = Inr s'"
    "message_sent posted p (msg_type_int kPleaseWrite) (encode_PleaseWrite ?msg) ?s s'"
    "send_frame E ?A p ?q ?s s'"
    using control_send [OF assms(2) al assms(4) sb(1) q1 sb(2) sw len] by blast
  have "checked_qp (lc_writer L) s = Inr p" using q(1) assms(5) by (auto simp: checked_qp_Inr get_qp_Inr)
  then have "DoRead E (lc_writer L) src n dst cb s = Inr s'"
    using q(1,2) s'(1)
    by (simp add: DoRead_def DealWorkRecord_def push_read_record_def reader_qp_def WorkRecord_def)
  moreover have m: "same_outside ?A (l_rmem l) (n_mem s')"
    using s'(3) by (simp add: send_frame_def put_qp_def mem)
  obtain l1 where l1: "link_step L l (Read src dst n cb) = Inr l1"
    "fst (l_reader l1) = queue_push (fst (l_reader l)) ?r" "l_wmem l1 = l_wmem l" "l_rmem l1 = l_rmem l"
    by simp
  have "same_outside (lc_wother L) (l_wmem l) (l_wmem l)" by (simp add: same_outside_def)
  with m l1 assms(1) have
    "schedule (link_step L) (link_allowed L sb rb) l [Read src dst n cb, Other (l_wmem l) (n_mem s')]"
    by (simp del: link_step.simps(1) link_allowed.simps(1))
  moreover have "run (link_step L) l [Read src dst n cb, Other (l_wmem l) (n_mem s')] =
      Inr (l1\<lparr>l_wmem := l_wmem l, l_rmem := n_mem s'\<rparr>)"
    using l1 by (simp del: link_step.simps(1))
  moreover have "reader_node E L p s' (l1\<lparr>l_wmem := l_wmem l, l_rmem := n_mem s'\<rparr>)"
    using reader_node_sent [OF s'(3) q1] q(2) l1(2) by simp
  moreover have "sent posted ?s = sent posted s" by (simp add: sent_def put_qp_def)
  with s'(2) have "message_sent posted p (msg_type_int kPleaseWrite) (encode_PleaseWrite ?msg) s s'"
    by (simp add: message_sent_def)
  ultimately show ?thesis by blast
qed

text \<open>
  The oldest posted write, when it arrives: its elements can be written, the buffer it names
  and the rest of the current record do not overlap.
\<close>

lemma arrival_facts:
  assumes L: "link_ok L sb rb" and reached: "link_reached L sb rb l" and wire: "l_wire l = (b, num) # wire"
  obtains r rt fs k m1 where "l_reader l = (r # rt, fs, k)" and "wr_offset r < wr_bytes r" and "buf_ok L b"
    and "rdma_elems (lc_rdma L) (fst (lc_pairs L ! buf b)) (snd (lc_pairs L ! buf b)) 0
      (nat (sint num)) (l_wmem l) (l_rmem l) = Inr m1"
    and "span (rb (buf b)) (next_bytes (lc_cfg L) r) \<inter>
      span (wr_begin_addr r + wr_offset r) (next_bytes (lc_cfg L) r) = {}"
proof -
  let ?c = "lc_cfg L" and ?es = "l_log l"
  obtain m0 r0 where inv: "link_inv L sb rb m0 r0 l" by (rule link_reached_inv [OF L reached])
  obtain rs fs k where rd: "l_reader l = (rs, fs, k)" by (cases "l_reader l")
  have C: "0 < buffer_bytes ?c"
    using config_ok_sizes(3) [OF link_okD(1) [OF L]] by (simp add: word_less_nat_alt)
  have rm: "reads_match rs (drop k ?es)" and lg: "log_ok L sb rb ?es"
    using inv by (simp_all add: link_inv_def rd)
  obtain p fl where fl: "carries L sb m0 (l_wmem l) p (b, num)"
    "p # (fl @ backlog ?c (l_helper l) @ pieces_of L (l_asked l)) =
      pieces_of L (map2 (src_record L) rs (drop k ?es))"
    using link_invE [OF inv rd] unfolding wire
    by (metis (no_types, lifting) append_Cons list_all2_Cons2 writer_inv_def)
  obtain r rt where rs: "rs = r # rt" using fl(2) by (cases rs) auto
  note hd = reads_match_hd [OF rm [unfolded rs]]
  have b: "buf_ok L b" using fl(1) by (simp add: carries_def)
  then have i: "buf b < length (lc_pairs L)" by (simp add: buf_ok_def)
  obtain m1 where m1: "rdma_elems (lc_rdma L) (fst (lc_pairs L ! buf b)) (snd (lc_pairs L ! buf b)) 0
      (nat (sint num)) (l_wmem l) (l_rmem l) = Inr m1"
    using rdma_fills_buffer [OF L fl(1)] by blast
  have "span (wr_begin_addr r + wr_offset r) (next_bytes ?c r) \<subseteq> dst_span (?es ! k)"
    using next_span(1) [of r ?c] hd by (simp add: dst_span_def wf_record_def)
  moreover have "span (rb (buf b)) (next_bytes ?c r) \<subseteq> reader_space L rb"
    using span_mono [OF next_bytes_le [of ?c r], of "rb (buf b)"] buffer_sub(2) [OF i, of rb] by blast
  ultimately have "span (rb (buf b)) (next_bytes ?c r) \<inter>
      span (wr_begin_addr r + wr_offset r) (next_bytes ?c r) = {}"
    using log_ok_apart [OF lg nth_mem [OF hd(1)]] by blast
  with rd rs hd(4) b m1 show thesis by (intro that) simp_all
qed

text \<open>
  The switch of the answer: with the last piece the record leaves the queue and its callback
  runs before the message is sent.
\<close>

lemma answer_switch:
  assumes cbs: "callbacks_within E A" and q: "get_qp p t = Inr q" "read_queue q = r # rt"
  shows "\<exists>m. send_switch E p (Msg_FreeBufferPair pad \<lparr>fb_src_machine_id = mid, fb_buffer_id = b, fb_last_piece = lst\<rparr>) t =
      Inr (msg_type_int kFreeBufferPair,
        FromBytes (encode_FreeBufferPair pad \<lparr>fb_src_machine_id = mid, fb_buffer_id = b, fb_last_piece = lst\<rparr>),
        of_nat sizeof_FreeBufferPair,
        (put_qp p (q\<lparr>read_queue := if lst then rt else r # rt\<rparr>) t)\<lparr>n_mem := m\<rparr>) \<and>
    same_outside A (n_mem t) m"
proof -
  have dec: "fb_last_piece (decode_FreeBufferPair (encode_FreeBufferPair pad f)) = fb_last_piece f" for f
    using decode_encode_FreeBufferPair [of pad f "[]"] by simp
  show ?thesis
  proof (cases lst)
    case True
    let ?t = "put_qp p (q\<lparr>read_queue := rt\<rparr>) t"
    obtain m where "run_callback E (wr_cb r) ?t = Inr (?t\<lparr>n_mem := m\<rparr>)" "same_outside A (n_mem ?t) m"
    proof (cases "wr_cb r")
      case None
      then show thesis by (intro that [of "n_mem ?t"]) (simp_all add: run_callback_def same_outside_def)
    next
      case (Some f)
      obtain m where "e_run_cb E f ?t = Inr (?t\<lparr>n_mem := m\<rparr>)" "same_outside A (n_mem ?t) m"
        using cbs unfolding callbacks_within_def by blast
      with Some show thesis by (intro that [of m]) (simp_all add: run_callback_def)
    qed
    with True q show ?thesis
      by (intro exI [of _ m]) (simp add: send_switch_def Msg_FreeBufferPair_def dec queue_front_def)
  next
    case False
    have "q\<lparr>read_queue := r # rt\<rparr> = q" using q(2) by simp
    then have "put_qp p (q\<lparr>read_queue := r # rt\<rparr>) t = t"
      using q(1) by (simp add: put_qp_def get_qp_Inr list_update_same_conv)
    with False q show ?thesis
      by (intro exI [of _ "n_mem t"]) (simp add: send_switch_def Msg_FreeBufferPair_def dec same_outside_def)
  qed
qed

text \<open>The answer as a whole, from the queue with the current record \<open>r\<close>.\<close>

lemma answer_sent:
  assumes dev: "device_ok E posted" and al: "allocates_within E posted A (n_ext t)" and size: "message_size_ok (e_cfg E)"
    and cbs: "callbacks_within E A" and b: "buffers_ok E A t" and p: "unat mid = p"
    and q: "get_qp p t = Inr q" "read_queue q = r # rt" and sb: "send_buffers_ok q t"
  shows "\<exists>s'. Register2NormalDone E mid b lst t = Inr s' \<and>
    message_sent posted p (msg_type_int kFreeBufferPair) (encode_FreeBufferPair (e_padding E)
      \<lparr>fb_src_machine_id = mid, fb_buffer_id = b, fb_last_piece = lst\<rparr>) t s' \<and>
    send_frame E A p (q\<lparr>read_queue := if lst then rt else r # rt\<rparr>) t s'"
proof -
  let ?f = "\<lparr>fb_src_machine_id = mid, fb_buffer_id = b, fb_last_piece = lst\<rparr>"
  let ?bs = "encode_FreeBufferPair (e_padding E) ?f" and ?q = "q\<lparr>read_queue := if lst then rt else r # rt\<rparr>"
  obtain m where sw: "send_switch E p (Msg_FreeBufferPair (e_padding E) ?f) t =
      Inr (msg_type_int kFreeBufferPair, FromBytes ?bs, of_nat sizeof_FreeBufferPair, (put_qp p ?q t)\<lparr>n_mem := m\<rparr>)"
    and m: "same_outside A (n_mem t) m"
    using answer_switch [OF cbs q] by blast
  let ?t = "(put_qp p ?q t)\<lparr>n_mem := m\<rparr>"
  have sw': "send_switch E p (Msg_FreeBufferPair (e_padding E) ?f) t =
      Inr (msg_type_int kFreeBufferPair, FromBytes ?bs, of_nat (length ?bs), ?t)" by (simp add: sw)
  have al': "allocates_within E posted A (n_ext ?t)" using al by (simp add: put_qp_def)
  have t: "buffers_ok E A ?t" "send_buffers_ok ?q ?t" "get_qp p ?t = Inr ?q"
    using b sb q(1) by (simp_all add: put_qp_def buffers_ok_def send_buffers_ok_def get_qp_Inr)
  have len: "0 < length ?bs" "length ?bs \<le> 24" by (simp_all add: sizeof_FreeBufferPair_def)
  obtain s' where s': "PostSendRequest E p (Msg_FreeBufferPair (e_padding E) ?f) t = Inr s'"
    "message_sent posted p (msg_type_int kFreeBufferPair) ?bs ?t s'" "send_frame E A p ?q ?t s'"
    using control_send [OF dev al' size t(1,3,2) sw' len] by blast
  have "checked_qp mid t = Inr p" using q(1) p by (auto simp: checked_qp_Inr get_qp_Inr)
  then have "Register2NormalDone E mid b lst t = Inr s'" by (simp add: Register2NormalDone_def s'(1))
  moreover have "sent posted ?t = sent posted t" by (simp add: sent_def put_qp_def)
  with s'(2) have "message_sent posted p (msg_type_int kFreeBufferPair) ?bs t s'" by (simp add: message_sent_def)
  moreover have "send_frame E A p ?q t s'"
    using s'(3) m same_outside_trans by (auto simp: send_frame_def put_qp_def)
  ultimately show ?thesis by blast
qed

text \<open>The steps of \<open>SyncRead\<close> on the machine: one copy, the new offset, the answer.\<close>

lemma node_SyncRead:
  assumes ok: "config_ok (e_cfg E)" and r: "wr_offset r < wr_bytes r" and d: "buffer_desc (e_cfg E) d base"
    and p: "unat mid = p" and q: "get_qp p s = Inr q" "read_queue q = r # rt" and h: "helper q \<noteq> None"
    and apart: "span base (next_bytes (e_cfg E) r) \<inter>
      span (wr_begin_addr r + wr_offset r) (next_bytes (e_cfg E) r) = {}"
  shows "helper_SyncRead E p mid b d s =
    Register2NormalDone E mid b (wr_bytes r \<le> wr_offset (advance (e_cfg E) r))
      ((put_qp p (q\<lparr>read_queue := advance (e_cfg E) r # rt\<rparr>) s)
        \<lparr>n_mem := memcpy (n_mem s) (wr_begin_addr r + wr_offset r) base (next_bytes (e_cfg E) r)\<rparr>)"
proof -
  let ?c = "e_cfg E"
  have ck: "checked_qp mid s = Inr p" using q(1) p by (auto simp: checked_qp_Inr get_qp_Inr)
  then have "GetWorkRecord mid s = Inr r"
    using q by (simp add: GetWorkRecord_def qp_GetWorkRecord_def queue_front_def)
  from SyncRead_copies [where get_rec = GetWorkRecord, OF ok r d this apart]
  have "SyncRead ?c GetWorkRecord SetWorkRecordOffset (node_r2n E) mid b d (n_mem s, s) =
      rbind (SetWorkRecordOffset mid (wr_offset (advance ?c r)) s) (\<lambda>n'.
        node_r2n E mid b (wr_bytes r \<le> wr_offset (advance ?c r))
          (memcpy (n_mem s) (wr_begin_addr r + wr_offset r) base (next_bytes ?c r), n'))" .
  moreover have "SetWorkRecordOffset mid (wr_offset (advance ?c r)) s =
      Inr (put_qp p (q\<lparr>read_queue := advance ?c r # rt\<rparr>) s)"
    using ck q by (simp add: SetWorkRecordOffset_def qp_SetWorkRecordOffset_def queue_front_def advance_def)
  moreover have "rbind x Inr = x" for x :: "'v node res" by (simp add: rbind_def split: sum.splits)
  ultimately show ?thesis using q(1) h
    by (auto simp: helper_SyncRead_def node_r2n_def rbind_assoc)
qed


end
