(* ===== verification/NodeDemo.thy ===== *)
theory NodeDemo
  imports NodeReader
begin

text \<open>
  A concrete machine for the concrete connection of ReadProtocol.thy: its device is a log of
  what was posted, its only message buffer lies at 1024. The handler theorems of NodeLink.thy
  and NodeReader.thy at each step of one read.
\<close>

section \<open>The connection at each step\<close>

lemma link_reached_step:
  assumes "link_reached L sb rb l" and "link_allowed L sb rb l e" and "link_step L l e = Inr l'"
  shows "link_reached L sb rb l'"
proof -
  from assms(1) obtain h m0 r0 os where h: "link_start L h"
    "schedule (link_step L) (link_allowed L sb rb) (new_link h m0 r0) os"
    "run (link_step L) (new_link h m0 r0) os = Inr l"
    unfolding link_reached_def by blast
  with assms(2,3) have "schedule (link_step L) (link_allowed L sb rb) (new_link h m0 r0) (os @ [e])"
    "run (link_step L) (new_link h m0 r0) (os @ [e]) = Inr l'"
    by (simp_all add: schedule_append run_append)
  with h(1) show ?thesis unfolding link_reached_def by blast
qed

text \<open>Before its operation number \<open>k\<close>, with any contents of the message buffers.\<close>

lemma demo_reached:
  assumes "k < 4" and "length wbs \<le> 1024" and "length rbs \<le> 1024"
  obtains l where "link_reached demo_link demo_base demo_base l"
    and "link_allowed demo_link demo_base demo_base l (demo_ops ! k)"
    and "load (l_wmem l) 1024 (length wbs) = wbs" and "load (l_rmem l) 1024 (length rbs) = rbs"
    and "k = 1 \<Longrightarrow> l_asked l = [WorkRecord 0 100 3 0 None]"
proof -
  let ?step = "link_step demo_link" and ?A = "link_allowed demo_link demo_base demo_base"
  let ?pre = "take k demo_ops" and ?post = "demo_ops ! k # drop (Suc k) demo_ops"
  obtain h where h: "link_start demo_link h" by (rule demo_start)
  let ?l0 = "new_link h (\<lambda>_. 0) (\<lambda>_. 0)"
  have "?pre @ ?post = demo_ops"
    using id_take_nth_drop [of k demo_ops] assms(1) by (simp add: demo_ops_def)
  then have sch: "schedule ?step ?A ?l0 (?pre @ ?post)"
    using demo_schedule [OF h, of "\<lambda>_. 0" "\<lambda>_. 0"] by simp
  then have pre: "schedule ?step ?A ?l0 ?pre" by (simp only: schedule_append)
  obtain l where l: "run ?step ?l0 ?pre = Inr l"
    using link_history [OF demo_link_ok h pre] by blast
  with sch have al: "?A l (demo_ops ! k)" by (simp add: schedule_append)
  have reached: "link_reached demo_link demo_base demo_base l"
    unfolding link_reached_def using h pre l by blast
  let ?wm = "store (l_wmem l) 1024 wbs" and ?rm = "store (l_rmem l) 1024 rbs"
  let ?l = "l\<lparr>l_wmem := ?wm, l_rmem := ?rm\<rparr>"
  have "same_outside (span 1024 1024) m (store m 1024 bs)" if "length bs \<le> 1024" for m bs
    using span_mono [OF that, of 1024] by (auto simp: same_outside_def intro!: store_outside)
  with assms have "?A l (Other ?wm ?rm)" by (simp add: demo_link_def)
  then have "link_reached demo_link demo_base demo_base ?l"
    by (rule link_reached_step [OF reached]) simp
  moreover have "?A ?l (demo_ops ! k)"
    using al by (cases "demo_ops ! k") (use assms(1) in \<open>auto simp: demo_ops_def nth_Cons split: nat.splits\<close>)
  moreover have "l_asked ?l = [WorkRecord 0 100 3 0 None]" if "k = 1"
    using l that by (auto simp: demo_ops_def new_link_def demo_link_def)
  ultimately show thesis
    using assms by (intro that [of ?l]) (simp_all add: load_store_same)
qed

section \<open>The machine\<close>

type_synonym device_log = "(nat \<times> send_wr) list"

definition log_env :: "device_log env" where
  "log_env = \<lparr>e_cfg = lc_cfg demo_link, e_malloc = (\<lambda>v n. (1024, v)),
     e_reg_mr = (\<lambda>v a n. (Some \<lparr>mr_lkey = 1, mr_rkey = 2\<rparr>, v)),
     e_post_send = (\<lambda>v p wr. (0, v @ [(p, wr)])), e_post_recv = (\<lambda>v p wr. (0, v)),
     e_padding = (0, 0, 0), e_run_cb = (\<lambda>f s. Inr s), e_run_handler = (\<lambda>f a n s. Inr s)\<rparr>"

definition demo_mr :: msg_mr where
  "demo_mr = \<lparr>mr_desc = \<lparr>sge_vec = [\<lparr>sge_addr = 1024, sge_length = 1024, sge_lkey = 1\<rparr>],
      mr_vec = [\<lparr>mr_lkey = 1, mr_rkey = 2\<rparr>]\<rparr>,
     mr_ptr = 1024, mr_msg_type_key = 0, mr_cb = None\<rparr>"

text \<open>A machine with one queue pair \<open>p\<close>, its helper, its reads and its memory.\<close>

definition log_qp :: "write_helper \<Rightarrow> work_record list \<Rightarrow> qp" where
  "log_qp h rs = \<lparr>this_machine_id = 0, peer_machine_id = 1, recv_msg_buf = [], send_msg_buf = [],
     helper = Some h, qp_mem_desc = map (\<lambda>d. (d, d)) (lc_recv demo_link),
     send_recv_mem_desc = lc_pairs demo_link, read_queue = rs, read_done_cbs = [Some 7]\<rparr>"

definition log_node :: "nat \<Rightarrow> write_helper \<Rightarrow> work_record list \<Rightarrow> memory \<Rightarrow> device_log node" where
  "log_node p h rs m = \<lparr>n_mem = m, n_mrs = [0 \<mapsto> demo_mr], next_mr = 1,
     n_wrs = [0 \<mapsto> \<lparr>wrid_qp = p, outstanding_sge_cnt = 0, wrid_msg_mr = Some 0\<rparr>], next_wr = 1,
     qp_vec = replicate p None @ [Some (log_qp h rs)], msg_handlers = (\<lambda>_. None), n_ext = []\<rparr>"

lemma demo_machine:
  "device_ok log_env (\<lambda>v. v)" "e_cfg log_env = lc_cfg demo_link"
  "message_size_ok (lc_cfg demo_link)"
  "lc_reader demo_link = 0" "lc_writer demo_link = 1"
  "lc_wother demo_link = span 1024 1024" "lc_rother demo_link = span 1024 1024"
  "get_qp p (log_node p h rs m) = Inr (log_qp h rs)"
  "received_at p 0 (log_node p h rs m) 0 demo_mr"
  "n_mem (log_node p h rs m) = m"
  by (simp_all add: device_ok_def log_env_def message_size_ok_def
      MaxMsgBytes_def demo_sizes received_at_def log_node_def demo_mr_def get_qp_def nth_append)
    (simp_all add: demo_link_def default_config_def)

lemma demo_callbacks: "callbacks_within log_env A"
proof -
  have "\<exists>m. s = s\<lparr>n_mem := m\<rparr> \<and> same_outside A (n_mem s) m" for s :: "device_log node"
    by (intro exI [of _ "n_mem s"]) (simp add: same_outside_def)
  then show ?thesis by (simp add: callbacks_within_def log_env_def)
qed

lemma demo_allocates: "allocates_within log_env (\<lambda>v. v) (lc_rother demo_link) v"
  by (simp add: allocates_within_def log_env_def demo_link_def MaxMsgBytes_def default_config_def)

lemma demo_writer: "writer_node 0 (log_node 0 (l_helper l) rs (l_wmem l)) l"
  by (simp add: writer_node_def demo_machine log_qp_def)

lemma demo_reader: "reader_node log_env demo_link 1 (log_node 1 h (fst (l_reader l)) (l_rmem l)) l"
  by (simp add: reader_node_def demo_machine reader_qp_def log_qp_def buffers_ok_def send_buffers_ok_def)
    (simp add: log_node_def demo_mr_def log_env_def demo_link_def MaxMsgBytes_def default_config_def comp_def)

text \<open>A control message in the buffer.\<close>

definition demo_message :: "byte list \<Rightarrow> byte list" where
  "demo_message bs = le_encode 8 (of_nat (length bs)) @ bs"

lemma demo_message_read:
  assumes "load m 1024 (8 + length bs) = demo_message bs"
  shows "msg_bytes m demo_mr = of_nat (length bs)" and "load m (msg_ptr demo_mr) (length bs) = bs"
proof -
  have "load m 1024 8 = le_encode 8 (of_nat (length bs))" "load m (1024 + of_nat 8) (length bs) = bs"
    using assms by (simp_all add: load_add demo_message_def append_eq_append_conv)
  then show "msg_bytes m demo_mr = of_nat (length bs)" "load m (msg_ptr demo_mr) (length bs) = bs"
    by (simp_all add: msg_bytes_def msg_ptr_def demo_mr_def le_roundtrip_64)
qed

section \<open>One read, handler by handler\<close>

theorem read_implements_link_witness:
  "\<exists>s s' l l'. reader_node log_env demo_link 1 s l \<and> DoRead log_env 1 100 3 200 None s = Inr s' \<and>
    run (link_step demo_link) l [Read 100 200 3 None, Other (l_wmem l) (n_mem s')] = Inr l' \<and>
    reader_node log_env demo_link 1 s' l' \<and>
    message_sent (\<lambda>v. v) 1 1 (encode_PleaseWrite \<lparr>pw_dst_machine_id = 0, pw_src_addr = 100, pw_bytes = 3\<rparr>) s s'"
proof -
  obtain l where l: "link_allowed demo_link demo_base demo_base l (Read 100 200 3 None)"
    by (rule demo_reached [of 0 "[]" "[]"]) (simp_all add: demo_ops_def del: link_allowed.simps)
  obtain h where "link_start demo_link h" by (rule demo_start)
  have p: "unat (lc_writer demo_link) = 1" and size: "message_size_ok (e_cfg log_env)"
    by (simp_all add: demo_machine)
  have "msg_type_int kPleaseWrite = 1" "lc_writer demo_link = 1" "lc_reader demo_link = 0"
    by (simp_all add: demo_machine)
  with read_implements_link [OF l demo_machine(1) demo_allocates size p demo_reader, of h] demo_reader [of h l]
  show ?thesis by metis
qed




end
