(* ===== verification/Poller.thy ===== *)
theory Poller
  imports QPProps
begin

text \<open>
  \<open>ibverbs/ibverbs_poller.{h,cpp}\<close>: the thread that polls a completion queue and passes each
  completed work request to its queue pair, and the flag with which \<open>Stop\<close> ends it. The
  completions come from \<open>ibv_poll_cq\<close>: a batch is what one call of it returns.
\<close>

section \<open>Dispatching completions\<close>

datatype wc_opcode =
  IBV_WC_SEND | IBV_WC_RDMA_WRITE | IBV_WC_RECV_RDMA_WITH_IMM | IBV_WC_RECV | wc_other int

record ibv_wc =
  wc_success :: bool
  wc_wr_id :: nat
  wc_opcode_of :: wc_opcode
  wc_imm_data :: i32

definition max_poll_wc_num :: i32 where
  "max_poll_wc_num = 32"

text \<open>The body of the loop over a batch: the handlers of \<open>wr_id->qp\<close>.\<close>

definition handle_wc :: "'v env \<Rightarrow> 'v node \<Rightarrow> ibv_wc \<Rightarrow> 'v node res" where
  "handle_wc E s wc =
     check (wc_success wc)
       (rbind (get_wr (wc_wr_id wc) s) (\<lambda>x.
          case wc_opcode_of wc of
            IBV_WC_SEND \<Rightarrow> SendDone E (wrid_qp x) (wc_wr_id wc) s
          | IBV_WC_RDMA_WRITE \<Rightarrow> RDMAWriteDone (wrid_qp x) (wc_wr_id wc) s
          | IBV_WC_RECV_RDMA_WITH_IMM \<Rightarrow>
              RDMARecvDone E (wrid_qp x) (wc_wr_id wc) (wc_imm_data wc) s
          | IBV_WC_RECV \<Rightarrow> RecvDone E (wrid_qp x) (wc_wr_id wc) (wc_imm_data wc) s
          | wc_other _ \<Rightarrow> Inl Fatal))"

text \<open>
  One turn of the loop after \<open>ibv_poll_cq\<close> has put \<open>found\<close> into its return value and
  \<open>wcs\<close> into the vector, which has \<open>max_poll_wc_num\<close> elements.
\<close>

definition poll_batch :: "'v env \<Rightarrow> 'v node \<Rightarrow> i32 \<times> ibv_wc list \<Rightarrow> 'v node res" where
  "poll_batch E s = (\<lambda>(found, wcs).
     check (0 \<le> sint found)
       (if nat (sint found) \<le> length wcs then run (handle_wc E) s (take (nat (sint found)) wcs)
        else rbind (run (handle_wc E) s wcs) (\<lambda>_. Inl OutOfRange)))"

text \<open>
  \<open>PollCQ\<close> over the batches of its turns. \<open>flags\<close> are the results of its \<open>test_and_set\<close>
  calls: the loop ends at the first that returns true. None is a loop that goes on.
\<close>

fun PollCQ :: "'v env \<Rightarrow> (bool \<times> i32 \<times> ibv_wc list) list \<Rightarrow> 'v node \<Rightarrow> 'v node res option" where
  "PollCQ E [] s = None"
| "PollCQ E ((flag, batch) # turns) s =
     (if flag then Some (Inr s)
      else (case poll_batch E s batch of
              Inl e \<Rightarrow> Some (Inl e)
            | Inr s' \<Rightarrow> PollCQ E turns s'))"

section \<open>Start and Stop\<close>

text \<open>
  The two threads and the flag. The polling thread is before its \<open>test_and_set\<close>, between it
  and \<open>clear\<close>, working on a batch, or finished; \<open>Stop\<close> spins until its own
  \<open>test_and_set\<close> returns false, then joins the thread.
\<close>

datatype poll_pc = at_test | at_clear | at_work | poll_exited
datatype stop_pc = not_called | spinning | joining | stop_returned

record poller =
  poll_exit_flag :: bool
  poll_at :: poll_pc
  stop_at :: stop_pc
  batches :: nat

definition Start :: poller where
  "Start = \<lparr>poll_exit_flag = False, poll_at = at_test, stop_at = not_called, batches = 0\<rparr>"

inductive poller_step :: "poller \<Rightarrow> poller \<Rightarrow> bool" where
  test_enter: "poll_at t = at_test \<Longrightarrow> \<not> poll_exit_flag t \<Longrightarrow>
    poller_step t (t\<lparr>poll_exit_flag := True, poll_at := at_clear\<rparr>)"
| test_leave: "poll_at t = at_test \<Longrightarrow> poll_exit_flag t \<Longrightarrow>
    poller_step t (t\<lparr>poll_at := poll_exited\<rparr>)"
| clear: "poll_at t = at_clear \<Longrightarrow>
    poller_step t (t\<lparr>poll_exit_flag := False, poll_at := at_work\<rparr>)"
| work: "poll_at t = at_work \<Longrightarrow>
    poller_step t (t\<lparr>poll_at := at_test, batches := Suc (batches t)\<rparr>)"
| call_stop: "stop_at t = not_called \<Longrightarrow> poller_step t (t\<lparr>stop_at := spinning\<rparr>)"
| spin: "stop_at t = spinning \<Longrightarrow> poll_exit_flag t \<Longrightarrow> poller_step t t"
| spin_done: "stop_at t = spinning \<Longrightarrow> \<not> poll_exit_flag t \<Longrightarrow>
    poller_step t (t\<lparr>poll_exit_flag := True, stop_at := joining\<rparr>)"
| join: "stop_at t = joining \<Longrightarrow> poll_at t = poll_exited \<Longrightarrow>
    poller_step t (t\<lparr>stop_at := stop_returned\<rparr>)"

inductive poller_reachable :: "poller \<Rightarrow> bool" where
  started: "poller_reachable Start"
| stepped: "poller_reachable t \<Longrightarrow> poller_step t u \<Longrightarrow> poller_reachable u"

inductive_cases poller_stepE: "poller_step t u"

text \<open>
  The flag is set exactly while the polling thread is between \<open>test_and_set\<close> and \<open>clear\<close>
  or after \<open>Stop\<close> has taken it, and never both: the poller cannot clear a stop request.
\<close>

definition stop_taken :: "poller \<Rightarrow> bool" where
  "stop_taken t \<longleftrightarrow> stop_at t = joining \<or> stop_at t = stop_returned"

definition poller_inv :: "poller \<Rightarrow> bool" where
  "poller_inv t \<longleftrightarrow>
     (poll_exit_flag t \<longleftrightarrow> poll_at t = at_clear \<or> stop_taken t) \<and>
     (stop_taken t \<longrightarrow> poll_at t \<noteq> at_clear) \<and>
     (poll_at t = poll_exited \<longrightarrow> stop_taken t) \<and>
     (stop_at t = stop_returned \<longrightarrow> poll_at t = poll_exited)"

lemma poller_step_inv: "poller_step t u \<Longrightarrow> poller_inv t \<Longrightarrow> poller_inv u"
  by (induction rule: poller_step.induct) (auto simp: poller_inv_def stop_taken_def)

lemma poller_reachable_inv: "poller_reachable t \<Longrightarrow> poller_inv t"
proof (induction rule: poller_reachable.induct)
  case started
  show ?case by (simp add: poller_inv_def stop_taken_def Start_def)
qed (blast intro: poller_step_inv)

text \<open>The steps of the polling thread that are left once \<open>Stop\<close> has taken the flag.\<close>

definition steps_left :: "poller \<Rightarrow> nat" where
  "steps_left t = (case poll_at t of at_work \<Rightarrow> 2 | at_test \<Rightarrow> 1 | at_clear \<Rightarrow> 3 | poll_exited \<Rightarrow> 0)
     + (if stop_at t = stop_returned then 0 else 1)"

text \<open>
  C19: a stop request is never lost. In every interleaving, once the loop of \<open>Stop\<close> has ended,
  each further step brings the two threads closer to the return of \<open>Stop\<close> and one is always
  possible until then; the poller finishes at most the batch it is in; and \<open>Stop\<close> returns
  only after the polling thread has ended.
\<close>

theorem stop_is_not_lost:
  assumes "poller_reachable t" and "stop_taken t"
  shows "poll_exit_flag t \<and> (stop_at t = stop_returned \<longrightarrow> poll_at t = poll_exited) \<and>
    (\<forall>u. poller_step t u \<longrightarrow> steps_left u < steps_left t \<and> stop_taken u \<and>
       batches u \<le> batches t + (if poll_at t = at_work then 1 else 0)) \<and>
    (stop_at t \<noteq> stop_returned \<longrightarrow> (\<exists>u. poller_step t u))"
proof -
  have i: "poller_inv t" using assms(1) by (rule poller_reachable_inv)
  have "steps_left u < steps_left t \<and> stop_taken u \<and>
      batches u \<le> batches t + (if poll_at t = at_work then 1 else 0)" if "poller_step t u" for u
    using that i assms(2)
    by (cases rule: poller_stepE) (auto simp: poller_inv_def stop_taken_def steps_left_def)
  moreover have "\<exists>u. poller_step t u" if "stop_at t \<noteq> stop_returned"
    using that i assms(2)
    by (cases "poll_at t")
      (auto simp: poller_inv_def stop_taken_def
        intro: poller_step.test_leave poller_step.work poller_step.join)
  ultimately show ?thesis using i assms(2) by (auto simp: poller_inv_def)
qed

theorem stop_is_not_lost_witness:
  "\<exists>t u. poller_reachable t \<and> stop_taken t \<and> poller_step t u \<and> steps_left u < steps_left t"
proof -
  let ?t = "Start\<lparr>stop_at := joining, poll_exit_flag := True\<rparr>"
  have "poller_step Start (Start\<lparr>stop_at := spinning\<rparr>)"
    by (rule poller_step.call_stop) (simp add: Start_def)
  moreover have "poller_step (Start\<lparr>stop_at := spinning\<rparr>)
      (Start\<lparr>stop_at := spinning, poll_exit_flag := True, stop_at := joining\<rparr>)"
    using poller_step.spin_done [of "Start\<lparr>stop_at := spinning\<rparr>"] by (simp add: Start_def)
  ultimately have r: "poller_reachable ?t"
    using poller_reachable.stepped [OF poller_reachable.stepped [OF poller_reachable.started]]
    by (simp add: Start_def)
  have s: "stop_taken ?t" by (simp add: stop_taken_def)
  from stop_is_not_lost [OF r s] have "\<exists>u. poller_step ?t u" by simp
  with stop_is_not_lost [OF r s] r s show ?thesis by blast
qed

definition full_batch :: "i32 \<times> ibv_wc list \<Rightarrow> bool" where
  "full_batch b \<longleftrightarrow> 0 \<le> sint (fst b) \<and> nat (sint (fst b)) \<le> length (snd b)"

definition batch_wcs :: "i32 \<times> ibv_wc list \<Rightarrow> ibv_wc list" where
  "batch_wcs b = take (nat (sint (fst b))) (snd b)"

text \<open>
  C37: a batch is handled in order and once. What the poller does with the completions of
  several polls is what it would do with the concatenation of them as one, as long as nothing
  aborts; so the number of completions per poll cannot change the behaviour.
\<close>

theorem polling_is_batch_independent:
  assumes "list_all full_batch bs"
  shows "PollCQ E (map (Pair False) bs @ [(True, b)]) s =
    Some (run (handle_wc E) s (concat (map batch_wcs bs)))"
  using assms
proof (induction bs arbitrary: s)
  case (Cons c bs)
  then have "poll_batch E s c = run (handle_wc E) s (batch_wcs c)" for s
    by (simp add: poll_batch_def full_batch_def batch_wcs_def split_beta)
  with Cons show ?case
    by (cases "run (handle_wc E) s (batch_wcs c)") (auto simp: run_append)
qed simp

theorem polling_is_batch_independent_witness:
  "\<exists>wc. PollCQ demo_env [(False, 1, [wc, wc]), (False, 1, [wc]), (True, 0, [])] demo_node =
     Some (run (handle_wc demo_env) demo_node [wc, wc])"
proof
  let ?wc = "\<lparr>wc_success = True, wc_wr_id = 0, wc_opcode_of = IBV_WC_RDMA_WRITE, wc_imm_data = 0\<rparr>"
  show "PollCQ demo_env [(False, 1, [?wc, ?wc]), (False, 1, [?wc]), (True, 0, [])] demo_node =
      Some (run (handle_wc demo_env) demo_node [?wc, ?wc])"
    using polling_is_batch_independent [of "[(1, [?wc, ?wc]), (1, [?wc])]" demo_env "(0, [])" demo_node]
    by (simp add: full_batch_def batch_wcs_def)
qed

end
