(* ===== verification/CtrlServer.thy ===== *)
theory CtrlServer
  imports Prelude
begin

text \<open>
  The control server (\<open>control/ctrl_server.cpp\<close>, \<open>control/ctrl_call.h\<close>,
  \<open>control/control.proto\<close>): one thread serves the five remote calls. \<open>PushKV\<close>,
  \<open>PullKV\<close> and \<open>ClearKV\<close> are a key/value store in which a pull waits for the push of its
  key; \<open>Barrier\<close> holds calls back until the announced number has arrived.

  A \<open>CtrlCall\<close> object is a heap entry named by a number; using a deleted one is a fault.
  gRPC is the environment: \<open>registered\<close> are the calls handed to it with
  \<open>RequestAsyncUnary\<close>, \<open>finished\<close> the responses passed to \<open>Finish\<close>, in order, and a
  \<open>cq_item\<close> is what one \<open>Next\<close> on the completion queue returns.
\<close>

section \<open>Requests, responses and calls\<close>

datatype ctrl_method = kLoadServer | kBarrier | kPushKV | kClearKV | kPullKV

datatype ctrl_request =
    LoadServerRequest (req_addr: string)
  | BarrierRequest (req_name: string) (req_num: i32)
  | PushKVRequest (req_key: string) (req_val: "byte list")
  | ClearKVRequest string
  | PullKVRequest string

datatype ctrl_response =
    LoadServerResponse
  | BarrierResponse
  | PushKVResponse
  | ClearKVResponse
  | PullKVResponse "byte list"

primrec method_of :: "ctrl_request \<Rightarrow> ctrl_method" where
  "method_of (LoadServerRequest a) = kLoadServer"
| "method_of (BarrierRequest n k) = kBarrier"
| "method_of (PushKVRequest k v) = kPushKV"
| "method_of (ClearKVRequest k) = kClearKV"
| "method_of (PullKVRequest k) = kPullKV"

text \<open>A new call holds default-initialised messages.\<close>

primrec default_request :: "ctrl_method \<Rightarrow> ctrl_request" where
  "default_request kLoadServer = LoadServerRequest ''''"
| "default_request kBarrier = BarrierRequest '''' 0"
| "default_request kPushKV = PushKVRequest '''' []"
| "default_request kClearKV = ClearKVRequest ''''"
| "default_request kPullKV = PullKVRequest ''''"

primrec default_response :: "ctrl_method \<Rightarrow> ctrl_response" where
  "default_response kLoadServer = LoadServerResponse"
| "default_response kBarrier = BarrierResponse"
| "default_response kPushKV = PushKVResponse"
| "default_response kClearKV = ClearKVResponse"
| "default_response kPullKV = PullKVResponse []"

datatype call_status = kBeforeHandleRequest | kBeforeDelete

record ctrl_call =
  status :: call_status
  request :: ctrl_request
  response :: ctrl_response

definition CtrlCall :: "ctrl_method \<Rightarrow> ctrl_call" where
  "CtrlCall m = \<lparr>status = kBeforeHandleRequest, request = default_request m,
     response = default_response m\<rparr>"

section \<open>The server\<close>

record server =
  is_first_connect :: bool
  this_machine_addr :: string
  barrier_calls :: "string \<Rightarrow> (nat list \<times> i32) option"
  kv :: "string \<Rightarrow> byte list option"
  pending_kv_calls :: "string \<Rightarrow> nat list option"
  call_heap :: "nat \<Rightarrow> ctrl_call option"
  next_call :: nat
  registered :: "nat list"
  finished :: "(nat \<times> ctrl_response) list"
  is_shutdown :: bool

text \<open>\<open>new CtrlCall\<close> and \<open>RequestAsyncUnary\<close>.\<close>

definition EnqueueRequest :: "ctrl_method \<Rightarrow> server \<Rightarrow> server" where
  "EnqueueRequest m s = s\<lparr>call_heap := (call_heap s)(next_call s \<mapsto> CtrlCall m),
     next_call := Suc (next_call s), registered := registered s @ [next_call s]\<rparr>"

definition EnqueueRequests :: "server \<Rightarrow> server" where
  "EnqueueRequests s =
     EnqueueRequest kPullKV (EnqueueRequest kClearKV (EnqueueRequest kPushKV
       (EnqueueRequest kBarrier (EnqueueRequest kLoadServer s))))"

definition get_call :: "nat \<Rightarrow> server \<Rightarrow> ctrl_call res" where
  "get_call c s = (case call_heap s c of None \<Rightarrow> Inl Undefined | Some call \<Rightarrow> Inr call)"

definition set_call :: "nat \<Rightarrow> ctrl_call \<Rightarrow> server \<Rightarrow> server" where
  "set_call c call s = s\<lparr>call_heap := (call_heap s)(c \<mapsto> call)\<rparr>"

definition SendResponse :: "nat \<Rightarrow> server \<Rightarrow> server res" where
  "SendResponse c s = rbind (get_call c s) (\<lambda>call.
     Inr (set_call c (call\<lparr>status := kBeforeDelete\<rparr>)
       (s\<lparr>finished := finished s @ [(c, response call)]\<rparr>)))"

text \<open>\<open>mut_response()->set_val(v)\<close> on a pull call.\<close>

definition set_val :: "nat \<Rightarrow> byte list \<Rightarrow> server \<Rightarrow> server res" where
  "set_val c v s = rbind (get_call c s) (\<lambda>call.
     Inr (set_call c (call\<lparr>response := PullKVResponse v\<rparr>) s))"

definition delete_call :: "nat \<Rightarrow> server \<Rightarrow> server res" where
  "delete_call c s = rbind (get_call c s) (\<lambda>_.
     Inr (s\<lparr>call_heap := (call_heap s)(c := None)\<rparr>))"

section \<open>The handlers of \<open>CtrlServer::Init\<close>\<close>

definition handle_LoadServer :: "nat \<Rightarrow> string \<Rightarrow> server \<Rightarrow> server res" where
  "handle_LoadServer c addr s =
     rbind (if is_first_connect s
            then Inr (s\<lparr>this_machine_addr := addr, is_first_connect := False\<rparr>)
            else check (addr = this_machine_addr s) (Inr s)) (\<lambda>s.
     rbind (SendResponse c s) (\<lambda>s.
     Inr (EnqueueRequest kLoadServer s)))"

text \<open>
  The list's \<open>size()\<close> (unsigned, 64 bits) is compared with the signed 32-bit number, which
  C++ sign-extends: a negative number is never reached.
\<close>

definition handle_Barrier :: "nat \<Rightarrow> string \<Rightarrow> i32 \<Rightarrow> server \<Rightarrow> server res" where
  "handle_Barrier c barrier_name barrier_num s =
     (let it = (case barrier_calls s barrier_name of None \<Rightarrow> ([], barrier_num) | Some it \<Rightarrow> it);
          waiting = fst it @ [c];
          s = s\<lparr>barrier_calls := (barrier_calls s)(barrier_name \<mapsto> (waiting, snd it))\<rparr>
      in check (barrier_num = snd it)
         (rbind (if (of_nat (length waiting) :: u64) = scast (snd it)
                 then rbind (run (\<lambda>s pending_call. SendResponse pending_call s) s waiting) (\<lambda>s.
                      Inr (s\<lparr>barrier_calls := (barrier_calls s)(barrier_name := None)\<rparr>))
                 else Inr s) (\<lambda>s.
          Inr (EnqueueRequest kBarrier s))))"

definition answer_pull :: "byte list \<Rightarrow> server \<Rightarrow> nat \<Rightarrow> server res" where
  "answer_pull v s c = rbind (set_val c v s) (SendResponse c)"

definition handle_PushKV :: "nat \<Rightarrow> string \<Rightarrow> byte list \<Rightarrow> server \<Rightarrow> server res" where
  "handle_PushKV c k v s =
     check (kv s k = None)
     (let s = s\<lparr>kv := (kv s)(k \<mapsto> v)\<rparr> in
      rbind (case pending_kv_calls s k of
               None \<Rightarrow> Inr s
             | Some pending \<Rightarrow>
                 rbind (run (answer_pull v) s pending) (\<lambda>s.
                 Inr (s\<lparr>pending_kv_calls := (pending_kv_calls s)(k := None)\<rparr>))) (\<lambda>s.
      rbind (SendResponse c s) (\<lambda>s.
      Inr (EnqueueRequest kPushKV s))))"

definition handle_ClearKV :: "nat \<Rightarrow> string \<Rightarrow> server \<Rightarrow> server res" where
  "handle_ClearKV c k s =
     check (kv s k \<noteq> None)
     (let s = s\<lparr>kv := (kv s)(k := None)\<rparr> in
      check (pending_kv_calls s k = None)
      (rbind (SendResponse c s) (\<lambda>s.
       Inr (EnqueueRequest kClearKV s))))"

definition handle_PullKV :: "nat \<Rightarrow> string \<Rightarrow> server \<Rightarrow> server res" where
  "handle_PullKV c k s =
     rbind (case kv s k of
              Some v \<Rightarrow> rbind (set_val c v s) (SendResponse c)
            | None \<Rightarrow>
                (let waiting = (case pending_kv_calls s k of None \<Rightarrow> [] | Some cs \<Rightarrow> cs)
                 in Inr (s\<lparr>pending_kv_calls := (pending_kv_calls s)(k \<mapsto> waiting @ [c])\<rparr>))) (\<lambda>s.
     Inr (EnqueueRequest kPullKV s))"

text \<open>The bound handler of a call: the one of its method, on its request.\<close>

definition request_handler :: "nat \<Rightarrow> ctrl_request \<Rightarrow> server \<Rightarrow> server res" where
  "request_handler c r = (case r of
     LoadServerRequest addr \<Rightarrow> handle_LoadServer c addr
   | BarrierRequest nm num \<Rightarrow> handle_Barrier c nm num
   | PushKVRequest k v \<Rightarrow> handle_PushKV c k v
   | ClearKVRequest k \<Rightarrow> handle_ClearKV c k
   | PullKVRequest k \<Rightarrow> handle_PullKV c k)"

definition Process :: "nat \<Rightarrow> server \<Rightarrow> server res" where
  "Process c s = rbind (get_call c s) (\<lambda>call.
     case status call of
       kBeforeHandleRequest \<Rightarrow> request_handler c (request call) s
     | kBeforeDelete \<Rightarrow> delete_call c s)"

section \<open>The service loop\<close>

text \<open>
  What \<open>Next(&tag, &ok)\<close> returns: the tag of a registered call whose request gRPC has
  filled in, the tag of a call whose response went out, a tag with \<open>ok\<close> false, or the
  null tag of the alarm that the destructor sets.
\<close>

datatype cq_item =
    Arrived nat ctrl_request
  | Sent nat
  | NotOk "nat option"
  | AlarmTag

definition fill_request :: "nat \<Rightarrow> ctrl_request \<Rightarrow> server \<Rightarrow> server" where
  "fill_request c r s = (case call_heap s c of
     None \<Rightarrow> s
   | Some call \<Rightarrow> set_call c (call\<lparr>request := r\<rparr>) (s\<lparr>registered := remove1 c (registered s)\<rparr>))"

definition HandleRpcs_step :: "server \<Rightarrow> cq_item \<Rightarrow> server res" where
  "HandleRpcs_step s item = (case item of
     NotOk tag \<Rightarrow> check (is_shutdown s)
       (case tag of
          None \<Rightarrow> Inl CheckFailed
        | Some c \<Rightarrow> delete_call c (s\<lparr>registered := remove1 c (registered s)\<rparr>))
   | Arrived c r \<Rightarrow> Process c (fill_request c r s)
   | Sent c \<Rightarrow> Process c s
   | AlarmTag \<Rightarrow> check (\<not> is_shutdown s) (Inr (s\<lparr>is_shutdown := True\<rparr>)))"

definition CtrlServer_init :: server where
  "CtrlServer_init = \<lparr>is_first_connect = True, this_machine_addr = '''',
     barrier_calls = (\<lambda>_. None), kv = (\<lambda>_. None), pending_kv_calls = (\<lambda>_. None),
     call_heap = (\<lambda>_. None), next_call = 0, registered = [], finished = [], is_shutdown = False\<rparr>"

text \<open>The loop over the items of the queue until it is drained.\<close>

definition HandleRpcs :: "cq_item list \<Rightarrow> server res" where
  "HandleRpcs items = run HandleRpcs_step (EnqueueRequests CtrlServer_init) items"

end
