(* ===== verification/CtrlServerProps.thy ===== *)
theory CtrlServerProps
  imports CtrlServer
begin

text \<open>
  What the control server promises: an invariant of its state under which no handler
  faults while the clients follow the protocol (an instance of the \<open>safe_ops\<close> contract),
  the answer of every pull as a function of the requests before and after it, and the
  release of every barrier.
\<close>

section \<open>The invariant\<close>

text \<open>A call waits in a list of the server, or is held by it with a given request.\<close>

definition waits :: "server \<Rightarrow> nat \<Rightarrow> bool" where
  "waits s c \<longleftrightarrow> (\<exists>k l. pending_kv_calls s k = Some l \<and> c \<in> set l) \<or>
     (\<exists>n l m. barrier_calls s n = Some (l, m) \<and> c \<in> set l)"

definition open_call :: "ctrl_call \<Rightarrow> bool" where
  "open_call call \<longleftrightarrow> status call = kBeforeHandleRequest \<and>
     response call = default_response (method_of (request call))"

definition held :: "server \<Rightarrow> nat \<Rightarrow> ctrl_request \<Rightarrow> bool" where
  "held s c r \<longleftrightarrow> c \<notin> set (registered s) \<and>
     (\<exists>call. call_heap s c = Some call \<and> open_call call \<and> request call = r)"

definition wf_server :: "server \<Rightarrow> bool" where
  "wf_server s \<longleftrightarrow>
     (\<forall>c call. call_heap s c = Some call \<longrightarrow> c < next_call s) \<and>
     distinct (registered s) \<and>
     (\<forall>c \<in> set (registered s). \<not> waits s c \<and> (\<exists>call. call_heap s c = Some call \<and> open_call call)) \<and>
     (\<forall>k l. pending_kv_calls s k = Some l \<longrightarrow> l \<noteq> [] \<and> distinct l \<and> kv s k = None \<and>
        (\<forall>c \<in> set l. held s c (PullKVRequest k))) \<and>
     (\<forall>n l m. barrier_calls s n = Some (l, m) \<longrightarrow> l \<noteq> [] \<and> distinct l \<and>
        (\<forall>c \<in> set l. held s c (BarrierRequest n m))) \<and>
     distinct (map fst (finished s)) \<and>
     (\<forall>(c, r) \<in> set (finished s). c < next_call s \<and>
        (\<forall>call. call_heap s c = Some call \<longrightarrow> status call = kBeforeDelete))"

lemma wf_heap: "wf_server s \<Longrightarrow> call_heap s c = Some call \<Longrightarrow> c < next_call s"
  by (simp add: wf_server_def)

lemma wf_registered:
  "wf_server s \<Longrightarrow> c \<in> set (registered s) \<Longrightarrow>
   \<not> waits s c \<and> (\<exists>call. call_heap s c = Some call \<and> open_call call)"
  by (simp add: wf_server_def)

lemma wf_pending:
  "wf_server s \<Longrightarrow> pending_kv_calls s k = Some l \<Longrightarrow>
   l \<noteq> [] \<and> distinct l \<and> kv s k = None \<and> (\<forall>c \<in> set l. held s c (PullKVRequest k))"
  by (simp add: wf_server_def)

lemma wf_barrier:
  "wf_server s \<Longrightarrow> barrier_calls s n = Some (l, m) \<Longrightarrow>
   l \<noteq> [] \<and> distinct l \<and> (\<forall>c \<in> set l. held s c (BarrierRequest n m))"
  by (simp add: wf_server_def)

lemma wf_finished:
  "wf_server s \<Longrightarrow> (c, r) \<in> set (finished s) \<Longrightarrow> c < next_call s \<and>
   (\<forall>call. call_heap s c = Some call \<longrightarrow> status call = kBeforeDelete)"
  by (auto simp: wf_server_def)

lemma wf_distinct:
  "wf_server s \<Longrightarrow> distinct (registered s)" "wf_server s \<Longrightarrow> distinct (map fst (finished s))"
  by (simp_all add: wf_server_def)

text \<open>
  What gRPC may return, and what the clients' protocol allows: one address, one number per
  barrier, a key pushed only while it is not stored and cleared only while it is.
\<close>

definition request_ok :: "server \<Rightarrow> ctrl_request \<Rightarrow> bool" where
  "request_ok s r = (case r of
     LoadServerRequest addr \<Rightarrow> is_first_connect s \<or> addr = this_machine_addr s
   | BarrierRequest n m \<Rightarrow>
       (case barrier_calls s n of None \<Rightarrow> True | Some it \<Rightarrow> m = snd it)
   | PushKVRequest k v \<Rightarrow> kv s k = None
   | ClearKVRequest k \<Rightarrow> kv s k \<noteq> None
   | PullKVRequest k \<Rightarrow> True)"

definition answered_call :: "server \<Rightarrow> nat \<Rightarrow> bool" where
  "answered_call s c = (case call_heap s c of None \<Rightarrow> False | Some call \<Rightarrow> status call = kBeforeDelete)"

definition item_ok :: "server \<Rightarrow> cq_item \<Rightarrow> bool" where
  "item_ok s item = (case item of
     Arrived c r \<Rightarrow> c \<in> set (registered s) \<and>
       (case call_heap s c of None \<Rightarrow> False | Some call \<Rightarrow> method_of (request call) = method_of r) \<and>
       request_ok s r
   | Sent c \<Rightarrow> answered_call s c
   | NotOk tag \<Rightarrow> is_shutdown s \<and>
       (case tag of None \<Rightarrow> False | Some c \<Rightarrow> c \<in> set (registered s) \<or> answered_call s c)
   | AlarmTag \<Rightarrow> \<not> is_shutdown s)"

section \<open>Answering a list of calls\<close>

text \<open>The state after all calls of a list got the same response.\<close>

definition settle :: "ctrl_response \<Rightarrow> nat list \<Rightarrow> server \<Rightarrow> server" where
  "settle v cs s = s\<lparr>finished := finished s @ map (\<lambda>c. (c, v)) cs,
     call_heap := (\<lambda>c. if c \<in> set cs
       then map_option (\<lambda>call. call\<lparr>status := kBeforeDelete, response := v\<rparr>) (call_heap s c)
       else call_heap s c)\<rparr>"

lemma settle_simps [simp]:
  "settle v [] s = s"
  "is_first_connect (settle v cs s) = is_first_connect s"
  "this_machine_addr (settle v cs s) = this_machine_addr s"
  "barrier_calls (settle v cs s) = barrier_calls s"
  "kv (settle v cs s) = kv s"
  "pending_kv_calls (settle v cs s) = pending_kv_calls s"
  "next_call (settle v cs s) = next_call s"
  "registered (settle v cs s) = registered s"
  "finished (settle v cs s) = finished s @ map (\<lambda>c. (c, v)) cs"
  "is_shutdown (settle v cs s) = is_shutdown s"
  by (simp_all add: settle_def)

lemma settle_Cons: "settle v cs (settle v [c] s) = settle v (c # cs) s"
  by (auto simp: settle_def fun_eq_iff option.map_comp comp_def intro!: option.map_cong)

lemma SendResponse_settle:
  "call_heap s c = Some call \<Longrightarrow> response call = v \<Longrightarrow> SendResponse c s = Inr (settle v [c] s)"
  by (auto simp: SendResponse_def get_call_def set_call_def settle_def fun_eq_iff)

lemma answer_pull_settle:
  "call_heap s c = Some call \<Longrightarrow> answer_pull v s c = Inr (settle (PullKVResponse v) [c] s)"
  by (auto simp: answer_pull_def set_val_def SendResponse_def get_call_def set_call_def settle_def
      fun_eq_iff)

lemma settle_heap_other: "c \<notin> set cs \<Longrightarrow> call_heap (settle v cs s) c = call_heap s c"
  by (simp add: settle_def)

lemma settle_heap: "call_heap s c = Some call \<Longrightarrow>
  \<exists>call'. call_heap (settle v cs s) c = Some call' \<and> (response call = v \<longrightarrow> response call' = v)"
  by (simp add: settle_def)

lemma run_SendResponse:
  "\<forall>c \<in> set cs. \<exists>call. call_heap s c = Some call \<and> response call = v \<Longrightarrow>
   run (\<lambda>s c. SendResponse c s) s cs = Inr (settle v cs s)"
proof (induction cs arbitrary: s)
  case (Cons c cs)
  from Cons.prems obtain call where "call_heap s c = Some call" "response call = v" by auto
  then have "SendResponse c s = Inr (settle v [c] s)" by (rule SendResponse_settle)
  moreover have "\<forall>c' \<in> set cs. \<exists>call. call_heap (settle v [c] s) c' = Some call \<and> response call = v"
    using Cons.prems settle_heap [where cs = "[c]" and v = v] by fastforce
  ultimately show ?case using Cons.IH [of "settle v [c] s"] by (simp add: settle_Cons)
qed simp

lemma run_answer_pull:
  "\<forall>c \<in> set cs. call_heap s c \<noteq> None \<Longrightarrow>
   run (answer_pull v) s cs = Inr (settle (PullKVResponse v) cs s)"
proof (induction cs arbitrary: s)
  case (Cons c cs)
  from Cons.prems obtain call where "call_heap s c = Some call" by auto
  then have "answer_pull v s c = Inr (settle (PullKVResponse v) [c] s)" by (rule answer_pull_settle)
  moreover have "\<forall>c' \<in> set cs. call_heap (settle (PullKVResponse v) [c] s) c' \<noteq> None"
    using Cons.prems by (auto simp: settle_def)
  ultimately show ?case using Cons.IH [of "settle (PullKVResponse v) [c] s"]
    by (simp add: settle_Cons)
qed simp

section \<open>The state changes keep the invariant\<close>

lemma waits_settle [simp]: "waits (settle v cs s) c = waits s c"
  by (simp add: waits_def)

lemma held_settle: "c \<notin> set cs \<Longrightarrow> held (settle v cs s) c r = held s c r"
  by (simp add: held_def settle_heap_other)

lemma waits_pending: "pending_kv_calls s k = Some l \<Longrightarrow> c \<in> set l \<Longrightarrow> waits s c"
  by (auto simp: waits_def)

lemma waits_barrier: "barrier_calls s n = Some (l, m) \<Longrightarrow> c \<in> set l \<Longrightarrow> waits s c"
  unfolding waits_def by blast

lemma held_fresh:
  assumes "wf_server s" and "held s c r"
  shows "c < next_call s" "c \<notin> fst ` set (finished s)" "c \<notin> set (registered s)"
proof -
  from assms(2) obtain call where call: "call_heap s c = Some call" "status call = kBeforeHandleRequest"
    by (auto simp: held_def open_call_def)
  from wf_heap [OF assms(1) call(1)] show "c < next_call s" .
  show "c \<notin> fst ` set (finished s)" using wf_finished [OF assms(1)] call by fastforce
  show "c \<notin> set (registered s)" using assms(2) by (simp add: held_def)
qed

lemma wf_settle:
  assumes wf: "wf_server s" and "distinct cs"
    and h: "\<And>c. c \<in> set cs \<Longrightarrow> \<exists>r. held s c r" and w: "\<And>c. c \<in> set cs \<Longrightarrow> \<not> waits s c"
  shows "wf_server (settle v cs s)"
proof -
  have live: "c < next_call s" "c \<notin> fst ` set (finished s)" "c \<notin> set (registered s)" if "c \<in> set cs" for c
    using h [OF that] held_fresh [OF wf] by blast+
  have keep: "held (settle v cs s) c r" if "held s c r" "waits s c" for c r
    using w that by (metis held_settle)
  show ?thesis unfolding wf_server_def
  proof (intro conjI allI impI ballI)
    fix c call assume "call_heap (settle v cs s) c = Some call"
    then have "call_heap s c \<noteq> None" by (auto simp: settle_def split: if_splits)
    then show "c < next_call (settle v cs s)" using wf_heap [OF wf] by auto
  next
    fix c assume c: "c \<in> set (registered (settle v cs s))"
    with live have "c \<notin> set cs" by auto
    with wf_registered [OF wf, of c] c
    show "\<not> waits (settle v cs s) c" "\<exists>call. call_heap (settle v cs s) c = Some call \<and> open_call call"
      by (simp_all add: settle_heap_other)
  next
    fix k l assume "pending_kv_calls (settle v cs s) k = Some l"
    then have l: "pending_kv_calls s k = Some l" by simp
    note wf_pending [OF wf l]
    then show "l \<noteq> []" "distinct l" "kv (settle v cs s) k = None" by simp_all
    fix c assume "c \<in> set l"
    with wf_pending [OF wf l] waits_pending [OF l] show "held (settle v cs s) c (PullKVRequest k)"
      by (intro keep) auto
  next
    fix n l m assume "barrier_calls (settle v cs s) n = Some (l, m)"
    then have l: "barrier_calls s n = Some (l, m)" by simp
    note wf_barrier [OF wf l]
    then show "l \<noteq> []" "distinct l" by simp_all
    fix c assume "c \<in> set l"
    with wf_barrier [OF wf l] waits_barrier [OF l] show "held (settle v cs s) c (BarrierRequest n m)"
      by (intro keep) auto
  next
    have "fst ` set (finished s) \<inter> set cs = {}" using live by blast
    with wf_distinct(2) [OF wf] assms(2) show "distinct (map fst (finished (settle v cs s)))"
      by (simp add: comp_def)
  next
    fix e assume "e \<in> set (finished (settle v cs s))"
    then have "e \<in> set (finished s) \<or> fst e \<in> set cs" by auto
    then show "case e of (c, r) \<Rightarrow> c < next_call (settle v cs s) \<and>
        (\<forall>call. call_heap (settle v cs s) c = Some call \<longrightarrow> status call = kBeforeDelete)"
      using wf_finished [OF wf] live(1) by (cases e) (auto simp: settle_def split: if_splits)
  qed (use wf_distinct [OF wf] in simp)
qed

text \<open>
  A call being processed: held, in no list of the server. The invariant does not depend on
  \<open>is_first_connect\<close>, the address or the shutdown flag.
\<close>

definition current :: "server \<Rightarrow> nat \<Rightarrow> ctrl_request \<Rightarrow> bool" where
  "current s c r \<longleftrightarrow> held s c r \<and> \<not> waits s c"

lemma EnqueueRequest_simps [simp]:
  "is_first_connect (EnqueueRequest m s) = is_first_connect s"
  "this_machine_addr (EnqueueRequest m s) = this_machine_addr s"
  "barrier_calls (EnqueueRequest m s) = barrier_calls s"
  "kv (EnqueueRequest m s) = kv s"
  "pending_kv_calls (EnqueueRequest m s) = pending_kv_calls s"
  "finished (EnqueueRequest m s) = finished s"
  "is_shutdown (EnqueueRequest m s) = is_shutdown s"
  by (simp_all add: EnqueueRequest_def)

lemma waits_EnqueueRequest [simp]: "waits (EnqueueRequest m s) c = waits s c"
  by (simp add: waits_def)

lemma waits_heap:
  assumes "wf_server s" and "waits s c"
  shows "\<exists>r. held s c r"
  using assms wf_pending wf_barrier unfolding waits_def by blast

lemma held_EnqueueRequest:
  "wf_server s \<Longrightarrow> held s c r \<Longrightarrow> held (EnqueueRequest m s) c r"
  using held_fresh [of s c r] by (auto simp: held_def EnqueueRequest_def)

lemma wf_EnqueueRequest:
  assumes wf: "wf_server s"
  shows "wf_server (EnqueueRequest m s)"
proof -
  let ?t = "EnqueueRequest m s"
  have new: "call_heap s (next_call s) = None" using wf_heap [OF wf] by (cases "call_heap s (next_call s)") auto
  then have reg: "next_call s \<notin> set (registered s)" and wait: "\<not> waits s (next_call s)"
    using wf_registered [OF wf] waits_heap [OF wf] by (fastforce simp: held_def)+
  show ?thesis unfolding wf_server_def
  proof (intro conjI allI impI ballI)
    fix c call assume "call_heap ?t c = Some call"
    then show "c < next_call ?t" using wf_heap [OF wf, of c call]
      by (auto simp: EnqueueRequest_def split: if_splits)
  next
    show "distinct (registered ?t)" using wf_distinct [OF wf] reg by (simp add: EnqueueRequest_def)
  next
    fix c assume "c \<in> set (registered ?t)"
    with wf_registered [OF wf, of c] wait reg show "\<not> waits ?t c"
      "\<exists>call. call_heap ?t c = Some call \<and> open_call call"
      by (cases m; auto simp: EnqueueRequest_def CtrlCall_def open_call_def waits_def)+
  next
    fix k l assume l: "pending_kv_calls ?t k = Some l"
    then show "l \<noteq> []" "distinct l" "kv ?t k = None" using wf_pending [OF wf, of k l] by simp_all
    fix c assume "c \<in> set l"
    with l wf_pending [OF wf, of k l] show "held ?t c (PullKVRequest k)"
      by (intro held_EnqueueRequest wf) simp
  next
    fix n l b assume l: "barrier_calls ?t n = Some (l, b)"
    then show "l \<noteq> []" "distinct l" using wf_barrier [OF wf, of n l b] by simp_all
    fix c assume "c \<in> set l"
    with l wf_barrier [OF wf, of n l b] show "held ?t c (BarrierRequest n b)"
      by (intro held_EnqueueRequest wf) simp
  next
    show "distinct (map fst (finished ?t))" using wf_distinct [OF wf] by simp
  next
    fix e assume "e \<in> set (finished ?t)"
    then show "case e of (c, r) \<Rightarrow> c < next_call ?t \<and>
        (\<forall>call. call_heap ?t c = Some call \<longrightarrow> status call = kBeforeDelete)"
      using wf_finished [OF wf, of "fst e" "snd e"] by (auto simp: EnqueueRequest_def)
  qed
qed

text \<open>
  The changes of the tables: a key stored or cleared, a call put in or taken from a list.
\<close>

definition same_calls :: "server \<Rightarrow> server \<Rightarrow> bool" where
  "same_calls s t \<longleftrightarrow> registered t = registered s \<and> call_heap t = call_heap s \<and>
     next_call t = next_call s \<and> finished t = finished s"

lemma held_same: "same_calls s t \<Longrightarrow> held t c r = held s c r"
  by (simp add: same_calls_def held_def)

lemma wf_tables:
  assumes wf: "wf_server s" and same: "same_calls s t"
    and p: "\<And>k l. pending_kv_calls t k = Some l \<Longrightarrow>
      l \<noteq> [] \<and> distinct l \<and> kv t k = None \<and> (\<forall>c \<in> set l. held s c (PullKVRequest k))"
    and b: "\<And>n l m. barrier_calls t n = Some (l, m) \<Longrightarrow>
      l \<noteq> [] \<and> distinct l \<and> (\<forall>c \<in> set l. held s c (BarrierRequest n m))"
  shows "wf_server t"
proof -
  have w: "\<exists>r. held s c r" if "waits t c" for c
    using that p b unfolding waits_def by blast
  then have "\<forall>c \<in> set (registered s). \<not> waits t c" by (auto simp: held_def)
  with wf same p b show ?thesis
    unfolding wf_server_def held_same [OF same] same_calls_def by simp
qed

lemma wf_store:
  assumes wf: "wf_server s"
  shows "wf_server (s\<lparr>kv := (kv s)(k := x), pending_kv_calls := (pending_kv_calls s)(k := None)\<rparr>)"
  by (rule wf_tables [OF wf])
    (auto simp: same_calls_def wf_barrier [OF wf] dest: wf_pending [OF wf] split: if_splits)

lemma wf_pend:
  assumes wf: "wf_server s" and c: "current s c (PullKVRequest k)" and "kv s k = None"
    and l: "l = [] \<or> pending_kv_calls s k = Some l"
  shows "wf_server (s\<lparr>pending_kv_calls := (pending_kv_calls s)(k \<mapsto> l @ [c])\<rparr>)"
proof -
  have "c \<notin> set l" "distinct l" "\<forall>c' \<in> set l. held s c' (PullKVRequest k)"
    using c l wf_pending [OF wf, of k l] waits_pending [of s k l] by (auto simp: current_def)
  with assms(2,3) show ?thesis
    by (intro wf_tables [OF wf])
      (auto simp: same_calls_def current_def dest: wf_pending [OF wf] wf_barrier [OF wf] split: if_splits)
qed

lemma wf_barrier_remove:
  assumes wf: "wf_server s"
  shows "wf_server (s\<lparr>barrier_calls := (barrier_calls s)(n := None)\<rparr>)"
  by (rule wf_tables [OF wf])
    (auto simp: same_calls_def dest: wf_pending [OF wf] wf_barrier [OF wf] split: if_splits)

lemma wf_barrier_put:
  assumes wf: "wf_server s" and c: "current s c (BarrierRequest n m)"
    and l: "l = [] \<or> barrier_calls s n = Some (l, m)"
  shows "wf_server (s\<lparr>barrier_calls := (barrier_calls s)(n \<mapsto> (l @ [c], m))\<rparr>)"
proof -
  have "c \<notin> set l" "distinct l" "\<forall>c' \<in> set l. held s c' (BarrierRequest n m)"
    using c l wf_barrier [OF wf, of n l m] waits_barrier [of s n l m] by (auto simp: current_def)
  with assms(2) show ?thesis
    by (intro wf_tables [OF wf])
      (auto simp: same_calls_def current_def dest: wf_pending [OF wf] wf_barrier [OF wf] split: if_splits)
qed

section \<open>What each request does\<close>

definition pend :: "server \<Rightarrow> string \<Rightarrow> nat list" where
  "pend s k = (case pending_kv_calls s k of None \<Rightarrow> [] | Some cs \<Rightarrow> cs)"

definition arrived :: "server \<Rightarrow> string \<Rightarrow> nat list" where
  "arrived s n = (case barrier_calls s n of None \<Rightarrow> [] | Some it \<Rightarrow> fst it)"

lemma pend_held:
  assumes "wf_server s" and "c \<in> set (pend s k)"
  shows "held s c (PullKVRequest k) \<and> waits s c"
proof (cases "pending_kv_calls s k")
  case (Some l)
  with assms(2) have "c \<in> set l" by (simp add: pend_def)
  with wf_pending [OF assms(1) Some] waits_pending [OF Some] show ?thesis by blast
qed (use assms in \<open>simp add: pend_def\<close>)

lemma arrived_held:
  assumes "wf_server s" and "c \<in> set (arrived s n)" and "request_ok s (BarrierRequest n m)"
  shows "held s c (BarrierRequest n m) \<and> waits s c"
proof (cases "barrier_calls s n")
  case (Some it)
  then have l: "barrier_calls s n = Some (fst it, m)" and "c \<in> set (fst it)"
    using assms(2,3) by (cases it; simp add: arrived_def request_ok_def)+
  with wf_barrier [OF assms(1) l] waits_barrier [OF l] show ?thesis by blast
qed (use assms in \<open>simp add: arrived_def\<close>)

text \<open>
  The effect of a request that the protocol allows: the table it changes, the calls it
  answers, the next call it registers.
\<close>

definition request_effect :: "nat \<Rightarrow> ctrl_request \<Rightarrow> server \<Rightarrow> server" where
  "request_effect c r s = EnqueueRequest (method_of r) (case r of
     LoadServerRequest addr \<Rightarrow>
       settle LoadServerResponse [c] (s\<lparr>this_machine_addr := addr, is_first_connect := False\<rparr>)
   | BarrierRequest n m \<Rightarrow>
       if (of_nat (length (arrived s n @ [c])) :: u64) = scast m
       then settle BarrierResponse (arrived s n @ [c]) (s\<lparr>barrier_calls := (barrier_calls s)(n := None)\<rparr>)
       else s\<lparr>barrier_calls := (barrier_calls s)(n \<mapsto> (arrived s n @ [c], m))\<rparr>
   | PushKVRequest k v \<Rightarrow>
       settle PushKVResponse [c] (settle (PullKVResponse v) (pend s k)
         (s\<lparr>kv := (kv s)(k := Some v), pending_kv_calls := (pending_kv_calls s)(k := None)\<rparr>))
   | ClearKVRequest k \<Rightarrow>
       settle ClearKVResponse [c]
         (s\<lparr>kv := (kv s)(k := None), pending_kv_calls := (pending_kv_calls s)(k := None)\<rparr>)
   | PullKVRequest k \<Rightarrow> (case kv s k of
       Some v \<Rightarrow> settle (PullKVResponse v) [c] s
     | None \<Rightarrow> s\<lparr>pending_kv_calls := (pending_kv_calls s)(k \<mapsto> pend s k @ [c])\<rparr>))"

lemma held_call:
  "held s c r \<Longrightarrow> \<exists>call. call_heap s c = Some call \<and> response call = default_response (method_of r)"
  by (auto simp: held_def open_call_def)

lemma SendResponse_held:
  "held s c r \<Longrightarrow> v = default_response (method_of r) \<Longrightarrow> SendResponse c s = Inr (settle v [c] s)"
  using held_call SendResponse_settle by blast

lemma settle_tables:
  "settle v cs s\<lparr>barrier_calls := b\<rparr> = settle v cs (s\<lparr>barrier_calls := b\<rparr>)"
  "settle v cs s\<lparr>pending_kv_calls := p\<rparr> = settle v cs (s\<lparr>pending_kv_calls := p\<rparr>)"
  by (simp_all add: settle_def cong: if_cong)

lemma held_tables [simp]:
  "held (s\<lparr>kv := x\<rparr>) c r = held s c r"
  "held (s\<lparr>pending_kv_calls := p\<rparr>) c r = held s c r"
  "held (s\<lparr>barrier_calls := b\<rparr>) c r = held s c r"
  "held (s\<lparr>this_machine_addr := a\<rparr>) c r = held s c r"
  "held (s\<lparr>is_first_connect := f\<rparr>) c r = held s c r"
  by (simp_all add: held_def)

lemma handle_LoadServer_effect:
  assumes c: "current s c (LoadServerRequest a)" and ok: "request_ok s (LoadServerRequest a)"
  shows "handle_LoadServer c a s = Inr (request_effect c (LoadServerRequest a) s)"
proof -
  let ?t = "s\<lparr>this_machine_addr := a, is_first_connect := False\<rparr>"
  have "SendResponse c ?t = Inr (settle LoadServerResponse [c] ?t)"
    using c by (intro SendResponse_held [where r = "LoadServerRequest a"]) (simp_all add: current_def)
  moreover have eff: "request_effect c (LoadServerRequest a) s =
      EnqueueRequest kLoadServer (settle LoadServerResponse [c] ?t)" by (simp add: request_effect_def)
  moreover have "?t = s" if "\<not> is_first_connect s"
    using ok that by (simp add: request_ok_def)
  ultimately show ?thesis
  proof (cases "is_first_connect s")
    case False
    with ok have "check (a = this_machine_addr s) (Inr s) = Inr s" by (simp add: request_ok_def)
    with False \<open>\<not> is_first_connect s \<Longrightarrow> ?t = s\<close> \<open>SendResponse c ?t = _\<close> show ?thesis
      unfolding handle_LoadServer_def eff by (simp only: if_False rbind_Inr not_False_eq_True)
  qed (simp add: handle_LoadServer_def)
qed

lemma handle_Barrier_effect:
  assumes wf: "wf_server s" and c: "current s c (BarrierRequest n m)"
    and ok: "request_ok s (BarrierRequest n m)"
  shows "handle_Barrier c n m s = Inr (request_effect c (BarrierRequest n m) s)"
proof -
  let ?l = "arrived s n @ [c]"
  let ?t = "s\<lparr>barrier_calls := (barrier_calls s)(n \<mapsto> (?l, m))\<rparr>"
  have it: "(case barrier_calls s n of None \<Rightarrow> ([], m) | Some it \<Rightarrow> it) = (arrived s n, m)"
    using ok by (auto simp: arrived_def request_ok_def split: option.splits)
  have held: "\<forall>c' \<in> set ?l. held s c' (BarrierRequest n m)"
    using c arrived_held [OF wf _ ok] by (auto simp: current_def)
  have "\<forall>c' \<in> set ?l. \<exists>call. call_heap ?t c' = Some call \<and> response call = BarrierResponse"
    using held held_call [of s _ "BarrierRequest n m"] by simp
  then have send: "run (\<lambda>s c. SendResponse c s) ?t ?l = Inr (settle BarrierResponse ?l ?t)"
    by (rule run_SendResponse)
  have erased: "settle BarrierResponse ?l ?t
      \<lparr>barrier_calls := (barrier_calls (settle BarrierResponse ?l ?t))(n := None)\<rparr> =
      settle BarrierResponse ?l (s\<lparr>barrier_calls := (barrier_calls s)(n := None)\<rparr>)"
    by (simp add: settle_tables)
  show ?thesis
    unfolding handle_Barrier_def it Let_def fst_conv snd_conv send rbind_Inr erased request_effect_def
    by simp
qed

lemma handle_PushKV_effect:
  assumes wf: "wf_server s" and c: "current s c (PushKVRequest k v)"
    and ok: "request_ok s (PushKVRequest k v)"
  shows "handle_PushKV c k v s = Inr (request_effect c (PushKVRequest k v) s)"
proof -
  let ?s1 = "s\<lparr>kv := (kv s)(k := Some v)\<rparr>"
  let ?s2 = "settle (PullKVResponse v) (pend s k) (?s1\<lparr>pending_kv_calls := (pending_kv_calls s)(k := None)\<rparr>)"
  have heap: "\<forall>c' \<in> set (pend s k). call_heap ?s1 c' \<noteq> None \<and> waits s c'"
    using pend_held [OF wf] held_call by fastforce
  then have "run (answer_pull v) ?s1 (pend s k) = Inr (settle (PullKVResponse v) (pend s k) ?s1)"
    by (intro run_answer_pull) simp
  moreover have "pending_kv_calls s k = None \<Longrightarrow> pend s k = [] \<and> (pending_kv_calls s)(k := None) = pending_kv_calls s"
    by (auto simp: pend_def)
  ultimately have pull: "(case pending_kv_calls ?s1 k of None \<Rightarrow> Inr ?s1 | Some pending \<Rightarrow>
      rbind (run (answer_pull v) ?s1 pending) (\<lambda>s.
        Inr (s\<lparr>pending_kv_calls := (pending_kv_calls s)(k := None)\<rparr>))) = Inr ?s2"
    by (cases "pending_kv_calls s k") (auto simp: pend_def settle_tables)
  have "c \<notin> set (pend s k)" using heap c by (auto simp: current_def)
  then have "held ?s2 c (PushKVRequest k v)" using c by (simp add: held_settle current_def)
  then have "SendResponse c ?s2 = Inr (settle PushKVResponse [c] ?s2)"
    by (rule SendResponse_held) simp
  with ok show ?thesis
    unfolding handle_PushKV_def Let_def pull by (simp add: request_effect_def request_ok_def)
qed

lemma handle_ClearKV_effect:
  assumes wf: "wf_server s" and c: "current s c (ClearKVRequest k)"
    and ok: "request_ok s (ClearKVRequest k)"
  shows "handle_ClearKV c k s = Inr (request_effect c (ClearKVRequest k) s)"
proof -
  let ?t = "s\<lparr>kv := (kv s)(k := None)\<rparr>"
  have "pending_kv_calls s k = None"
    using ok wf_pending [OF wf, of k] by (cases "pending_kv_calls s k") (auto simp: request_ok_def)
  moreover from this have "?t\<lparr>pending_kv_calls := (pending_kv_calls s)(k := None)\<rparr> = ?t"
    by (simp add: fun_upd_idem)
  moreover have "SendResponse c ?t = Inr (settle ClearKVResponse [c] ?t)"
    using c by (intro SendResponse_held [where r = "ClearKVRequest k"]) (simp_all add: current_def)
  ultimately show ?thesis using ok
    by (simp add: handle_ClearKV_def request_effect_def request_ok_def Let_def)
qed

lemma handle_PullKV_effect:
  assumes "current s c (PullKVRequest k)"
  shows "handle_PullKV c k s = Inr (request_effect c (PullKVRequest k) s)"
proof -
  from assms obtain call where "call_heap s c = Some call"
    by (auto simp: current_def held_def)
  then have "answer_pull v s c = Inr (settle (PullKVResponse v) [c] s)" for v
    by (rule answer_pull_settle)
  then show ?thesis
    by (simp add: handle_PullKV_def request_effect_def pend_def answer_pull_def Let_def split: option.splits)
qed

lemma request_handler_effect:
  assumes "wf_server s" and "current s c r" and "request_ok s r"
  shows "request_handler c r s = Inr (request_effect c r s)"
  using assms
  by (cases r) (simp_all add: request_handler_def handle_LoadServer_effect handle_Barrier_effect
      handle_PushKV_effect handle_ClearKV_effect handle_PullKV_effect)

section \<open>The invariant is kept and no allowed item faults\<close>

lemma held_unique: "held s c r \<Longrightarrow> held s c r' \<Longrightarrow> r = r'"
  by (auto simp: held_def)

lemma waits_store:
  "waits (s\<lparr>kv := x, pending_kv_calls := (pending_kv_calls s)(k := None)\<rparr>) c \<Longrightarrow> wf_server s \<Longrightarrow>
   waits s c \<and> \<not> held s c (PullKVRequest k)"
  using wf_pending wf_barrier held_unique unfolding waits_def by (fastforce split: if_splits)

lemma waits_barrier_remove:
  "waits (s\<lparr>barrier_calls := (barrier_calls s)(n := None)\<rparr>) c \<Longrightarrow> wf_server s \<Longrightarrow>
   waits s c \<and> (\<forall>m. \<not> held s c (BarrierRequest n m))"
  using wf_pending wf_barrier held_unique unfolding waits_def by (fastforce split: if_splits)

lemma distinct_pend: "wf_server s \<Longrightarrow> distinct (pend s k)"
  using wf_pending by (auto simp: pend_def split: option.splits)

lemma distinct_arrived: "wf_server s \<Longrightarrow> distinct (arrived s n)"
  using wf_barrier by (fastforce simp: arrived_def split: option.splits)

lemma wf_effect_PushKV:
  assumes wf: "wf_server s" and c: "current s c (PushKVRequest k v)"
  shows "wf_server (request_effect c (PushKVRequest k v) s)"
proof -
  let ?t = "s\<lparr>kv := (kv s)(k := Some v), pending_kv_calls := (pending_kv_calls s)(k := None)\<rparr>"
  have cp: "c \<notin> set (pend s k)" using c pend_held [OF wf] by (auto simp: current_def)
  have wf2: "wf_server (settle (PullKVResponse v) (pend s k) ?t)"
  proof (rule wf_settle [OF wf_store [OF wf] distinct_pend [OF wf]])
    fix c' assume "c' \<in> set (pend s k)"
    then have h: "held s c' (PullKVRequest k)" using pend_held [OF wf] by blast
    then show "\<exists>r. held ?t c' r" by auto
    show "\<not> waits ?t c'" using h waits_store [OF _ wf] by blast
  qed
  have "\<not> waits ?t c" using waits_store [OF _ wf] c unfolding current_def by blast
  with c cp have "wf_server (settle PushKVResponse [c] (settle (PullKVResponse v) (pend s k) ?t))"
    by (intro wf_settle [OF wf2]) (auto simp: current_def held_settle)
  then show ?thesis by (simp add: request_effect_def wf_EnqueueRequest)
qed

lemma wf_effect_Barrier:
  assumes wf: "wf_server s" and c: "current s c (BarrierRequest n m)"
    and ok: "request_ok s (BarrierRequest n m)"
  shows "wf_server (request_effect c (BarrierRequest n m) s)"
proof -
  let ?l = "arrived s n @ [c]" and ?t = "s\<lparr>barrier_calls := (barrier_calls s)(n := None)\<rparr>"
  have h: "held s c' (BarrierRequest n m)" if "c' \<in> set ?l" for c'
    using that c arrived_held [OF wf _ ok] by (auto simp: current_def)
  have "c \<notin> set (arrived s n)" using c arrived_held [OF wf _ ok] by (auto simp: current_def)
  then have "distinct ?l" using distinct_arrived [OF wf] by simp
  then have "wf_server (settle BarrierResponse ?l ?t)"
    using h waits_barrier_remove [OF _ wf]
    by (intro wf_settle [OF wf_barrier_remove [OF wf]]) (simp_all del: set_append, blast+)
  moreover have "arrived s n = [] \<or> barrier_calls s n = Some (arrived s n, m)"
    using ok by (auto simp: arrived_def request_ok_def split: option.splits)
  then have "wf_server (s\<lparr>barrier_calls := (barrier_calls s)(n \<mapsto> (?l, m))\<rparr>)"
    by (rule wf_barrier_put [OF wf c])
  ultimately show ?thesis by (simp add: request_effect_def wf_EnqueueRequest)
qed

lemma wf_request_effect:
  assumes wf: "wf_server s" and c: "current s c r" and ok: "request_ok s r"
  shows "wf_server (request_effect c r s)"
proof (cases r)
  case (LoadServerRequest a)
  have "wf_server (s\<lparr>this_machine_addr := a, is_first_connect := False\<rparr>)"
    using wf by (intro wf_tables [OF wf]) (simp_all add: same_calls_def wf_pending wf_barrier)
  with c LoadServerRequest have "wf_server (settle LoadServerResponse [c]
      (s\<lparr>this_machine_addr := a, is_first_connect := False\<rparr>))"
    by (intro wf_settle) (auto simp: current_def waits_def)
  with LoadServerRequest show ?thesis by (simp add: request_effect_def wf_EnqueueRequest)
next
  case (ClearKVRequest k)
  let ?t = "s\<lparr>kv := (kv s)(k := None), pending_kv_calls := (pending_kv_calls s)(k := None)\<rparr>"
  have "\<not> waits ?t c" using waits_store [OF _ wf] c unfolding current_def by blast
  with c ClearKVRequest have "wf_server (settle ClearKVResponse [c] ?t)"
    by (intro wf_settle [OF wf_store [OF wf]]) (auto simp: current_def)
  with ClearKVRequest show ?thesis by (simp add: request_effect_def wf_EnqueueRequest)
next
  case (PullKVRequest k)
  show ?thesis
  proof (cases "kv s k")
    case None
    have "pend s k = [] \<or> pending_kv_calls s k = Some (pend s k)"
      by (auto simp: pend_def split: option.splits)
    with None c PullKVRequest wf_pend [OF wf _ None] show ?thesis
      by (simp add: request_effect_def wf_EnqueueRequest)
  next
    case (Some v)
    from wf c have "wf_server (settle (PullKVResponse v) [c] s)"
      by (intro wf_settle) (auto simp: current_def)
    with Some PullKVRequest show ?thesis by (simp add: request_effect_def wf_EnqueueRequest)
  qed
qed (use wf_effect_PushKV wf_effect_Barrier wf c ok in auto)

text \<open>Taking a call off the queue: it is held with the request that gRPC has filled in.\<close>

lemma fill_request_simps [simp]:
  "is_first_connect (fill_request c r s) = is_first_connect s"
  "this_machine_addr (fill_request c r s) = this_machine_addr s"
  "barrier_calls (fill_request c r s) = barrier_calls s"
  "kv (fill_request c r s) = kv s"
  "pending_kv_calls (fill_request c r s) = pending_kv_calls s"
  "finished (fill_request c r s) = finished s"
  "next_call (fill_request c r s) = next_call s"
  "is_shutdown (fill_request c r s) = is_shutdown s"
  "request_ok (fill_request c r s) = request_ok s"
  "pend (fill_request c r s) = pend s"
  "arrived (fill_request c r s) = arrived s"
  by (auto simp: fill_request_def set_call_def request_ok_def pend_def arrived_def fun_eq_iff
      split: option.splits ctrl_request.splits)

lemma wf_fill_request:
  assumes wf: "wf_server s" and ok: "item_ok s (Arrived c r)"
  shows "wf_server (fill_request c r s) \<and> current (fill_request c r s) c r"
proof -
  let ?t = "fill_request c r s"
  from ok have reg: "c \<in> set (registered s)" by (simp add: item_ok_def)
  from wf_registered [OF wf reg] obtain call where call: "call_heap s c = Some call" "open_call call"
    and nw: "\<not> waits s c" by blast
  with ok have m: "method_of (request call) = method_of r" by (simp add: item_ok_def)
  have t: "registered ?t = remove1 c (registered s)"
    "call_heap ?t = (call_heap s)(c \<mapsto> call\<lparr>request := r\<rparr>)"
    using call by (simp_all add: fill_request_def set_call_def)
  have open': "open_call (call\<lparr>request := r\<rparr>)" using call(2) m by (simp add: open_call_def)
  have waits: "waits ?t = waits s" by (simp add: waits_def fun_eq_iff)
  have set: "set (registered ?t) = set (registered s) - {c}" using wf_distinct(1) [OF wf] t by simp
  have held: "held ?t c' r'" if "held s c' r'" for c' r'
    using that reg t set by (auto simp: held_def)
  have "c \<notin> fst ` set (finished s)" using wf_finished [OF wf] call by (fastforce simp: open_call_def)
  have "wf_server ?t" unfolding wf_server_def
  proof (intro conjI allI impI ballI)
    fix c' call' assume "call_heap ?t c' = Some call'"
    then show "c' < next_call ?t" using wf_heap [OF wf] call t by (auto split: if_splits)
  next
    show "distinct (registered ?t)" using wf_distinct [OF wf] t by simp
  next
    fix c' assume "c' \<in> set (registered ?t)"
    then show "\<not> waits ?t c'" "\<exists>call. call_heap ?t c' = Some call \<and> open_call call"
      using wf_registered [OF wf, of c'] set t by (auto simp: waits)
  next
    fix k l assume l: "pending_kv_calls ?t k = Some l"
    then show "l \<noteq> []" "distinct l" "kv ?t k = None" using wf_pending [OF wf, of k l] by simp_all
    fix c' assume "c' \<in> set l"
    with l wf_pending [OF wf, of k l] show "held ?t c' (PullKVRequest k)" by (intro held) simp
  next
    fix n l b assume l: "barrier_calls ?t n = Some (l, b)"
    then show "l \<noteq> []" "distinct l" using wf_barrier [OF wf, of n l b] by simp_all
    fix c' assume "c' \<in> set l"
    with l wf_barrier [OF wf, of n l b] show "held ?t c' (BarrierRequest n b)" by (intro held) simp
  next
    show "distinct (map fst (finished ?t))" using wf_distinct [OF wf] by simp
  next
    fix e assume "e \<in> set (finished ?t)"
    moreover from this \<open>c \<notin> fst ` set (finished s)\<close> have "fst e \<noteq> c" by force
    ultimately show "case e of (c', r') \<Rightarrow> c' < next_call ?t \<and>
        (\<forall>call. call_heap ?t c' = Some call \<longrightarrow> status call = kBeforeDelete)"
      using wf_finished [OF wf, of "fst e" "snd e"] t by (simp add: split_beta)
  qed
  moreover have "current ?t c r" using t set open' nw by (simp add: current_def held_def waits)
  ultimately show ?thesis by blast
qed

lemma wf_delete:
  assumes wf: "wf_server s" and c: "c \<in> set (registered s) \<or> answered_call s c"
  shows "wf_server (s\<lparr>registered := remove1 c (registered s), call_heap := (call_heap s)(c := None)\<rparr>)"
    (is "wf_server ?t")
proof -
  have other: "c' \<noteq> c" if "held s c' r" for c' r
    using that c by (auto simp: held_def answered_call_def open_call_def)
  have held: "held ?t c' r" if "held s c' r" for c' r
    using that other [OF that] by (auto simp: held_def dest: notin_set_remove1)
  have set: "set (registered ?t) = set (registered s) - {c}" using wf_distinct(1) [OF wf] by simp
  show ?thesis unfolding wf_server_def
  proof (intro conjI allI impI ballI)
    fix c' call' assume "call_heap ?t c' = Some call'"
    then show "c' < next_call ?t" using wf_heap [OF wf] by (auto split: if_splits)
  next
    show "distinct (registered ?t)" using wf_distinct [OF wf] by simp
  next
    fix c' assume "c' \<in> set (registered ?t)"
    then have "c' \<in> set (registered s)" "c' \<noteq> c" using set by auto
    then show "\<not> waits ?t c'" "\<exists>call. call_heap ?t c' = Some call \<and> open_call call"
      using wf_registered [OF wf, of c'] by (auto simp: waits_def)
  next
    fix k l assume l: "pending_kv_calls ?t k = Some l"
    then show "l \<noteq> []" "distinct l" "kv ?t k = None" using wf_pending [OF wf, of k l] by simp_all
    fix c' assume "c' \<in> set l"
    with l wf_pending [OF wf, of k l] show "held ?t c' (PullKVRequest k)" by (intro held) simp
  next
    fix n l b assume l: "barrier_calls ?t n = Some (l, b)"
    then show "l \<noteq> []" "distinct l" using wf_barrier [OF wf, of n l b] by simp_all
    fix c' assume "c' \<in> set l"
    with l wf_barrier [OF wf, of n l b] show "held ?t c' (BarrierRequest n b)" by (intro held) simp
  next
    show "distinct (map fst (finished ?t))" using wf_distinct [OF wf] by simp
  next
    fix e assume "e \<in> set (finished ?t)"
    then show "case e of (c', r') \<Rightarrow> c' < next_call ?t \<and>
        (\<forall>call. call_heap ?t c' = Some call \<longrightarrow> status call = kBeforeDelete)"
      using wf_finished [OF wf, of "fst e" "snd e"] by (simp add: split_beta)
  qed
qed

text \<open>What one item of the completion queue does to the server.\<close>

definition item_effect :: "cq_item \<Rightarrow> server \<Rightarrow> server" where
  "item_effect item s = (case item of
     Arrived c r \<Rightarrow> request_effect c r (fill_request c r s)
   | Sent c \<Rightarrow> s\<lparr>registered := remove1 c (registered s), call_heap := (call_heap s)(c := None)\<rparr>
   | NotOk tag \<Rightarrow> s\<lparr>registered := remove1 (the tag) (registered s),
       call_heap := (call_heap s)(the tag := None)\<rparr>
   | AlarmTag \<Rightarrow> s\<lparr>is_shutdown := True\<rparr>)"

lemma HandleRpcs_step_effect:
  assumes wf: "wf_server s" and ok: "item_ok s item"
  shows "HandleRpcs_step s item = Inr (item_effect item s)"
proof (cases item)
  case (Arrived c r)
  from wf_fill_request [OF wf] ok Arrived have w: "wf_server (fill_request c r s)"
    and c: "current (fill_request c r s) c r" by auto
  from c obtain call where "call_heap (fill_request c r s) c = Some call"
    "status call = kBeforeHandleRequest" "request call = r"
    by (auto simp: current_def held_def open_call_def)
  with ok request_handler_effect [OF w c] Arrived show ?thesis
    by (simp add: HandleRpcs_step_def Process_def get_call_def item_effect_def item_ok_def)
next
  case (Sent c)
  with ok obtain call where call: "call_heap s c = Some call" "status call = kBeforeDelete"
    by (auto simp: item_ok_def answered_call_def split: option.splits)
  with wf_registered [OF wf, of c] have "c \<notin> set (registered s)" by (auto simp: open_call_def)
  with call Sent show ?thesis
    by (simp add: HandleRpcs_step_def Process_def get_call_def delete_call_def item_effect_def remove1_idem)
next
  case (NotOk tag)
  with ok obtain c where c: "tag = Some c" "c \<in> set (registered s) \<or> answered_call s c"
    and sd: "is_shutdown s"
    by (auto simp: item_ok_def split: option.splits)
  then have "call_heap s c \<noteq> None"
    using wf_registered [OF wf, of c] by (auto simp: answered_call_def split: option.splits)
  with c sd NotOk show ?thesis
    by (auto simp: HandleRpcs_step_def get_call_def delete_call_def item_effect_def)
next
  case AlarmTag
  with ok show ?thesis by (simp add: HandleRpcs_step_def item_effect_def item_ok_def)
qed

lemma wf_item_effect:
  assumes wf: "wf_server s" and ok: "item_ok s item"
  shows "wf_server (item_effect item s)"
proof (cases item)
  case (Arrived c r)
  with wf_fill_request [OF wf, of c r] ok show ?thesis
    by (auto simp: item_effect_def item_ok_def intro!: wf_request_effect)
next
  case (NotOk tag)
  with ok show ?thesis
    by (auto simp: item_effect_def item_ok_def intro!: wf_delete wf split: option.splits)
next
  case AlarmTag
  have "wf_server (s\<lparr>is_shutdown := True\<rparr>)"
    using wf by (intro wf_tables [OF wf]) (simp_all add: same_calls_def wf_pending wf_barrier)
  with AlarmTag show ?thesis by (simp add: item_effect_def)
qed (use wf_delete [OF wf] ok in \<open>auto simp: item_effect_def item_ok_def\<close>)

lemma wf_CtrlServer_init: "wf_server (EnqueueRequests CtrlServer_init)"
proof -
  have "wf_server CtrlServer_init" by (simp add: CtrlServer_init_def wf_server_def)
  then show ?thesis unfolding EnqueueRequests_def by (intro wf_EnqueueRequest)
qed

interpretation service: safe_ops HandleRpcs_step wf_server item_ok
proof
  fix s e s'
  assume "wf_server s" and "item_ok s e"
  note a = this
  show "wf_server s'" if "HandleRpcs_step s e = Inr s'"
    using that HandleRpcs_step_effect [OF a] wf_item_effect [OF a] by simp
  show "\<exists>s'. HandleRpcs_step s e = Inr s'" using HandleRpcs_step_effect [OF a] by simp
qed

section \<open>The answer of a pull\<close>

fun requests :: "cq_item list \<Rightarrow> ctrl_request list" where
  "requests [] = []"
| "requests (Arrived c r # es) = r # requests es"
| "requests (e # es) = requests es"

text \<open>The value of a key after a request, and after a sequence of them.\<close>

definition live_step :: "string \<Rightarrow> ctrl_request \<Rightarrow> byte list option \<Rightarrow> byte list option" where
  "live_step k r x = (case r of
     PushKVRequest k' v \<Rightarrow> if k' = k then Some v else x
   | ClearKVRequest k' \<Rightarrow> if k' = k then None else x
   | _ \<Rightarrow> x)"

definition live :: "string \<Rightarrow> ctrl_request list \<Rightarrow> byte list option" where
  "live k rs = fold (live_step k) rs None"

fun next_push :: "string \<Rightarrow> ctrl_request list \<Rightarrow> byte list option" where
  "next_push k [] = None"
| "next_push k (r # rs) =
     (case r of PushKVRequest k' v \<Rightarrow> if k' = k then Some v else next_push k rs | _ \<Rightarrow> next_push k rs)"

text \<open>A pull gets the stored value, or else the value of the next push of its key.\<close>

definition pull_answer :: "string \<Rightarrow> ctrl_request list \<Rightarrow> ctrl_request list \<Rightarrow> byte list option" where
  "pull_answer k before after = (case live k before of Some v \<Rightarrow> Some v | None \<Rightarrow> next_push k after)"

lemma requests_append [simp]: "requests (es @ fs) = requests es @ requests fs"
  by (induction es rule: requests.induct) auto

lemma next_push_append:
  "next_push k (rs @ rs') = (case next_push k rs of Some v \<Rightarrow> Some v | None \<Rightarrow> next_push k rs')"
  by (induction rs) (auto split: ctrl_request.splits)

lemma pull_answer_snoc:
  "pull_answer k before (after @ rs) =
     (case pull_answer k before after of Some v \<Rightarrow> Some v | None \<Rightarrow> next_push k rs)"
  by (auto simp: pull_answer_def next_push_append split: option.splits)

lemma kv_effect: "kv (request_effect c r s) k = live_step k r (kv s k)"
  by (cases r) (auto simp: request_effect_def live_step_def split: option.splits)

lemma pend_simps [simp]:
  "pend (EnqueueRequest m s) k = pend s k" "pend (settle v cs s) k = pend s k"
  by (simp_all add: pend_def)

lemma pend_effect:
  "pend (request_effect c r s) k = (case r of
     PushKVRequest k' v \<Rightarrow> if k' = k then [] else pend s k
   | ClearKVRequest k' \<Rightarrow> if k' = k then [] else pend s k
   | PullKVRequest k' \<Rightarrow> if k' = k \<and> kv s k = None then pend s k @ [c] else pend s k
   | _ \<Rightarrow> pend s k)"
  by (cases r) (auto simp: request_effect_def pend_def split: option.splits)

lemma finished_effect_mono: "set (finished s) \<subseteq> set (finished (item_effect e s))"
  by (cases e) (auto simp: item_effect_def request_effect_def split: ctrl_request.splits option.splits)

lemma push_answers:
  "c' \<in> set (pend s k) \<Longrightarrow>
   (c', PullKVResponse v) \<in> set (finished (request_effect c (PushKVRequest k v) s))"
  by (simp add: request_effect_def)

lemma pull_hits:
  "kv s k = Some v \<Longrightarrow>
   (c, PullKVResponse v) \<in> set (finished (request_effect c (PullKVRequest k) s))"
  by (simp add: request_effect_def)

text \<open>The items so far and the state: the tables hold what the requests leave there.\<close>

definition pulls_served :: "cq_item list \<Rightarrow> server \<Rightarrow> bool" where
  "pulls_served es s \<longleftrightarrow> (\<forall>k. kv s k = live k (requests es)) \<and>
     (\<forall>as bs c k. es = as @ Arrived c (PullKVRequest k) # bs \<longrightarrow>
        (case pull_answer k (requests as) (requests bs) of
           Some v \<Rightarrow> (c, PullKVResponse v) \<in> set (finished s)
         | None \<Rightarrow> c \<in> set (pend s k)))"

lemma kv_item_effect:
  "kv (item_effect e s) k = fold (live_step k) (requests [e]) (kv s k)"
  by (cases e) (auto simp: item_effect_def kv_effect)

lemma pending_served:
  assumes wf: "wf_server s" and ok: "item_ok s e" and c: "c \<in> set (pend s k)"
  shows "case next_push k (requests [e]) of
      Some v \<Rightarrow> (c, PullKVResponse v) \<in> set (finished (item_effect e s))
    | None \<Rightarrow> c \<in> set (pend (item_effect e s) k)"
proof (cases e)
  case (Arrived c' r)
  have "kv s k = None"
    using c wf_pending [OF wf, of k] by (cases "pending_kv_calls s k") (auto simp: pend_def)
  moreover have "request_ok s r" using ok Arrived by (simp add: item_ok_def)
  ultimately show ?thesis using c Arrived
    by (cases r) (auto simp: item_effect_def pend_effect push_answers request_ok_def)
qed (use c in \<open>auto simp: item_effect_def pend_def\<close>)

lemma pulls_served_step:
  assumes h: "pulls_served es s" and wf: "wf_server s" and ok: "item_ok s e"
    and e: "HandleRpcs_step s e = Inr t"
  shows "pulls_served (es @ [e]) t"
proof -
  have t: "t = item_effect e s" using HandleRpcs_step_effect [OF wf ok] e by simp
  have kv: "kv s k = live k (requests es)" for k using h by (simp add: pulls_served_def)
  have "case pull_answer k (requests as) (requests bs) of
      Some v \<Rightarrow> (c, PullKVResponse v) \<in> set (finished t) | None \<Rightarrow> c \<in> set (pend t k)"
    if split: "es @ [e] = as @ Arrived c (PullKVRequest k) # bs" for as bs c k
  proof (cases bs rule: rev_cases)
    case Nil
    with split have es: "es = as" and ee: "e = Arrived c (PullKVRequest k)" by simp_all
    have "pull_answer k (requests as) (requests bs) = kv s k"
      using Nil kv [of k] es by (simp add: pull_answer_def split: option.splits)
    then show ?thesis
      using ee pull_hits by (auto simp: t item_effect_def pend_effect split: option.splits)
  next
    case (snoc cs f)
    with split have es: "es = as @ Arrived c (PullKVRequest k) # cs" and f: "f = e" by simp_all
    from h es have old: "case pull_answer k (requests as) (requests cs) of
        Some v \<Rightarrow> (c, PullKVResponse v) \<in> set (finished s) | None \<Rightarrow> c \<in> set (pend s k)"
      unfolding pulls_served_def by blast
    show ?thesis
    proof (cases "pull_answer k (requests as) (requests cs)")
      case None
      with old have "c \<in> set (pend s k)" by simp
      from pending_served [OF wf ok this] show ?thesis
        using None snoc f unfolding t by (simp add: pull_answer_snoc)
    next
      case (Some v)
      with old finished_effect_mono [of s e] show ?thesis
        using snoc f by (auto simp: pull_answer_snoc t)
    qed
  qed
  with kv show ?thesis
    unfolding pulls_served_def by (simp add: t kv_item_effect live_def)
qed

text \<open>
  C15: the key/value service. The server, from its start, handles every schedule of completion
  queue items that gRPC may deliver and the clients' protocol allows, without a fault. A pull
  is answered exactly with the value that was stored when it arrived, or else with the value
  of the next push of its key, whichever order push and pull come in; it is answered at most
  once, and not at all while the key is missing.
\<close>

theorem pull_gets_pushed_value:
  assumes "schedule HandleRpcs_step item_ok (EnqueueRequests CtrlServer_init) items"
    and "items = before @ Arrived c (PullKVRequest k) # after"
  shows "\<exists>s. HandleRpcs items = Inr s \<and> distinct (map fst (finished s)) \<and>
    (\<forall>r. (c, r) \<in> set (finished s) \<longleftrightarrow>
      (\<exists>v. pull_answer k (requests before) (requests after) = Some v \<and> r = PullKVResponse v))"
proof -
  have "pulls_served [] (EnqueueRequests CtrlServer_init)"
    by (simp add: pulls_served_def EnqueueRequests_def CtrlServer_init_def live_def)
  then have "\<exists>s. HandleRpcs items = Inr s \<and> wf_server s \<and> pulls_served items s"
    unfolding HandleRpcs_def
    by (rule service.run_history [OF wf_CtrlServer_init assms(1)]) (rule pulls_served_step)
  then obtain s where s: "HandleRpcs items = Inr s" and wf: "wf_server s" and "pulls_served items s"
    by blast
  then have ans: "case pull_answer k (requests before) (requests after) of
      Some v \<Rightarrow> (c, PullKVResponse v) \<in> set (finished s) | None \<Rightarrow> c \<in> set (pend s k)"
    using assms(2) by (auto simp: pulls_served_def)
  have "(c, r) \<in> set (finished s) \<longleftrightarrow>
      (\<exists>v. pull_answer k (requests before) (requests after) = Some v \<and> r = PullKVResponse v)" for r
  proof (cases "pull_answer k (requests before) (requests after)")
    case None
    with ans have "c \<in> set (pend s k)" by simp
    with pend_held [OF wf this] held_fresh(2) [OF wf] have "c \<notin> fst ` set (finished s)" by blast
    with None show ?thesis by force
  next
    case (Some v)
    with ans have "(c, PullKVResponse v) \<in> set (finished s)" by simp
    with wf_distinct(2) [OF wf] Some show ?thesis by (auto dest: eq_key_imp_eq_value)
  qed
  with s wf_distinct(2) [OF wf] show ?thesis by blast
qed

definition demo_items :: "cq_item list" where
  "demo_items = [Arrived 4 (PullKVRequest ''k''), Arrived 2 (PushKVRequest ''k'' [7])]"

theorem pull_gets_pushed_value_witness:
  "\<exists>s. HandleRpcs demo_items = Inr s \<and> (4, PullKVResponse [7]) \<in> set (finished s)"
proof -
  have "schedule HandleRpcs_step item_ok (EnqueueRequests CtrlServer_init) demo_items"
    by code_simp
  then show ?thesis
    using pull_gets_pushed_value [of demo_items "[]" 4 "''k''" "[Arrived 2 (PushKVRequest ''k'' [7])]"]
    by (auto simp: demo_items_def pull_answer_def live_def)
qed

section \<open>The release of a barrier\<close>

text \<open>The calls that arrived at a barrier, in order.\<close>

fun arrivals :: "string \<Rightarrow> cq_item list \<Rightarrow> nat list" where
  "arrivals n [] = []"
| "arrivals n (Arrived c r # es) =
     (case r of BarrierRequest n' m \<Rightarrow> if n' = n then c # arrivals n es else arrivals n es
      | _ \<Rightarrow> arrivals n es)"
| "arrivals n (e # es) = arrivals n es"

lemma arrivals_append [simp]: "arrivals n (es @ fs) = arrivals n es @ arrivals n fs"
  by (induction es rule: arrivals.induct) (auto split: ctrl_request.splits)

definition released :: "string \<Rightarrow> cq_item list \<Rightarrow> server \<Rightarrow> nat list" where
  "released n es s = filter (\<lambda>c. c \<in> set (arrivals n es)) (map fst (finished s))"

text \<open>All calls of barrier \<open>n\<close> announce the number \<open>m\<close>.\<close>

definition announces :: "string \<Rightarrow> i32 \<Rightarrow> cq_item \<Rightarrow> bool" where
  "announces n m e = (case e of
     Arrived c r \<Rightarrow> (case r of BarrierRequest n' m' \<Rightarrow> n' = n \<longrightarrow> m' = m | _ \<Rightarrow> True)
   | _ \<Rightarrow> True)"

definition whole_groups :: "nat \<Rightarrow> 'a list \<Rightarrow> 'a list" where
  "whole_groups m xs = take (length xs div m * m) xs"

definition barrier_served :: "string \<Rightarrow> i32 \<Rightarrow> cq_item list \<Rightarrow> server \<Rightarrow> bool" where
  "barrier_served n m es s \<longleftrightarrow> (list_all (announces n m) es \<longrightarrow>
     released n es s = whole_groups (nat (sint m)) (arrivals n es) \<and>
     arrived s n = drop (length (released n es s)) (arrivals n es) \<and>
     (\<forall>it. barrier_calls s n = Some it \<longrightarrow> snd it = m))"

lemma whole_groups_snoc:
  assumes "0 < m"
  shows "whole_groups m (xs @ [x]) =
    (if Suc (length (drop (length (whole_groups m xs)) xs)) = m then xs @ [x] else whole_groups m xs)"
proof -
  let ?n = "length xs"
  have le: "?n div m * m \<le> ?n" by simp
  have len: "length (drop (length (whole_groups m xs)) xs) = ?n mod m"
    using le by (simp add: whole_groups_def minus_div_mult_eq_mod)
  show ?thesis
  proof (cases "Suc (?n mod m) = m")
    case True
    then have "Suc ?n mod m = 0" by (simp add: mod_Suc)
    then have "Suc ?n div m * m = Suc ?n" by (simp add: mult.commute mod_0_imp_dvd)
    with True show ?thesis unfolding len by (simp add: whole_groups_def)
  next
    case False
    then have "Suc ?n div m = ?n div m" by (simp add: div_Suc mod_Suc)
    with False le show ?thesis unfolding len by (simp add: whole_groups_def)
  qed
qed

lemma barrier_length:
  assumes "0 < sint (m :: i32)" and "k \<le> nat (sint m)"
  shows "(of_nat k :: u64) = scast m \<longleftrightarrow> k = nat (sint m)"
proof -
  have "sint m < 2 ^ 31" using sint_lt [of m] by simp
  then have "nat (sint m) < 2 ^ 64" by auto
  moreover from this assms(2) have "k < 2 ^ 64" by simp
  moreover have "(scast m :: u64) = of_nat (nat (sint m))" using assms(1) by simp
  ultimately show ?thesis by (metis unat_of_nat_u64)
qed

definition joins :: "string \<Rightarrow> cq_item \<Rightarrow> bool" where
  "joins n e = (case e of Arrived c r \<Rightarrow> (case r of BarrierRequest n' m \<Rightarrow> n' = n | _ \<Rightarrow> False) | _ \<Rightarrow> False)"

lemma arrived_held':
  assumes "wf_server s" and "c \<in> set (arrived s n)"
  shows "\<exists>m. held s c (BarrierRequest n m)"
proof (cases "barrier_calls s n")
  case (Some it)
  with assms wf_barrier [of s n "fst it" "snd it"] show ?thesis by (auto simp: arrived_def)
qed (use assms in \<open>simp add: arrived_def\<close>)

text \<open>The calls that a request answers beside those of barrier \<open>n\<close> do not belong to \<open>n\<close>.\<close>

lemma other_request:
  assumes wf: "wf_server s" and c: "current s c r" and ok: "request_ok s r"
    and other: "\<And>m. r \<noteq> BarrierRequest n m"
  shows "\<exists>xs. finished (request_effect c r s) = finished s @ xs \<and>
    (\<forall>x \<in> set xs. \<exists>r'. held s (fst x) r' \<and> (\<forall>m. r' \<noteq> BarrierRequest n m))"
proof -
  have c': "held s c r" using c by (simp add: current_def)
  show ?thesis
  proof (cases r)
    case (BarrierRequest n' m)
    with arrived_held [OF wf _ ok [unfolded BarrierRequest]] c' other show ?thesis
      by (fastforce simp: request_effect_def)
  next
    case (PushKVRequest k v)
    with pend_held [OF wf, of _ k] c' show ?thesis by (fastforce simp: request_effect_def)
  qed (use c' other in \<open>fastforce simp: request_effect_def split: option.splits\<close>)+
qed

lemma other_item:
  assumes wf: "wf_server s" and ok: "item_ok s e" and other: "\<not> joins n e"
  shows "\<exists>xs. finished (item_effect e s) = finished s @ xs \<and>
    (\<forall>x \<in> set xs. fst x \<notin> fst ` set (finished s) \<and> fst x \<notin> set (arrived s n))"
proof (cases e)
  case (Arrived c r)
  let ?s = "fill_request c r s"
  from wf_fill_request [OF wf] ok Arrived have w: "wf_server ?s" and c: "current ?s c r" by auto
  have "request_ok ?s r" using ok Arrived by (simp add: item_ok_def)
  moreover have "r \<noteq> BarrierRequest n m" for m using other Arrived by (auto simp: joins_def)
  ultimately obtain xs where xs: "finished (request_effect c r ?s) = finished ?s @ xs"
    "\<forall>x \<in> set xs. \<exists>r'. held ?s (fst x) r' \<and> (\<forall>m. r' \<noteq> BarrierRequest n m)"
    using other_request [OF w c] by blast
  have "fst x \<notin> fst ` set (finished s) \<and> fst x \<notin> set (arrived s n)" if "x \<in> set xs" for x
  proof -
    from xs(2) that obtain r' where r': "held ?s (fst x) r'" "\<forall>m. r' \<noteq> BarrierRequest n m" by blast
    then have "fst x \<notin> set (arrived ?s n)" using arrived_held' [OF w] held_unique by blast
    with held_fresh(2) [OF w r'(1)] show ?thesis by simp
  qed
  with xs(1) Arrived show ?thesis by (auto simp: item_effect_def)
qed (auto simp: item_effect_def)

lemma other_tables:
  "\<not> joins n e \<Longrightarrow> barrier_calls (item_effect e s) n = barrier_calls s n \<and> arrivals n [e] = []"
  by (cases e) (auto simp: item_effect_def request_effect_def joins_def split: ctrl_request.splits option.splits)

lemma barrier_served_other:
  assumes h: "barrier_served n m es s" and wf: "wf_server s" and ok: "item_ok s e"
    and other: "\<not> joins n e"
  shows "barrier_served n m (es @ [e]) (item_effect e s)"
  unfolding barrier_served_def
proof (rule impI)
  assume "list_all (announces n m) (es @ [e])"
  then have h: "released n es s = whole_groups (nat (sint m)) (arrivals n es)"
    "arrived s n = drop (length (released n es s)) (arrivals n es)"
    "\<forall>it. barrier_calls s n = Some it \<longrightarrow> snd it = m"
    using h by (simp_all add: barrier_served_def)
  have "set (arrivals n es) = set (released n es s) \<union> set (arrived s n)"
    using h(1,2) set_append [of "take (length (released n es s)) (arrivals n es)"]
    by (simp add: whole_groups_def del: set_append)
      (metis append_take_drop_id min.absorb2 div_times_less_eq_dividend set_append)
  then have sub: "set (arrivals n es) \<subseteq> fst ` set (finished s) \<union> set (arrived s n)"
    by (auto simp: released_def)
  obtain xs where xs: "finished (item_effect e s) = finished s @ xs"
    "\<forall>x \<in> set xs. fst x \<notin> fst ` set (finished s) \<and> fst x \<notin> set (arrived s n)"
    using other_item [OF wf ok other] by blast
  then have "filter (\<lambda>c. c \<in> set (arrivals n es)) (map fst xs) = []"
    using sub by (auto simp: filter_empty_conv)
  then have "released n (es @ [e]) (item_effect e s) = released n es s"
    using xs(1) other_tables [OF other, of s] by (simp add: released_def)
  moreover have "arrived (item_effect e s) n = arrived s n"
    using other_tables [OF other, of s] by (simp add: arrived_def)
  ultimately show "released n (es @ [e]) (item_effect e s) =
      whole_groups (nat (sint m)) (arrivals n (es @ [e])) \<and>
    arrived (item_effect e s) n =
      drop (length (released n (es @ [e]) (item_effect e s))) (arrivals n (es @ [e])) \<and>
    (\<forall>it. barrier_calls (item_effect e s) n = Some it \<longrightarrow> snd it = m)"
    using h other_tables [OF other, of s] by simp
qed

lemma barrier_served_join:
  assumes h: "barrier_served n m es s" and wf: "wf_server s" and ok: "item_ok s e"
    and e: "e = Arrived c (BarrierRequest n m)" and m: "0 < sint m"
  shows "barrier_served n m (es @ [e]) (item_effect e s)"
  unfolding barrier_served_def
proof (rule impI)
  let ?M = "nat (sint m)" and ?a = "arrivals n es" and ?t = "item_effect e s"
  let ?s = "fill_request c (BarrierRequest n m) s"
  assume "list_all (announces n m) (es @ [e])"
  then have h: "released n es s = whole_groups ?M ?a" "arrived s n = drop (length (released n es s)) ?a"
    using h by (simp_all add: barrier_served_def)
  have M: "0 < ?M" using m by simp
  have len: "length (arrived s n) = length ?a mod ?M"
    by (simp add: h whole_groups_def minus_div_mult_eq_mod)
  then have "Suc (length (arrived s n)) \<le> ?M" using M by (simp add: Suc_le_eq)
  from barrier_length [OF m this]
  have full: "(of_nat (length (arrived s n @ [c])) :: u64) = scast m \<longleftrightarrow> Suc (length (arrived s n)) = ?M"
    by simp
  have wg: "whole_groups ?M (?a @ [c]) =
      (if Suc (length (arrived s n)) = ?M then ?a @ [c] else whole_groups ?M ?a)"
    using whole_groups_snoc [OF M, of ?a c] by (simp only: h)
  from wf_fill_request [OF wf] ok e have w: "wf_server ?s" and c: "held ?s c (BarrierRequest n m)"
    by (auto simp: current_def)
  have nc: "c \<notin> fst ` set (finished s)" using held_fresh(2) [OF w c] by simp
  then have old: "filter (\<lambda>c'. c' = c \<or> c' \<in> set ?a) (map fst (finished s)) = released n es s"
    unfolding released_def by (intro filter_cong) force+
  show "released n (es @ [e]) ?t = whole_groups ?M (arrivals n (es @ [e])) \<and>
    arrived ?t n = drop (length (released n (es @ [e]) ?t)) (arrivals n (es @ [e])) \<and>
    (\<forall>it. barrier_calls ?t n = Some it \<longrightarrow> snd it = m)"
  proof (cases "Suc (length (arrived s n)) = ?M")
    case True
    with full have t: "?t = EnqueueRequest kBarrier (settle BarrierResponse (arrived s n @ [c])
        (?s\<lparr>barrier_calls := (barrier_calls s)(n := None)\<rparr>))"
      by (simp add: e item_effect_def request_effect_def)
    have "set (arrived s n) \<subseteq> set ?a" unfolding h(2) by (rule set_drop_subset)
    then have "filter (\<lambda>c'. c' = c \<or> c' \<in> set ?a) (arrived s n) = arrived s n"
      by (auto simp: filter_id_conv)
    then have "released n (es @ [e]) ?t = released n es s @ arrived s n @ [c]"
      using old unfolding released_def t arrivals_append by (simp add: e comp_def)
    also have "\<dots> = ?a @ [c]"
      using h by (metis append.assoc append_take_drop_id length_take min.absorb2
          whole_groups_def div_times_less_eq_dividend)
    finally show ?thesis using True wg unfolding t by (simp add: e arrived_def)
  next
    case False
    with full have t: "?t = EnqueueRequest kBarrier
        (?s\<lparr>barrier_calls := (barrier_calls s)(n \<mapsto> (arrived s n @ [c], m))\<rparr>)"
      by (simp add: e item_effect_def request_effect_def)
    have r: "released n (es @ [e]) ?t = released n es s"
      using old unfolding released_def t arrivals_append by (simp add: e)
    have "length (released n es s) \<le> length ?a" by (simp add: h whole_groups_def)
    with r False wg h show ?thesis unfolding t by (simp add: e arrived_def)
  qed
qed


lemma barrier_served_step:
  assumes m: "0 < sint m" and h: "barrier_served n m es s" and wf: "wf_server s"
    and ok: "item_ok s e" and e: "HandleRpcs_step s e = Inr t"
  shows "barrier_served n m (es @ [e]) t"
proof -
  have t: "t = item_effect e s" using HandleRpcs_step_effect [OF wf ok] e by simp
  show ?thesis
  proof (cases "joins n e")
    case False
    with barrier_served_other [OF h wf ok] t show ?thesis by simp
  next
    case True
    then obtain c m' where j: "e = Arrived c (BarrierRequest n m')"
      by (auto simp: joins_def split: cq_item.splits ctrl_request.splits)
    show ?thesis
    proof (cases "m' = m")
      case True
      with barrier_served_join [OF h wf ok _ m] j t show ?thesis by simp
    qed (simp add: barrier_served_def announces_def j)
  qed
qed

text \<open>
  C16: the barrier. While all its calls announce the same positive number, the calls of a
  barrier are answered in the order they arrived and in whole groups of that number: with
  \<open>N\<close> arrivals so far, exactly the first \<open>N div m * m\<close> of them have been released, and none
  of the others.
\<close>

theorem barrier_releases_groups:
  assumes "schedule HandleRpcs_step item_ok (EnqueueRequests CtrlServer_init) items"
    and "0 < sint m" and "list_all (announces n m) items"
  shows "\<exists>s. HandleRpcs items = Inr s \<and>
    filter (\<lambda>c. c \<in> set (arrivals n items)) (map fst (finished s)) =
    take (length (arrivals n items) div nat (sint m) * nat (sint m)) (arrivals n items)"
proof -
  have "barrier_served n m [] (EnqueueRequests CtrlServer_init)"
    by (simp add: barrier_served_def released_def whole_groups_def arrived_def EnqueueRequests_def
        CtrlServer_init_def)
  then have "\<exists>s. HandleRpcs items = Inr s \<and> wf_server s \<and> barrier_served n m items s"
    unfolding HandleRpcs_def
    by (rule service.run_history [OF wf_CtrlServer_init assms(1)])
      (rule barrier_served_step [OF assms(2)])
  with assms(3) show ?thesis by (auto simp: barrier_served_def released_def whole_groups_def)
qed

theorem barrier_releases_groups_witness:
  "\<exists>s. HandleRpcs [Arrived 1 (BarrierRequest ''b'' 2), Arrived 5 (BarrierRequest ''b'' 2),
      Arrived 6 (BarrierRequest ''b'' 2)] = Inr s \<and>
    filter (\<lambda>c. c \<in> {1, 5, 6}) (map fst (finished s)) = [1, 5]"
proof -
  let ?is = "[Arrived 1 (BarrierRequest ''b'' 2), Arrived 5 (BarrierRequest ''b'' 2),
      Arrived 6 (BarrierRequest ''b'' 2)]"
  have "schedule HandleRpcs_step item_ok (EnqueueRequests CtrlServer_init) ?is"
    by code_simp
  then show ?thesis
    using barrier_releases_groups [of ?is 2 "''b''"] by (auto simp: announces_def)
qed

text \<open>
  C22: what stops the server. In a state that the invariant allows, a request that breaks the
  clients' protocol (another address, another number for a barrier in progress, a key pushed
  twice, a key cleared that is not stored) fails a \<open>CHECK\<close> and ends the process; every other
  request is handled.
\<close>

theorem protocol_violation_stops:
  assumes "wf_server s" and "current s c r"
  shows "(\<exists>s'. request_handler c r s = Inr s') = request_ok s r \<and>
    (\<not> request_ok s r \<longrightarrow> request_handler c r s = Inl CheckFailed)"
proof (cases "request_ok s r")
  case True
  with request_handler_effect [OF assms] show ?thesis by simp
next
  case False
  then have "request_handler c r s = Inl CheckFailed"
    by (cases r) (auto simp: request_ok_def request_handler_def handle_LoadServer_def
        handle_Barrier_def handle_PushKV_def handle_ClearKV_def Let_def split: option.splits)
  with False show ?thesis by simp
qed

theorem protocol_violation_stops_witness:
  "request_handler 2 (PushKVRequest ''k'' [1])
     (fill_request 2 (PushKVRequest ''k'' [1])
       ((EnqueueRequests CtrlServer_init)\<lparr>kv := [''k'' \<mapsto> [7]]\<rparr>)) = Inl CheckFailed"
proof -
  let ?s = "(EnqueueRequests CtrlServer_init)\<lparr>kv := [''k'' \<mapsto> [7]]\<rparr>"
  let ?t = "fill_request 2 (PushKVRequest ''k'' [1]) ?s"
  have "wf_server ?s"
    by (rule wf_tables [OF wf_CtrlServer_init])
      (simp_all add: same_calls_def EnqueueRequests_def CtrlServer_init_def)
  moreover have "wf_server ?t \<and> current ?t 2 (PushKVRequest ''k'' [1])"
  proof -
    have "wf_server (EnqueueRequests CtrlServer_init)" by (rule wf_CtrlServer_init)
    moreover have "item_ok (EnqueueRequests CtrlServer_init) (Arrived 2 (PushKVRequest ''k'' [1]))"
      by code_simp
    ultimately have "wf_server (fill_request 2 (PushKVRequest ''k'' [1]) (EnqueueRequests CtrlServer_init)) \<and>
        current (fill_request 2 (PushKVRequest ''k'' [1]) (EnqueueRequests CtrlServer_init)) 2
          (PushKVRequest ''k'' [1])"
      by (rule wf_fill_request)
    then show ?thesis
      by (auto simp: fill_request_def set_call_def EnqueueRequests_def EnqueueRequest_def CtrlServer_init_def
          CtrlCall_def wf_server_def current_def held_def waits_def)
  qed
  moreover have "\<not> request_ok ?t (PushKVRequest ''k'' [1])" by code_simp
  ultimately show ?thesis
    using protocol_violation_stops [of ?t 2 "PushKVRequest ''k'' [1]"] by blast
qed

end
