(* ===== verification/CtrlClient.thy ===== *)
theory CtrlClient
  imports Config CtrlServer
begin

text \<open>
  The control client (\<open>control/ctrl_client.{h,cpp}\<close>) and the keys under which the queue
  pairs exchange their data (\<open>GenConnInfoKey\<close>, \<open>GenTokensMsgKey\<close>). A stub is named by the
  address it was made for; gRPC is the parameter \<open>rpc\<close>, which returns the status code and the
  response of one blocking call, over a state \<open>'w\<close> of the world outside.
\<close>

section \<open>Calls\<close>

datatype grpc_status = OK | UNAVAILABLE | grpc_other int

type_synonym stub = string
type_synonym 'w rpc = "stub \<Rightarrow> ctrl_request \<Rightarrow> 'w \<Rightarrow> (grpc_status \<times> ctrl_response) \<times> 'w"

record ctrl_client =
  stubs :: "stub list"
  need_heartbeat_thread_stop :: bool

definition max_retry_num :: nat where
  "max_retry_num = 60"

text \<open>\<open>ClientCall::operator()\<close>: the call, with \<open>GRPC_CHECK\<close> on its status.\<close>

definition ClientCall :: "'w rpc \<Rightarrow> stub \<Rightarrow> ctrl_request \<Rightarrow> 'w \<Rightarrow> (ctrl_response \<times> 'w) res" where
  "ClientCall rpc st req w =
     (let ((code, resp), w') = rpc st req w
      in check (code = OK) (Inr (resp, w')))"

definition GetMasterStub :: "ctrl_client \<Rightarrow> stub res" where
  "GetMasterStub cl = vec_index (stubs cl) 0"

definition GetResponsibleStub ::
  "(string \<Rightarrow> u64) \<Rightarrow> comm_net_config \<Rightarrow> ctrl_client \<Rightarrow> string \<Rightarrow> stub res"
where
  "GetResponsibleStub std_hash cfg cl key =
     (if TotalMachineNum cfg = 0 then Inl Undefined
      else vec_index (stubs cl) (unat (std_hash key mod TotalMachineNum cfg)))"

definition Barrier_num :: "'w rpc \<Rightarrow> ctrl_client \<Rightarrow> string \<Rightarrow> i32 \<Rightarrow> 'w \<Rightarrow> 'w res" where
  "Barrier_num rpc cl barrier_name barrier_num w =
     rbind (GetMasterStub cl) (\<lambda>st.
     rbind (ClientCall rpc st (BarrierRequest barrier_name barrier_num) w) (\<lambda>(_, w'). Inr w'))"

text \<open>The machine count is narrowed to \<open>int32_t\<close>.\<close>

definition Barrier :: "'w rpc \<Rightarrow> comm_net_config \<Rightarrow> ctrl_client \<Rightarrow> string \<Rightarrow> 'w \<Rightarrow> 'w res" where
  "Barrier rpc cfg cl barrier_name = Barrier_num rpc cl barrier_name (ucast (TotalMachineNum cfg))"

definition PushKV ::
  "'w rpc \<Rightarrow> (string \<Rightarrow> u64) \<Rightarrow> comm_net_config \<Rightarrow> ctrl_client \<Rightarrow> string \<Rightarrow> byte list \<Rightarrow> 'w \<Rightarrow> 'w res"
where
  "PushKV rpc std_hash cfg cl k v w =
     rbind (GetResponsibleStub std_hash cfg cl k) (\<lambda>st.
     rbind (ClientCall rpc st (PushKVRequest k v) w) (\<lambda>(_, w'). Inr w'))"

definition ClearKV ::
  "'w rpc \<Rightarrow> (string \<Rightarrow> u64) \<Rightarrow> comm_net_config \<Rightarrow> ctrl_client \<Rightarrow> string \<Rightarrow> 'w \<Rightarrow> 'w res"
where
  "ClearKV rpc std_hash cfg cl k w =
     rbind (GetResponsibleStub std_hash cfg cl k) (\<lambda>st.
     rbind (ClientCall rpc st (ClearKVRequest k) w) (\<lambda>(_, w'). Inr w'))"

fun response_val :: "ctrl_response \<Rightarrow> byte list" where
  "response_val (PullKVResponse v) = v"
| "response_val _ = []"

definition PullKV ::
  "'w rpc \<Rightarrow> (string \<Rightarrow> u64) \<Rightarrow> comm_net_config \<Rightarrow> ctrl_client \<Rightarrow> string \<Rightarrow> 'w \<Rightarrow> (byte list \<times> 'w) res"
where
  "PullKV rpc std_hash cfg cl k w =
     rbind (GetResponsibleStub std_hash cfg cl k) (\<lambda>st.
     rbind (ClientCall rpc st (PullKVRequest k) w) (\<lambda>(resp, w').
       Inr (response_val resp, w')))"

section \<open>Connecting to the servers\<close>

text \<open>The loop of \<open>LoadServer\<close>; the number is how many attempts are left.\<close>

fun LoadServer_loop :: "'w rpc \<Rightarrow> string \<Rightarrow> stub \<Rightarrow> nat \<Rightarrow> 'w \<Rightarrow> 'w res" where
  "LoadServer_loop rpc server_addr st 0 w = Inl CheckFailed"
| "LoadServer_loop rpc server_addr st (Suc left) w =
     (let ((code, _), w') = rpc st (LoadServerRequest server_addr) w
      in case code of
           OK \<Rightarrow> Inr w'
         | UNAVAILABLE \<Rightarrow> LoadServer_loop rpc server_addr st left w'
         | grpc_other _ \<Rightarrow> Inl Fatal)"

definition LoadServer :: "'w rpc \<Rightarrow> string \<Rightarrow> stub \<Rightarrow> 'w \<Rightarrow> 'w res" where
  "LoadServer rpc server_addr st = LoadServer_loop rpc server_addr st max_retry_num"

text \<open>\<open>std::to_string\<close> of an integer.\<close>

definition to_string :: "int \<Rightarrow> string" where
  "to_string i = (if i < 0 then CHR ''-'' # nat_digits (nat (- i)) else nat_digits (nat i))"

text \<open>The address of a machine: its own control port if it has one, else the common one.\<close>

definition stub_addr :: "comm_net_config \<Rightarrow> machine \<Rightarrow> stub" where
  "stub_addr cfg mchn =
     (let port = (if ctrl_port_agent mchn \<noteq> - 1 then ctrl_port_agent mchn else ctrl_port cfg)
      in addr mchn @ '':'' @ to_string (sint port))"

definition connect_one ::
  "'w rpc \<Rightarrow> comm_net_config \<Rightarrow> stub list \<times> 'w \<Rightarrow> machine \<Rightarrow> (stub list \<times> 'w) res"
where
  "connect_one rpc cfg sw mchn =
     (let st = stub_addr cfg mchn
      in rbind (LoadServer rpc (addr mchn) st (snd sw)) (\<lambda>w'. Inr (fst sw @ [st], w')))"

definition CtrlClient_new :: "'w rpc \<Rightarrow> comm_net_config \<Rightarrow> 'w \<Rightarrow> (ctrl_client \<times> 'w) res" where
  "CtrlClient_new rpc cfg w =
     rbind (run (connect_one rpc cfg) ([], w) (machines cfg)) (\<lambda>(sts, w').
       Inr (\<lparr>stubs = sts, need_heartbeat_thread_stop = False\<rparr>, w'))"

text \<open>One round of the heartbeat thread, and the thread: \<open>stops\<close> are the values of the
  stop flag it reads before its rounds.\<close>

definition heartbeat_call ::
  "'w rpc \<Rightarrow> 'w \<Rightarrow> stub \<times> machine \<Rightarrow> 'w res"
where
  "heartbeat_call rpc w p =
     rbind (ClientCall rpc (fst p) (LoadServerRequest (addr (snd p))) w) (\<lambda>(_, w'). Inr w')"

fun heartbeat :: "'w rpc \<Rightarrow> comm_net_config \<Rightarrow> ctrl_client \<Rightarrow> bool list \<Rightarrow> 'w \<Rightarrow> 'w res option" where
  "heartbeat rpc cfg cl [] w = None"
| "heartbeat rpc cfg cl (stop # stops) w =
     (if stop then Some (Inr w)
      else (case run (heartbeat_call rpc) w (zip (stubs cl) (machines cfg)) of
              Inl e \<Rightarrow> Some (Inl e)
            | Inr w' \<Rightarrow> heartbeat rpc cfg cl stops w'))"

section \<open>The keys of the connection data\<close>

definition GenConnInfoKey :: "i64 \<Rightarrow> i64 \<Rightarrow> string" where
  "GenConnInfoKey src_machine_id dst_machine_id =
     ''IBVerbsConnInfo/'' @ to_string (sint src_machine_id) @ ''/'' @ to_string (sint dst_machine_id)"

text \<open>The second parameter is an \<open>int\<close>: the caller's \<open>int64_t\<close> is narrowed to 32 bits.\<close>

definition GenTokensMsgKey :: "i64 \<Rightarrow> i64 \<Rightarrow> string" where
  "GenTokensMsgKey src_machine_id dst_machine_id =
     ''IBVerbsTokensMsg/'' @ to_string (sint src_machine_id) @ ''/''
       @ to_string (sint (ucast dst_machine_id :: i32))"


section \<open>The retry loop\<close>

text \<open>The worlds after \<open>n\<close> attempts, and the status of attempt \<open>n\<close>.\<close>

fun retry_world :: "'w rpc \<Rightarrow> string \<Rightarrow> stub \<Rightarrow> 'w \<Rightarrow> nat \<Rightarrow> 'w" where
  "retry_world rpc a st w 0 = w"
| "retry_world rpc a st w (Suc n) = retry_world rpc a st (snd (rpc st (LoadServerRequest a) w)) n"

definition retry_status :: "'w rpc \<Rightarrow> string \<Rightarrow> stub \<Rightarrow> 'w \<Rightarrow> nat \<Rightarrow> grpc_status" where
  "retry_status rpc a st w n = fst (fst (rpc st (LoadServerRequest a) (retry_world rpc a st w n)))"

lemma retry_status_Suc:
  "retry_status rpc a st w (Suc n) = retry_status rpc a st (snd (rpc st (LoadServerRequest a) w)) n"
  by (simp add: retry_status_def)

lemma LoadServer_loop_attempt:
  "(\<And>i. i < n \<Longrightarrow> retry_status rpc a st w i = UNAVAILABLE) \<Longrightarrow>
   LoadServer_loop rpc a st (n + left) w = LoadServer_loop rpc a st left (retry_world rpc a st w n)"
proof (induction n arbitrary: w)
  case (Suc n)
  let ?w = "snd (rpc st (LoadServerRequest a) w)"
  from Suc.prems [of 0] have "fst (fst (rpc st (LoadServerRequest a) w)) = UNAVAILABLE"
    by (simp add: retry_status_def)
  moreover have "LoadServer_loop rpc a st (n + left) ?w =
      LoadServer_loop rpc a st left (retry_world rpc a st ?w n)"
    using Suc.prems by (intro Suc.IH) (simp flip: retry_status_Suc)
  ultimately show ?case by (simp add: split_beta Let_def)
qed simp

text \<open>
  C32: connecting to a server. If the first \<open>n\<close> attempts find it unavailable, then: with
  \<open>n = 60\<close> the process aborts; otherwise attempt \<open>n\<close> decides, success ends the loop in the
  state that call left, and any status beside success and unavailable is fatal. No further
  call is made in either case.
\<close>

theorem LoadServer_retries:
  assumes "\<And>i. i < n \<Longrightarrow> retry_status rpc a st w i = UNAVAILABLE" and "n \<le> 60"
  shows "(n = 60 \<longrightarrow> LoadServer rpc a st w = Inl CheckFailed) \<and>
    (n < 60 \<longrightarrow> retry_status rpc a st w n = OK \<longrightarrow>
       LoadServer rpc a st w = Inr (retry_world rpc a st w (Suc n))) \<and>
    (n < 60 \<longrightarrow> retry_status rpc a st w n = grpc_other c \<longrightarrow> LoadServer rpc a st w = Inl Fatal)"
proof -
  have load: "LoadServer rpc a st w = LoadServer_loop rpc a st (60 - n) (retry_world rpc a st w n)"
    using LoadServer_loop_attempt [of n rpc a st w "60 - n"] assms
    by (simp add: LoadServer_def max_retry_num_def)
  have step: "snd (rpc st (LoadServerRequest a) (retry_world rpc a st w n)) = retry_world rpc a st w (Suc n)"
    by (induction n arbitrary: w) simp_all
  show ?thesis
  proof (cases "n = 60")
    case False
    with assms(2) have "60 - n = Suc (59 - n)" by simp
    with load False step show ?thesis
      by (auto simp: retry_status_def split_beta Let_def)
  qed (simp add: load)
qed

theorem LoadServer_retries_witness:
  "LoadServer (\<lambda>st r n. ((if n < (2 :: nat) then UNAVAILABLE else OK, LoadServerResponse), Suc n))
     ''a'' ''a:1'' 0 = Inr 3"
proof -
  let ?rpc = "\<lambda>st r n. ((if n < (2 :: nat) then UNAVAILABLE else OK, LoadServerResponse), Suc n)"
  have w: "retry_world ?rpc a st k i = k + i" for a st k i by (induction i arbitrary: k) simp_all
  then show ?thesis
    using LoadServer_retries [of 2 ?rpc "''a''" "''a:1''" 0 0] by (simp add: retry_status_def)
qed

section \<open>Which server is asked\<close>

lemma connect_run:
  "run (connect_one rpc cfg) (sts, w) ms = Inr (sts', w') \<Longrightarrow> sts' = sts @ map (stub_addr cfg) ms"
  by (induction ms arbitrary: sts w)
    (fastforce simp: connect_one_def Let_def rbind_eq_Inr)+

text \<open>
  C33: routing. A client that came up has one stub per machine, in the order of the
  configuration and with the machine's own control port where one is given. A push, a pull
  and a clear of the same key go to the same existing stub, the one at the key's hash modulo
  the machine count, on every client with this configuration; a barrier goes to machine 0.
\<close>

theorem client_routing:
  assumes new: "CtrlClient_new rpc cfg w0 = Inr (cl, w1)"
    and n: "0 < length (machines cfg)" "length (machines cfg) < 2 ^ 31"
  shows "stubs cl = map (stub_addr cfg) (machines cfg) \<and>
    (\<exists>i < length (machines cfg). i = unat (std_hash k) mod length (machines cfg) \<and>
      (\<forall>w. PushKV rpc std_hash cfg cl k v w =
         map_sum id snd (ClientCall rpc (stub_addr cfg (machines cfg ! i)) (PushKVRequest k v) w) \<and>
       ClearKV rpc std_hash cfg cl k w =
         map_sum id snd (ClientCall rpc (stub_addr cfg (machines cfg ! i)) (ClearKVRequest k) w) \<and>
       PullKV rpc std_hash cfg cl k w =
         map_sum id (apfst response_val)
           (ClientCall rpc (stub_addr cfg (machines cfg ! i)) (PullKVRequest k) w))) \<and>
    (\<forall>w. Barrier rpc cfg cl k w = map_sum id snd (ClientCall rpc (stub_addr cfg (machines cfg ! 0))
       (BarrierRequest k (of_nat (length (machines cfg)))) w))"
proof -
  let ?n = "length (machines cfg)"
  let ?i = "unat (std_hash k) mod ?n"
  have s: "stubs cl = map (stub_addr cfg) (machines cfg)"
    using new connect_run [of rpc cfg "[]" w0] by (auto simp: CtrlClient_new_def rbind_eq_Inr)
  have tn: "unat (TotalMachineNum cfg) = ?n" using n by (simp add: TotalMachineNum_def)
  then have nz: "TotalMachineNum cfg \<noteq> 0" using n by auto
  have i: "?i < ?n" using n by simp
  have "unat (std_hash k mod TotalMachineNum cfg) = ?i" by (simp add: unat_mod tn)
  with nz i s have stub: "GetResponsibleStub std_hash cfg cl k = Inr (stub_addr cfg (machines cfg ! ?i))"
    by (simp add: GetResponsibleStub_def vec_index_def)
  have master: "GetMasterStub cl = Inr (stub_addr cfg (machines cfg ! 0))"
    using n s by (simp add: GetMasterStub_def vec_index_def)
  have num: "(ucast (TotalMachineNum cfg) :: i32) = of_nat ?n"
    using n by (simp add: TotalMachineNum_def unsigned_of_nat take_bit_nat_eq_self)
  have pick: "rbind r (\<lambda>(a, b). Inr (f a, b)) = map_sum id (apfst f) r"
    "rbind r (\<lambda>(a, b). Inr b) = map_sum id snd r" for r :: "(ctrl_response \<times> 'a) res" and f :: "ctrl_response \<Rightarrow> byte list"
    by (cases r; simp add: split_beta apfst_def map_prod_def)+
  have calls: "PushKV rpc std_hash cfg cl k v w =
      map_sum id snd (ClientCall rpc (stub_addr cfg (machines cfg ! ?i)) (PushKVRequest k v) w)"
    "ClearKV rpc std_hash cfg cl k w =
      map_sum id snd (ClientCall rpc (stub_addr cfg (machines cfg ! ?i)) (ClearKVRequest k) w)"
    "PullKV rpc std_hash cfg cl k w = map_sum id (apfst response_val)
      (ClientCall rpc (stub_addr cfg (machines cfg ! ?i)) (PullKVRequest k) w)"
    "Barrier rpc cfg cl k w = map_sum id snd (ClientCall rpc (stub_addr cfg (machines cfg ! 0))
      (BarrierRequest k (of_nat ?n)) w)" for w
    by (simp_all add: PushKV_def ClearKV_def PullKV_def Barrier_def Barrier_num_def stub master num pick)
  show ?thesis
    by (intro conjI exI [of _ ?i] allI) (simp_all only: s i calls)
qed

definition echo_rpc :: "nat rpc" where
  "echo_rpc st r n =
     ((OK, case r of PullKVRequest k \<Rightarrow> PullKVResponse [of_nat (length st)] | _ \<Rightarrow> LoadServerResponse), Suc n)"

definition demo_machines :: "machine list" where
  "demo_machines =
     [\<lparr>mc_id = 0, addr = ''a'', ctrl_port_agent = - 1, data_port_agent = - 1\<rparr>,
      \<lparr>mc_id = 1, addr = ''bc'', ctrl_port_agent = 7, data_port_agent = - 1\<rparr>]"

theorem client_routing_witness:
  "\<exists>cl. CtrlClient_new echo_rpc (default_config demo_machines 80) 0 = Inr (cl, 2) \<and>
    stubs cl = [''a:80'', ''bc:7''] \<and>
    PullKV echo_rpc (\<lambda>k. 5) (default_config demo_machines 80) cl ''k'' 2 = Inr ([4], 3)"
proof -
  let ?c = "default_config demo_machines 80"
  have st: "map (stub_addr ?c) (machines ?c) = [''a:80'', ''bc:7'']"
    by code_simp
  then have stub: "stub_addr ?c (machines ?c ! 1) = ''bc:7''"
    by (simp add: default_config_def demo_machines_def)
  have load: "LoadServer echo_rpc a st w = Inr (Suc w)" for a st w
    by (simp add: LoadServer_def max_retry_num_def echo_rpc_def eval_nat_numeral)
  then obtain cl where new: "CtrlClient_new echo_rpc ?c 0 = Inr (cl, 2)"
    by (simp add: CtrlClient_new_def connect_one_def default_config_def demo_machines_def)
  have len: "length (machines ?c) = 2" by (simp add: default_config_def demo_machines_def)
  have "unat (5 :: u64) mod 2 = 1" by simp
  with client_routing [OF new, of "\<lambda>k. 5" "''k''"] len st
  have "stubs cl = [''a:80'', ''bc:7'']" and
    "PullKV echo_rpc (\<lambda>k. 5) ?c cl ''k'' 2 = map_sum id (apfst response_val)
      (ClientCall echo_rpc (stub_addr ?c (machines ?c ! 1)) (PullKVRequest ''k'') 2)"
    by (simp_all only: len, auto)
  with new show ?thesis unfolding stub by (simp add: ClientCall_def echo_rpc_def)
qed

section \<open>Keys are unambiguous\<close>

lemma to_string_chars: "CHR ''/'' \<notin> set (to_string i)"
  using nat_digits_chars by (auto simp: to_string_def)

lemma nat_digits_sign: "nat_digits m \<noteq> CHR ''-'' # xs"
  using nat_digits_chars [of "CHR ''-''" m] by (metis list.set_intros(1))

lemma to_string_inject: "to_string i = to_string j \<longleftrightarrow> i = j"
  by (auto simp: to_string_def nat_digits_inject nat_digits_sign nat_digits_sign [symmetric] split: if_splits)

lemma slash_split:
  "CHR ''/'' \<notin> set xs \<Longrightarrow> CHR ''/'' \<notin> set xs' \<Longrightarrow> CHR ''/'' \<notin> set ys \<Longrightarrow>
   xs @ CHR ''/'' # ys = xs' @ CHR ''/'' # ys' \<longleftrightarrow> xs = xs' \<and> ys = ys'"
  by (auto simp: append_Cons_eq_iff)

lemma keys_inject:
  "(GenConnInfoKey a b = GenConnInfoKey c d) = (a = c \<and> b = d) \<and>
   (GenTokensMsgKey a b = GenTokensMsgKey c d) = (a = c \<and> (ucast b :: i32) = ucast d) \<and>
   GenConnInfoKey a b \<noteq> GenTokensMsgKey c d"
proof (intro conjI)
  note split = slash_split [OF to_string_chars to_string_chars to_string_chars]
  show "(GenConnInfoKey a b = GenConnInfoKey c d) = (a = c \<and> b = d)"
    by (simp add: GenConnInfoKey_def split to_string_inject signed_word_eqI) (auto intro: signed_word_eqI)
  show "(GenTokensMsgKey a b = GenTokensMsgKey c d) = (a = c \<and> (ucast b :: i32) = ucast d)"
    unfolding GenTokensMsgKey_def by (simp add: split to_string_inject) (auto intro: signed_word_eqI)
  show "GenConnInfoKey a b \<noteq> GenTokensMsgKey c d"
    by (simp add: GenConnInfoKey_def GenTokensMsgKey_def)
qed

text \<open>
  C34: the keys of the exchanged connection data are unambiguous: a key names its kind, the
  source and the destination machine, so no queue pair reads what was pushed for another.
  (The token key keeps only the low 32 bits of the destination.)
\<close>

theorem connection_keys_distinct:
  "(GenConnInfoKey a b = GenConnInfoKey c d) = (a = c \<and> b = d) \<and>
   (GenTokensMsgKey a b = GenTokensMsgKey c d) = (a = c \<and> (ucast b :: i32) = ucast d) \<and>
   GenConnInfoKey a b \<noteq> GenTokensMsgKey c d"
  by (rule keys_inject)

end
