(* ===== verification/CtrlProg.thy ===== *)
theory CtrlProg
  imports CtrlClient
begin

text \<open>
  A thread that uses the control client: local computation between blocking calls. A program
  is its next call and what it does with the response, so that the programs of several
  machines can be interleaved call by call; \<open>exec\<close> runs one of them alone over a given gRPC, and
  then the client operations are those of CtrlClient.thy. A trace is the calls made with the
  responses got.
\<close>

section \<open>Programs\<close>

datatype 'a prog = Ret "'a res" | Call ctrl_request "ctrl_response \<Rightarrow> 'a prog"

primrec pbind :: "'a prog \<Rightarrow> ('a \<Rightarrow> 'b prog) \<Rightarrow> 'b prog" where
  "pbind (Ret r) f = (case r of Inl e \<Rightarrow> Ret (Inl e) | Inr x \<Rightarrow> f x)"
| "pbind (Call q k) f = Call q (\<lambda>a. pbind (k a) f)"

text \<open>A loop over a list, with a call or several in its body.\<close>

fun pfor :: "('s \<Rightarrow> 'x \<Rightarrow> 's prog) \<Rightarrow> 's \<Rightarrow> 'x list \<Rightarrow> 's prog" where
  "pfor f s [] = Ret (Inr s)"
| "pfor f s (x # xs) = pbind (f s x) (\<lambda>s'. pfor f s' xs)"

section \<open>The client's calls\<close>

definition push_kv :: "string \<Rightarrow> byte list \<Rightarrow> unit prog" where
  "push_kv k v = Call (PushKVRequest k v) (\<lambda>_. Ret (Inr ()))"

definition pull_kv :: "string \<Rightarrow> byte list prog" where
  "pull_kv k = Call (PullKVRequest k) (\<lambda>a. Ret (Inr (response_val a)))"

definition clear_kv :: "string \<Rightarrow> unit prog" where
  "clear_kv k = Call (ClearKVRequest k) (\<lambda>_. Ret (Inr ()))"

text \<open>\<open>BARRIER()\<close>: the name is the file and line, the number that of all machines.\<close>

definition file_line :: "string \<Rightarrow> nat \<Rightarrow> string" where
  "file_line file n = file @ '':'' @ nat_digits n"

definition barrier_at :: "comm_net_config \<Rightarrow> string \<Rightarrow> unit prog" where
  "barrier_at cfg nm = Call (BarrierRequest nm (ucast (TotalMachineNum cfg))) (\<lambda>_. Ret (Inr ()))"

section \<open>One thread alone\<close>

definition call_stub :: "(string \<Rightarrow> u64) \<Rightarrow> comm_net_config \<Rightarrow> ctrl_client \<Rightarrow> ctrl_request \<Rightarrow> stub res" where
  "call_stub std_hash cfg cl q = (case q of
     PushKVRequest k v \<Rightarrow> GetResponsibleStub std_hash cfg cl k
   | PullKVRequest k \<Rightarrow> GetResponsibleStub std_hash cfg cl k
   | ClearKVRequest k \<Rightarrow> GetResponsibleStub std_hash cfg cl k
   | _ \<Rightarrow> GetMasterStub cl)"

primrec exec ::
  "'w rpc \<Rightarrow> (string \<Rightarrow> u64) \<Rightarrow> comm_net_config \<Rightarrow> ctrl_client \<Rightarrow> 'a prog \<Rightarrow> 'w \<Rightarrow> ('a \<times> 'w) res"
where
  "exec rpc std_hash cfg cl (Ret r) w = rbind r (\<lambda>x. Inr (x, w))"
| "exec rpc std_hash cfg cl (Call q k) w =
     rbind (call_stub std_hash cfg cl q) (\<lambda>st.
     rbind (ClientCall rpc st q w) (\<lambda>(a, w'). exec rpc std_hash cfg cl (k a) w'))"

lemma exec_pbind:
  "exec rpc std_hash cfg cl (pbind p f) w =
   rbind (exec rpc std_hash cfg cl p w) (\<lambda>(x, w'). exec rpc std_hash cfg cl (f x) w')"
  by (induction p arbitrary: w) (auto simp: rbind_assoc rbind_def split: sum.splits prod.splits)

text \<open>The calls are the operations of the client.\<close>

lemma exec_calls:
  "exec rpc std_hash cfg cl (push_kv k v) w = rbind (PushKV rpc std_hash cfg cl k v w) (\<lambda>w'. Inr ((), w'))"
  "exec rpc std_hash cfg cl (clear_kv k) w = rbind (ClearKV rpc std_hash cfg cl k w) (\<lambda>w'. Inr ((), w'))"
  "exec rpc std_hash cfg cl (pull_kv k) w = PullKV rpc std_hash cfg cl k w"
  "exec rpc std_hash cfg cl (barrier_at cfg nm) w = rbind (Barrier rpc cfg cl nm w) (\<lambda>w'. Inr ((), w'))"
  by (simp_all add: push_kv_def clear_kv_def pull_kv_def barrier_at_def call_stub_def PushKV_def ClearKV_def
      PullKV_def Barrier_def Barrier_num_def rbind_assoc split_beta')

section \<open>Traces\<close>

fun performs :: "(ctrl_request \<times> ctrl_response) list \<Rightarrow> 'a prog \<Rightarrow> 'a res \<Rightarrow> bool" where
  "performs [] p r \<longleftrightarrow> p = Ret r"
| "performs ((q, a) # tr) p r \<longleftrightarrow> (\<exists>k. p = Call q k \<and> performs tr (k a) r)"

lemma performs_pbind:
  "performs tr p (Inr x) \<Longrightarrow> performs tr' (f x) r \<Longrightarrow> performs (tr @ tr') (pbind p f) r"
  by (induction tr p "Inr x :: 'a res" rule: performs.induct) auto

lemma performs_Inl: "performs tr p (Inl e) \<Longrightarrow> performs tr (pbind p f) (Inl e)"
  by (induction tr p "Inl e :: 'a res" rule: performs.induct) auto

lemma performs_unique: "performs tr p r \<Longrightarrow> performs tr p r' \<Longrightarrow> r = r'"
  by (induction tr p r rule: performs.induct) auto

text \<open>The calls have a fixed response each; only a pull uses it.\<close>

lemma performs_calls:
  "performs [(PushKVRequest k v, a)] (push_kv k v) (Inr ())"
  "performs [(ClearKVRequest k, a)] (clear_kv k) (Inr ())"
  "performs [(PullKVRequest k, PullKVResponse v)] (pull_kv k) (Inr v)"
  "performs [(BarrierRequest nm (ucast (TotalMachineNum cfg)), a)] (barrier_at cfg nm) (Inr ())"
  by (simp_all add: push_kv_def clear_kv_def pull_kv_def barrier_at_def)

lemma performs_Ret: "performs [] (Ret r) r"
  by simp

text \<open>A loop whose bodies keep an invariant over the elements done so far.\<close>

lemma performs_pfor:
  assumes "I [] s"
    and "\<And>ys x zs s. xs = ys @ x # zs \<Longrightarrow> I ys s \<Longrightarrow>
      \<exists>s'. performs (tr x) (f s x) (Inr s') \<and> I (ys @ [x]) s'"
  shows "\<exists>s'. performs (concat (map tr xs)) (pfor f s xs) (Inr s') \<and> I xs s'"
proof -
  have "\<exists>s'. performs (concat (map tr zs)) (pfor f s zs) (Inr s') \<and> I xs s'"
    if "xs = ys @ zs" "I ys s" for ys zs s
    using that
  proof (induction zs arbitrary: ys s)
    case (Cons x zs)
    obtain s1 where s1: "performs (tr x) (f s x) (Inr s1)" "I (ys @ [x]) s1"
      using assms(2) [OF Cons.prems] by blast
    from Cons.IH [of "ys @ [x]" s1] Cons.prems(1) s1(2) obtain s2 where
      "performs (concat (map tr zs)) (pfor f s1 zs) (Inr s2)" "I xs s2" by auto
    with performs_pbind [OF s1(1), of "concat (map tr zs)" "\<lambda>s'. pfor f s' zs"] show ?case by auto
  qed simp
  from this [of "[]" xs s] assms(1) show ?thesis by simp
qed

text \<open>A loop whose bodies have an outcome of their own that shows in their traces.\<close>

lemma performs_pfor_out:
  assumes "I [] s"
    and "\<And>ys x zs s. xs = map fst ys @ x # zs \<Longrightarrow> I ys s \<Longrightarrow>
      \<exists>s' out. performs (tr (x, out)) (f s x) (Inr s') \<and> I (ys @ [(x, out)]) s'"
  shows "\<exists>s' os. map fst os = xs \<and> performs (concat (map tr os)) (pfor f s xs) (Inr s') \<and> I os s'"
proof -
  have "\<exists>s' os. map fst os = zs \<and> performs (concat (map tr os)) (pfor f s zs) (Inr s') \<and> I (ys @ os) s'"
    if "xs = map fst ys @ zs" "I ys s" for ys zs s
    using that
  proof (induction zs arbitrary: ys s)
    case Nil
    then show ?case by (intro exI [of _ s] exI [of _ "[]"]) simp
  next
    case (Cons x zs)
    obtain s1 out where s1: "performs (tr (x, out)) (f s x) (Inr s1)" "I (ys @ [(x, out)]) s1"
      using assms(2) [OF Cons.prems] by blast
    from Cons.IH [of "ys @ [(x, out)]" s1] Cons.prems(1) s1(2) obtain s2 os where
      "map fst os = zs" "performs (concat (map tr os)) (pfor f s1 zs) (Inr s2)" "I ((ys @ [(x, out)]) @ os) s2" by auto
    with performs_pbind [OF s1(1), of "concat (map tr os)" "\<lambda>s'. pfor f s' zs"] show ?case
      by (intro exI [of _ s2] exI [of _ "(x, out) # os"]) simp
  qed
  from this [of "[]" xs s] assms(1) show ?thesis by simp
qed

end
