(* ===== verification/NodeSetup.thy ===== *)
theory NodeSetup
  imports Poller CtrlProg
begin

text \<open>
  How a machine comes up and goes down: the constructor and destructor of a queue pair and what
  they own (\<open>ibverbs/ibverbs_qp.{h,cpp}\<close>, \<open>ibverbs/ibverbs_memory_desc.cpp\<close>,
  \<open>ibverbs/ibverbs_helper.cpp\<close>), \<open>SetUp\<close> and \<open>TearDown\<close>
  (\<open>ibverbs/ibverbs_comm_network.cpp\<close>), \<open>Init\<close>, \<open>Finalize\<close> and \<open>SetUpCommNet\<close>
  (\<open>comm_network.cpp\<close>). The verbs calls are the fields of \<open>verbs\<close>, over the device state the
  data path uses too; the protobuf encodings are the fields of \<open>protos\<close>; the calls of the
  control client are those of a program of CtrlProg.thy.
\<close>

section \<open>The verbs library\<close>

record device_attr =
  max_qp_wr :: i32
  max_cqe :: i32

record port_attr =
  port_lid :: "16 word"
  active_mtu :: nat

record gid =
  gid_subnet_prefix :: u64
  gid_interface_id :: u64

record qp_init_attr =
  init_send_cq :: nat
  init_recv_cq :: nat
  max_send_wr :: u32
  max_recv_wr :: u32
  max_send_sge :: u32
  max_recv_sge :: u32
  max_inline_data :: u32
  sq_sig_all :: bool

text \<open>The fields of \<open>ibv_qp_attr\<close> the code sets, and which of them a call passes.\<close>

datatype qp_state = IBV_QPS_RESET | IBV_QPS_INIT | IBV_QPS_RTR | IBV_QPS_RTS

datatype access_flag = IBV_ACCESS_LOCAL_WRITE | IBV_ACCESS_REMOTE_WRITE | IBV_ACCESS_REMOTE_READ

datatype attr_mask =
    IBV_QP_STATE | IBV_QP_PKEY_INDEX | IBV_QP_PORT | IBV_QP_ACCESS_FLAGS | IBV_QP_AV | IBV_QP_PATH_MTU
  | IBV_QP_DEST_QPN | IBV_QP_RQ_PSN | IBV_QP_MAX_DEST_RD_ATOMIC | IBV_QP_MIN_RNR_TIMER | IBV_QP_SQ_PSN
  | IBV_QP_MAX_QP_RD_ATOMIC | IBV_QP_RETRY_CNT | IBV_QP_RNR_RETRY | IBV_QP_TIMEOUT

record ibv_qp_attr =
  at_qp_state :: qp_state
  pkey_index :: "16 word"
  port_num :: byte
  qp_access_flags :: "access_flag list"
  dgid_subnet_prefix :: u64
  dgid_interface_id :: u64
  flow_label :: u32
  sgid_index :: byte
  hop_limit :: byte
  dlid :: "16 word"
  sl :: byte
  src_path_bits :: byte
  static_rate :: byte
  is_global :: byte
  ah_port_num :: byte
  path_mtu :: nat
  dest_qp_num :: u32
  rq_psn :: u32
  max_dest_rd_atomic :: byte
  min_rnr_timer :: byte
  sq_psn :: u32
  max_rd_atomic :: byte
  retry_cnt :: byte
  rnr_retry :: byte
  at_timeout :: byte

definition zero_qp_attr :: ibv_qp_attr where
  "zero_qp_attr = \<lparr>at_qp_state = IBV_QPS_RESET, pkey_index = 0, port_num = 0, qp_access_flags = [],
     dgid_subnet_prefix = 0, dgid_interface_id = 0, flow_label = 0, sgid_index = 0, hop_limit = 0, dlid = 0,
     sl = 0, src_path_bits = 0, static_rate = 0, is_global = 0, ah_port_num = 0, path_mtu = 0,
     dest_qp_num = 0, rq_psn = 0, max_dest_rd_atomic = 0, min_rnr_timer = 0, sq_psn = 0,
     max_rd_atomic = 0, retry_cnt = 0, rnr_retry = 0, at_timeout = 0\<rparr>"

text \<open>
  A handle is a number, \<open>None\<close> the null pointer. The device's object for a queue pair is named
  like the queue pair, by the peer, which the posts of the data path use.
\<close>

record 'v verbs =
  v_get_device_list :: "'v \<Rightarrow> nat list option \<times> 'v"
  v_open_device :: "'v \<Rightarrow> nat \<Rightarrow> nat option \<times> 'v"
  v_alloc_pd :: "'v \<Rightarrow> nat \<Rightarrow> nat option \<times> 'v"
  v_query_device :: "'v \<Rightarrow> nat \<Rightarrow> int \<times> device_attr"
  v_create_cq :: "'v \<Rightarrow> nat \<Rightarrow> i32 \<Rightarrow> nat option \<times> 'v"
  v_query_port :: "'v \<Rightarrow> nat \<Rightarrow> int \<times> port_attr"
  v_query_gid :: "'v \<Rightarrow> nat \<Rightarrow> int \<times> gid"
  v_create_qp :: "'v \<Rightarrow> nat \<Rightarrow> nat \<Rightarrow> qp_init_attr \<Rightarrow> u32 option \<times> 'v"
  v_modify_qp :: "'v \<Rightarrow> nat \<Rightarrow> ibv_qp_attr \<Rightarrow> attr_mask list \<Rightarrow> int \<times> 'v"
  v_destroy_qp :: "'v \<Rightarrow> nat \<Rightarrow> int \<times> 'v"
  v_dereg_mr :: "'v \<Rightarrow> ibv_mr \<Rightarrow> int \<times> 'v"
  v_destroy_cq :: "'v \<Rightarrow> nat \<Rightarrow> int \<times> 'v"
  v_dealloc_pd :: "'v \<Rightarrow> nat \<Rightarrow> int \<times> 'v"
  v_close_device :: "'v \<Rightarrow> nat \<Rightarrow> int \<times> 'v"

text \<open>\<open>CHECK_EQ\<close> of a return code with zero, and \<open>CHECK\<close> of a returned pointer.\<close>

definition check_rc :: "int \<times> 'v \<Rightarrow> 'v res" where
  "check_rc = (\<lambda>(rc, v). check (rc = 0) (Inr v))"

definition check_ptr :: "'a option \<times> 'v \<Rightarrow> ('a \<times> 'v) res" where
  "check_ptr = (\<lambda>(p, v). case p of None \<Rightarrow> Inl CheckFailed | Some x \<Rightarrow> Inr (x, v))"

section \<open>The exchanged messages\<close>

record conn_info =
  ci_lid :: u32
  ci_qp_num :: u32
  ci_subnet_prefix :: u64
  ci_interface_id :: u64

record protos =
  ser_conn :: "conn_info \<Rightarrow> byte list"
  parse_conn :: "byte list \<Rightarrow> conn_info"
  ser_tokens :: "mem_desc_proto list \<Rightarrow> byte list"
  parse_tokens :: "byte list \<Rightarrow> mem_desc_proto list"

section \<open>Registered memory and message buffers go\<close>

definition delete_IBVerbsMemDesc :: "'v verbs \<Rightarrow> mem_desc \<Rightarrow> 'v \<Rightarrow> 'v res" where
  "delete_IBVerbsMemDesc V d v = run (\<lambda>v mr. check_rc (v_dereg_mr V v mr)) v (mr_vec d)"

definition delete_MsgMR :: "'v verbs \<Rightarrow> nat \<Rightarrow> 'v node \<Rightarrow> 'v node res" where
  "delete_MsgMR V i s =
     rbind (get_mr i s) (\<lambda>mr.
     rbind (delete_IBVerbsMemDesc V (mr_desc mr) (n_ext s)) (\<lambda>v.
       Inr (s\<lparr>n_mrs := (n_mrs s)(i := None), n_ext := v\<rparr>)))"

section \<open>A queue pair\<close>

text \<open>\<open>sizeof(Msg)\<close>: the kind, a pointer, a size and a \<open>std::function\<close>.\<close>

definition sizeof_Msg :: nat where
  "sizeof_Msg = 56"

fun new_MsgMRs :: "'v env \<Rightarrow> nat \<Rightarrow> nat list \<Rightarrow> 'v node \<Rightarrow> (nat list \<times> 'v node) res" where
  "new_MsgMRs E 0 bufs s = Inr (bufs, s)"
| "new_MsgMRs E (Suc k) bufs s = rbind (new_MsgMR E s) (\<lambda>(i, s'). new_MsgMRs E k (bufs @ [i]) s')"

text \<open>The loop that allocates and registers the buffer pairs; \<open>malloc\<close> is not checked.\<close>

fun new_buffers ::
  "'v env \<Rightarrow> u64 \<Rightarrow> nat \<Rightarrow> (mem_desc \<times> mem_desc) list \<Rightarrow> 'v \<Rightarrow> ((mem_desc \<times> mem_desc) list \<times> 'v) res"
where
  "new_buffers E buffer_size 0 ds v = Inr (ds, v)"
| "new_buffers E buffer_size (Suc k) ds v =
     (let (send_buffer, v1) = e_malloc E v buffer_size in
      rbind (IBVerbsMemDesc (e_cfg E) (e_reg_mr E) send_buffer buffer_size v1) (\<lambda>(send_mem_desc, v2).
      let (recv_buffer, v3) = e_malloc E v2 buffer_size in
      rbind (IBVerbsMemDesc (e_cfg E) (e_reg_mr E) recv_buffer buffer_size v3) (\<lambda>(recv_mem_desc, v4).
        new_buffers E buffer_size k (ds @ [(send_mem_desc, recv_mem_desc)]) v4)))"

text \<open>A loop over \<open>int i < n\<close> with a 64-bit bound must not overflow its counter.\<close>

definition int_loop :: "i64 \<Rightarrow> (nat \<Rightarrow> 'a res) \<Rightarrow> 'a res" where
  "int_loop n body = (if 2 ^ 31 - 1 < sint n then Inl Undefined else body (nat (sint n)))"

definition new_IBVerbsQP ::
  "'v env \<Rightarrow> 'v verbs \<Rightarrow> nat \<Rightarrow> nat \<Rightarrow> nat \<Rightarrow> nat \<Rightarrow> i64 \<Rightarrow> i64 \<Rightarrow> 'v node \<Rightarrow> ((qp \<times> u32) \<times> 'v node) res"
where
  "new_IBVerbsQP E V ctx pd send_cq recv_cq this_id peer_id s =
     (let (rc, device_attr) = v_query_device V (n_ext s) ctx in
      check (rc = 0)
      (rbind (SgeBytes (e_cfg E)) (\<lambda>sge_bytes.
       let recv_wr = min (ucast (sge_bytes div of_nat sizeof_Msg)) (ucast (max_qp_wr device_attr));
           init = \<lparr>init_send_cq = send_cq, init_recv_cq = recv_cq, max_send_wr = ucast (max_qp_wr device_attr),
             max_recv_wr = recv_wr, max_send_sge = 1, max_recv_sge = 1, max_inline_data = 0, sq_sig_all = True\<rparr>
       in
       rbind (check_ptr (v_create_qp V (n_ext s) pd (unat peer_id) init)) (\<lambda>(num, v1).
       rbind (new_MsgMRs E (unat recv_wr) [] (s\<lparr>n_ext := v1\<rparr>)) (\<lambda>(bufs, s2).
       rbind (int_loop (RegisterBufferNum (e_cfg E)) (\<lambda>n.
           new_buffers E (buffer_bytes (e_cfg E)) n [] (n_ext s2))) (\<lambda>(ds, v3).
         Inr ((\<lparr>this_machine_id = this_id, peer_machine_id = peer_id, recv_msg_buf = bufs,
           send_msg_buf = [], helper = None, qp_mem_desc = ds, send_recv_mem_desc = [],
           read_queue = [], read_done_cbs = []\<rparr>, num), s2\<lparr>n_ext := v3\<rparr>)))))))"

text \<open>The registered receive buffers, told to the peer.\<close>

definition PushRegisterMemoryKey :: "'v env \<Rightarrow> protos \<Rightarrow> nat \<Rightarrow> 'v node \<Rightarrow> unit prog" where
  "PushRegisterMemoryKey E P p s =
     pbind (Ret (rbind (get_qp p s) (\<lambda>q.
       int_loop (RegisterBufferNum (e_cfg E)) (\<lambda>n.
         if length (qp_mem_desc q) < n then Inl Undefined
         else Inr (q, map (\<lambda>d. ToProto (snd d)) (take n (qp_mem_desc q))))))) (\<lambda>(q, tokens).
     push_kv (GenTokensMsgKey (this_machine_id q) (peer_machine_id q)) (ser_tokens P tokens))"

definition PullRegisterMemoryKey :: "'v env \<Rightarrow> protos \<Rightarrow> nat \<Rightarrow> 'v node \<Rightarrow> 'v node prog" where
  "PullRegisterMemoryKey E P p s =
     pbind (Ret (get_qp p s)) (\<lambda>q.
     pbind (pull_kv (GenTokensMsgKey (peer_machine_id q) (this_machine_id q))) (\<lambda>val.
       let tokens = parse_tokens P val in
       Ret (int_loop (RegisterBufferNum (e_cfg E)) (\<lambda>n.
         if length (qp_mem_desc q) < n \<or> length tokens < n then Inl Undefined
         else Inr (put_qp p (q\<lparr>send_recv_mem_desc := send_recv_mem_desc q @
           zip (map fst (take n (qp_mem_desc q))) (take n tokens)\<rparr>) s)))))"

text \<open>\<open>new IBVerbsHelper\<close>; the fields the constructor leaves open are arguments.\<close>

definition ClearKeyAndCreateHelper ::
  "'v env \<Rightarrow> i32 \<Rightarrow> work_record \<Rightarrow> nat \<Rightarrow> 'v node \<Rightarrow> 'v node prog"
where
  "ClearKeyAndCreateHelper E junk_id junk_record p s =
     pbind (Ret (get_qp p s)) (\<lambda>q.
     pbind (clear_kv (GenTokensMsgKey (this_machine_id q) (peer_machine_id q))) (\<lambda>_.
       Ret (rbind (new_write_helper (e_cfg E) (send_recv_mem_desc q) junk_id junk_record) (\<lambda>h.
         Inr (put_qp p (q\<lparr>helper := Some h\<rparr>) s)))))"

text \<open>\<open>Connect\<close>: the three state changes, each with its attributes and mask.\<close>

definition qp_attr_INIT :: ibv_qp_attr where
  "qp_attr_INIT = zero_qp_attr\<lparr>at_qp_state := IBV_QPS_INIT, pkey_index := 0, port_num := 1,
     qp_access_flags := [IBV_ACCESS_LOCAL_WRITE, IBV_ACCESS_REMOTE_WRITE, IBV_ACCESS_REMOTE_READ]\<rparr>"

definition qp_attr_RTR :: "conn_info \<Rightarrow> port_attr \<Rightarrow> ibv_qp_attr" where
  "qp_attr_RTR peer_info port_attr = zero_qp_attr\<lparr>at_qp_state := IBV_QPS_RTR,
     dgid_subnet_prefix := ci_subnet_prefix peer_info, dgid_interface_id := ci_interface_id peer_info,
     flow_label := 0, sgid_index := 0, hop_limit := 255, dlid := ucast (ci_lid peer_info), sl := 0,
     src_path_bits := 0, static_rate := 0, is_global := 1, ah_port_num := 1,
     path_mtu := active_mtu port_attr, dest_qp_num := ci_qp_num peer_info, rq_psn := 0,
     max_dest_rd_atomic := 1, min_rnr_timer := 12\<rparr>"

definition qp_attr_RTS :: ibv_qp_attr where
  "qp_attr_RTS = zero_qp_attr\<lparr>at_qp_state := IBV_QPS_RTS, sq_psn := 0, max_rd_atomic := 1,
     retry_cnt := 7, rnr_retry := 7, at_timeout := 14\<rparr>"

definition Connect :: "'v verbs \<Rightarrow> nat \<Rightarrow> nat \<Rightarrow> conn_info \<Rightarrow> 'v node \<Rightarrow> 'v node res" where
  "Connect V ctx p peer_info s =
     (let (rc, port_attr) = v_query_port V (n_ext s) ctx in
      check (rc = 0)
      (rbind (check_rc (v_modify_qp V (n_ext s) p qp_attr_INIT
         [IBV_QP_STATE, IBV_QP_PKEY_INDEX, IBV_QP_PORT, IBV_QP_ACCESS_FLAGS])) (\<lambda>v1.
       rbind (check_rc (v_modify_qp V v1 p (qp_attr_RTR peer_info port_attr)
         [IBV_QP_STATE, IBV_QP_AV, IBV_QP_PATH_MTU, IBV_QP_DEST_QPN, IBV_QP_RQ_PSN,
          IBV_QP_MAX_DEST_RD_ATOMIC, IBV_QP_MIN_RNR_TIMER])) (\<lambda>v2.
       rbind (check_rc (v_modify_qp V v2 p qp_attr_RTS
         [IBV_QP_STATE, IBV_QP_SQ_PSN, IBV_QP_MAX_QP_RD_ATOMIC, IBV_QP_RETRY_CNT, IBV_QP_RNR_RETRY,
          IBV_QP_TIMEOUT])) (\<lambda>v3.
         Inr (s\<lparr>n_ext := v3\<rparr>))))))"

text \<open>
  The destructor of a queue pair that has a helper (before, its pointer is not set). The entry
  of \<open>qp_vec_\<close> is not cleared by the code; that the object behind it is gone is \<open>None\<close> here.
  The memory of the buffers is deregistered, not freed.
\<close>

definition delete_buffer_pair :: "'v verbs \<Rightarrow> 'v \<Rightarrow> mem_desc \<times> mem_desc \<Rightarrow> 'v res" where
  "delete_buffer_pair V v d = rbind (delete_IBVerbsMemDesc V (fst d) v) (delete_IBVerbsMemDesc V (snd d))"

definition delete_IBVerbsQP :: "'v verbs \<Rightarrow> nat \<Rightarrow> 'v node \<Rightarrow> 'v node res" where
  "delete_IBVerbsQP V p s =
     rbind (get_qp p s) (\<lambda>q.
     rbind (check_rc (v_destroy_qp V (n_ext s) p)) (\<lambda>v1.
     rbind (case helper q of None \<Rightarrow> Inl Undefined | Some h \<Rightarrow> delete_write_helper h) (\<lambda>_.
     rbind (run (\<lambda>s i. delete_MsgMR V i s) (s\<lparr>n_ext := v1\<rparr>) (send_msg_buf q)) (\<lambda>s2.
     rbind (run (\<lambda>s i. delete_MsgMR V i s) s2 (recv_msg_buf q)) (\<lambda>s3.
     rbind (run (delete_buffer_pair V) (n_ext s3) (qp_mem_desc q)) (\<lambda>v4.
       Inr (s3\<lparr>qp_vec := (qp_vec s3)[p := None], n_ext := v4\<rparr>)))))))"

section \<open>IBVerbsCommNet: set-up and tear-down\<close>

text \<open>
  The parts of \<open>CommNet\<close> and \<open>IBVerbsCommNet\<close> beside the queue pairs and the handlers. A
  poller is here the completion queue it polls; its thread is in Poller.thy.
\<close>

record 'v comm_net =
  cn_node :: "'v node"
  cn_this :: i64
  cn_peers :: "i64 list"
  cn_context :: nat
  cn_pd :: nat
  cq_vec :: "nat list"
  poller_vec :: "nat list"

definition get_device :: "'v verbs \<Rightarrow> 'v \<Rightarrow> (nat \<times> 'v) res" where
  "get_device V v =
     rbind (check_ptr (v_get_device_list V v)) (\<lambda>(devices, v1).
       case devices of [] \<Rightarrow> Inl Undefined | device # _ \<Rightarrow> Inr (device, v1))"

text \<open>The first part of \<open>SetUp\<close>: the device, and a completion queue for each poller.\<close>

definition open_device :: "'v verbs \<Rightarrow> 'v comm_net \<Rightarrow> 'v comm_net res" where
  "open_device V s =
     rbind (get_device V (n_ext (cn_node s))) (\<lambda>(device, v1).
     rbind (check_ptr (v_open_device V v1 device)) (\<lambda>(ctx, v2).
     rbind (check_ptr (v_alloc_pd V v2 ctx)) (\<lambda>(pd, v3).
       Inr (s\<lparr>cn_context := ctx, cn_pd := pd, cn_node := (cn_node s)\<lparr>n_ext := v3\<rparr>\<rparr>))))"

definition add_poller :: "'v verbs \<Rightarrow> i32 \<Rightarrow> 'v comm_net \<Rightarrow> nat \<Rightarrow> 'v comm_net res" where
  "add_poller V cqe s i =
     rbind (check_ptr (v_create_cq V (n_ext (cn_node s)) (cn_context s) cqe)) (\<lambda>(cq, v).
       Inr (s\<lparr>cn_node := (cn_node s)\<lparr>n_ext := v\<rparr>, cq_vec := cq_vec s @ [cq],
         poller_vec := poller_vec s @ [cq]\<rparr>))"

definition create_pollers :: "'v env \<Rightarrow> 'v verbs \<Rightarrow> 'v comm_net \<Rightarrow> 'v comm_net res" where
  "create_pollers E V s =
     (let (rc, device_attr) = v_query_device V (n_ext (cn_node s)) (cn_context s);
          num = poller_num (e_cfg E)
      in check (rc = 0)
      (rbind (int_loop num (\<lambda>n. run (add_poller V (max_cqe device_attr)) s [0..<n])) (\<lambda>s1.
         check ((of_nat (length (poller_vec s1)) :: u64) = num) (Inr s1))))"

text \<open>The body of the first loop over the peers, with the index of its completion queue.\<close>

definition create_qp ::
  "'v env \<Rightarrow> 'v verbs \<Rightarrow> protos \<Rightarrow> port_attr \<Rightarrow> gid \<Rightarrow> 'v comm_net \<times> u64 \<Rightarrow> i64 \<Rightarrow> ('v comm_net \<times> u64) prog"
where
  "create_qp E V P port_attr gid = (\<lambda>(s, cq_idx) peer_id.
     pbind (Ret (rbind (vec_index (cq_vec s) (unat cq_idx)) (\<lambda>cur_cq.
       if poller_num (e_cfg E) = 0 then Inl Undefined
       else rbind (new_IBVerbsQP E V (cn_context s) (cn_pd s) cur_cq cur_cq (cn_this s) peer_id (cn_node s))
         (\<lambda>((q, num), nd).
         rbind (vec_at (qp_vec nd) (unat peer_id)) (\<lambda>_. Inr (num, put_qp (unat peer_id) q nd)))))) (\<lambda>(num, nd).
     let conn = \<lparr>ci_lid = ucast (port_lid port_attr), ci_qp_num = num,
           ci_subnet_prefix = gid_subnet_prefix gid, ci_interface_id = gid_interface_id gid\<rparr>
     in
     pbind (push_kv (GenConnInfoKey (cn_this s) peer_id) (ser_conn P conn)) (\<lambda>_.
     pbind (PushRegisterMemoryKey E P (unat peer_id) nd) (\<lambda>_.
       Ret (Inr (s\<lparr>cn_node := nd\<rparr>, (cq_idx + 1) mod poller_num (e_cfg E)))))))"

text \<open>\<open>qp_vec_.at(peer_id)->\<close> in the two loops that follow.\<close>

definition connect_qp ::
  "'v env \<Rightarrow> 'v verbs \<Rightarrow> protos \<Rightarrow> 'v comm_net \<Rightarrow> i64 \<Rightarrow> 'v comm_net prog"
where
  "connect_qp E V P s peer_id =
     pbind (pull_kv (GenConnInfoKey peer_id (cn_this s))) (\<lambda>val.
     pbind (Ret (vec_at (qp_vec (cn_node s)) (unat peer_id))) (\<lambda>_.
     pbind (PullRegisterMemoryKey E P (unat peer_id) (cn_node s)) (\<lambda>nd.
       Ret (rbind (Connect V (cn_context s) (unat peer_id) (parse_conn P val) nd) (\<lambda>nd'.
         Inr (s\<lparr>cn_node := nd'\<rparr>))))))"

definition start_qp ::
  "'v env \<Rightarrow> i32 \<Rightarrow> work_record \<Rightarrow> 'v comm_net \<Rightarrow> i64 \<Rightarrow> 'v comm_net prog"
where
  "start_qp E junk_id junk_record s peer_id =
     pbind (Ret (rbind (vec_at (qp_vec (cn_node s)) (unat peer_id)) (\<lambda>_.
       PostAllRecvRequest E (unat peer_id) (cn_node s)))) (\<lambda>nd.
     pbind (clear_kv (GenConnInfoKey (cn_this s) peer_id)) (\<lambda>_.
     pbind (ClearKeyAndCreateHelper E junk_id junk_record (unat peer_id) nd) (\<lambda>nd'.
       Ret (Inr (s\<lparr>cn_node := nd'\<rparr>)))))"

definition SetUp ::
  "'v env \<Rightarrow> 'v verbs \<Rightarrow> protos \<Rightarrow> string \<Rightarrow> i32 \<Rightarrow> work_record \<Rightarrow> 'v comm_net \<Rightarrow> 'v comm_net prog"
where
  "SetUp E V P file junk_id junk_record s =
     pbind (Ret (rbind (open_device V s) (create_pollers E V))) (\<lambda>s1.
     let (rc, port_attr) = v_query_port V (n_ext (cn_node s1)) (cn_context s1);
         (rc', gid) = v_query_gid V (n_ext (cn_node s1)) (cn_context s1)
     in
     pbind (Ret (check (rc = 0) (check (rc' = 0) (Inr ())))) (\<lambda>_.
     let s2 = s1\<lparr>cn_node := (cn_node s1)\<lparr>qp_vec := replicate (length (cn_peers s1) + 1) None\<rparr>\<rparr> in
     pbind (pfor (create_qp E V P port_attr gid) (s2, 0) (cn_peers s1)) (\<lambda>(s3, _).
     pbind (pfor (connect_qp E V P) s3 (cn_peers s1)) (\<lambda>s4.
     pbind (barrier_at (e_cfg E) (file_line file 62)) (\<lambda>_.
     pbind (pfor (start_qp E junk_id junk_record) s4 (cn_peers s1)) (\<lambda>s5.
     pbind (barrier_at (e_cfg E) (file_line file 68)) (\<lambda>_. Ret (Inr s5))))))))"

definition delete_qp_at :: "'v verbs \<Rightarrow> 'v node \<Rightarrow> nat \<Rightarrow> 'v node res" where
  "delete_qp_at V s p = (if qp_vec s ! p = None then Inr s else delete_IBVerbsQP V p s)"

definition TearDown :: "'v verbs \<Rightarrow> 'v comm_net \<Rightarrow> 'v comm_net res" where
  "TearDown V s =
     rbind (run (delete_qp_at V) (cn_node s) [0..<length (qp_vec (cn_node s))]) (\<lambda>nd.
     rbind (run (\<lambda>v cq. check_rc (v_destroy_cq V v cq)) (n_ext nd) (cq_vec s)) (\<lambda>v1.
     rbind (check_rc (v_dealloc_pd V v1 (cn_pd s))) (\<lambda>v2.
     rbind (check_rc (v_close_device V v2 (cn_context s))) (\<lambda>v3.
       Inr (s\<lparr>cn_node := nd\<lparr>n_ext := v3\<rparr>\<rparr>)))))"

section \<open>CommNet: the virtual methods\<close>

text \<open>The two networks behind the interface; every method of the epoll one is empty.\<close>

datatype net_kind = net_IBVerbs | net_Epoll

definition CommNet_SendMsg ::
  "net_kind \<Rightarrow> 'v env \<Rightarrow> i64 \<Rightarrow> i32 \<Rightarrow> u64 \<Rightarrow> u64 \<Rightarrow> callback option \<Rightarrow> 'v node \<Rightarrow> 'v node res"
where
  "CommNet_SendMsg k E dst_machine_id msg_type p bytes cb s = (case k of
     net_IBVerbs \<Rightarrow> SendMsg E dst_machine_id msg_type p bytes cb s
   | net_Epoll \<Rightarrow> Inr s)"

definition CommNet_DoRead ::
  "net_kind \<Rightarrow> 'v env \<Rightarrow> i64 \<Rightarrow> u64 \<Rightarrow> u64 \<Rightarrow> u64 \<Rightarrow> callback option \<Rightarrow> 'v node \<Rightarrow> 'v node res"
where
  "CommNet_DoRead k E src_machine_id src_addr bytes dst_addr cb s = (case k of
     net_IBVerbs \<Rightarrow> DoRead E src_machine_id src_addr bytes dst_addr cb s
   | net_Epoll \<Rightarrow> Inr s)"

definition CommNet_RegisterReadDoneCb ::
  "net_kind \<Rightarrow> i64 \<Rightarrow> callback option \<Rightarrow> 'v node \<Rightarrow> 'v node res"
where
  "CommNet_RegisterReadDoneCb k dst_machine_id cb s = (case k of
     net_IBVerbs \<Rightarrow> RegisterReadDoneCb dst_machine_id cb s
   | net_Epoll \<Rightarrow> Inr s)"

text \<open>\<open>RegisterMsgHandler\<close> is not virtual: the table, and a barrier for all machines.\<close>

definition CommNet_RegisterMsgHandler ::
  "'v env \<Rightarrow> string \<Rightarrow> i32 \<Rightarrow> nat option \<Rightarrow> 'v comm_net \<Rightarrow> 'v comm_net prog"
where
  "CommNet_RegisterMsgHandler E file msg_type handler s =
     (let s' = s\<lparr>cn_node := RegisterMsgHandler msg_type handler (cn_node s)\<rparr>
      in pbind (barrier_at (e_cfg E) (file_line file 48)) (\<lambda>_. Ret (Inr s')))"

definition CommNet_SetUp ::
  "net_kind \<Rightarrow> 'v env \<Rightarrow> 'v verbs \<Rightarrow> protos \<Rightarrow> string \<Rightarrow> i32 \<Rightarrow> work_record \<Rightarrow> 'v comm_net \<Rightarrow> 'v comm_net prog"
where
  "CommNet_SetUp k E V P file junk_id junk_record s = (case k of
     net_IBVerbs \<Rightarrow> SetUp E V P file junk_id junk_record s
   | net_Epoll \<Rightarrow> Ret (Inr s))"

definition CommNet_TearDown :: "net_kind \<Rightarrow> 'v verbs \<Rightarrow> 'v comm_net \<Rightarrow> 'v comm_net res" where
  "CommNet_TearDown k V s = (case k of net_IBVerbs \<Rightarrow> TearDown V s | net_Epoll \<Rightarrow> Inr s)"

section \<open>Init, Finalize and SetUpCommNet\<close>

text \<open>
  The peers are a hash set: \<open>order\<close> is the order in which it is iterated. \<open>Start\<close> of the pollers
  comes after \<open>SetUp\<close>: until then no completion is handled.
\<close>

definition peer_ids :: "comm_net_config \<Rightarrow> i64 \<Rightarrow> i64 list" where
  "peer_ids cfg this_id = filter (\<lambda>i. i \<noteq> this_id) (map of_nat [0..<length (machines cfg)])"

definition Init ::
  "net_kind \<Rightarrow> 'v env \<Rightarrow> 'v verbs \<Rightarrow> protos \<Rightarrow> string \<Rightarrow> i32 \<Rightarrow> work_record \<Rightarrow> (i64 list \<Rightarrow> i64 list) \<Rightarrow>
   string \<Rightarrow> 'v comm_net \<Rightarrow> ('v comm_net \<times> poller list) prog"
where
  "Init k E V P file junk_id junk_record order server_addr s =
     pbind (Ret (GetMachineId (e_cfg E) server_addr)) (\<lambda>mid.
     let this_id = word_of_int mid in
     pbind (CommNet_SetUp k E V P file junk_id junk_record
         (s\<lparr>cn_this := this_id, cn_peers := order (peer_ids (e_cfg E) this_id)\<rparr>)) (\<lambda>s'.
       Ret (Inr (s', map (\<lambda>_. Start) (poller_vec s')))))"

text \<open>
  \<open>Finalize\<close> stops the pollers one after the other (that each \<open>Stop\<close> returns is shown in
  Poller.thy). \<open>handled\<close> is what the pollers still handle until the last has stopped.
\<close>

definition Finalize ::
  "net_kind \<Rightarrow> 'v env \<Rightarrow> 'v verbs \<Rightarrow> (i32 \<times> ibv_wc list) list \<Rightarrow> 'v comm_net \<Rightarrow> 'v comm_net res"
where
  "Finalize k E V handled s =
     rbind (run (poll_batch E) (cn_node s) handled) (\<lambda>nd. CommNet_TearDown k V (s\<lparr>cn_node := nd\<rparr>))"

text \<open>\<open>Global<T>\<close>: a pointer that is null until \<open>New\<close> or \<open>SetAllocated\<close>.\<close>

definition Global_New :: "'a res \<Rightarrow> 'a option \<Rightarrow> 'a option res" where
  "Global_New val p = check (p = None) (rbind val (\<lambda>x. Inr (Some x)))"

definition Global_SetAllocated :: "'a option \<Rightarrow> 'a option \<Rightarrow> 'a option" where
  "Global_SetAllocated val p = val"

definition Global_Delete :: "('a \<Rightarrow> 'b res) \<Rightarrow> 'a option \<Rightarrow> 'a option res" where
  "Global_Delete destroy p = (case p of None \<Rightarrow> Inr None | Some x \<Rightarrow> rbind (destroy x) (\<lambda>_. Inr None))"

record globals =
  g_desc :: "comm_net_config option"
  g_server :: "server option"
  g_client :: "ctrl_client option"
  g_ibverbs :: "net_kind option"
  g_epoll :: "net_kind option"
  g_comm_net :: "net_kind option"

text \<open>
  The constructor of the control server: gRPC binds the port (\<open>bind_port\<close>, 0 when it cannot);
  the new thread runs \<open>HandleRpcs\<close>.
\<close>

definition new_CtrlServer :: "(i32 \<Rightarrow> i32) \<Rightarrow> comm_net_config \<Rightarrow> server res" where
  "new_CtrlServer bind_port cfg = check (ctrl_port cfg = bind_port (ctrl_port cfg)) (Inr CtrlServer_init)"

text \<open>The destructor of the client: the flag that ends the heartbeat thread, which is joined.\<close>

definition delete_CtrlClient :: "ctrl_client \<Rightarrow> ctrl_client" where
  "delete_CtrlClient cl = cl\<lparr>need_heartbeat_thread_stop := True\<rparr>"

definition SetUpCommNet ::
  "(i32 \<Rightarrow> i32) \<Rightarrow> 'w rpc \<Rightarrow> comm_net_config \<Rightarrow> globals \<Rightarrow> 'w \<Rightarrow> ((net_kind option \<times> globals) \<times> 'w) res"
where
  "SetUpCommNet bind_port rpc cfg g w =
     rbind (Global_New (Inr cfg) (g_desc g)) (\<lambda>desc.
     rbind (Global_New (new_CtrlServer bind_port cfg) (g_server g)) (\<lambda>srv.
     rbind (check (g_client g = None) (CtrlClient_new rpc cfg w)) (\<lambda>(cl, w').
     let g1 = g\<lparr>g_desc := desc, g_server := srv, g_client := Some cl\<rparr> in
     rbind (if use_rdma cfg
            then rbind (Global_New (Inr net_IBVerbs) (g_ibverbs g1)) (\<lambda>net.
              Inr (g1\<lparr>g_ibverbs := net, g_comm_net := Global_SetAllocated net (g_comm_net g1)\<rparr>))
            else rbind (Global_New (Inr net_Epoll) (g_epoll g1)) (\<lambda>net.
              Inr (g1\<lparr>g_epoll := net, g_comm_net := Global_SetAllocated net (g_comm_net g1)\<rparr>))) (\<lambda>g2.
       Inr ((g_comm_net g2, g2), w')))))"

end
