(* ===== verification/SetupProps.thy ===== *)
theory SetupProps
  imports NodeReader NodeSetup
begin

text \<open>
  What \<open>SetUp\<close> leaves: on an allocator with enough room and a device that grants what it is
  asked for, it makes a fixed sequence of control calls and ends with a queue pair for every
  peer, whose registered buffers and message buffers do not overlap. Two machines that pulled
  what the other pushed are the two ends of a connection of ReadLink.thy.
\<close>

section \<open>The allocator and the device\<close>

text \<open>
  \<open>heap v\<close>: the addresses in use, and how many more bytes can be allocated.
\<close>

type_synonym 'v heap = "'v \<Rightarrow> u64 set \<times> nat"

definition heap_ok :: "'v env \<Rightarrow> 'v heap \<Rightarrow> bool" where
  "heap_ok E heap \<longleftrightarrow>
     (\<forall>v n. unat n \<le> snd (heap v) \<longrightarrow> (\<exists>p v'. e_malloc E v n = (p, v') \<and> p \<noteq> 0 \<and>
        span p (unat n) \<inter> fst (heap v) = {} \<and>
        heap v' = (fst (heap v) \<union> span p (unat n), snd (heap v) - unat n))) \<and>
     (\<forall>v a n. \<exists>m v'. e_reg_mr E v a n = (Some m, v') \<and> heap v' = heap v) \<and>
     (\<forall>v p wr. \<exists>v'. e_post_recv E v p wr = (0, v') \<and> heap v' = heap v)"

lemma heap_okD:
  assumes "heap_ok E heap"
  shows "unat n \<le> snd (heap v) \<Longrightarrow> \<exists>p v'. e_malloc E v n = (p, v') \<and> p \<noteq> 0 \<and>
      span p (unat n) \<inter> fst (heap v) = {} \<and> heap v' = (fst (heap v) \<union> span p (unat n), snd (heap v) - unat n)"
    and "\<forall>v a n. \<exists>m v'. e_reg_mr E v a n = (Some m, v') \<and> heap v' = heap v"
    and "\<exists>v'. e_post_recv E v p wr = (0, v') \<and> heap v' = heap v"
  using assms unfolding heap_ok_def by blast+

text \<open>The configurations: those of Config.thy, with elements whose length fits 32 bits.\<close>

definition setup_config :: "comm_net_config \<Rightarrow> bool" where
  "setup_config c \<longleftrightarrow> config_ok c \<and> sge_size c < 2 ^ 32 \<and> message_size_ok c \<and>
     0 < sint (RegisterBufferNum c) \<and> sint (RegisterBufferNum c) < 2 ^ 31"

abbreviation buffer_size :: "comm_net_config \<Rightarrow> nat" where
  "buffer_size c \<equiv> unat (buffer_bytes c)"

abbreviation buffer_count :: "comm_net_config \<Rightarrow> nat" where
  "buffer_count c \<equiv> nat (sint (RegisterBufferNum c))"

section \<open>A registered buffer\<close>

definition buffer_ok :: "comm_net_config \<Rightarrow> mem_desc \<Rightarrow> u64 \<Rightarrow> bool" where
  "buffer_ok c d base \<longleftrightarrow> buffer_desc c d base \<and> length (mr_vec d) = length (sge_vec d) \<and>
     (\<forall>sge \<in> set (sge_vec d). unat (sge_length sge) = sge_size c)"

lemma registered_buffer:
  assumes c: "setup_config c" and reg: "\<forall>v a n. \<exists>m v'. reg v a n = (Some m, v') \<and> f v' = f v"
  shows "\<exists>d v'. IBVerbsMemDesc c reg p (buffer_bytes c) v = Inr (d, v') \<and> buffer_ok c d p \<and> f v' = f v"
proof -
  have ok: "config_ok c" and small: "sge_size c < 2 ^ 32" using c by (simp_all add: setup_config_def)
  let ?k = "nat (sint (sge_num c))" and ?n = "buffer_size c"
  obtain s where s: "SgeBytes c = Inr s" "unat s = sge_size c"
    using ok SgeBytes_eq [of c] by (auto simp: config_ok_def)
  note sizes = config_ok_sizes [OF ok]
  have pos: "0 < s" "1 \<le> buffer_bytes c" using sizes s(2) by (simp_all add: word_less_nat_alt word_le_nat_alt)
  obtain d v' where d: "IBVerbsMemDesc c reg p (buffer_bytes c) v = Inr (d, v')"
    "map sge_addr (sge_vec d) = tile_addrs p ?n s" "map sge_length (sge_vec d) = tile_lengths ?n s"
    "length (mr_vec d) = length (sge_vec d)" "f v' = f v"
    using mem_desc_keeps [OF reg s(1) pos] by blast
  have k: "0 < ?k" using ok by (simp add: config_ok_def)
  then have quot: "?n div ?k = sge_size c" "?k dvd ?n" using sizes(2) by (metis nonzero_mult_div_cancel_left less_numeral_extra(3), metis dvd_triv_left)
  then have count: "block_count ?n (unat s) = ?k"
    using block_count_quotient [OF k, of ?n] sizes(1) s(2) by simp
  have "length (sge_vec d) = ?k" using arg_cong [OF d(2), of length] by (simp add: tile_addrs_def count)
  moreover have "adjacent d p s"
    unfolding adjacent_def
  proof (intro allI impI)
    fix i assume i: "i < length (sge_vec d)"
    then have "sge_addr (sge_vec d ! i) = tile_addrs p ?n s ! i" using d(2) by (metis nth_map)
    then show "sge_addr (sge_vec d ! i) = p + of_nat i * s"
      using i \<open>length (sge_vec d) = ?k\<close> by (simp add: tile_addrs_def count)
  qed
  moreover have "unat l = sge_size c" if "l \<in> set (tile_lengths ?n s)" for l
  proof -
    from that obtain i where i: "i < ?k" "l = of_nat (min (unat s) (?n - i * unat s))"
      by (auto simp: tile_lengths_def count)
    have "(i + 1) * sge_size c \<le> ?k * sge_size c" using i(1) by (intro mult_le_mono1) simp
    then have "sge_size c \<le> ?n - i * sge_size c" using sizes(2) by (simp add: algebra_simps)
    with i(2) s(2) small show ?thesis by (simp add: unat_of_nat take_bit_nat_eq_self)
  qed
  then have "\<forall>sge \<in> set (sge_vec d). unat (sge_length sge) = sge_size c"
    unfolding d(3) [symmetric] by simp
  ultimately show ?thesis using d(1,4,5) s(1) by (auto simp: buffer_ok_def buffer_desc_def)
qed

section \<open>The buffer pairs of a queue pair\<close>

definition region :: "nat \<Rightarrow> u64 list \<Rightarrow> u64 set" where
  "region n as = (\<Union>a \<in> set as. span a n)"

definition apart :: "nat \<Rightarrow> u64 list \<Rightarrow> bool" where
  "apart n as \<longleftrightarrow> sorted_wrt (\<lambda>a b. span a n \<inter> span b n = {}) as"

lemma region_simps [simp]: "region n [] = {}" "region n (a # as) = span a n \<union> region n as"
  by (simp_all add: region_def)

lemma apart_simps [simp]: "apart n []" "apart n (a # as) \<longleftrightarrow> span a n \<inter> region n as = {} \<and> apart n as"
  by (auto simp: apart_def region_def)

fun flat :: "('a \<times> 'a) list \<Rightarrow> 'a list" where
  "flat [] = []"
| "flat ((a, b) # xs) = a # b # flat xs"

definition pairs_ok :: "comm_net_config \<Rightarrow> (mem_desc \<times> mem_desc) list \<Rightarrow> (u64 \<times> u64) list \<Rightarrow> bool" where
  "pairs_ok c = list_all2 (\<lambda>d b. buffer_ok c (fst d) (fst b) \<and> buffer_ok c (snd d) (snd b))"

lemma new_buffers_ok:
  assumes c: "setup_config (e_cfg E)" and heap: "heap_ok E heap"
  shows "2 * k * buffer_size (e_cfg E) \<le> snd (heap v) \<Longrightarrow>
    \<exists>new bases v'. new_buffers E (buffer_bytes (e_cfg E)) k ds v = Inr (ds @ new, v') \<and>
      length bases = k \<and> pairs_ok (e_cfg E) new bases \<and> apart (buffer_size (e_cfg E)) (flat bases) \<and>
      region (buffer_size (e_cfg E)) (flat bases) \<inter> fst (heap v) = {} \<and>
      heap v' = (fst (heap v) \<union> region (buffer_size (e_cfg E)) (flat bases),
        snd (heap v) - 2 * k * buffer_size (e_cfg E))"
proof (induction k arbitrary: ds v)
  case 0
  show ?case by (intro exI [of _ "[]"] exI [of _ v]) (simp add: pairs_ok_def)
next
  case (Suc k)
  let ?c = "e_cfg E" and ?n = "buffer_size (e_cfg E)"
  have room: "?n \<le> snd (heap v)" "?n \<le> snd (heap v) - ?n" "2 * k * ?n \<le> snd (heap v) - ?n - ?n"
    using Suc.prems by (simp_all add: algebra_simps)
  note reg = registered_buffer [OF c heap_okD(2) [OF heap]]
  obtain a v1 where a: "e_malloc E v (buffer_bytes ?c) = (a, v1)" "span a ?n \<inter> fst (heap v) = {}"
    "heap v1 = (fst (heap v) \<union> span a ?n, snd (heap v) - ?n)"
    using heap_okD(1) [OF heap room(1)] by blast
  obtain sd v2 where sd: "IBVerbsMemDesc ?c (e_reg_mr E) a (buffer_bytes ?c) v1 = Inr (sd, v2)" "buffer_ok ?c sd a"
    "heap v2 = heap v1" using reg by blast
  have "?n \<le> snd (heap v2)" using room(2) sd(3) a(3) by simp
  from heap_okD(1) [OF heap this] obtain b v3 where b: "e_malloc E v2 (buffer_bytes ?c) = (b, v3)"
    "span b ?n \<inter> fst (heap v2) = {}" "heap v3 = (fst (heap v2) \<union> span b ?n, snd (heap v2) - ?n)" by blast
  obtain rd v4 where rd: "IBVerbsMemDesc ?c (e_reg_mr E) b (buffer_bytes ?c) v3 = Inr (rd, v4)" "buffer_ok ?c rd b"
    "heap v4 = heap v3" using reg by blast
  have h4: "heap v4 = (fst (heap v) \<union> span a ?n \<union> span b ?n, snd (heap v) - ?n - ?n)"
    using rd(3) b(3) sd(3) a(3) by simp
  then have "2 * k * ?n \<le> snd (heap v4)" using room(3) by simp
  from Suc.IH [OF this, of "ds @ [(sd, rd)]"] obtain new bases v' where
    IH: "new_buffers E (buffer_bytes ?c) k (ds @ [(sd, rd)]) v4 = Inr ((ds @ [(sd, rd)]) @ new, v')"
    "length bases = k" "pairs_ok ?c new bases" "apart ?n (flat bases)" "region ?n (flat bases) \<inter> fst (heap v4) = {}"
    "heap v' = (fst (heap v4) \<union> region ?n (flat bases), snd (heap v4) - 2 * k * ?n)" by blast
  have "new_buffers E (buffer_bytes ?c) (Suc k) ds v = Inr (ds @ (sd, rd) # new, v')"
    using a(1) sd(1) b(1) rd(1) IH(1) by simp
  moreover have "pairs_ok ?c ((sd, rd) # new) ((a, b) # bases)"
    using IH(3) sd(2) rd(2) by (simp add: pairs_ok_def)
  moreover have "apart ?n (flat ((a, b) # bases))" "region ?n (flat ((a, b) # bases)) \<inter> fst (heap v) = {}"
    using IH(4,5) a(2) b(2) sd(3) a(3) h4 by auto
  moreover have "heap v' = (fst (heap v) \<union> region ?n (flat ((a, b) # bases)), snd (heap v) - 2 * Suc k * ?n)"
    using IH(6) h4 by (auto simp: algebra_simps)
  ultimately show ?case using IH(2) by (intro exI [of _ "(sd, rd) # new"] exI [of _ "(a, b) # bases"] exI [of _ v']) simp
qed

section \<open>Steps that only allocate\<close>

abbreviation used :: "'v heap \<Rightarrow> 'v node \<Rightarrow> u64 set" where
  "used heap s \<equiv> fst (heap (n_ext s))"

abbreviation room :: "'v heap \<Rightarrow> 'v node \<Rightarrow> nat" where
  "room heap s \<equiv> snd (heap (n_ext s))"

abbreviation message_span :: "'v env \<Rightarrow> msg_mr \<Rightarrow> u64 set" where
  "message_span E mr \<equiv> span (mr_ptr mr) (unat (MaxMsgBytes (e_cfg E)))"

text \<open>The message buffers of a node lie in memory in use.\<close>

definition node_wf :: "'v env \<Rightarrow> 'v heap \<Rightarrow> 'v node \<Rightarrow> bool" where
  "node_wf E heap s \<longleftrightarrow> buffers_ok E (used heap s) s \<and> (\<forall>i mr. n_mrs s i = Some mr \<longrightarrow> i < next_mr s)"

text \<open>
  Later states: message buffers stay, new ones lie in memory that was not in use, and only such
  memory is written.
\<close>

definition extends :: "'v env \<Rightarrow> 'v heap \<Rightarrow> 'v node \<Rightarrow> 'v node \<Rightarrow> bool" where
  "extends E heap s s' \<longleftrightarrow> used heap s \<subseteq> used heap s' \<and>
     (\<forall>i mr. n_mrs s i = Some mr \<longrightarrow> n_mrs s' i = Some mr) \<and>
     (\<forall>i mr. n_mrs s' i = Some mr \<longrightarrow> n_mrs s i = Some mr \<or> message_span E mr \<inter> used heap s = {}) \<and>
     same_outside (used heap s' - used heap s) (n_mem s) (n_mem s')"

lemma extends_refl [simp]: "extends E heap s s"
  by (simp add: extends_def same_outside_def)

lemma extends_trans:
  assumes "extends E heap s s'" and "extends E heap s' s''"
  shows "extends E heap s s''"
proof -
  have "n_mrs s i = Some mr \<or> message_span E mr \<inter> used heap s = {}" if "n_mrs s'' i = Some mr" for i mr
  proof -
    have "n_mrs s' i = Some mr \<or> message_span E mr \<inter> used heap s' = {}"
      using assms(2) that by (simp add: extends_def)
    moreover have "used heap s \<subseteq> used heap s'" using assms(1) by (simp add: extends_def)
    moreover have "n_mrs s' i = Some mr \<Longrightarrow> n_mrs s i = Some mr \<or> message_span E mr \<inter> used heap s = {}"
      using assms(1) by (simp add: extends_def)
    ultimately show ?thesis by blast
  qed
  moreover have "used heap s \<subseteq> used heap s''" "\<And>i mr. n_mrs s i = Some mr \<Longrightarrow> n_mrs s'' i = Some mr"
    using assms unfolding extends_def by blast+
  moreover have "same_outside (used heap s'' - used heap s) (n_mem s) (n_mem s'')"
  proof (rule same_outside_trans)
    show "same_outside (used heap s'' - used heap s) (n_mem s) (n_mem s')"
      by (rule same_outside_mono [of "used heap s' - used heap s"]) (use assms in \<open>auto simp: extends_def\<close>)
    show "same_outside (used heap s'' - used heap s) (n_mem s') (n_mem s'')"
      by (rule same_outside_mono [of "used heap s'' - used heap s'"]) (use assms in \<open>auto simp: extends_def\<close>)
  qed
  ultimately show ?thesis unfolding extends_def by blast
qed

lemma extends_cong:
  "heap (n_ext s') = heap (n_ext s) \<Longrightarrow> n_mrs s' = n_mrs s \<Longrightarrow> n_mem s' = n_mem s \<Longrightarrow> extends E heap s s'"
  by (simp add: extends_def same_outside_def)

text \<open>Message buffers clear of an area that is in use stay so.\<close>

definition clear_of :: "'v env \<Rightarrow> 'v node \<Rightarrow> u64 set \<Rightarrow> bool" where
  "clear_of E s A \<longleftrightarrow> (\<forall>i mr. n_mrs s i = Some mr \<longrightarrow> message_span E mr \<inter> A = {})"

lemma clear_of_extends:
  assumes "clear_of E s A" and "A \<subseteq> used heap s" and "extends E heap s s'"
  shows "clear_of E s' A"
  unfolding clear_of_def
proof (intro allI impI)
  fix i mr assume "n_mrs s' i = Some mr"
  then have "n_mrs s i = Some mr \<or> message_span E mr \<inter> used heap s = {}"
    using assms(3) by (simp add: extends_def)
  with assms(1,2) show "message_span E mr \<inter> A = {}" unfolding clear_of_def by blast
qed

text \<open>The buffers of a list: they exist.\<close>

definition allocated :: "'v node \<Rightarrow> nat list \<Rightarrow> bool" where
  "allocated s is \<longleftrightarrow> (\<forall>i \<in> set is. n_mrs s i \<noteq> None)"

lemma allocated_extends: "allocated s is \<Longrightarrow> extends E heap s s' \<Longrightarrow> allocated s' is"
  by (fastforce simp: allocated_def extends_def)

lemma new_MsgMRs_ok:
  assumes c: "setup_config (e_cfg E)" and heap: "heap_ok E heap"
  shows "\<lbrakk>k * unat (MaxMsgBytes (e_cfg E)) \<le> room heap s; node_wf E heap s; allocated s bufs\<rbrakk> \<Longrightarrow>
    \<exists>bufs' s'. new_MsgMRs E k bufs s = Inr (bufs', s') \<and> extends E heap s s' \<and> node_wf E heap s' \<and>
      room heap s' = room heap s - k * unat (MaxMsgBytes (e_cfg E)) \<and> allocated s' bufs' \<and>
      length bufs' = length bufs + k \<and> qp_vec s' = qp_vec s \<and> n_wrs s' = n_wrs s \<and> next_wr s' = next_wr s"
proof (induction k arbitrary: bufs s)
  case 0
  then show ?case by simp
next
  case (Suc k)
  let ?n = "unat (MaxMsgBytes (e_cfg E))"
  have room: "?n \<le> room heap s" "k * ?n \<le> room heap s - ?n" using Suc.prems(1) by (simp_all add: algebra_simps)
  obtain p v1 where p: "e_malloc E (n_ext s) (MaxMsgBytes (e_cfg E)) = (p, v1)" "p \<noteq> 0"
    "span p ?n \<inter> used heap s = {}" "heap v1 = (used heap s \<union> span p ?n, room heap s - ?n)"
    using heap_okD(1) [OF heap room(1)] by blast
  have size: "message_size_ok (e_cfg E)" using c by (simp add: setup_config_def)
  obtain mr v where new: "new_MsgMR E s = Inr (next_mr s, s\<lparr>n_mem := store (n_mem s) p (replicate ?n 0),
      n_mrs := (n_mrs s)(next_mr s \<mapsto> mr), next_mr := Suc (next_mr s), n_ext := v\<rparr>)"
    "mr_ptr mr = p" "sge_vec (mr_desc mr) \<noteq> []" "heap v = heap v1"
    using new_MsgMR_alloc [OF p(1,2) heap_okD(2) [OF heap] size] by blast
  let ?s = "s\<lparr>n_mem := store (n_mem s) p (replicate ?n 0), n_mrs := (n_mrs s)(next_mr s \<mapsto> mr),
      next_mr := Suc (next_mr s), n_ext := v\<rparr>"
  have fresh: "n_mrs s (next_mr s) = None" using Suc.prems(2) by (cases "n_mrs s (next_mr s)") (auto simp: node_wf_def)
  have "same_outside (span p ?n - used heap s) (n_mem s) (store (n_mem s) p (replicate ?n 0))"
    using p(3) by (auto simp: same_outside_def intro!: store_outside)
  then have ext: "extends E heap s ?s"
    using fresh new(2,4) p(3,4) by (auto simp: extends_def Un_Diff Diff_triv)
  have wf: "node_wf E heap ?s"
    using Suc.prems(2) new(2-4) p(4) by (auto simp: node_wf_def buffers_ok_def less_Suc_eq)
  have "allocated ?s (bufs @ [next_mr s])"
    using allocated_extends [OF Suc.prems(3) ext] by (simp add: allocated_def)
  moreover have "k * ?n \<le> room heap ?s" using room(2) new(4) p(4) by simp
  ultimately obtain bufs' s' where
    "new_MsgMRs E k (bufs @ [next_mr s]) ?s = Inr (bufs', s')" "extends E heap ?s s'" "node_wf E heap s'"
    "room heap s' = room heap ?s - k * ?n" "allocated s' bufs'" "length bufs' = length (bufs @ [next_mr s]) + k"
    "qp_vec s' = qp_vec ?s" "n_wrs s' = n_wrs ?s" "next_wr s' = next_wr ?s"
    using Suc.IH [OF _ wf] by blast
  then show ?case using new(1,4) p(4) extends_trans [OF ext] by (intro exI [of _ bufs'] exI [of _ s']) simp
qed

section \<open>The constructor of a queue pair\<close>

text \<open>Every verbs call of the set-up succeeds and leaves the heap alone.\<close>

definition verbs_ok :: "'v verbs \<Rightarrow> 'v heap \<Rightarrow> device_attr \<Rightarrow> bool" where
  "verbs_ok V heap attr \<longleftrightarrow>
     (\<forall>v. \<exists>d ds v'. v_get_device_list V v = (Some (d # ds), v') \<and> heap v' = heap v) \<and>
     (\<forall>v d. \<exists>x v'. v_open_device V v d = (Some x, v') \<and> heap v' = heap v) \<and>
     (\<forall>v x. \<exists>pd v'. v_alloc_pd V v x = (Some pd, v') \<and> heap v' = heap v) \<and>
     (\<forall>v x. v_query_device V v x = (0, attr)) \<and>
     (\<forall>v x n. \<exists>cq v'. v_create_cq V v x n = (Some cq, v') \<and> heap v' = heap v) \<and>
     (\<forall>v x. fst (v_query_port V v x) = 0) \<and> (\<forall>v x. fst (v_query_gid V v x) = 0) \<and>
     (\<forall>v pd p i. \<exists>num v'. v_create_qp V v pd p i = (Some num, v') \<and> heap v' = heap v) \<and>
     (\<forall>v p a m. \<exists>v'. v_modify_qp V v p a m = (0, v') \<and> heap v' = heap v)"

lemma verbs_okD:
  assumes "verbs_ok V heap attr"
  shows "\<exists>d ds v'. v_get_device_list V v = (Some (d # ds), v') \<and> heap v' = heap v"
    and "\<exists>x v'. v_open_device V v d = (Some x, v') \<and> heap v' = heap v"
    and "\<exists>pd v'. v_alloc_pd V v x = (Some pd, v') \<and> heap v' = heap v"
    and "v_query_device V v x = (0, attr)"
    and "\<exists>cq v'. v_create_cq V v x n = (Some cq, v') \<and> heap v' = heap v"
    and "fst (v_query_port V v x) = 0" and "fst (v_query_gid V v x) = 0"
    and "\<exists>num v'. v_create_qp V v pd p i = (Some num, v') \<and> heap v' = heap v"
    and "\<exists>v'. v_modify_qp V v p a m = (0, v') \<and> heap v' = heap v"
  using assms by (simp_all add: verbs_ok_def)

text \<open>How many receive buffers a queue pair has, and the bytes it allocates.\<close>

definition recv_count :: "comm_net_config \<Rightarrow> device_attr \<Rightarrow> nat" where
  "recv_count c attr = min (sge_size c div 56 mod 2 ^ 32) (unat (max_qp_wr attr))"

definition qp_room :: "comm_net_config \<Rightarrow> device_attr \<Rightarrow> nat" where
  "qp_room c attr = recv_count c attr * unat (MaxMsgBytes c) + 2 * buffer_count c * buffer_size c"

text \<open>
  A queue pair as the constructor makes it: its buffer pairs lie apart from each other and
  from all message buffers.
\<close>

definition qp_built :: "'v env \<Rightarrow> 'v heap \<Rightarrow> 'v node \<Rightarrow> qp \<Rightarrow> (u64 \<times> u64) list \<Rightarrow> bool" where
  "qp_built E heap s q bases \<longleftrightarrow>
     pairs_ok (e_cfg E) (qp_mem_desc q) bases \<and> length bases = buffer_count (e_cfg E) \<and>
     apart (buffer_size (e_cfg E)) (flat bases) \<and>
     region (buffer_size (e_cfg E)) (flat bases) \<subseteq> used heap s \<and>
     clear_of E s (region (buffer_size (e_cfg E)) (flat bases)) \<and>
     allocated s (recv_msg_buf q) \<and> send_msg_buf q = [] \<and> read_queue q = [] \<and> read_done_cbs q = []"

lemma qp_built_extends:
  assumes "qp_built E heap s q bases" and "extends E heap s s'"
  shows "qp_built E heap s' q bases"
  using assms clear_of_extends allocated_extends [of s "recv_msg_buf q"]
  unfolding qp_built_def extends_def by blast

lemma new_IBVerbsQP_ok:
  assumes c: "setup_config (e_cfg E)" and heap: "heap_ok E heap" and V: "verbs_ok V heap attr"
    and s: "node_wf E heap s" "qp_room (e_cfg E) attr \<le> room heap s"
  shows "\<exists>q num s' bases. new_IBVerbsQP E V x pd cq1 cq2 this peer s = Inr ((q, num), s') \<and>
    extends E heap s s' \<and> node_wf E heap s' \<and> room heap s' = room heap s - qp_room (e_cfg E) attr \<and>
    qp_vec s' = qp_vec s \<and> this_machine_id q = this \<and> peer_machine_id q = peer \<and> helper q = None \<and>
    send_recv_mem_desc q = [] \<and> length (recv_msg_buf q) = recv_count (e_cfg E) attr \<and>
    qp_built E heap s' q bases"
proof -
  let ?c = "e_cfg E" and ?m = "unat (MaxMsgBytes (e_cfg E))" and ?n = "buffer_size (e_cfg E)"
  have ok: "config_ok ?c" "0 < sint (RegisterBufferNum ?c)" "sint (RegisterBufferNum ?c) < 2 ^ 31"
    using c by (simp_all add: setup_config_def)
  obtain z where z: "SgeBytes ?c = Inr z" "unat z = sge_size ?c"
    using ok(1) SgeBytes_eq [of ?c] by (auto simp: config_ok_def)
  let ?wr = "min (ucast (z div of_nat sizeof_Msg)) (ucast (max_qp_wr attr)) :: u32"
  have "unat (z div of_nat sizeof_Msg) = sge_size ?c div 56" by (simp add: unat_div z(2) sizeof_Msg_def)
  then have wr: "unat ?wr = recv_count ?c attr"
    by (simp add: recv_count_def unat_min_word unsigned_ucast_eq take_bit_eq_mod)
  let ?init = "\<lparr>init_send_cq = cq1, init_recv_cq = cq2, max_send_wr = ucast (max_qp_wr attr),
      max_recv_wr = ?wr, max_send_sge = 1, max_recv_sge = 1, max_inline_data = 0, sq_sig_all = True\<rparr>"
  obtain num v1 where num: "v_create_qp V (n_ext s) pd (unat peer) ?init = (Some num, v1)" "heap v1 = heap (n_ext s)"
    using verbs_okD(8) [OF V] by blast
  let ?s1 = "s\<lparr>n_ext := v1\<rparr>"
  have s1: "node_wf E heap ?s1" "recv_count ?c attr * ?m \<le> room heap ?s1" "allocated ?s1 []"
    using s num(2) by (simp_all add: node_wf_def buffers_ok_def qp_room_def allocated_def)
  obtain bufs s2 where s2: "new_MsgMRs E (recv_count ?c attr) [] ?s1 = Inr (bufs, s2)" "extends E heap ?s1 s2"
    "node_wf E heap s2" "room heap s2 = room heap ?s1 - recv_count ?c attr * ?m" "allocated s2 bufs"
    "length bufs = recv_count ?c attr" "qp_vec s2 = qp_vec s"
    using new_MsgMRs_ok [OF c heap s1(2,1,3)] by auto
  have "2 * buffer_count ?c * ?n \<le> snd (heap (n_ext s2))" using s2(4) s(2) num(2) by (simp add: qp_room_def)
  from new_buffers_ok [OF c heap this, of "[]"] obtain new bases v3 where
    new: "new_buffers E (buffer_bytes ?c) (buffer_count ?c) [] (n_ext s2) = Inr (new, v3)"
    "length bases = buffer_count ?c" "pairs_ok ?c new bases" "apart ?n (flat bases)"
    "region ?n (flat bases) \<inter> used heap s2 = {}"
    "heap v3 = (used heap s2 \<union> region ?n (flat bases), room heap s2 - 2 * buffer_count ?c * ?n)" by auto
  let ?s3 = "s2\<lparr>n_ext := v3\<rparr>"
  let ?q = "\<lparr>this_machine_id = this, peer_machine_id = peer, recv_msg_buf = bufs, send_msg_buf = [],
      helper = None, qp_mem_desc = new, send_recv_mem_desc = [], read_queue = [], read_done_cbs = []\<rparr>"
  have "extends E heap s ?s1" using num(2) by (intro extends_cong) simp_all
  moreover have e3: "extends E heap s2 ?s3"
    using new(6) by (auto simp: extends_def same_outside_def)
  ultimately have ext: "extends E heap s ?s3" using extends_trans s2(2) by blast
  have wf: "node_wf E heap ?s3" using s2(3) new(6) by (auto simp: node_wf_def buffers_ok_def)
  have "clear_of E ?s3 (region ?n (flat bases))"
    using s2(3) new(5) by (fastforce simp: clear_of_def node_wf_def buffers_ok_def)
  then have built: "qp_built E heap ?s3 ?q bases"
    using new(2-4,6) s2(5) by (simp add: qp_built_def allocated_def)
  have "new_IBVerbsQP E V x pd cq1 cq2 this peer s = Inr ((?q, num), ?s3)"
    using verbs_okD(4) [OF V] z(1) num(1) s2(1) new(1) ok(3)
    by (simp add: new_IBVerbsQP_def wr [simplified] check_ptr_def int_loop_def Let_def)
  moreover have "room heap ?s3 = room heap s - qp_room ?c attr"
    using new(6) s2(4) num(2) by (simp add: qp_room_def)
  ultimately show ?thesis using ext wf built s2(6,7)
    by (intro exI [of _ ?q] exI [of _ num] exI [of _ ?s3] exI [of _ bases]) simp
qed

section \<open>Receives, connections and queue pairs by peer\<close>

lemma get_put_other: "p \<noteq> p' \<Longrightarrow> get_qp p (put_qp p' q s) = get_qp p s"
  by (simp add: get_qp_def put_qp_def)

text \<open>Steps that touch only work requests and the device.\<close>

definition posts_receives :: "'v heap \<Rightarrow> nat \<Rightarrow> nat list \<Rightarrow> 'v node \<Rightarrow> 'v node \<Rightarrow> bool" where
  "posts_receives heap p is s s' \<longleftrightarrow>
     (\<exists>wrs k v. s' = s\<lparr>n_wrs := wrs, next_wr := k, n_ext := v\<rparr>) \<and> heap (n_ext s') = heap (n_ext s) \<and>
     next_wr s \<le> next_wr s' \<and> (\<forall>w < next_wr s. n_wrs s' w = n_wrs s w) \<and>
     (\<forall>i \<in> set is. \<exists>w < next_wr s'. n_wrs s' w = Some \<lparr>wrid_qp = p, outstanding_sge_cnt = 0, wrid_msg_mr = Some i\<rparr>)"

lemma posts_receives_frame:
  assumes "posts_receives heap p is s s'"
  shows "extends E heap s s'" and "qp_vec s' = qp_vec s" and "n_mrs s' = n_mrs s" and "n_mem s' = n_mem s"
    and "next_mr s' = next_mr s" and "heap (n_ext s') = heap (n_ext s)"
  using assms by (auto simp: posts_receives_def intro!: extends_cong)

lemma run_PostRecvRequest:
  assumes heap: "heap_ok E heap"
  shows "\<forall>i \<in> set is. \<exists>mr. n_mrs s i = Some mr \<and> sge_vec (mr_desc mr) \<noteq> [] \<Longrightarrow>
    \<exists>s'. run (\<lambda>s' i. PostRecvRequest E p i s') s is = Inr s' \<and> posts_receives heap p is s s'"
proof (induction "is" arbitrary: s)
  case Nil
  have "\<exists>wrs k v. s = s\<lparr>n_wrs := wrs, next_wr := k, n_ext := v\<rparr>"
    by (rule exI [of _ "n_wrs s"], rule exI [of _ "next_wr s"], rule exI [of _ "n_ext s"]) simp
  then show ?case unfolding posts_receives_def by (intro exI [of _ s]) auto
next
  case (Cons i "is")
  obtain mr where mr: "n_mrs s i = Some mr" "sge_vec (mr_desc mr) \<noteq> []" using Cons.prems by auto
  let ?wr = "\<lparr>wrid_qp = p, outstanding_sge_cnt = 0, wrid_msg_mr = Some i\<rparr>"
  obtain v where v: "e_post_recv E (n_ext s) p \<lparr>rw_wr_id = next_wr s, rw_sge = sge_vec (mr_desc mr) ! 0\<rparr> = (0, v)"
    "heap v = heap (n_ext s)" using heap_okD(3) [OF heap] by blast
  let ?s = "s\<lparr>n_wrs := (n_wrs s)(next_wr s \<mapsto> ?wr), next_wr := Suc (next_wr s), n_ext := v\<rparr>"
  have one: "PostRecvRequest E p i s = Inr ?s"
    using mr v(1) by (simp add: PostRecvRequest_def NewWorkRequestId_def put_wr_def get_mr_def vec_at_def)
  have "\<forall>j \<in> set is. \<exists>mr. n_mrs ?s j = Some mr \<and> sge_vec (mr_desc mr) \<noteq> []" using Cons.prems by simp
  from Cons.IH [OF this] obtain s' where
    s': "run (\<lambda>s' i. PostRecvRequest E p i s') ?s is = Inr s'" "posts_receives heap p is ?s s'" by blast
  have "n_wrs s' (next_wr s) = Some ?wr" "next_wr s < next_wr s'"
    using s'(2) by (auto simp: posts_receives_def)
  moreover have "\<exists>wrs k v. s' = s\<lparr>n_wrs := wrs, next_wr := k, n_ext := v\<rparr>"
    using s'(2) by (auto simp: posts_receives_def)
  ultimately have "posts_receives heap p (i # is) s s'"
    using s'(2) v(2) unfolding posts_receives_def by auto
  with one s'(1) show ?case by simp
qed

lemma PostAllRecvRequest_ok:
  assumes "heap_ok E heap" and "get_qp p s = Inr q" and "allocated s (recv_msg_buf q)" and "node_wf E heap s"
  shows "\<exists>s'. PostAllRecvRequest E p s = Inr s' \<and> posts_receives heap p (recv_msg_buf q) s s'"
proof -
  have "\<forall>i \<in> set (recv_msg_buf q). \<exists>mr. n_mrs s i = Some mr \<and> sge_vec (mr_desc mr) \<noteq> []"
    using assms(3,4) by (fastforce simp: allocated_def node_wf_def buffers_ok_def)
  from run_PostRecvRequest [OF assms(1) this] assms(2) show ?thesis by (simp add: PostAllRecvRequest_def)
qed

lemma Connect_ok:
  assumes "verbs_ok V heap attr"
  shows "\<exists>v. Connect V x p info s = Inr (s\<lparr>n_ext := v\<rparr>) \<and> heap v = heap (n_ext s)"
proof -
  obtain port where port: "v_query_port V (n_ext s) x = (0, port)"
    using verbs_okD(6) [OF assms] by (metis prod.collapse)
  obtain v1 where v1: "v_modify_qp V (n_ext s) p qp_attr_INIT
      [IBV_QP_STATE, IBV_QP_PKEY_INDEX, IBV_QP_PORT, IBV_QP_ACCESS_FLAGS] = (0, v1)" "heap v1 = heap (n_ext s)"
    using verbs_okD(9) [OF assms] by blast
  obtain v2 where v2: "v_modify_qp V v1 p (qp_attr_RTR info port)
      [IBV_QP_STATE, IBV_QP_AV, IBV_QP_PATH_MTU, IBV_QP_DEST_QPN, IBV_QP_RQ_PSN,
       IBV_QP_MAX_DEST_RD_ATOMIC, IBV_QP_MIN_RNR_TIMER] = (0, v2)" "heap v2 = heap v1"
    using verbs_okD(9) [OF assms] by blast
  obtain v3 where v3: "v_modify_qp V v2 p qp_attr_RTS
      [IBV_QP_STATE, IBV_QP_SQ_PSN, IBV_QP_MAX_QP_RD_ATOMIC, IBV_QP_RETRY_CNT, IBV_QP_RNR_RETRY,
       IBV_QP_TIMEOUT] = (0, v3)" "heap v3 = heap v2"
    using verbs_okD(9) [OF assms] by blast
  show ?thesis using port v1 v2 v3
    by (intro exI [of _ v3]) (simp add: Connect_def check_rc_def)
qed

text \<open>
  The queue pair of a peer: created (stage 0), connected (1), with its helper (2). \<open>val_in\<close> is
  what the peer has pushed.
\<close>

definition peer_qp ::
  "'v env \<Rightarrow> 'v heap \<Rightarrow> protos \<Rightarrow> i64 \<Rightarrow> (i64 \<Rightarrow> byte list) \<Rightarrow> nat \<Rightarrow> 'v node \<Rightarrow> i64 \<Rightarrow> qp \<Rightarrow> bool"
where
  "peer_qp E heap P this val_in stage s peer q \<longleftrightarrow>
     get_qp (unat peer) s = Inr q \<and> this_machine_id q = this \<and> peer_machine_id q = peer \<and>
     (\<exists>bases. qp_built E heap s q bases) \<and>
     send_recv_mem_desc q = (if stage = 0 then [] else zip (map fst (qp_mem_desc q))
       (take (buffer_count (e_cfg E)) (parse_tokens P (val_in peer)))) \<and>
     (if stage < 2 then helper q = None else \<exists>h jb jr. helper q = Some h \<and>
       new_write_helper (e_cfg E) (send_recv_mem_desc q) jb jr = Inr h)"

lemma peer_qp_extends:
  "peer_qp E heap P this val_in stage s peer q \<Longrightarrow> extends E heap s s' \<Longrightarrow>
   get_qp (unat peer) s' = get_qp (unat peer) s \<Longrightarrow> peer_qp E heap P this val_in stage s' peer q"
  using qp_built_extends unfolding peer_qp_def by metis

text \<open>The tokens a queue pair pushes.\<close>

definition tokens_of :: "qp \<Rightarrow> mem_desc_proto list" where
  "tokens_of q = map (\<lambda>d. ToProto (snd d)) (qp_mem_desc q)"

text \<open>All queue pairs: those of the peers in \<open>A\<close> one stage further than the others.\<close>

definition net_stage ::
  "'v env \<Rightarrow> 'v heap \<Rightarrow> protos \<Rightarrow> (i64 \<Rightarrow> byte list) \<Rightarrow> nat \<Rightarrow> (i64 \<Rightarrow> mem_desc_proto list) \<Rightarrow> i64 list \<Rightarrow>
   i64 set \<Rightarrow> 'v comm_net \<Rightarrow> bool"
where
  "net_stage E heap P val_in stage tok peers A s \<longleftrightarrow>
     cn_peers s = peers \<and> length (qp_vec (cn_node s)) = Suc (length peers) \<and> node_wf E heap (cn_node s) \<and>
     (\<forall>peer \<in> set peers. \<exists>q. tokens_of q = tok peer \<and>
        peer_qp E heap P (cn_this s) val_in (if peer \<in> A then Suc stage else stage) (cn_node s) peer q)"

text \<open>A step of one peer's queue pair, beside work requests and the device.\<close>

lemma net_stage_step:
  assumes s: "net_stage E heap P val_in stage tok peers A s" and peer: "peer \<in> set peers" "peer \<notin> A"
    and nd: "extends E heap (cn_node s) nd" "node_wf E heap nd"
      "qp_vec nd = (qp_vec (cn_node s))[unat peer := Some q']"
    and q': "\<And>q. tokens_of q = tok peer \<Longrightarrow> peer_qp E heap P (cn_this s) val_in stage (cn_node s) peer q \<Longrightarrow>
      tokens_of q' = tok peer \<and> peer_qp E heap P (cn_this s) val_in (Suc stage) nd peer q'"
  shows "net_stage E heap P val_in stage tok peers (insert peer A) (s\<lparr>cn_node := nd\<rparr>)"
  unfolding net_stage_def
proof (intro conjI ballI)
  fix p assume p: "p \<in> set peers"
  obtain q where q: "tokens_of q = tok p" "peer_qp E heap P (cn_this s) val_in
      (if p \<in> A then Suc stage else stage) (cn_node s) p q"
    using s p unfolding net_stage_def by blast
  show "\<exists>q. tokens_of q = tok p \<and> peer_qp E heap P (cn_this (s\<lparr>cn_node := nd\<rparr>)) val_in
      (if p \<in> insert peer A then Suc stage else stage) (cn_node (s\<lparr>cn_node := nd\<rparr>)) p q"
  proof (cases "p = peer")
    case True
    with q q' [of q] peer(2) show ?thesis by auto
  next
    case False
    then have "unat p \<noteq> unat peer" by (simp add: word_unat_eq_iff)
    then have "get_qp (unat p) nd = get_qp (unat p) (cn_node s)"
      by (simp add: get_qp_def nd(3))
    from peer_qp_extends [OF q(2) nd(1) this] q(1) False show ?thesis by auto
  qed
qed (use s nd in \<open>auto simp: net_stage_def\<close>)

section \<open>The loops over the peers\<close>

definition pull_trace ::
  "i64 \<Rightarrow> (i64 \<Rightarrow> byte list) \<Rightarrow> (i64 \<Rightarrow> byte list) \<Rightarrow> i64 \<Rightarrow> (ctrl_request \<times> ctrl_response) list"
where
  "pull_trace this conn_in val_in peer =
     [(PullKVRequest (GenConnInfoKey peer this), PullKVResponse (conn_in peer)),
      (PullKVRequest (GenTokensMsgKey peer this), PullKVResponse (val_in peer))]"

definition clear_trace :: "i64 \<Rightarrow> i64 \<Rightarrow> (ctrl_request \<times> ctrl_response) list" where
  "clear_trace this peer =
     [(ClearKVRequest (GenConnInfoKey this peer), ClearKVResponse),
      (ClearKVRequest (GenTokensMsgKey this peer), ClearKVResponse)]"

lemma performs_Ret_pbind [simp]: "performs tr (pbind (Ret (Inr x)) f) r \<longleftrightarrow> performs tr (f x) r"
  by simp

lemma pairs_ok_length: "pairs_ok c ds bases \<Longrightarrow> length ds = length bases"
  by (auto simp: pairs_ok_def dest: list_all2_lengthD)

lemma qp_built_length: "qp_built E heap s q bases \<Longrightarrow> length (qp_mem_desc q) = buffer_count (e_cfg E)"
  by (auto simp: qp_built_def dest: pairs_ok_length)

lemma qp_built_update:
  "qp_built E heap s q bases \<Longrightarrow> qp_built E heap s (q\<lparr>send_recv_mem_desc := x\<rparr>) bases"
  "qp_built E heap s q bases \<Longrightarrow> qp_built E heap s (q\<lparr>helper := h\<rparr>) bases"
  by (simp_all add: qp_built_def)

lemma setup_config_count:
  "setup_config c \<Longrightarrow> int_loop (RegisterBufferNum c) body = body (buffer_count c)"
  by (simp add: setup_config_def int_loop_def)

text \<open>What the two later loops leave alone beside the queue pairs.\<close>

definition same_net :: "'v heap \<Rightarrow> 'v comm_net \<Rightarrow> 'v comm_net \<Rightarrow> bool" where
  "same_net heap s s' \<longleftrightarrow> (\<exists>nd. s' = s\<lparr>cn_node := nd\<rparr>) \<and> room heap (cn_node s') = room heap (cn_node s)"

lemma same_net_refl: "same_net heap s s"
  unfolding same_net_def by (intro conjI exI [of _ "cn_node s"]) simp_all

lemma same_net_trans:
  assumes "same_net heap s s'" and "same_net heap s' s''"
  shows "same_net heap s s''"
proof -
  obtain nd nd' where "s' = s\<lparr>cn_node := nd\<rparr>" "s'' = s'\<lparr>cn_node := nd'\<rparr>"
    using assms unfolding same_net_def by blast
  then have "s'' = s\<lparr>cn_node := nd'\<rparr>" by simp
  moreover have "room heap (cn_node s'') = room heap (cn_node s)" using assms unfolding same_net_def by simp
  ultimately show ?thesis unfolding same_net_def by blast
qed

lemma net_stageE:
  assumes "net_stage E heap P val_in stage tok peers A s" and "peer \<in> set peers" and "peer \<notin> A"
  obtains q bases where "tokens_of q = tok peer" and "peer_qp E heap P (cn_this s) val_in stage (cn_node s) peer q"
    and "get_qp (unat peer) (cn_node s) = Inr q" and "this_machine_id q = cn_this s" and "peer_machine_id q = peer"
    and "qp_built E heap (cn_node s) q bases" and "node_wf E heap (cn_node s)"
proof -
  from assms(1,2) obtain q where "tokens_of q = tok peer"
    "peer_qp E heap P (cn_this s) val_in (if peer \<in> A then Suc stage else stage) (cn_node s) peer q"
    "node_wf E heap (cn_node s)" unfolding net_stage_def by blast
  moreover from this(2) assms(3) have q: "peer_qp E heap P (cn_this s) val_in stage (cn_node s) peer q" by simp
  moreover from q obtain bases where "qp_built E heap (cn_node s) q bases" unfolding peer_qp_def by blast
  moreover from q have "get_qp (unat peer) (cn_node s) = Inr q" "this_machine_id q = cn_this s" "peer_machine_id q = peer"
    unfolding peer_qp_def by blast+
  ultimately show thesis using that by blast
qed

lemma connect_qp_ok:
  assumes c: "setup_config (e_cfg E)" and V: "verbs_ok V heap attr"
    and s: "net_stage E heap P val_in 0 tok peers A s" and peer: "peer \<in> set peers" "peer \<notin> A"
    and len: "buffer_count (e_cfg E) \<le> length (parse_tokens P (val_in peer))"
  shows "\<exists>s'. performs (pull_trace (cn_this s) conn_in val_in peer) (connect_qp E V P s peer) (Inr s') \<and>
    net_stage E heap P val_in 0 tok peers (insert peer A) s' \<and> same_net heap s s'"
proof -
  let ?p = "unat peer" and ?n = "buffer_count (e_cfg E)" and ?toks = "parse_tokens P (val_in peer)"
  obtain q bases where q: "tokens_of q = tok peer" "peer_qp E heap P (cn_this s) val_in 0 (cn_node s) peer q"
    "get_qp ?p (cn_node s) = Inr q" "this_machine_id q = cn_this s" "peer_machine_id q = peer"
    "qp_built E heap (cn_node s) q bases" "node_wf E heap (cn_node s)"
    using net_stageE [OF s peer] by blast
  let ?q = "q\<lparr>send_recv_mem_desc := zip (map fst (qp_mem_desc q)) (take ?n ?toks)\<rparr>"
  let ?nd = "put_qp ?p ?q (cn_node s)"
  obtain v where v: "Connect V (cn_context s) ?p (parse_conn P (conn_in peer)) ?nd = Inr (?nd\<lparr>n_ext := v\<rparr>)"
    "heap v = heap (n_ext ?nd)" using Connect_ok [OF V] by blast
  let ?s' = "s\<lparr>cn_node := ?nd\<lparr>n_ext := v\<rparr>\<rparr>"
  have srm: "send_recv_mem_desc q = []" using q(2) by (simp add: peer_qp_def)
  have lens: "length (qp_mem_desc q) = ?n" by (rule qp_built_length [OF q(6)])
  have p: "?p < length (qp_vec (cn_node s))" using q(3) by (simp add: get_qp_Inr)
  have pull: "performs [(PullKVRequest (GenTokensMsgKey peer (cn_this s)), PullKVResponse (val_in peer))]
      (PullRegisterMemoryKey E P ?p (cn_node s)) (Inr ?nd)"
    using q(3-5) srm lens len
    by (simp add: PullRegisterMemoryKey_def pull_kv_def setup_config_count [OF c] not_less)
  have "performs (pull_trace (cn_this s) conn_in val_in peer) (connect_qp E V P s peer) (Inr ?s')"
  proof -
    have "performs ([(PullKVRequest (GenTokensMsgKey peer (cn_this s)), PullKVResponse (val_in peer))] @ [])
        (pbind (PullRegisterMemoryKey E P ?p (cn_node s)) (\<lambda>nd.
          Ret (rbind (Connect V (cn_context s) ?p (parse_conn P (conn_in peer)) nd) (\<lambda>nd'. Inr (s\<lparr>cn_node := nd'\<rparr>)))))
        (Inr ?s')"
      by (rule performs_pbind [OF pull]) (simp add: v(1))
    then show ?thesis using p by (simp add: pull_trace_def connect_qp_def pull_kv_def vec_at_def)
  qed
  moreover have "net_stage E heap P val_in 0 tok peers (insert peer A) ?s'"
  proof (rule net_stage_step [OF s peer, where q' = ?q])
    show ext: "extends E heap (cn_node s) (?nd\<lparr>n_ext := v\<rparr>)"
      using v(2) by (intro extends_cong) (simp_all add: put_qp_def)
    show "node_wf E heap (?nd\<lparr>n_ext := v\<rparr>)"
      using q(7) v(2) by (simp add: node_wf_def buffers_ok_def put_qp_def)
    have "qp_built E heap (?nd\<lparr>n_ext := v\<rparr>) ?q bases"
      by (rule qp_built_extends [OF qp_built_update(1) [OF q(6)] ext])
    moreover have "get_qp ?p (?nd\<lparr>n_ext := v\<rparr>) = Inr ?q" using p by (simp add: get_qp_def put_qp_def)
    ultimately show "tokens_of ?q = tok peer \<and> peer_qp E heap P (cn_this s) val_in (Suc 0) (?nd\<lparr>n_ext := v\<rparr>) peer ?q"
      using q(1,2,4,5) by (auto simp: peer_qp_def tokens_of_def)
  qed (simp add: put_qp_def)
  moreover have "same_net heap s ?s'" using v(2) by (auto simp: same_net_def put_qp_def)
  ultimately show ?thesis by blast
qed

lemma start_qp_ok:
  assumes c: "setup_config (e_cfg E)" and heap: "heap_ok E heap"
    and s: "net_stage E heap P val_in 1 tok peers A s" and peer: "peer \<in> set peers" "peer \<notin> A"
  shows "\<exists>s'. performs (clear_trace (cn_this s) peer) (start_qp E jb jr s peer) (Inr s') \<and>
    net_stage E heap P val_in 1 tok peers (insert peer A) s' \<and> same_net heap s s'"
proof -
  let ?p = "unat peer" and ?c = "e_cfg E"
  obtain q bases where q: "tokens_of q = tok peer" "peer_qp E heap P (cn_this s) val_in 1 (cn_node s) peer q"
    "get_qp ?p (cn_node s) = Inr q" "this_machine_id q = cn_this s" "peer_machine_id q = peer"
    "qp_built E heap (cn_node s) q bases" "node_wf E heap (cn_node s)"
    using net_stageE [OF s peer] by blast
  have "allocated (cn_node s) (recv_msg_buf q)" using q(6) by (simp add: qp_built_def)
  from PostAllRecvRequest_ok [OF heap q(3) this q(7)] obtain nd where
    nd: "PostAllRecvRequest E ?p (cn_node s) = Inr nd" "posts_receives heap ?p (recv_msg_buf q) (cn_node s) nd" by blast
  note fr = posts_receives_frame [OF nd(2)]
  obtain h where h: "new_write_helper ?c (send_recv_mem_desc q) jb jr = Inr h"
    using c by (auto simp: new_write_helper_def setup_config_def)
  let ?q = "q\<lparr>helper := Some h\<rparr>" and ?s' = "s\<lparr>cn_node := put_qp ?p (q\<lparr>helper := Some h\<rparr>) nd\<rparr>"
  have qnd: "get_qp ?p nd = Inr q" using q(3) get_qp_cong [OF fr(2)] by simp
  have p: "?p < length (qp_vec (cn_node s))" using q(3) by (simp add: get_qp_Inr)
  have "performs (clear_trace (cn_this s) peer) (start_qp E jb jr s peer) (Inr ?s')"
    using p nd(1) qnd q(4,5) h
    by (simp add: clear_trace_def start_qp_def clear_kv_def vec_at_def ClearKeyAndCreateHelper_def)
  moreover have "net_stage E heap P val_in 1 tok peers (insert peer A) ?s'"
  proof (rule net_stage_step [OF s peer, where q' = ?q])
    show ext: "extends E heap (cn_node s) (put_qp ?p ?q nd)"
      using extends_trans [OF fr(1), of E "put_qp ?p ?q nd"] by (simp add: extends_cong put_qp_def)
    show "node_wf E heap (put_qp ?p ?q nd)"
      using q(7) fr(3,5,6) by (simp add: node_wf_def buffers_ok_def put_qp_def)
    show "qp_vec (put_qp ?p ?q nd) = (qp_vec (cn_node s))[?p := Some ?q]" using fr(2) by (simp add: put_qp_def)
    have "qp_built E heap (put_qp ?p ?q nd) ?q bases"
      by (rule qp_built_extends [OF qp_built_update(2) [OF q(6)] ext])
    then show "tokens_of ?q = tok peer \<and> peer_qp E heap P (cn_this s) val_in (Suc 1) (put_qp ?p ?q nd) peer ?q"
      using q(1,2,4,5) p fr(2) h by (auto simp: peer_qp_def tokens_of_def)
  qed
  moreover have "same_net heap s ?s'" using fr(6) by (auto simp: same_net_def put_qp_def)
  ultimately show ?thesis by blast
qed

text \<open>A whole loop takes all queue pairs one stage further.\<close>

lemma stage_loop:
  assumes "distinct peers" and s: "net_stage E heap P val_in stage tok peers {} s"
    and step: "\<And>peer A s. net_stage E heap P val_in stage tok peers A s \<Longrightarrow> cn_this s = this \<Longrightarrow>
      peer \<in> set peers \<Longrightarrow> peer \<notin> A \<Longrightarrow> \<exists>s'. performs (tr peer) (f s peer) (Inr s') \<and>
        net_stage E heap P val_in stage tok peers (insert peer A) s' \<and> same_net heap s s'"
    and ids: "cn_this s = this"
  shows "\<exists>s'. performs (concat (map tr peers)) (pfor f s peers) (Inr s') \<and>
    net_stage E heap P val_in (Suc stage) tok peers {} s' \<and> same_net heap s s'"
proof -
  let ?I = "\<lambda>ys t. net_stage E heap P val_in stage tok peers (set ys) t \<and> same_net heap s t"
  have "\<exists>s'. performs (concat (map tr peers)) (pfor f s peers) (Inr s') \<and> ?I peers s'"
  proof (rule performs_pfor [where I = ?I])
    show "?I [] s" using s same_net_refl by simp
    fix ys x zs t
    assume xs: "peers = ys @ x # zs" and I: "?I ys t"
    then have "x \<in> set peers" "x \<notin> set ys" using assms(1) by auto
    moreover have "cn_this t = this" using I ids by (auto simp: same_net_def)
    ultimately obtain s' where "performs (tr x) (f t x) (Inr s')"
      "net_stage E heap P val_in stage tok peers (insert x (set ys)) s'" "same_net heap t s'"
      using step I by blast
    with I show "\<exists>s'. performs (tr x) (f t x) (Inr s') \<and> ?I (ys @ [x]) s'"
      using same_net_trans [of heap s t s'] by auto
  qed
  then obtain s' where "performs (concat (map tr peers)) (pfor f s peers) (Inr s')"
    "net_stage E heap P val_in stage tok peers (set peers) s'" "same_net heap s s'" by blast
  moreover from this(2) have "net_stage E heap P val_in (Suc stage) tok peers {} s'"
    by (simp add: net_stage_def)
  ultimately show ?thesis by blast
qed

section \<open>The whole set-up\<close>

type_synonym peer_out = "i64 \<times> byte list \<times> mem_desc_proto list"

definition push_trace :: "protos \<Rightarrow> i64 \<Rightarrow> peer_out \<Rightarrow> (ctrl_request \<times> ctrl_response) list" where
  "push_trace P this = (\<lambda>(peer, conn, tok).
     [(PushKVRequest (GenConnInfoKey this peer) conn, PushKVResponse),
      (PushKVRequest (GenTokensMsgKey this peer) (ser_tokens P tok), PushKVResponse)])"

definition barrier_trace :: "comm_net_config \<Rightarrow> string \<Rightarrow> (ctrl_request \<times> ctrl_response) list" where
  "barrier_trace cfg nm = [(BarrierRequest nm (ucast (TotalMachineNum cfg)), BarrierResponse)]"

text \<open>The calls of \<open>SetUp\<close>: what it pushes is \<open>os\<close>, what it pulls \<open>conn_in\<close> and \<open>val_in\<close>.\<close>

definition setup_trace ::
  "comm_net_config \<Rightarrow> protos \<Rightarrow> string \<Rightarrow> i64 \<Rightarrow> peer_out list \<Rightarrow> (i64 \<Rightarrow> byte list) \<Rightarrow> (i64 \<Rightarrow> byte list) \<Rightarrow>
   (ctrl_request \<times> ctrl_response) list"
where
  "setup_trace cfg P file this os conn_in val_in =
     concat (map (push_trace P this) os) @ concat (map (pull_trace this conn_in val_in) (map fst os)) @
     barrier_trace cfg (file_line file 62) @ concat (map (clear_trace this) (map fst os)) @
     barrier_trace cfg (file_line file 68)"

lemma create_qp_ok:
  assumes c: "setup_config (e_cfg E)" and heap: "heap_ok E heap" and V: "verbs_ok V heap attr"
    and s: "node_wf E heap (cn_node s)" "qp_room (e_cfg E) attr \<le> room heap (cn_node s)"
    and p: "unat peer < length (qp_vec (cn_node s))"
    and cq: "unat cq_idx < length (cq_vec s)" "poller_num (e_cfg E) = of_nat (length (cq_vec s))"
      "length (cq_vec s) < 2 ^ 31"
  shows "\<exists>nd cq_idx' conn tok q. performs (push_trace P (cn_this s) (peer, conn, tok))
      (create_qp E V P port_attr gid (s, cq_idx) peer) (Inr (s\<lparr>cn_node := nd\<rparr>, cq_idx')) \<and>
    unat cq_idx' < length (cq_vec s) \<and> extends E heap (cn_node s) nd \<and> node_wf E heap nd \<and>
    room heap nd = room heap (cn_node s) - qp_room (e_cfg E) attr \<and>
    qp_vec nd = (qp_vec (cn_node s))[unat peer := Some q] \<and> tokens_of q = tok \<and>
    peer_qp E heap P (cn_this s) val_in 0 nd peer q"
proof -
  let ?c = "e_cfg E" and ?p = "unat peer" and ?cq = "cq_vec s ! unat cq_idx"
  obtain q num nd bases where new: "new_IBVerbsQP E V (cn_context s) (cn_pd s) ?cq ?cq (cn_this s) peer (cn_node s) =
      Inr ((q, num), nd)" "extends E heap (cn_node s) nd" "node_wf E heap nd"
    "room heap nd = room heap (cn_node s) - qp_room ?c attr" "qp_vec nd = qp_vec (cn_node s)"
    "this_machine_id q = cn_this s" "peer_machine_id q = peer" "helper q = None" "send_recv_mem_desc q = []"
    "qp_built E heap nd q bases"
    using new_IBVerbsQP_ok [OF c heap V s] by blast
  let ?nd = "put_qp ?p q nd"
  let ?conn = "ser_conn P \<lparr>ci_lid = ucast (port_lid port_attr), ci_qp_num = num,
      ci_subnet_prefix = gid_subnet_prefix gid, ci_interface_id = gid_interface_id gid\<rparr>"
  have num: "unat (poller_num ?c) = length (cq_vec s)" using cq by (simp add: unat_of_nat_u64)
  then have nz: "poller_num ?c \<noteq> 0" using cq(1) by auto
  have len: "length (qp_mem_desc q) = buffer_count ?c" by (rule qp_built_length [OF new(10)])
  have pnd: "?p < length (qp_vec nd)" using p new(5) by simp
  have "performs (push_trace P (cn_this s) (peer, ?conn, tokens_of q))
      (create_qp E V P port_attr gid (s, cq_idx) peer) (Inr (s\<lparr>cn_node := ?nd\<rparr>, (cq_idx + 1) mod poller_num ?c))"
    using cq(1) nz new(1,6,7) pnd len
    by (simp add: push_trace_def create_qp_def push_kv_def vec_index_def vec_at_def PushRegisterMemoryKey_def
        setup_config_count [OF c] tokens_of_def Let_def)
  moreover have "unat ((cq_idx + 1) mod poller_num ?c) < length (cq_vec s)"
    unfolding unat_mod num by (rule mod_less_divisor) (rule le_less_trans [OF le0 cq(1)])
  moreover have same: "n_mrs ?nd = n_mrs nd" "n_ext ?nd = n_ext nd" "n_mem ?nd = n_mem nd" "next_mr ?nd = next_mr nd"
    by (simp_all add: put_qp_def)
  then have e: "extends E heap nd ?nd" by (intro extends_cong) simp_all
  have "extends E heap (cn_node s) ?nd" by (rule extends_trans [OF new(2) e])
  moreover have "node_wf E heap ?nd" using new(3) same by (simp add: node_wf_def buffers_ok_def)
  moreover have "peer_qp E heap P (cn_this s) val_in 0 ?nd peer q"
    using qp_built_extends [OF new(10) e] new(6-9) pnd by (auto simp: peer_qp_def)
  ultimately show ?thesis using new(4,5) same(2)
    by (intro exI [of _ ?nd] exI [of _ "(cq_idx + 1) mod poller_num ?c"] exI [of _ ?conn] exI [of _ "tokens_of q"]
        exI [of _ q]) (simp add: put_qp_def)
qed

text \<open>The first loop: all queue pairs created, each pushed with its tokens.\<close>

definition created ::
  "'v env \<Rightarrow> 'v heap \<Rightarrow> protos \<Rightarrow> nat \<Rightarrow> 'v comm_net \<Rightarrow> peer_out list \<Rightarrow> 'v comm_net \<times> u64 \<Rightarrow> bool"
where
  "created E heap P qroom s0 os = (\<lambda>(s, cq_idx).
     (\<exists>nd. s = s0\<lparr>cn_node := nd\<rparr>) \<and> unat cq_idx < length (cq_vec s0) \<and> node_wf E heap (cn_node s) \<and>
     length (qp_vec (cn_node s)) = Suc (length (cn_peers s0)) \<and>
     (length (cn_peers s0) - length os) * qroom \<le> room heap (cn_node s) \<and>
     (\<forall>(peer, conn, tok) \<in> set os. \<exists>q. tokens_of q = tok \<and>
        peer_qp E heap P (cn_this s0) (\<lambda>_. []) 0 (cn_node s) peer q))"

lemma create_loop:
  assumes c: "setup_config (e_cfg E)" and heap: "heap_ok E heap" and V: "verbs_ok V heap attr"
    and s: "node_wf E heap (cn_node s)" "length (qp_vec (cn_node s)) = Suc (length (cn_peers s))"
      "length (cn_peers s) * qp_room (e_cfg E) attr \<le> room heap (cn_node s)"
    and peers: "distinct (cn_peers s)" "\<forall>p \<in> set (cn_peers s). unat p \<le> length (cn_peers s)"
    and cq: "0 < length (cq_vec s)" "poller_num (e_cfg E) = of_nat (length (cq_vec s))" "length (cq_vec s) < 2 ^ 31"
  shows "\<exists>s' os. map fst os = cn_peers s \<and>
    performs (concat (map (push_trace P (cn_this s)) os))
      (pfor (create_qp E V P port_attr gid) (s, 0) (cn_peers s)) (Inr s') \<and>
    created E heap P (qp_room (e_cfg E) attr) s os s'"
proof (rule performs_pfor_out)
  show "created E heap P (qp_room (e_cfg E) attr) s [] (s, 0)"
    using s cq by (auto simp: created_def intro!: exI [of _ "cn_node s"])
  fix ys x zs t
  assume xs: "cn_peers s = map fst ys @ x # zs" and I: "created E heap P (qp_room (e_cfg E) attr) s ys t"
  obtain s1 cq_idx where t: "t = (s1, cq_idx)" by (cases t)
  obtain nd1 where nd1: "s1 = s\<lparr>cn_node := nd1\<rparr>" using I by (auto simp: created_def t)
  have i: "unat cq_idx < length (cq_vec s)" "node_wf E heap nd1" "length (qp_vec nd1) = Suc (length (cn_peers s))"
    "(length (cn_peers s) - length ys) * qp_room (e_cfg E) attr \<le> room heap nd1"
    "\<forall>(peer, conn, tok) \<in> set ys. \<exists>q. tokens_of q = tok \<and> peer_qp E heap P (cn_this s) (\<lambda>_. []) 0 nd1 peer q"
    using I by (simp_all add: created_def t nd1)
  have n: "length (cn_peers s) - length ys = Suc (length zs)" using arg_cong [OF xs, of length] by simp
  have room: "qp_room (e_cfg E) attr \<le> room heap nd1" using i(4) unfolding n by simp
  have p: "unat x < length (qp_vec nd1)" using peers(2) xs i(3) by auto
  obtain nd cq_idx' conn tok q where nd: "performs (push_trace P (cn_this s1) (x, conn, tok))
      (create_qp E V P port_attr gid (s1, cq_idx) x) (Inr (s1\<lparr>cn_node := nd\<rparr>, cq_idx'))"
    "unat cq_idx' < length (cq_vec s1)" "extends E heap (cn_node s1) nd" "node_wf E heap nd"
    "room heap nd = room heap (cn_node s1) - qp_room (e_cfg E) attr"
    "qp_vec nd = (qp_vec (cn_node s1))[unat x := Some q]" "tokens_of q = tok"
    "peer_qp E heap P (cn_this s1) (\<lambda>_. []) 0 nd x q"
    using create_qp_ok [OF c heap V, of s1 x cq_idx P port_attr gid "\<lambda>_. []"] i(1,2) room p cq(2,3) nd1 by auto
  have old: "\<exists>q'. tokens_of q' = tok' \<and> peer_qp E heap P (cn_this s) (\<lambda>_. []) 0 nd peer q'"
    if out: "(peer, conn', tok') \<in> set ys" for peer conn' tok'
  proof -
    obtain q' where q': "tokens_of q' = tok'" "peer_qp E heap P (cn_this s) (\<lambda>_. []) 0 nd1 peer q'"
      using bspec [OF i(5) out] by auto
    have "peer \<in> set (map fst ys)" using out by force
    then have "peer \<noteq> x" using peers(1) unfolding xs by auto
    then have "unat peer \<noteq> unat x" by (simp add: word_unat_eq_iff)
    then have "get_qp (unat peer) nd = get_qp (unat peer) nd1" using nd(6) nd1 by (simp add: get_qp_def)
    with q' peer_qp_extends [OF q'(2)] nd(3) nd1 show ?thesis by auto
  qed
  have rest: "(length (cn_peers s) - Suc (length ys)) * qp_room (e_cfg E) attr \<le> room heap nd"
  proof -
    have "length (cn_peers s) - Suc (length ys) = length zs" using n by simp
    then show ?thesis using i(4) nd(5) nd1 unfolding n by simp
  qed
  have "created E heap P (qp_room (e_cfg E) attr) s (ys @ [(x, conn, tok)]) (s1\<lparr>cn_node := nd\<rparr>, cq_idx')"
    unfolding created_def
    using nd(2,4,6-8) nd1 i(3) old rest by auto
  with nd(1) nd1 show "\<exists>s' out. performs (push_trace P (cn_this s) (x, out)) (create_qp E V P port_attr gid t x) (Inr s') \<and>
      created E heap P (qp_room (e_cfg E) attr) s (ys @ [(x, out)]) s'"
    unfolding t by (intro exI [of _ "(s1\<lparr>cn_node := nd\<rparr>, cq_idx')"] exI [of _ "(conn, tok)"]) simp
qed

lemma add_pollers:
  assumes V: "verbs_ok V heap attr"
  shows "\<exists>v cqs. run (add_poller V cqe) s is = Inr (s\<lparr>cn_node := (cn_node s)\<lparr>n_ext := v\<rparr>,
      cq_vec := cq_vec s @ cqs, poller_vec := poller_vec s @ cqs\<rparr>) \<and>
    length cqs = length is \<and> heap v = heap (n_ext (cn_node s))"
proof (induction "is" arbitrary: s)
  case Nil
  show ?case by (intro exI [of _ "n_ext (cn_node s)"] exI [of _ "[]"]) simp
next
  case (Cons i "is")
  obtain cq v1 where cq: "v_create_cq V (n_ext (cn_node s)) (cn_context s) cqe = (Some cq, v1)"
    "heap v1 = heap (n_ext (cn_node s))" using verbs_okD(5) [OF V] by blast
  let ?s = "s\<lparr>cn_node := (cn_node s)\<lparr>n_ext := v1\<rparr>, cq_vec := cq_vec s @ [cq], poller_vec := poller_vec s @ [cq]\<rparr>"
  obtain v cqs where "run (add_poller V cqe) ?s is = Inr (?s\<lparr>cn_node := (cn_node ?s)\<lparr>n_ext := v\<rparr>,
      cq_vec := cq_vec ?s @ cqs, poller_vec := poller_vec ?s @ cqs\<rparr>)"
    "length cqs = length is" "heap v = heap (n_ext (cn_node ?s))" using Cons.IH by blast
  moreover have "add_poller V cqe s i = Inr ?s" using cq by (simp add: add_poller_def check_ptr_def)
  ultimately show ?case using cq(2) by (intro exI [of _ v] exI [of _ "cq # cqs"]) simp
qed

text \<open>What a machine needs to come up.\<close>

definition setup_ready :: "'v env \<Rightarrow> 'v verbs \<Rightarrow> 'v heap \<Rightarrow> device_attr \<Rightarrow> 'v comm_net \<Rightarrow> bool" where
  "setup_ready E V heap attr s \<longleftrightarrow>
     setup_config (e_cfg E) \<and> heap_ok E heap \<and> verbs_ok V heap attr \<and>
     0 < sint (poller_num (e_cfg E)) \<and> sint (poller_num (e_cfg E)) < 2 ^ 31 \<and>
     node_wf E heap (cn_node s) \<and> length (cn_peers s) * qp_room (e_cfg E) attr \<le> room heap (cn_node s) \<and>
     distinct (cn_peers s) \<and> (\<forall>p \<in> set (cn_peers s). unat p \<le> length (cn_peers s)) \<and>
     cq_vec s = [] \<and> poller_vec s = []"

lemma prepare_ok:
  assumes "setup_ready E V heap attr s"
  shows "\<exists>s1 v. rbind (open_device V s) (create_pollers E V) = Inr s1 \<and> cn_this s1 = cn_this s \<and>
    cn_peers s1 = cn_peers s \<and> cn_node s1 = (cn_node s)\<lparr>n_ext := v\<rparr> \<and> heap v = heap (n_ext (cn_node s)) \<and>
    length (cq_vec s1) = nat (sint (poller_num (e_cfg E)))"
proof -
  let ?num = "poller_num (e_cfg E)"
  have V: "verbs_ok V heap attr" and num: "0 < sint ?num" "sint ?num < 2 ^ 31" and none: "cq_vec s = []" "poller_vec s = []"
    using assms by (simp_all add: setup_ready_def)
  obtain d ds v1 where d: "v_get_device_list V (n_ext (cn_node s)) = (Some (d # ds), v1)"
    "heap v1 = heap (n_ext (cn_node s))" using verbs_okD(1) [OF V] by blast
  obtain x v2 where x: "v_open_device V v1 d = (Some x, v2)" "heap v2 = heap v1" using verbs_okD(2) [OF V] by blast
  obtain pd v3 where pd: "v_alloc_pd V v2 x = (Some pd, v3)" "heap v3 = heap v2" using verbs_okD(3) [OF V] by blast
  let ?s = "s\<lparr>cn_context := x, cn_pd := pd, cn_node := (cn_node s)\<lparr>n_ext := v3\<rparr>\<rparr>"
  obtain v cqs where cqs: "run (add_poller V (max_cqe attr)) ?s [0..<nat (sint ?num)] =
      Inr (?s\<lparr>cn_node := (cn_node ?s)\<lparr>n_ext := v\<rparr>, cq_vec := cq_vec ?s @ cqs, poller_vec := poller_vec ?s @ cqs\<rparr>)"
    "length cqs = length [0..<nat (sint ?num)]" "heap v = heap (n_ext (cn_node ?s))"
    using add_pollers [OF V] by blast
  have "(of_nat (length cqs) :: u64) = ?num"
    using cqs(2) num by simp
  then have "rbind (open_device V s) (create_pollers E V) =
      Inr (?s\<lparr>cn_node := (cn_node ?s)\<lparr>n_ext := v\<rparr>, cq_vec := cqs, poller_vec := cqs\<rparr>)"
    using d(1) x(1) pd(1) cqs(1) num none verbs_okD(4) [OF V]
    by (simp add: open_device_def get_device_def check_ptr_def create_pollers_def int_loop_def Let_def)
  then show ?thesis using d(2) x(2) pd(2) cqs(2,3)
    by (intro exI [of _ "?s\<lparr>cn_node := (cn_node ?s)\<lparr>n_ext := v\<rparr>, cq_vec := cqs, poller_vec := cqs\<rparr>"] exI [of _ v]) simp
qed

text \<open>The tokens pushed for a peer.\<close>

definition pushed_tokens :: "peer_out list \<Rightarrow> i64 \<Rightarrow> mem_desc_proto list" where
  "pushed_tokens os peer = snd (the (map_of os peer))"

lemma created_stage:
  assumes "created E heap P r s os (s', idx)" and "map fst os = cn_peers s" and "distinct (cn_peers s)"
  shows "net_stage E heap P val_in 0 (pushed_tokens os) (cn_peers s) {} s'" and "cn_this s' = cn_this s"
    and "cn_peers s' = cn_peers s"
proof -
  obtain nd where s': "s' = s\<lparr>cn_node := nd\<rparr>" using assms(1) by (auto simp: created_def)
  then show "cn_this s' = cn_this s" "cn_peers s' = cn_peers s" by simp_all
  have stage0: "peer_qp E heap P this v 0 nd p q \<Longrightarrow> peer_qp E heap P this v' 0 nd p q" for this v v' p q
    by (simp add: peer_qp_def)
  have "\<exists>q. tokens_of q = pushed_tokens os p \<and> peer_qp E heap P (cn_this s) val_in 0 nd p q"
    if "p \<in> set (cn_peers s)" for p
  proof -
    from that assms(2) obtain conn tok where out: "(p, conn, tok) \<in> set os" by (metis (no_types) imageE list.set_map prod.collapse)
    have "map_of os p = Some (conn, tok)" using map_of_is_SomeI [of os] out assms(2,3) by simp
    moreover obtain q where "tokens_of q = tok" "peer_qp E heap P (cn_this s) (\<lambda>_. []) 0 nd p q"
      using assms(1) out by (fastforce simp: created_def s')
    ultimately show ?thesis using stage0 by (auto simp: pushed_tokens_def)
  qed
  with assms(1) show "net_stage E heap P val_in 0 (pushed_tokens os) (cn_peers s) {} s'"
    by (auto simp: net_stage_def created_def s')
qed

lemma SetUp_runs:
  assumes ready: "setup_ready E V heap attr s"
  obtains os where "map fst os = cn_peers s"
    and "\<And>conn_in val_in jb jr. \<forall>p \<in> set (cn_peers s). buffer_count (e_cfg E) \<le> length (parse_tokens P (val_in p)) \<Longrightarrow>
      \<exists>s'. performs (setup_trace (e_cfg E) P srcfile (cn_this s) os conn_in val_in) (SetUp E V P srcfile jb jr s) (Inr s') \<and>
        net_stage E heap P val_in 2 (pushed_tokens os) (cn_peers s) {} s' \<and> cn_this s' = cn_this s"
proof -
  let ?c = "e_cfg E"
  have c: "setup_config ?c" and heap: "heap_ok E heap" and V: "verbs_ok V heap attr" and wf: "node_wf E heap (cn_node s)"
    and room: "length (cn_peers s) * qp_room ?c attr \<le> room heap (cn_node s)"
    and peers: "distinct (cn_peers s)" "\<forall>p \<in> set (cn_peers s). unat p \<le> length (cn_peers s)"
    and num: "0 < sint (poller_num ?c)" "sint (poller_num ?c) < 2 ^ 31"
    using ready by (simp_all add: setup_ready_def)
  obtain s1 v where s1: "rbind (open_device V s) (create_pollers E V) = Inr s1" "cn_this s1 = cn_this s"
    "cn_peers s1 = cn_peers s" "cn_node s1 = (cn_node s)\<lparr>n_ext := v\<rparr>" "heap v = heap (n_ext (cn_node s))"
    "length (cq_vec s1) = nat (sint (poller_num ?c))" using prepare_ok [OF ready] by blast
  obtain port where port: "v_query_port V (n_ext (cn_node s1)) (cn_context s1) = (0, port)"
    using verbs_okD(6) [OF V] by (metis prod.collapse)
  obtain gid where gid: "v_query_gid V (n_ext (cn_node s1)) (cn_context s1) = (0, gid)"
    using verbs_okD(7) [OF V] by (metis prod.collapse)
  let ?s2 = "s1\<lparr>cn_node := (cn_node s1)\<lparr>qp_vec := replicate (length (cn_peers s1) + 1) None\<rparr>\<rparr>"
  have cq: "0 < length (cq_vec ?s2)" "poller_num ?c = of_nat (length (cq_vec ?s2))" "length (cq_vec ?s2) < 2 ^ 31"
    using s1(6) num by simp_all
  have s2: "node_wf E heap (cn_node ?s2)" "length (qp_vec (cn_node ?s2)) = Suc (length (cn_peers ?s2))"
    "length (cn_peers ?s2) * qp_room ?c attr \<le> room heap (cn_node ?s2)"
    "distinct (cn_peers ?s2)" "\<forall>p \<in> set (cn_peers ?s2). unat p \<le> length (cn_peers ?s2)"
    using wf room peers s1(3-5) by (simp_all add: node_wf_def buffers_ok_def)
  obtain s3' os where os: "map fst os = cn_peers ?s2"
    "performs (concat (map (push_trace P (cn_this ?s2)) os)) (pfor (create_qp E V P port gid) (?s2, 0) (cn_peers ?s2)) (Inr s3')"
    "created E heap P (qp_room ?c attr) ?s2 os s3'"
    using create_loop [OF c heap V s2 cq] by blast
  obtain s3 idx where s3: "s3' = (s3, idx)" by (cases s3')
  have st3: "net_stage E heap P val_in 0 (pushed_tokens os) (cn_peers s) {} s3" "cn_this s3 = cn_this s" for val_in
    using created_stage [OF os(3) [unfolded s3] os(1) s2(4)] s1(2,3) by simp_all
  have "\<exists>s'. performs (setup_trace ?c P srcfile (cn_this s) os conn_in val_in) (SetUp E V P srcfile jb jr s) (Inr s') \<and>
      net_stage E heap P val_in 2 (pushed_tokens os) (cn_peers s) {} s' \<and> cn_this s' = cn_this s"
    if len: "\<forall>p \<in> set (cn_peers s). buffer_count ?c \<le> length (parse_tokens P (val_in p))" for conn_in val_in jb jr
  proof -
    obtain s4 where s4: "performs (concat (map (pull_trace (cn_this s) conn_in val_in) (cn_peers s)))
        (pfor (connect_qp E V P) s3 (cn_peers s)) (Inr s4)"
      "net_stage E heap P val_in (Suc 0) (pushed_tokens os) (cn_peers s) {} s4" "same_net heap s3 s4"
      using stage_loop [OF peers(1) st3(1) _ st3(2), where tr = "pull_trace (cn_this s) conn_in val_in" and f = "connect_qp E V P"]
        connect_qp_ok [OF c V] len by metis
    have this4: "cn_this s4 = cn_this s" using s4(3) st3(2) by (auto simp: same_net_def)
    obtain s5 where s5: "performs (concat (map (clear_trace (cn_this s)) (cn_peers s)))
        (pfor (start_qp E jb jr) s4 (cn_peers s)) (Inr s5)"
      "net_stage E heap P val_in (Suc 1) (pushed_tokens os) (cn_peers s) {} s5" "same_net heap s4 s5"
      using stage_loop [OF peers(1) s4(2) [folded One_nat_def] _ this4, where tr = "clear_trace (cn_this s)" and f = "start_qp E jb jr"]
        start_qp_ok [OF c heap] by metis
    have bar: "performs (barrier_trace ?c nm) (barrier_at ?c nm) (Inr ())" for nm
      by (simp add: barrier_trace_def barrier_at_def)
    note tail = performs_pbind [OF bar [of "file_line srcfile 68"], of "[]" "\<lambda>_. Ret (Inr s5)" "Inr s5"]
    note t5 = performs_pbind [OF s5(1), of _ "\<lambda>s5. pbind (barrier_at ?c (file_line srcfile 68)) (\<lambda>_. Ret (Inr s5))", OF tail]
    note t4 = performs_pbind [OF bar [of "file_line srcfile 62"], of _ "\<lambda>_. pbind (pfor (start_qp E jb jr) s4 (cn_peers s))
      (\<lambda>s5. pbind (barrier_at ?c (file_line srcfile 68)) (\<lambda>_. Ret (Inr s5)))", OF t5]
    note t3 = performs_pbind [OF s4(1), of _ "\<lambda>s4. pbind (barrier_at ?c (file_line srcfile 62)) (\<lambda>_.
      pbind (pfor (start_qp E jb jr) s4 (cn_peers s)) (\<lambda>s5. pbind (barrier_at ?c (file_line srcfile 68)) (\<lambda>_. Ret (Inr s5))))", OF t4]
    have "performs (concat (map (push_trace P (cn_this s)) os))
        (pfor (create_qp E V P port gid) (?s2, 0) (cn_peers s)) (Inr (s3, idx))"
      using os(2) s1(2,3) s3 by simp
    from performs_pbind [OF this, of _ "\<lambda>(s3, _). pbind (pfor (connect_qp E V P) s3 (cn_peers s)) (\<lambda>s4.
        pbind (barrier_at ?c (file_line srcfile 62)) (\<lambda>_. pbind (pfor (start_qp E jb jr) s4 (cn_peers s)) (\<lambda>s5.
        pbind (barrier_at ?c (file_line srcfile 68)) (\<lambda>_. Ret (Inr s5)))))", of _ "Inr s5"] t3
    have "performs (setup_trace ?c P srcfile (cn_this s) os conn_in val_in) (SetUp E V P srcfile jb jr s) (Inr s5)"
      using s1(1,3) port gid os(1) by (simp add: SetUp_def setup_trace_def Let_def)
    moreover have "cn_this s5 = cn_this s" using s5(3) this4 by (auto simp: same_net_def)
    moreover have "Suc 1 = (2 :: nat)" by simp
    ultimately show ?thesis using s5(2) by metis
  qed
  moreover have "map fst os = cn_peers s" using os(1) s1(3) by simp
  ultimately show thesis using that by blast
qed

end
