(* ===== verification/SetupLink.thy ===== *)
theory SetupLink
  imports SetupProps
begin

text \<open>
  Two machines that have come up, each with what the other pushed: they are the two ends of a
  connection of ReadLink.thy, before any read.
\<close>

section \<open>Two machines are the ends of a connection\<close>

text \<open>
  The connection between the queue pair \<open>qw\<close> of the machine that sends data and \<open>qr\<close> of the one
  that reads it; \<open>W\<close> and \<open>R'\<close> are the areas other parts of the two programs write.
\<close>

definition connection ::
  "comm_net_config \<Rightarrow> rdma \<Rightarrow> qp \<Rightarrow> qp \<Rightarrow> u64 set \<Rightarrow> u64 set \<Rightarrow> link_cfg"
where
  "connection c R qw qr W R' = \<lparr>lc_cfg = c, lc_rdma = R, lc_pairs = send_recv_mem_desc qw,
     lc_recv = map snd (qp_mem_desc qr), lc_reader = peer_machine_id qw, lc_writer = this_machine_id qw,
     lc_wother = W, lc_rother = R'\<rparr>"

definition buffers_at :: "comm_net_config \<Rightarrow> (nat \<Rightarrow> u64) \<Rightarrow> u64 set" where
  "buffers_at c f = (\<Union>i < buffer_count c. span (f i) (buffer_size c))"

definition message_space :: "'v env \<Rightarrow> 'v node \<Rightarrow> u64 set" where
  "message_space E s = (\<Union>mr \<in> ran (n_mrs s). message_span E mr)"

definition connected ::
  "rdma \<Rightarrow> 'v env \<Rightarrow> 'v comm_net \<Rightarrow> 'w env \<Rightarrow> 'w comm_net \<Rightarrow> bool"
where
  "connected R Ew sw Er sr \<longleftrightarrow> (\<exists>qw qr sb rb h.
     get_qp (unat (cn_this sr)) (cn_node sw) = Inr qw \<and> get_qp (unat (cn_this sw)) (cn_node sr) = Inr qr \<and>
     message_space Ew (cn_node sw) \<inter> buffers_at (e_cfg Ew) sb = {} \<and>
     message_space Er (cn_node sr) \<inter> buffers_at (e_cfg Ew) rb = {} \<and>
     (\<forall>W R'. W \<inter> buffers_at (e_cfg Ew) sb = {} \<longrightarrow> R' \<inter> buffers_at (e_cfg Ew) rb = {} \<longrightarrow>
        message_space Er (cn_node sr) \<subseteq> R' \<longrightarrow>
        (let L = connection (e_cfg Ew) R qw qr W R';
             l = new_link h (n_mem (cn_node sw)) (n_mem (cn_node sr))
         in link_ok L sb rb \<and> link_start L h \<and> lc_reader L = cn_this sr \<and> lc_writer L = cn_this sw \<and>
            writer_node (unat (cn_this sr)) (cn_node sw) l \<and>
            reader_node Er L (unat (cn_this sw)) (cn_node sr) l)))"

lemma region_flat: "i < length bs \<Longrightarrow> span (fst (bs ! i)) n \<union> span (snd (bs ! i)) n \<subseteq> region n (flat bs)"
proof (induction bs arbitrary: i)
  case (Cons b bs)
  obtain x y where b: "b = (x, y)" by (cases b)
  show ?case
  proof (cases i)
    case (Suc k)
    then show ?thesis using Cons.IH [of k] Cons.prems by (auto simp: b)
  qed (auto simp: b)
qed simp

lemma apart_flat:
  "apart n (flat bs) \<Longrightarrow> i < j \<Longrightarrow> j < length bs \<Longrightarrow>
   span (fst (bs ! i)) n \<inter> span (fst (bs ! j)) n = {} \<and> span (snd (bs ! i)) n \<inter> span (snd (bs ! j)) n = {}"
proof (induction bs arbitrary: i j)
  case (Cons b bs)
  obtain x y where b: "b = (x, y)" by (cases b)
  obtain k where j: "j = Suc k" "k < length bs" using Cons.prems(2,3) by (cases j) auto
  show ?case
  proof (cases i)
    case 0
    then show ?thesis using region_flat [OF j(2), of n] Cons.prems(1) by (auto simp: b j(1))
  next
    case (Suc i')
    then show ?thesis using Cons.IH [of i' k] Cons.prems j by (simp add: b)
  qed
qed simp

lemma apart_flat_ne:
  assumes "apart n (flat bs)" and "i < length bs" and "j < length bs" and "i \<noteq> j"
  shows "span (fst (bs ! i)) n \<inter> span (fst (bs ! j)) n = {}" and "span (snd (bs ! i)) n \<inter> span (snd (bs ! j)) n = {}"
proof -
  consider "i < j" | "j < i" using assms(4) by linarith
  then have "span (fst (bs ! i)) n \<inter> span (fst (bs ! j)) n = {} \<and> span (snd (bs ! i)) n \<inter> span (snd (bs ! j)) n = {}"
    using apart_flat [OF assms(1)] assms(2,3) by cases (blast+)
  then show "span (fst (bs ! i)) n \<inter> span (fst (bs ! j)) n = {}" "span (snd (bs ! i)) n \<inter> span (snd (bs ! j)) n = {}"
    by blast+
qed

lemma buffers_at_built:
  assumes "qp_built E heap s q bases"
  shows "buffers_at (e_cfg E) (\<lambda>i. fst (bases ! i)) \<subseteq> region (buffer_size (e_cfg E)) (flat bases)"
    and "buffers_at (e_cfg E) (\<lambda>i. snd (bases ! i)) \<subseteq> region (buffer_size (e_cfg E)) (flat bases)"
    and "message_space E s \<inter> region (buffer_size (e_cfg E)) (flat bases) = {}"
proof -
  have "length bases = buffer_count (e_cfg E)" "clear_of E s (region (buffer_size (e_cfg E)) (flat bases))"
    using assms by (simp_all add: qp_built_def)
  then show "buffers_at (e_cfg E) (\<lambda>i. fst (bases ! i)) \<subseteq> region (buffer_size (e_cfg E)) (flat bases)"
    "buffers_at (e_cfg E) (\<lambda>i. snd (bases ! i)) \<subseteq> region (buffer_size (e_cfg E)) (flat bases)"
    "message_space E s \<inter> region (buffer_size (e_cfg E)) (flat bases) = {}"
    using region_flat [of _ bases "buffer_size (e_cfg E)"]
    by (fastforce simp: buffers_at_def message_space_def clear_of_def ran_def)+
qed

lemma connection_ok:
  assumes c: "setup_config c" and R: "rdma_copies R"
    and qw: "pairs_ok c (qp_mem_desc qw) bw" "length bw = buffer_count c" "apart (buffer_size c) (flat bw)"
    and qr: "pairs_ok c (qp_mem_desc qr) br" "length br = buffer_count c" "apart (buffer_size c) (flat br)"
    and pairs: "send_recv_mem_desc qw = zip (map fst (qp_mem_desc qw)) (tokens_of qr)"
    and W: "W \<inter> buffers_at c (\<lambda>i. fst (bw ! i)) = {}" and R': "R' \<inter> buffers_at c (\<lambda>i. snd (br ! i)) = {}"
  shows "link_ok (connection c R qw qr W R') (\<lambda>i. fst (bw ! i)) (\<lambda>i. snd (br ! i))"
proof -
  let ?n = "buffer_count c"
  have len: "length (qp_mem_desc qw) = ?n" "length (qp_mem_desc qr) = ?n"
    using qw(1,2) qr(1,2) pairs_ok_length by metis+
  have ok: "config_ok c" "0 < ?n" "?n < 2 ^ 31" using c by (simp_all add: setup_config_def nat_less_iff)
  have nth: "buffer_ok c (fst (qp_mem_desc qw ! i)) (fst (bw ! i))" "buffer_ok c (snd (qp_mem_desc qr ! i)) (snd (br ! i))"
    if "i < ?n" for i
    using that qw(1) qr(1) len by (auto simp: pairs_ok_def dest: list_all2_nthD)
  have off: "span (fst (bw ! i)) (buffer_size c) \<inter> W = {}" "span (snd (br ! i)) (buffer_size c) \<inter> R' = {}"
    if "i < ?n" for i
    using that W R' unfolding buffers_at_def by blast+
  show ?thesis
    unfolding link_ok_def connection_def pairs tokens_of_def
    using ok R len nth apart_flat_ne [OF qw(3)] apart_flat_ne [OF qr(3)] qw(2) qr(2) off
    by (auto simp: buffer_ok_def ToProto_def comp_def)
qed

lemma net_stage2E:
  assumes "net_stage E heap P val_in 2 tok peers {} s" and "peer \<in> set peers"
  obtains q bases h jb jr where "tokens_of q = tok peer" and "get_qp (unat peer) (cn_node s) = Inr q"
    and "this_machine_id q = cn_this s" and "peer_machine_id q = peer" and "qp_built E heap (cn_node s) q bases"
    and "send_recv_mem_desc q = zip (map fst (qp_mem_desc q))
       (take (buffer_count (e_cfg E)) (parse_tokens P (val_in peer)))"
    and "helper q = Some h" and "new_write_helper (e_cfg E) (send_recv_mem_desc q) jb jr = Inr h"
  using assms unfolding net_stage_def peer_qp_def by fastforce

lemma stages_connected:
  assumes c: "setup_config (e_cfg Ew)" "e_cfg Er = e_cfg Ew" and R: "rdma_copies R"
    and sw: "net_stage Ew heapw P valw 2 tokw peersw {} sw" "cn_this sr \<in> set peersw"
    and sr: "net_stage Er heapr P' valr 2 tokr peersr {} sr" "cn_this sw \<in> set peersr"
    and got: "parse_tokens P (valw (cn_this sr)) = tokr (cn_this sw)"
  shows "connected R Ew sw Er sr"
proof -
  let ?c = "e_cfg Ew"
  obtain qw bw h jb jr where qw0: "tokens_of qw = tokw (cn_this sr)" and
    qw1: "get_qp (unat (cn_this sr)) (cn_node sw) = Inr qw" and qw2: "this_machine_id qw = cn_this sw" and
    qw3: "peer_machine_id qw = cn_this sr" and qw4: "qp_built Ew heapw (cn_node sw) qw bw" and
    qw5: "send_recv_mem_desc qw = zip (map fst (qp_mem_desc qw))
       (take (buffer_count ?c) (parse_tokens P (valw (cn_this sr))))" and
    qw6: "helper qw = Some h" and qw7: "new_write_helper ?c (send_recv_mem_desc qw) jb jr = Inr h"
    by (rule net_stage2E [OF sw])
  note qw = qw1 qw2 qw3 qw4 qw5 qw6 qw7
  obtain qr br h' jb' jr' where qr1: "tokens_of qr = tokr (cn_this sw)" and
    qr2: "get_qp (unat (cn_this sw)) (cn_node sr) = Inr qr" and qr3: "this_machine_id qr = cn_this sr" and
    qr4: "peer_machine_id qr = cn_this sw" and qr5: "qp_built Er heapr (cn_node sr) qr br" and
    "send_recv_mem_desc qr = zip (map fst (qp_mem_desc qr))
       (take (buffer_count (e_cfg Er)) (parse_tokens P' (valr (cn_this sw))))" and
    qr6: "helper qr = Some h'" and "new_write_helper (e_cfg Er) (send_recv_mem_desc qr) jb' jr' = Inr h'"
    by (rule net_stage2E [OF sr])
  note qr = qr1 qr2 qr3 qr4 qr5 qr6
  have len: "length (qp_mem_desc qw) = buffer_count ?c" "length (tokens_of qr) = buffer_count ?c"
    using qp_built_length [OF qw(4)] qp_built_length [OF qr(5)] c(2) by (simp_all add: tokens_of_def)
  then have pairs: "send_recv_mem_desc qw = zip (map fst (qp_mem_desc qw)) (tokens_of qr)"
    using qw(5) got qr(1) by simp
  have count: "length (send_recv_mem_desc qw) = buffer_count ?c" using pairs len by simp
  have wf: "node_wf Er heapr (cn_node sr)" using sr(1) by (simp add: net_stage_def)
  note bw = buffers_at_built [OF qw(4)] and br = buffers_at_built [OF qr(5), unfolded c(2)]
  let ?sb = "\<lambda>i. fst (bw ! i)" and ?rb = "\<lambda>i. snd (br ! i)"
  let ?l = "new_link h (n_mem (cn_node sw)) (n_mem (cn_node sr))"
  have writer: "writer_node (unat (cn_this sr)) (cn_node sw) ?l"
    using qw(1,6) by (simp add: writer_node_def new_link_def)
  have "link_ok (connection ?c R qw qr W R') ?sb ?rb" and "link_start (connection ?c R qw qr W R') h"
    and "reader_node Er (connection ?c R qw qr W R') (unat (cn_this sw)) (cn_node sr) ?l"
    if "W \<inter> buffers_at ?c ?sb = {}" "R' \<inter> buffers_at ?c ?rb = {}" "message_space Er (cn_node sr) \<subseteq> R'" for W R'
  proof -
    show "link_ok (connection ?c R qw qr W R') ?sb ?rb"
      by (rule connection_ok [OF c(1) R _ _ _ _ _ _ pairs that(1,2)])
        (use qw(4) qr(5) c(2) in \<open>auto simp: qp_built_def\<close>)
    show "link_start (connection ?c R qw qr W R') h"
      using qw(7) count by (auto simp: link_start_def connection_def)
    have "buffers_ok Er R' (cn_node sr)"
      using wf that(3) by (fastforce simp: node_wf_def buffers_ok_def message_space_def ran_def)
    then show "reader_node Er (connection ?c R qw qr W R') (unat (cn_this sw)) (cn_node sr) ?l"
      using qr qw(2,3) by (auto simp: reader_node_def reader_qp_def connection_def new_link_def
          send_buffers_ok_def qp_built_def)
  qed
  moreover have "message_space Ew (cn_node sw) \<inter> buffers_at ?c ?sb = {}"
    "message_space Er (cn_node sr) \<inter> buffers_at ?c ?rb = {}" using bw(1,3) br(2,3) c(2) by blast+
  ultimately show ?thesis
    unfolding connected_def Let_def
    using qw(1-3) qr(2) writer
    by (intro exI [of _ qw] exI [of _ qr] exI [of _ ?sb] exI [of _ ?rb] exI [of _ h])
      (simp add: connection_def)
qed

section \<open>The constructor and SetUp\<close>


text \<open>What one machine's \<open>SetUp\<close> does, whatever it pulls.\<close>

definition sets_up ::
  "'v env \<Rightarrow> 'v verbs \<Rightarrow> 'v heap \<Rightarrow> protos \<Rightarrow> string \<Rightarrow> peer_out list \<Rightarrow> 'v comm_net \<Rightarrow> bool"
where
  "sets_up E V heap P srcfile os s \<longleftrightarrow> map fst os = cn_peers s \<and>
     (\<forall>conn val jb jr. (\<forall>p \<in> set (cn_peers s). buffer_count (e_cfg E) \<le> length (parse_tokens P (val p))) \<longrightarrow>
       (\<exists>s'. performs (setup_trace (e_cfg E) P srcfile (cn_this s) os conn val) (SetUp E V P srcfile jb jr s) (Inr s') \<and>
         net_stage E heap P val 2 (pushed_tokens os) (cn_peers s) {} s' \<and> cn_this s' = cn_this s))"

lemma SetUp_sets_up:
  assumes "setup_ready E V heap attr s"
  shows "\<exists>os. sets_up E V heap P srcfile os s"
  by (rule SetUp_runs [OF assms, where P = P and srcfile = srcfile]) (unfold sets_up_def, blast)

lemma sets_upD:
  assumes "sets_up E V heap P srcfile os s"
    and "\<forall>p \<in> set (cn_peers s). buffer_count (e_cfg E) \<le> length (parse_tokens P (val p))"
  shows "\<exists>s'. performs (setup_trace (e_cfg E) P srcfile (cn_this s) os conn val) (SetUp E V P srcfile jb jr s) (Inr s') \<and>
    net_stage E heap P val 2 (pushed_tokens os) (cn_peers s) {} s' \<and> cn_this s' = cn_this s"
  using assms unfolding sets_up_def by blast

text \<open>Two machines, each with what the other pushed.\<close>

lemma SetUp_pair:
  assumes w: "setup_ready Ew Vw heapw attrw sw" and r: "setup_ready Er Vr heapr attrr sr"
    and c: "e_cfg Er = e_cfg Ew" and peers: "cn_this sr \<in> set (cn_peers sw)" "cn_this sw \<in> set (cn_peers sr)"
    and R: "rdma_copies R" and P: "\<forall>ts. parse_tokens P (ser_tokens P ts) = ts"
  obtains osw osr where "map fst osw = cn_peers sw" and "map fst osr = cn_peers sr"
    and "\<And>connw valw connr valr jb jr jb' jr'. \<lbrakk>
        \<forall>p \<in> set (cn_peers sw). buffer_count (e_cfg Ew) \<le> length (parse_tokens P (valw p));
        \<forall>p \<in> set (cn_peers sr). buffer_count (e_cfg Ew) \<le> length (parse_tokens P (valr p));
        valw (cn_this sr) = ser_tokens P (pushed_tokens osr (cn_this sw));
        valr (cn_this sw) = ser_tokens P (pushed_tokens osw (cn_this sr))\<rbrakk> \<Longrightarrow>
      \<exists>sw' sr'. performs (setup_trace (e_cfg Ew) P srcfile (cn_this sw) osw connw valw) (SetUp Ew Vw P srcfile jb jr sw) (Inr sw') \<and>
        performs (setup_trace (e_cfg Ew) P srcfile (cn_this sr) osr connr valr) (SetUp Er Vr P srcfile jb' jr' sr) (Inr sr') \<and>
        connected R Ew sw' Er sr' \<and> connected R Er sr' Ew sw'"
proof -
  let ?c = "e_cfg Ew"
  have ok: "setup_config ?c" using w by (simp add: setup_ready_def)
  obtain osw where osw: "sets_up Ew Vw heapw P srcfile osw sw" using SetUp_sets_up [OF w] by blast
  obtain osr where osr: "sets_up Er Vr heapr P srcfile osr sr" using SetUp_sets_up [OF r] by blast
  have "\<exists>sw' sr'. performs (setup_trace ?c P srcfile (cn_this sw) osw connw valw) (SetUp Ew Vw P srcfile jb jr sw) (Inr sw') \<and>
      performs (setup_trace ?c P srcfile (cn_this sr) osr connr valr) (SetUp Er Vr P srcfile jb' jr' sr) (Inr sr') \<and>
      connected R Ew sw' Er sr' \<and> connected R Er sr' Ew sw'"
    if enough: "\<forall>p \<in> set (cn_peers sw). buffer_count ?c \<le> length (parse_tokens P (valw p))"
      "\<forall>p \<in> set (cn_peers sr). buffer_count ?c \<le> length (parse_tokens P (valr p))"
      and got: "valw (cn_this sr) = ser_tokens P (pushed_tokens osr (cn_this sw))"
      "valr (cn_this sw) = ser_tokens P (pushed_tokens osw (cn_this sr))" for connw valw connr valr jb jr jb' jr'
  proof -
    obtain sw' where sw': "performs (setup_trace ?c P srcfile (cn_this sw) osw connw valw) (SetUp Ew Vw P srcfile jb jr sw) (Inr sw')"
      "net_stage Ew heapw P valw 2 (pushed_tokens osw) (cn_peers sw) {} sw'" "cn_this sw' = cn_this sw"
      using sets_upD [OF osw enough(1)] by blast
    obtain sr' where sr': "performs (setup_trace ?c P srcfile (cn_this sr) osr connr valr) (SetUp Er Vr P srcfile jb' jr' sr) (Inr sr')"
      "net_stage Er heapr P valr 2 (pushed_tokens osr) (cn_peers sr) {} sr'" "cn_this sr' = cn_this sr"
      using sets_upD [OF osr] enough(2) unfolding c by blast
    have "connected R Ew sw' Er sr'"
      by (rule stages_connected [OF ok c R sw'(2) _ sr'(2)]) (use sw'(3) sr'(3) peers got(1) P in simp_all)
    moreover have "connected R Er sr' Ew sw'"
      by (rule stages_connected [OF ok [folded c] c [symmetric] R sr'(2) _ sw'(2)])
        (use sw'(3) sr'(3) peers got(2) P in simp_all)
    ultimately show ?thesis using sw'(1) sr'(1) by blast
  qed
  with osw osr show thesis by (intro that [of osw osr]) (simp_all add: sets_up_def)
qed
end
