(* ===== verification/SetupDemo.thy ===== *)
theory SetupDemo
  imports SetupLink
begin

text \<open>
  A concrete machine to set up: an allocator that hands out ascending addresses, a device
  that grants every call, an encoding of the exchanged tokens. Two such machines.
\<close>

section \<open>The allocator and the device\<close>

text \<open>The state is the first free address; address 0 is not handed out.\<close>

definition bump_malloc :: "u64 \<Rightarrow> u64 \<Rightarrow> u64 \<times> u64" where
  "bump_malloc v n = (max 1 v, max 1 v + n)"

definition bump_heap :: "u64 heap" where
  "bump_heap v = ({a. a < max 1 v}, 2 ^ 64 - 1 - unat (max 1 v))"

definition bump_env :: "comm_net_config \<Rightarrow> u64 env" where
  "bump_env c = \<lparr>e_cfg = c, e_malloc = bump_malloc, e_reg_mr = (\<lambda>v a n. (Some \<lparr>mr_lkey = 1, mr_rkey = 2\<rparr>, v)),
     e_post_send = (\<lambda>v p wr. (0, v)), e_post_recv = (\<lambda>v p wr. (0, v)), e_padding = (0, 0, 0),
     e_run_cb = (\<lambda>f s. Inr s), e_run_handler = (\<lambda>f a n s. Inr s)\<rparr>"

definition demo_attr :: device_attr where
  "demo_attr = \<lparr>max_qp_wr = 4, max_cqe = 16\<rparr>"

definition demo_verbs :: "u64 verbs" where
  "demo_verbs = \<lparr>v_get_device_list = (\<lambda>v. (Some [0], v)), v_open_device = (\<lambda>v d. (Some 0, v)),
     v_alloc_pd = (\<lambda>v x. (Some 0, v)), v_query_device = (\<lambda>v x. (0, demo_attr)),
     v_create_cq = (\<lambda>v x n. (Some 0, v)), v_query_port = (\<lambda>v x. (0, \<lparr>port_lid = 3, active_mtu = 5\<rparr>)),
     v_query_gid = (\<lambda>v x. (0, \<lparr>gid_subnet_prefix = 1, gid_interface_id = 2\<rparr>)),
     v_create_qp = (\<lambda>v pd p i. (Some 7, v)), v_modify_qp = (\<lambda>v p a m. (0, v)),
     v_destroy_qp = (\<lambda>v p. (0, v)), v_dereg_mr = (\<lambda>v m. (0, v)), v_destroy_cq = (\<lambda>v x. (0, v)),
     v_dealloc_pd = (\<lambda>v x. (0, v)), v_close_device = (\<lambda>v x. (0, v))\<rparr>"

lemma span_interval:
  assumes "unat p + k < 2 ^ 64"
  shows "span p k = {a. p \<le> a \<and> unat a < unat p + k}"
proof (intro set_eqI iffI)
  fix a assume "a \<in> span p k"
  then obtain i where i: "i < k" "a = p + of_nat i" by (auto simp: span_def)
  then have "unat a = unat p + i" using assms by (simp add: unat_add_no_wrap unat_of_nat_u64)
  then show "a \<in> {a. p \<le> a \<and> unat a < unat p + k}" using i(1) by (simp add: word_le_nat_alt)
next
  fix a assume "a \<in> {a. p \<le> a \<and> unat a < unat p + k}"
  then have "p \<le> a" "unat a < unat p + k" by simp_all
  then have "a = p + of_nat (unat a - unat p)" "unat a - unat p < k"
    by (simp_all add: word_le_nat_alt of_nat_diff)
  then show "a \<in> span p k" by (auto simp: span_def)
qed

lemma bump_malloc_ok:
  assumes "unat n \<le> snd (bump_heap v)"
  shows "span (max 1 v) (unat n) \<inter> fst (bump_heap v) = {}"
    and "bump_heap (max 1 v + n) = (fst (bump_heap v) \<union> span (max 1 v) (unat n), snd (bump_heap v) - unat n)"
    and "max 1 v \<noteq> 0"
proof -
  let ?p = "max 1 v"
  have "unat ?p < 2 ^ LENGTH(64)" by (rule unsigned_less)
  then have n: "unat ?p + unat n < 2 ^ 64" using assms by (simp add: bump_heap_def)
  then have sum: "unat (?p + n) = unat ?p + unat n" by (simp add: unat_add_no_wrap)
  have p: "1 \<le> ?p" by simp
  then have "1 \<le> ?p + n" unfolding word_le_nat_alt sum by simp
  then have same: "max 1 (?p + n) = ?p + n" by (simp add: max_def)
  have "{a. a < ?p + n} = {a. a < ?p} \<union> span ?p (unat n)"
    using sum by (auto simp: span_interval [OF n] word_less_nat_alt word_le_nat_alt)
  with sum same show "bump_heap (?p + n) = (fst (bump_heap v) \<union> span ?p (unat n), snd (bump_heap v) - unat n)"
    by (simp add: bump_heap_def)
  show "span ?p (unat n) \<inter> fst (bump_heap v) = {}"
    by (auto simp: span_interval [OF n] bump_heap_def simp del: max.bounded_iff)
  show "?p \<noteq> 0" using p by (metis word_le_0_iff zero_neq_one)
qed

lemma bump_heap_ok: "heap_ok (bump_env c) bump_heap"
  using bump_malloc_ok by (fastforce simp: heap_ok_def bump_env_def bump_malloc_def)

lemma demo_verbs_ok: "verbs_ok demo_verbs bump_heap demo_attr"
  by (simp add: verbs_ok_def demo_verbs_def)

section \<open>Two machines\<close>

definition demo_cfg :: comm_net_config where
  "demo_cfg = default_config demo_machines 80"

lemma demo_cfg_ok:
  "setup_config demo_cfg" "qp_room demo_cfg demo_attr = 4 * 1024 + 2 * 2 * 4194304"
  "sint (poller_num demo_cfg) = 1" "machines demo_cfg = demo_machines"
  "buffer_count demo_cfg = 2"
proof -
  note defs = demo_cfg_def default_config_def buffer_bytes_def PerRegisterBufferMBytes_def
      RegisterBufferNum_def SgeBytes_def sge_size_def config_ok_def MaxMsgBytes_def
  show "setup_config demo_cfg" by (simp add: setup_config_def message_size_ok_def defs)
  show "qp_room demo_cfg demo_attr = 4 * 1024 + 2 * 2 * 4194304"
    by (simp add: qp_room_def recv_count_def demo_attr_def defs)
  show "sint (poller_num demo_cfg) = 1" "machines demo_cfg = demo_machines" "buffer_count demo_cfg = 2"
    by (simp_all add: defs)
qed

definition fresh_node :: "u64 node" where
  "fresh_node = \<lparr>n_mem = (\<lambda>_. 0), n_mrs = (\<lambda>_. None), next_mr = 0, n_wrs = (\<lambda>_. None), next_wr = 0,
     qp_vec = [], msg_handlers = (\<lambda>_. None), n_ext = 1\<rparr>"

definition fresh_net :: "i64 \<Rightarrow> i64 list \<Rightarrow> u64 comm_net" where
  "fresh_net this peers = \<lparr>cn_node = fresh_node, cn_this = this, cn_peers = peers, cn_context = 0,
     cn_pd = 0, cq_vec = [], poller_vec = []\<rparr>"

lemma fresh_room: "room bump_heap fresh_node = 2 ^ 64 - 2"
  by (simp add: fresh_node_def bump_heap_def)

lemma fresh_wf: "node_wf E heap fresh_node"
  by (simp add: node_wf_def buffers_ok_def fresh_node_def)


end
