(* ===== verification/TearDownProps.thy ===== *)
theory TearDownProps
  imports NodeSetup
begin

text \<open>
  What \<open>TearDown\<close> releases. A device counts its registrations; a protection domain can be
  deallocated only when none is left (\<open>ibv_dealloc_pd\<close> fails otherwise).
\<close>

section \<open>The device\<close>

definition releases :: "'v verbs \<Rightarrow> ('v \<Rightarrow> nat) \<Rightarrow> bool" where
  "releases V live \<longleftrightarrow>
     (\<forall>v mr. 0 < live v \<longrightarrow> (\<exists>v'. v_dereg_mr V v mr = (0, v') \<and> live v' = live v - 1)) \<and>
     (\<forall>v p. \<exists>v'. v_destroy_qp V v p = (0, v') \<and> live v' = live v) \<and>
     (\<forall>v cq. \<exists>v'. v_destroy_cq V v cq = (0, v') \<and> live v' = live v) \<and>
     (\<forall>v pd. \<exists>rc v'. v_dealloc_pd V v pd = (rc, v') \<and> (rc = 0 \<longleftrightarrow> live v = 0) \<and> live v' = live v) \<and>
     (\<forall>v x. \<exists>v'. v_close_device V v x = (0, v') \<and> live v' = live v)"

lemma releasesD:
  assumes "releases V live"
  shows "0 < live v \<Longrightarrow> \<exists>v'. v_dereg_mr V v mr = (0, v') \<and> live v' = live v - 1"
    and "\<exists>v'. v_destroy_qp V v p = (0, v') \<and> live v' = live v"
    and "\<exists>v'. v_destroy_cq V v cq = (0, v') \<and> live v' = live v"
    and "\<exists>rc v'. v_dealloc_pd V v pd = (rc, v') \<and> (rc = 0 \<longleftrightarrow> live v = 0) \<and> live v' = live v"
    and "\<exists>v'. v_close_device V v x = (0, v') \<and> live v' = live v"
  using assms unfolding releases_def by blast+

section \<open>What a queue pair holds\<close>

definition blocks :: "mem_desc \<Rightarrow> nat" where
  "blocks d = length (mr_vec d)"

definition msg_blocks :: "(nat \<Rightarrow> msg_mr option) \<Rightarrow> nat list \<Rightarrow> nat" where
  "msg_blocks mrs is = sum_list (map (\<lambda>i. blocks (mr_desc (the (mrs i)))) is)"

definition held_buffers :: "qp option \<Rightarrow> nat list" where
  "held_buffers o' = (case o' of None \<Rightarrow> [] | Some q \<Rightarrow> send_msg_buf q @ recv_msg_buf q)"

definition pair_blocks :: "qp option \<Rightarrow> nat" where
  "pair_blocks o' = (case o' of None \<Rightarrow> 0
     | Some q \<Rightarrow> sum_list (map (\<lambda>d. blocks (fst d) + blocks (snd d)) (qp_mem_desc q)))"

text \<open>All message buffers in the lists of the queue pairs, all blocks registered by them.\<close>

definition all_held :: "qp option list \<Rightarrow> nat list" where
  "all_held qs = concat (map held_buffers qs)"

definition registered_blocks :: "(nat \<Rightarrow> msg_mr option) \<Rightarrow> qp option list \<Rightarrow> nat" where
  "registered_blocks mrs qs = msg_blocks mrs (all_held qs) + sum_list (map pair_blocks qs)"

text \<open>No message buffer is in two lists, and the write helpers have nothing left to write.\<close>

definition quiet :: "(nat \<Rightarrow> msg_mr option) \<Rightarrow> qp option list \<Rightarrow> bool" where
  "quiet mrs qs \<longleftrightarrow> distinct (all_held qs) \<and> (\<forall>i \<in> set (all_held qs). mrs i \<noteq> None) \<and>
     (\<forall>q. Some q \<in> set qs \<longrightarrow> (\<exists>h. helper q = Some h \<and> delete_write_helper h = Inr ()))"

section \<open>Releasing\<close>

lemma dereg_all:
  assumes V: "releases V live"
  shows "length mrs \<le> live v \<Longrightarrow>
    \<exists>v'. run (\<lambda>v mr. check_rc (v_dereg_mr V v mr)) v mrs = Inr v' \<and> live v' = live v - length mrs"
proof (induction mrs arbitrary: v)
  case (Cons mr mrs)
  have "0 < live v" using Cons.prems by simp
  with releasesD(1) [OF V] obtain v1 where v1: "v_dereg_mr V v mr = (0, v1)" "live v1 = live v - 1" by blast
  have "length mrs \<le> live v1" using Cons.prems v1(2) by simp
  from Cons.IH [OF this] v1 show ?case by (auto simp: check_rc_def)
qed simp

lemma delete_desc:
  "releases V live \<Longrightarrow> blocks d \<le> live v \<Longrightarrow> \<exists>v'. delete_IBVerbsMemDesc V d v = Inr v' \<and> live v' = live v - blocks d"
  unfolding delete_IBVerbsMemDesc_def blocks_def by (rule dereg_all)

lemma delete_messages:
  assumes V: "releases V live"
  shows "distinct is \<Longrightarrow> \<forall>i \<in> set is. n_mrs s i \<noteq> None \<Longrightarrow> msg_blocks (n_mrs s) is \<le> live (n_ext s) \<Longrightarrow>
    \<exists>v'. run (\<lambda>s i. delete_MsgMR V i s) s is = Inr (s\<lparr>n_mrs := (n_mrs s) |` (- set is), n_ext := v'\<rparr>) \<and>
      live v' = live (n_ext s) - msg_blocks (n_mrs s) is"
proof (induction "is" arbitrary: s)
  case Nil
  then show ?case by (intro exI [of _ "n_ext s"]) (simp add: msg_blocks_def restrict_map_def)
next
  case (Cons i "is")
  obtain mr where mr: "n_mrs s i = Some mr" using Cons.prems(2) by auto
  have "blocks (mr_desc mr) \<le> live (n_ext s)" using Cons.prems(3) mr by (simp add: msg_blocks_def)
  from delete_desc [OF V this] obtain v1 where
    v1: "delete_IBVerbsMemDesc V (mr_desc mr) (n_ext s) = Inr v1" "live v1 = live (n_ext s) - blocks (mr_desc mr)" by blast
  let ?s = "s\<lparr>n_mrs := (n_mrs s)(i := None), n_ext := v1\<rparr>"
  have "map (\<lambda>j. blocks (mr_desc (the (n_mrs ?s j)))) is = map (\<lambda>j. blocks (mr_desc (the (n_mrs s j)))) is"
    using Cons.prems(1) by (intro map_cong) auto
  then have same: "msg_blocks (n_mrs ?s) is = msg_blocks (n_mrs s) is" unfolding msg_blocks_def by (rule arg_cong)
  have total: "msg_blocks (n_mrs s) (i # is) = blocks (mr_desc mr) + msg_blocks (n_mrs s) is"
    using mr by (simp add: msg_blocks_def)
  have pre: "distinct is" "\<forall>j \<in> set is. n_mrs ?s j \<noteq> None" "msg_blocks (n_mrs ?s) is \<le> live (n_ext ?s)"
    using Cons.prems v1(2) unfolding same total by auto
  have one: "delete_MsgMR V i s = Inr ?s" using mr v1(1) by (simp add: delete_MsgMR_def get_mr_def)
  have shape: "?s\<lparr>n_mrs := n_mrs ?s |` (- set is), n_ext := v\<rparr> = s\<lparr>n_mrs := n_mrs s |` (- set (i # is)), n_ext := v\<rparr>" for v
  proof -
    have "(n_mrs s)(i := None) |` (- set is) = n_mrs s |` (- set (i # is))"
      by (auto simp: restrict_map_def fun_eq_iff)
    then show ?thesis by simp
  qed
  from Cons.IH [OF pre] show ?case
    unfolding same shape using one v1(2) total by auto
qed

lemma delete_pairs:
  assumes V: "releases V live"
  shows "sum_list (map (\<lambda>d. blocks (fst d) + blocks (snd d)) ds) \<le> live v \<Longrightarrow>
    \<exists>v'. run (delete_buffer_pair V) v ds = Inr v' \<and>
      live v' = live v - sum_list (map (\<lambda>d. blocks (fst d) + blocks (snd d)) ds)"
proof (induction ds arbitrary: v)
  case (Cons d ds)
  let ?rest = "sum_list (map (\<lambda>d. blocks (fst d) + blocks (snd d)) ds)"
  have le: "blocks (fst d) \<le> live v" "blocks (snd d) \<le> live v - blocks (fst d)"
    "?rest \<le> live v - blocks (fst d) - blocks (snd d)" using Cons.prems by simp_all
  from delete_desc [OF V le(1)] obtain v1 where v1: "delete_IBVerbsMemDesc V (fst d) v = Inr v1"
    "live v1 = live v - blocks (fst d)" by blast
  have "blocks (snd d) \<le> live v1" using le(2) v1(2) by simp
  from delete_desc [OF V this] obtain v2 where v2: "delete_IBVerbsMemDesc V (snd d) v1 = Inr v2"
    "live v2 = live v1 - blocks (snd d)" by blast
  have "?rest \<le> live v2" using le(3) v1(2) v2(2) by simp
  from Cons.IH [OF this] v1 v2 show ?case by (auto simp: delete_buffer_pair_def)
qed simp

section \<open>A queue pair goes\<close>

lemma msg_blocks_append [simp]: "msg_blocks mrs (is @ js) = msg_blocks mrs is + msg_blocks mrs js"
  by (simp add: msg_blocks_def)

lemma msg_blocks_restrict:
  "set is \<inter> A = {} \<Longrightarrow> msg_blocks (mrs |` (- A)) is = msg_blocks mrs is"
  unfolding msg_blocks_def by (intro arg_cong [where f = sum_list] map_cong) (auto simp: restrict_map_def)

lemma delete_QP:
  assumes V: "releases V live"
    and p: "p < length (qp_vec s)" "qp_vec s ! p = Some q"
    and h: "helper q = Some h" "delete_write_helper h = Inr ()"
    and held: "distinct (held_buffers (Some q))" "\<forall>i \<in> set (held_buffers (Some q)). n_mrs s i \<noteq> None"
    and enough: "msg_blocks (n_mrs s) (held_buffers (Some q)) + pair_blocks (Some q) \<le> live (n_ext s)"
  shows "\<exists>s'. delete_IBVerbsQP V p s = Inr s' \<and> qp_vec s' = (qp_vec s)[p := None] \<and>
    n_mrs s' = n_mrs s |` (- set (held_buffers (Some q))) \<and>
    live (n_ext s') = live (n_ext s) - msg_blocks (n_mrs s) (held_buffers (Some q)) - pair_blocks (Some q)"
proof -
  have get: "get_qp p s = Inr q" using p by (simp add: get_qp_def)
  obtain v1 where v1: "v_destroy_qp V (n_ext s) p = (0, v1)" "live v1 = live (n_ext s)"
    using releasesD(2) [OF V] by blast
  let ?s1 = "s\<lparr>n_ext := v1\<rparr>"
  have pre: "distinct (held_buffers (Some q))" "\<forall>i \<in> set (held_buffers (Some q)). n_mrs ?s1 i \<noteq> None"
    "msg_blocks (n_mrs ?s1) (held_buffers (Some q)) \<le> live (n_ext ?s1)" using held enough v1(2) by simp_all
  from delete_messages [OF V pre] obtain v3 where
    v3: "run (\<lambda>s i. delete_MsgMR V i s) ?s1 (held_buffers (Some q)) =
        Inr (?s1\<lparr>n_mrs := n_mrs ?s1 |` (- set (held_buffers (Some q))), n_ext := v3\<rparr>)"
      "live v3 = live (n_ext ?s1) - msg_blocks (n_mrs ?s1) (held_buffers (Some q))" by blast
  have "sum_list (map (\<lambda>d. blocks (fst d) + blocks (snd d)) (qp_mem_desc q)) \<le> live v3"
    using enough v1(2) v3(2) by (simp add: pair_blocks_def)
  from delete_pairs [OF V this] obtain v4 where
    v4: "run (delete_buffer_pair V) v3 (qp_mem_desc q) = Inr v4" "live v4 = live v3 - pair_blocks (Some q)"
    by (auto simp: pair_blocks_def)
  let ?s3 = "?s1\<lparr>n_mrs := n_mrs s |` (- set (held_buffers (Some q))), n_ext := v3\<rparr>"
  have msgs: "rbind (run (\<lambda>s i. delete_MsgMR V i s) ?s1 (send_msg_buf q))
      (\<lambda>s2. rbind (run (\<lambda>s i. delete_MsgMR V i s) s2 (recv_msg_buf q)) k) = k ?s3" for k
    using v3(1) by (simp add: held_buffers_def run_append rbind_assoc [symmetric])
  have "delete_IBVerbsQP V p s = Inr (?s3\<lparr>qp_vec := (qp_vec s)[p := None], n_ext := v4\<rparr>)"
    using v1(1) v4(1) h by (simp add: delete_IBVerbsQP_def get check_rc_def check_def msgs)
  then show ?thesis using v1(2) v3(2) v4(2) by simp
qed

section \<open>All queue pairs go\<close>

lemma registered_split:
  "registered_blocks mrs (o' # qs) = msg_blocks mrs (held_buffers o') + pair_blocks o' + registered_blocks mrs qs"
  by (simp add: registered_blocks_def all_held_def)

lemma quiet_tail: "quiet mrs (o' # qs) \<Longrightarrow> quiet (mrs |` (- set (held_buffers o'))) qs"
  unfolding quiet_def all_held_def by (fastforce simp: restrict_map_def)

lemma registered_tail:
  "quiet mrs (o' # qs) \<Longrightarrow>
    registered_blocks (mrs |` (- set (held_buffers o'))) qs = registered_blocks mrs qs"
  unfolding registered_blocks_def quiet_def all_held_def by (subst msg_blocks_restrict) auto

lemma delete_qps:
  assumes V: "releases V live"
  shows "qp_vec s = replicate k None @ qs \<Longrightarrow> quiet (n_mrs s) qs \<Longrightarrow>
    registered_blocks (n_mrs s) qs \<le> live (n_ext s) \<Longrightarrow>
    \<exists>s'. run (delete_qp_at V) s [k..<k + length qs] = Inr s' \<and> qp_vec s' = replicate (k + length qs) None \<and>
      live (n_ext s') = live (n_ext s) - registered_blocks (n_mrs s) qs"
proof (induction qs arbitrary: s k)
  case Nil
  then show ?case by (simp add: registered_blocks_def all_held_def msg_blocks_def)
next
  case (Cons o' qs)
  note total = registered_split [of "n_mrs s" o' qs]
  have at: "qp_vec s ! k = o'" "k < length (qp_vec s)" using Cons.prems(1) by (simp_all add: nth_append)
  have "\<exists>s1. delete_qp_at V s k = Inr s1 \<and> qp_vec s1 = replicate (Suc k) None @ qs \<and>
      n_mrs s1 = n_mrs s |` (- set (held_buffers o')) \<and>
      live (n_ext s1) = live (n_ext s) - msg_blocks (n_mrs s) (held_buffers o') - pair_blocks o'"
  proof (cases o')
    case None
    then show ?thesis using Cons.prems(1) at
      by (simp add: delete_qp_at_def held_buffers_def pair_blocks_def msg_blocks_def replicate_append_same
          restrict_map_def)
  next
    case (Some q)
    from Cons.prems(2) Some obtain h where h: "helper q = Some h" "delete_write_helper h = Inr ()"
      by (auto simp: quiet_def)
    have held: "distinct (held_buffers (Some q))" "\<forall>i \<in> set (held_buffers (Some q)). n_mrs s i \<noteq> None"
      using Cons.prems(2) Some by (simp_all add: quiet_def all_held_def)
    have enough: "msg_blocks (n_mrs s) (held_buffers (Some q)) + pair_blocks (Some q) \<le> live (n_ext s)"
      using Cons.prems(3) Some unfolding total by simp
    have "(qp_vec s)[k := None] = replicate (Suc k) None @ qs"
      using Cons.prems(1) by (simp add: list_update_append replicate_app_Cons_same)
    with delete_QP [OF V at(2) at(1) [unfolded Some] h held enough] show ?thesis
      unfolding delete_qp_at_def at(1) Some by simp
  qed
  then obtain s1 where s1: "delete_qp_at V s k = Inr s1" "qp_vec s1 = replicate (Suc k) None @ qs"
    "n_mrs s1 = n_mrs s |` (- set (held_buffers o'))"
    "live (n_ext s1) = live (n_ext s) - msg_blocks (n_mrs s) (held_buffers o') - pair_blocks o'" by blast
  have rest: "registered_blocks (n_mrs s1) qs = registered_blocks (n_mrs s) qs"
    unfolding s1(3) by (rule registered_tail [OF Cons.prems(2)])
  have "quiet (n_mrs s1) qs" unfolding s1(3) by (rule quiet_tail [OF Cons.prems(2)])
  moreover have "registered_blocks (n_mrs s1) qs \<le> live (n_ext s1)"
    using Cons.prems(3) s1(4) unfolding rest total by simp
  ultimately obtain s' where "run (delete_qp_at V) s1 [Suc k..<Suc k + length qs] = Inr s'"
    "qp_vec s' = replicate (Suc k + length qs) None" "live (n_ext s') = live (n_ext s1) - registered_blocks (n_mrs s) qs"
    using Cons.IH [OF s1(2)] unfolding rest by blast
  moreover have "[k..<k + length (o' # qs)] = k # [Suc k..<Suc k + length qs]" by (simp add: upt_conv_Cons del: upt_Suc)
  ultimately show ?case using s1(1,4) unfolding total by (auto simp del: upt_Suc)
qed

section \<open>TearDown\<close>

lemma destroy_cqs:
  assumes V: "releases V live"
  shows "\<exists>v'. run (\<lambda>v cq. check_rc (v_destroy_cq V v cq)) v cqs = Inr v' \<and> live v' = live v"
proof (induction cqs arbitrary: v)
  case (Cons cq cqs)
  obtain v1 where "v_destroy_cq V v cq = (0, v1)" "live v1 = live v" using releasesD(3) [OF V] by blast
  with Cons.IH [of v1] show ?case by (auto simp: check_rc_def check_def)
qed simp

text \<open>
  C9: of the blocks registered with the device, \<open>TearDown\<close> releases exactly those of the queue
  pairs' buffer pairs and of the message buffers in their two lists. When these are all blocks, it
  returns with every queue pair gone and nothing registered. When there are others, as those of a
  message buffer that is posted and not yet completed and so in neither list, the protection domain
  is still in use and the \<open>CHECK\<close> on its deallocation ends the process.
\<close>

theorem TearDown_releases:
  assumes V: "releases V live"
    and nd: "nd = cn_node s"
    and q: "quiet (n_mrs nd) (qp_vec nd)"
    and le: "registered_blocks (n_mrs nd) (qp_vec nd) \<le> live (n_ext nd)"
  shows "if live (n_ext nd) = registered_blocks (n_mrs nd) (qp_vec nd)
    then \<exists>s'. TearDown V s = Inr s' \<and> live (n_ext (cn_node s')) = 0 \<and>
      qp_vec (cn_node s') = replicate (length (qp_vec nd)) None
    else TearDown V s = Inl CheckFailed"
proof -
  from delete_qps [OF V, of nd 0 "qp_vec nd"] q le obtain s1 where
    s1: "run (delete_qp_at V) nd [0..<length (qp_vec nd)] = Inr s1"
      "qp_vec s1 = replicate (length (qp_vec nd)) None"
      "live (n_ext s1) = live (n_ext nd) - registered_blocks (n_mrs nd) (qp_vec nd)" by auto
  obtain v1 where v1: "run (\<lambda>v cq. check_rc (v_destroy_cq V v cq)) (n_ext s1) (cq_vec s) = Inr v1"
    "live v1 = live (n_ext s1)" using destroy_cqs [OF V] by blast
  obtain rc v2 where v2: "v_dealloc_pd V v1 (cn_pd s) = (rc, v2)" "rc = 0 \<longleftrightarrow> live v1 = 0" "live v2 = live v1"
    using releasesD(4) [OF V] by blast
  obtain v3 where v3: "v_close_device V v2 (cn_context s) = (0, v3)" "live v3 = live v2"
    using releasesD(5) [OF V] by blast
  have "TearDown V s = check (rc = 0) (Inr (s\<lparr>cn_node := s1\<lparr>n_ext := v3\<rparr>\<rparr>))"
    using s1(1) v1(1) v2(1) v3(1) by (simp add: TearDown_def nd check_rc_def check_def)
  then show ?thesis using s1(2,3) v1(2) v2(2,3) v3(2) le by (simp add: check_def)
qed

section \<open>A concrete tear-down\<close>

text \<open>A device whose state is the number of its registrations.\<close>

definition counting_verbs :: "nat verbs" where
  "counting_verbs = \<lparr>v_get_device_list = (\<lambda>v. (Some [0], v)), v_open_device = (\<lambda>v d. (Some 0, v)),
     v_alloc_pd = (\<lambda>v x. (Some 0, v)), v_query_device = (\<lambda>v x. (0, \<lparr>max_qp_wr = 4, max_cqe = 16\<rparr>)),
     v_create_cq = (\<lambda>v x n. (Some 0, v)), v_query_port = (\<lambda>v x. (0, \<lparr>port_lid = 3, active_mtu = 5\<rparr>)),
     v_query_gid = (\<lambda>v x. (0, \<lparr>gid_subnet_prefix = 1, gid_interface_id = 2\<rparr>)),
     v_create_qp = (\<lambda>v pd p i. (Some 7, v)), v_modify_qp = (\<lambda>v p a m. (0, v)),
     v_destroy_qp = (\<lambda>v p. (0, v)), v_dereg_mr = (\<lambda>v m. (if 0 < v then 0 else 22, v - 1)),
     v_destroy_cq = (\<lambda>v x. (0, v)), v_dealloc_pd = (\<lambda>v x. (if v = 0 then 0 else 16, v)),
     v_close_device = (\<lambda>v x. (0, v))\<rparr>"

lemma counting_verbs_ok: "releases counting_verbs (\<lambda>v. v)"
  by (simp add: releases_def counting_verbs_def)

text \<open>
  A queue pair with a receive and a send buffer (0 and 1) and one buffer pair; message buffer 2
  is in neither list when \<open>n\<close> is 3.
\<close>

definition one_block :: mem_desc where
  "one_block = \<lparr>sge_vec = [], mr_vec = [\<lparr>mr_lkey = 1, mr_rkey = 2\<rparr>]\<rparr>"

definition idle_helper :: write_helper where
  "idle_helper = \<lparr>buffer_id = 0, pending_record_queue = [], cur_record_queue = [], idle_buffer_queue = [0],
     cur_record = \<lparr>wr_machine_id = 0, wr_begin_addr = 0, wr_bytes = 0, wr_offset = 0, wr_cb = None\<rparr>,
     cur_write_handle = h_InitWriteHandle, send_recv_pair = []\<rparr>"

definition idle_qp :: qp where
  "idle_qp = \<lparr>this_machine_id = 0, peer_machine_id = 1, recv_msg_buf = [0], send_msg_buf = [1],
     helper = Some idle_helper, qp_mem_desc = [(one_block, one_block)], send_recv_mem_desc = [],
     read_queue = [], read_done_cbs = []\<rparr>"

definition idle_net :: "nat \<Rightarrow> nat comm_net" where
  "idle_net n = \<lparr>cn_node = \<lparr>n_mem = (\<lambda>_. 0),
       n_mrs = (\<lambda>i. if i < n then Some \<lparr>mr_desc = one_block, mr_ptr = 0, mr_msg_type_key = 0, mr_cb = None\<rparr> else None),
       next_mr = n, n_wrs = (\<lambda>_. None), next_wr = 0, qp_vec = [None, Some idle_qp],
       msg_handlers = (\<lambda>_. None), n_ext = n + 2\<rparr>,
     cn_this = 0, cn_peers = [1], cn_context = 0, cn_pd = 0, cq_vec = [0], poller_vec = [0]\<rparr>"

lemma idle_net_facts:
  assumes "2 \<le> n"
  shows "quiet (n_mrs (cn_node (idle_net n))) (qp_vec (cn_node (idle_net n)))"
    and "registered_blocks (n_mrs (cn_node (idle_net n))) (qp_vec (cn_node (idle_net n))) = 4"
    and "n_ext (cn_node (idle_net n)) = n + 2"
  using assms by (simp_all add: idle_net_def quiet_def registered_blocks_def all_held_def held_buffers_def
      pair_blocks_def msg_blocks_def blocks_def one_block_def idle_qp_def idle_helper_def
      delete_write_helper_def check_def)

theorem TearDown_releases_witness:
  "(\<exists>s'. TearDown counting_verbs (idle_net 2) = Inr s' \<and> n_ext (cn_node s') = 0) \<and>
   TearDown counting_verbs (idle_net 3) = Inl CheckFailed"
proof
  show "\<exists>s'. TearDown counting_verbs (idle_net 2) = Inr s' \<and> n_ext (cn_node s') = 0"
    using TearDown_releases [OF counting_verbs_ok refl idle_net_facts(1), of 2] by (auto simp: idle_net_facts)
  show "TearDown counting_verbs (idle_net 3) = Inl CheckFailed"
    using TearDown_releases [OF counting_verbs_ok refl idle_net_facts(1), of 3] by (simp add: idle_net_facts)
qed

end
