(* ===== verification/MsgBuffers.thy ===== *)
theory MsgBuffers
  imports Poller "HOL-Library.Multiset"
begin

text \<open>
  Where the message buffers of a machine are. A buffer is free (in a \<open>send_msg_buf_\<close>) or named
  by one outstanding work request, over any calls of the public operations and any completions.
  A running operation may hold buffers of its own for a while: \<open>held M\<close> is the invariant with
  these set apart.
\<close>

section \<open>Counting\<close>

definition free_of :: "qp option \<Rightarrow> nat multiset" where
  "free_of o' = (case o' of None \<Rightarrow> {#} | Some q \<Rightarrow> mset (send_msg_buf q))"

definition named_by :: "work_request_id option \<Rightarrow> nat multiset" where
  "named_by o' = (case o' of None \<Rightarrow> {#}
     | Some x \<Rightarrow> (case wrid_msg_mr x of None \<Rightarrow> {#} | Some i \<Rightarrow> {#i#}))"

text \<open>The free message buffers, and those of the outstanding work requests.\<close>

definition free_buffers :: "'v node \<Rightarrow> nat multiset" where
  "free_buffers s = (\<Sum>p < length (qp_vec s). free_of (qp_vec s ! p))"

definition buffers_in_flight :: "'v node \<Rightarrow> nat multiset" where
  "buffers_in_flight s = (\<Sum>w < next_wr s. named_by (n_wrs s w))"

text \<open>The receive buffers of the queue pairs.\<close>

definition recv_bufs :: "'v node \<Rightarrow> nat list option list" where
  "recv_bufs s = map (map_option recv_msg_buf) (qp_vec s)"

definition receives_into :: "'v node \<Rightarrow> nat \<Rightarrow> bool" where
  "receives_into s i \<longleftrightarrow> (\<exists>is. Some is \<in> set (recv_bufs s) \<and> i \<in> set is)"

lemma sum_upd:
  fixes k n :: nat
  assumes "k < n"
  shows "(\<Sum>j < n. (if j = k then y else f j)) + f k = (\<Sum>j < n. f j) + (y :: nat multiset)"
  using assms by (simp add: sum.remove [of "{..<n}" k] ac_simps)

lemma free_of_simps [simp]: "free_of None = {#}" "free_of (Some q) = mset (send_msg_buf q)"
  by (simp_all add: free_of_def)

lemma named_by_simps [simp]:
  "named_by None = {#}" "wrid_msg_mr x = None \<Longrightarrow> named_by (Some x) = {#}"
  "wrid_msg_mr x = Some i \<Longrightarrow> named_by (Some x) = {#i#}"
  by (simp_all add: named_by_def)

lemma free_buffers_put_qp:
  assumes "get_qp p s = Inr q"
  shows "free_buffers (put_qp p q' s) + mset (send_msg_buf q) = free_buffers s + mset (send_msg_buf q')"
proof -
  have p: "p < length (qp_vec s)" "qp_vec s ! p = Some q" using assms by (simp_all add: get_qp_Inr)
  have "(\<Sum>j < length (qp_vec s). free_of ((qp_vec s)[p := Some q'] ! j)) =
      (\<Sum>j < length (qp_vec s). if j = p then mset (send_msg_buf q') else free_of (qp_vec s ! j))"
    using p by (intro sum.cong) (auto simp: nth_list_update)
  with sum_upd [OF p(1), of "mset (send_msg_buf q')" "\<lambda>j. free_of (qp_vec s ! j)"] p show ?thesis
    by (simp add: free_buffers_def put_qp_def)
qed

lemma recv_bufs_put_qp [simp]:
  "get_qp p s = Inr q \<Longrightarrow> recv_msg_buf q' = recv_msg_buf q \<Longrightarrow> recv_bufs (put_qp p q' s) = recv_bufs s"
  by (auto simp: recv_bufs_def put_qp_def get_qp_Inr map_update intro!: list_update_same_conv [THEN iffD2])

lemma in_flight_upd:
  "w < next_wr s \<Longrightarrow>
     buffers_in_flight (s\<lparr>n_wrs := (n_wrs s)(w := x)\<rparr>) + named_by (n_wrs s w) =
     buffers_in_flight s + named_by x"
  using sum_upd [of w "next_wr s" "named_by x" "\<lambda>w. named_by (n_wrs s w)"]
  by (simp add: buffers_in_flight_def fun_upd_def if_distrib cong: if_cong)

text \<open>Every operation that makes a work request sets all its fields at once.\<close>

definition add_wr :: "work_request_id \<Rightarrow> 'v node \<Rightarrow> 'v node" where
  "add_wr x s = s\<lparr>next_wr := Suc (next_wr s), n_wrs := (n_wrs s)(next_wr s \<mapsto> x)\<rparr>"

lemma put_new_wr:
  "put_wr (next_wr s) x (s\<lparr>n_wrs := (n_wrs s)(next_wr s \<mapsto> y), next_wr := Suc (next_wr s)\<rparr>) = add_wr x s"
  by (simp add: put_wr_def add_wr_def)

lemmas new_wr_is_add = NewWorkRequestId_def put_new_wr

lemma add_wr_simps [simp]:
  "n_wrs (add_wr x s) = (n_wrs s)(next_wr s \<mapsto> x)" "next_wr (add_wr x s) = Suc (next_wr s)"
  "n_mrs (add_wr x s) = n_mrs s" "next_mr (add_wr x s) = next_mr s"
  "qp_vec (add_wr x s) = qp_vec s"
  "buffers_in_flight (add_wr x s) = buffers_in_flight s + named_by (Some x)"
  "free_buffers (add_wr x s) = free_buffers s" "recv_bufs (add_wr x s) = recv_bufs s"
  by (simp_all add: add_wr_def buffers_in_flight_def free_buffers_def recv_bufs_def)

lemma put_qp_counters [simp]:
  "next_wr (put_qp p q s) = next_wr s" "next_mr (put_qp p q s) = next_mr s"
  by (simp_all add: put_qp_def)

text \<open>What the counts and the invariant do not depend on.\<close>

lemma buffer_frame [simp]:
  "free_buffers (s\<lparr>n_mem := m\<rparr>) = free_buffers s" "free_buffers (s\<lparr>n_ext := v\<rparr>) = free_buffers s"
  "free_buffers (s\<lparr>n_wrs := f\<rparr>) = free_buffers s" "free_buffers (s\<lparr>next_wr := k\<rparr>) = free_buffers s"
  "free_buffers (s\<lparr>n_mrs := g\<rparr>) = free_buffers s" "free_buffers (s\<lparr>next_mr := k\<rparr>) = free_buffers s"
  "free_buffers (s\<lparr>msg_handlers := t\<rparr>) = free_buffers s"
  by (simp_all add: free_buffers_def)

lemma in_flight_frame [simp]:
  "buffers_in_flight (s\<lparr>n_mem := m\<rparr>) = buffers_in_flight s"
  "buffers_in_flight (s\<lparr>n_ext := v\<rparr>) = buffers_in_flight s"
  "buffers_in_flight (s\<lparr>n_mrs := g\<rparr>) = buffers_in_flight s"
  "buffers_in_flight (s\<lparr>next_mr := k\<rparr>) = buffers_in_flight s"
  "buffers_in_flight (s\<lparr>msg_handlers := t\<rparr>) = buffers_in_flight s"
  "buffers_in_flight (put_qp p q s) = buffers_in_flight s"
  by (simp_all add: buffers_in_flight_def put_qp_def)

lemma recv_bufs_frame [simp]:
  "recv_bufs (s\<lparr>n_mem := m\<rparr>) = recv_bufs s" "recv_bufs (s\<lparr>n_ext := v\<rparr>) = recv_bufs s"
  "recv_bufs (s\<lparr>n_wrs := f\<rparr>) = recv_bufs s" "recv_bufs (s\<lparr>next_wr := k\<rparr>) = recv_bufs s"
  "recv_bufs (s\<lparr>n_mrs := g\<rparr>) = recv_bufs s" "recv_bufs (s\<lparr>next_mr := k\<rparr>) = recv_bufs s"
  "recv_bufs (s\<lparr>msg_handlers := t\<rparr>) = recv_bufs s"
  by (simp_all add: recv_bufs_def)

section \<open>The invariant\<close>

definition held :: "nat multiset \<Rightarrow> 'v node \<Rightarrow> bool" where
  "held M s \<longleftrightarrow>
     free_buffers s + M + buffers_in_flight s = mset [0..<next_mr s] \<and>
     (\<forall>i. i \<in># free_buffers s + M \<longrightarrow> \<not> receives_into s i) \<and>
     (\<forall>i. receives_into s i \<longrightarrow> i < next_mr s) \<and>
     (\<forall>w. next_wr s \<le> w \<longrightarrow> n_wrs s w = None) \<and> (\<forall>i. n_mrs s i \<noteq> None \<longleftrightarrow> i < next_mr s)"

definition buffers_home :: "'v node \<Rightarrow> bool" where
  "buffers_home s \<longleftrightarrow> held {#} s"

text \<open>
  What a piece of an operation does, whatever else is held: it takes the buffers \<open>A\<close> and leaves
  \<open>B\<close> to the rest, and the outstanding work requests and the receive buffers stay. A whole
  call takes and leaves nothing.
\<close>

definition moved :: "nat multiset \<Rightarrow> nat multiset \<Rightarrow> 'v node \<Rightarrow> 'v node \<Rightarrow> bool" where
  "moved A B s s' \<longleftrightarrow> (\<forall>M. held (A + M) s \<longrightarrow> held (B + M) s' \<and> recv_bufs s' = recv_bufs s \<and>
     (\<forall>w x. n_wrs s w = Some x \<longrightarrow> n_wrs s' w = Some x))"

abbreviation kept :: "'v node \<Rightarrow> 'v node \<Rightarrow> bool" where
  "kept \<equiv> moved {#} {#}"

lemma kept_refl [simp]: "kept s s"
  by (simp add: moved_def)

lemma moved_trans [trans]: "moved A B s t \<Longrightarrow> moved B C t u \<Longrightarrow> moved A C s u"
  unfolding moved_def by metis

lemma keptD:
  assumes "kept s s'" and "held M s"
  shows "held M s'" and "recv_bufs s' = recv_bufs s"
    and "n_wrs s w = Some x \<Longrightarrow> n_wrs s' w = Some x"
  using assms unfolding moved_def by auto

lemma kept_moved: "kept s s' \<Longrightarrow> moved A A s s'"
  by (auto simp: moved_def dest: keptD)

lemma held_frame [simp]:
  "held M (s\<lparr>n_mem := m\<rparr>) = held M s" "held M (s\<lparr>n_ext := v\<rparr>) = held M s"
  "held M (s\<lparr>msg_handlers := t\<rparr>) = held M s"
  by (simp_all add: held_def receives_into_def)

lemma kept_frame [simp]:
  "kept s (s'\<lparr>n_mem := m\<rparr>) = kept s s'" "kept (s\<lparr>n_mem := m\<rparr>) s' = kept s s'"
  "kept s (s'\<lparr>n_ext := v\<rparr>) = kept s s'" "kept s (s'\<lparr>msg_handlers := t\<rparr>) = kept s s'"
  by (simp_all add: moved_def)

section \<open>Calls that keep the buffers in place\<close>

lemma kept_put_qp:
  assumes "get_qp p s = Inr q" and "send_msg_buf q' = send_msg_buf q" and "recv_msg_buf q' = recv_msg_buf q"
  shows "kept s (put_qp p q' s)"
proof -
  have "free_buffers (put_qp p q' s) = free_buffers s"
    using free_buffers_put_qp [OF assms(1), of q'] assms(2) by simp
  then show ?thesis
    using assms by (simp add: moved_def held_def receives_into_def)
qed

lemma kept_run:
  assumes "\<And>s e s'. f s e = Inr s' \<Longrightarrow> kept s s'" and "run f s es = Inr s'"
  shows "kept s s'"
  using assms(2)
proof (induction es arbitrary: s)
  case (Cons e es)
  then show ?case by (auto simp: res_eqs intro: moved_trans [OF assms(1)])
qed simp

lemma kept_post_send: "post_send E p wr s = Inr s' \<Longrightarrow> kept s s'"
  by (auto simp: post_send_def res_eqs split: prod.splits)

lemma moved_new_wr: "moved (named_by (Some x)) {#} s (add_wr x s)"
proof -
  have "n_wrs s (next_wr s) \<noteq> Some y" if "held M s" for M y using that by (simp add: held_def)
  then show ?thesis by (auto simp: moved_def held_def receives_into_def ac_simps)
qed

lemma kept_new_wr: "wrid_msg_mr x = None \<Longrightarrow> kept s (add_wr x s)"
  using moved_new_wr [of x s] by simp

lemma kept_post_writes: "post_writes E p w rm lm b num k i s = Inr s' \<Longrightarrow> kept s s'"
proof (induction k arbitrary: i s)
  case (Suc k)
  then show ?case by (auto simp: res_eqs intro: moved_trans [OF kept_post_send])
qed simp

lemma kept_PostWriteRequest: "PostWriteRequest E p rm lm b num s = Inr s' \<Longrightarrow> kept s s'"
  by (auto simp: PostWriteRequest_def new_wr_is_add split: prod.splits
      dest!: kept_post_writes elim!: moved_trans [OF kept_new_wr, rotated])

lemma kept_n2r: "Normal2RegisterDone E mid sd rd b num s = Inr s' \<Longrightarrow> kept s s'"
  by (auto simp: Normal2RegisterDone_def res_eqs kept_PostWriteRequest)

text \<open>The write helper changes the node only through the calls it makes.\<close>

lemma call_handle_calls:
  assumes "\<And>n. R n n" and "\<And>mid sd rd b num n n'. n2r mid sd rd b num n = Inr n' \<Longrightarrow> R n n'"
    and "call_handle c n2r st = Inr (go, st')"
  shows "R (snd (snd st)) (snd (snd st'))"
proof -
  obtain h m n where st: "st = (h, m, n)" by (cases st)
  show ?thesis
    using assms unfolding st
    by (cases "cur_write_handle h")
      (auto simp: handle_defs write_piece_def res_eqs Let_def split: list.splits if_splits prod.splits)
qed

lemma write_loop_calls:
  assumes "\<And>n. R n n" and "\<And>n n' n''. R n n' \<Longrightarrow> R n' n'' \<Longrightarrow> R n n''"
    and "\<And>mid sd rd b num n n'. n2r mid sd rd b num n = Inr n' \<Longrightarrow> R n n'"
    and "WriteUntilQueueEmptyOrNoBuffer c n2r st = Inr st'"
  shows "R (snd (snd st)) (snd (snd st'))"
  using assms(3,4)
proof (induction c n2r st arbitrary: st' rule: WriteUntilQueueEmptyOrNoBuffer.induct)
  case (1 c n2r st)
  from "1.prems"(2) obtain go st1 where t: "call_handle c n2r st = Inr (go, st1)"
    and rest: "(if go then WriteUntilQueueEmptyOrNoBuffer c n2r st1 else Inr st1) = Inr st'"
    by (subst (asm) WriteUntilQueueEmptyOrNoBuffer.simps) (auto simp: res_eqs)
  have first: "R (snd (snd st)) (snd (snd st1))"
    using call_handle_calls [where R = R, OF assms(1) "1.prems"(1) t] .
  show ?case
  proof (cases go)
    case True
    from "1.IH" [OF t refl True "1.prems"(1)] rest True have "R (snd (snd st1)) (snd (snd st'))" by simp
    with first show ?thesis by (rule assms(2))
  next
    case False
    with rest first show ?thesis by simp
  qed
qed

lemma kept_with_helper:
  assumes "\<And>h m n h' m' n'. f (h, m, n) = Inr (h', m', n') \<Longrightarrow> kept n n'"
    and "with_helper p f s = Inr s'"
  shows "kept s s'"
proof -
  obtain h h' m' s1 q' where f: "f (h, n_mem s, s) = Inr (h', m', s1)"
    and q': "get_qp p s1 = Inr q'" and s': "s' = (put_qp p (q'\<lparr>helper := Some h'\<rparr>) s1)\<lparr>n_mem := m'\<rparr>"
    using assms(2) by (auto simp: with_helper_def res_eqs split: option.splits)
  note assms(1) [OF f]
  also have "kept s1 s'" using kept_put_qp [OF q', of "q'\<lparr>helper := Some h'\<rparr>"] by (simp add: s')
  finally show ?thesis .
qed

lemma kept_helper_calls:
  "helper_AsyncWrite E p r s = Inr s' \<Longrightarrow> kept s s'" "helper_FreeBuffer E p b s = Inr s' \<Longrightarrow> kept s s'"
proof -
  have loop: "kept n n'"
    if "WriteUntilQueueEmptyOrNoBuffer (e_cfg E) (Normal2RegisterDone E) (h, m, n) = Inr (h', m', n')"
    for h m n h' m' n'
    using write_loop_calls [where R = kept, OF kept_refl moved_trans kept_n2r that] by simp
  show "helper_AsyncWrite E p r s = Inr s' \<Longrightarrow> kept s s'"
    unfolding helper_AsyncWrite_def
    by (rule kept_with_helper) (auto simp: AsyncWrite_def NotifyMeToWrite_def Let_def dest: loop split: if_splits)
  show "helper_FreeBuffer E p b s = Inr s' \<Longrightarrow> kept s s'"
    unfolding helper_FreeBuffer_def
    by (rule kept_with_helper) (auto simp: FreeBuffer_def NotifyMeToWrite_def dest: loop)
qed

section \<open>Sending\<close>

lemma new_MsgMR_moved:
  assumes "new_MsgMR E s = Inr (i, s')"
  shows "moved {#} {#i#} s s'" and "qp_vec s' = qp_vec s"
proof -
  obtain m mr v where i: "i = next_mr s" and s': "s' = s\<lparr>n_mem := m,
      n_mrs := (n_mrs s)(next_mr s \<mapsto> mr), next_mr := Suc (next_mr s), n_ext := v\<rparr>"
    using assms by (auto simp: new_MsgMR_def Let_def res_eqs split: prod.splits if_splits)
  show "qp_vec s' = qp_vec s" by (simp add: s')
  have "buffers_in_flight s' = buffers_in_flight s" "free_buffers s' = free_buffers s"
    "recv_bufs s' = recv_bufs s"
    by (simp_all add: s' buffers_in_flight_def free_buffers_def recv_bufs_def)
  then show "moved {#} {#i#} s s'"
    by (auto simp: moved_def held_def receives_into_def i s' less_Suc_eq)
qed

lemma moved_free:
  assumes "get_qp p s = Inr q" and "recv_msg_buf q' = recv_msg_buf q"
    and "A + mset (send_msg_buf q) = B + mset (send_msg_buf q')"
  shows "moved A B s (put_qp p q' s)"
  unfolding moved_def
proof (intro allI impI conjI)
  fix M assume h: "held (A + M) s"
  have "free_buffers (put_qp p q' s) + B + (mset (send_msg_buf q) + mset (send_msg_buf q')) =
      free_buffers s + A + (mset (send_msg_buf q) + mset (send_msg_buf q'))"
    using free_buffers_put_qp [OF assms(1), of q'] assms(3) by (metis add.assoc add.commute)
  then have "free_buffers (put_qp p q' s) + B = free_buffers s + A" by simp
  then have e: "free_buffers (put_qp p q' s) + (B + M) = free_buffers s + (A + M)"
    by (simp only: add.assoc [symmetric])
  have r: "receives_into (put_qp p q' s) = receives_into s"
    using assms(1,2) by (simp add: fun_eq_iff receives_into_def)
  show "held (B + M) (put_qp p q' s)"
    using h unfolding held_def e r by simp
qed (use assms in auto)

lemma GetOne_moved:
  assumes "GetOneSendMsgMRFromBuf E p s = Inr (i, s')"
  shows "moved {#} {#i#} s s'"
proof -
  obtain q where q: "get_qp p s = Inr q"
    using assms by (auto simp: GetOneSendMsgMRFromBuf_def res_eqs)
  show ?thesis
  proof (cases "send_msg_buf q")
    case Nil
    then obtain s1 where s1: "new_MsgMR E s = Inr (i, s1)"
      and s': "s' = put_qp p (q\<lparr>send_msg_buf := []\<rparr>) s1"
      using assms q by (auto simp: GetOneSendMsgMRFromBuf_def res_eqs queue_front_Inr)
    have "get_qp p s1 = Inr q" using q new_MsgMR_moved(2) [OF s1] by (simp add: get_qp_Inr)
    with Nil have "moved {#i#} {#i#} s1 s'" unfolding s' by (intro moved_free) auto
    with new_MsgMR_moved(1) [OF s1] show ?thesis by (rule moved_trans)
  next
    case (Cons j js)
    then have "i = j" "s' = put_qp p (q\<lparr>send_msg_buf := js\<rparr>) s"
      using assms q by (auto simp: GetOneSendMsgMRFromBuf_def res_eqs queue_front_Inr)
    with q Cons show ?thesis by (auto intro: moved_free)
  qed
qed

lemma kept_set_msg:
  assumes "set_msg E i key src n cb s = Inr s'"
  shows "kept s s'"
proof -
  obtain mr mr' m where mr: "n_mrs s i = Some mr" and s': "s' = s\<lparr>n_mem := m, n_mrs := (n_mrs s)(i \<mapsto> mr')\<rparr>"
    using assms by (auto simp: set_msg_def get_mr_def Let_def res_eqs split: option.splits if_splits)
  have "receives_into s' = receives_into s" by (simp add: s' receives_into_def fun_eq_iff)
  moreover have "n_mrs s' j \<noteq> None \<longleftrightarrow> n_mrs s j \<noteq> None" for j using mr by (simp add: s')
  ultimately show ?thesis by (simp add: moved_def held_def) (simp add: s')
qed

lemma PostSendRequest_moves:
  assumes "PostSendRequest E p msg s = Inr s'"
  obtains key src n s1 where "send_switch E p msg s = Inr (key, src, n, s1)" and "kept s1 s'"
proof -
  let ?x = "\<lambda>i. \<lparr>wrid_qp = p, outstanding_sge_cnt = 0, wrid_msg_mr = Some i\<rparr>"
  obtain key src n s1 i s2 s3 wr where s1: "send_switch E p msg s = Inr (key, src, n, s1)"
    and s2: "GetOneSendMsgMRFromBuf E p s1 = Inr (i, s2)"
    and s3: "set_msg E i key src n (m_cb msg) s2 = Inr s3"
    and s': "post_send E p wr (add_wr (?x i) s3) = Inr s'"
    using assms by (auto simp: PostSendRequest_def res_eqs new_wr_is_add Let_def)
  from s2 have "moved {#} {#i#} s1 s2" by (rule GetOne_moved)
  also have "moved {#i#} {#i#} s2 s3" by (rule kept_moved [OF kept_set_msg [OF s3]])
  also have "moved {#i#} {#} s3 (add_wr (?x i) s3)" using moved_new_wr [of "?x i" s3] by simp
  also note kept_post_send [OF s']
  finally show ?thesis using s1 by (rule that [rotated])
qed

section \<open>What user code can do\<close>

text \<open>
  A call of the public operations, or work of the user's own (on memory, and on state outside
  the library). User code is any sequence of these: this is what is assumed of callbacks and
  message handlers.
\<close>

datatype 'v user_call =
    call_SendMsg i64 i32 u64 u64 "callback option"
  | call_DoRead i64 u64 u64 u64 "callback option"
  | call_RegisterReadDoneCb i64 "callback option"
  | call_RegisterMsgHandler i32 "nat option"
  | own_work memory 'v

fun perform :: "'v env \<Rightarrow> 'v node \<Rightarrow> 'v user_call \<Rightarrow> 'v node res" where
  "perform E s (call_SendMsg mid t a n cb) = SendMsg E mid t a n cb s"
| "perform E s (call_DoRead mid a n d cb) = DoRead E mid a n d cb s"
| "perform E s (call_RegisterReadDoneCb mid cb) = RegisterReadDoneCb mid cb s"
| "perform E s (call_RegisterMsgHandler t h) = Inr (RegisterMsgHandler t h s)"
| "perform E s (own_work m v) = Inr (s\<lparr>n_mem := m, n_ext := v\<rparr>)"

definition user_code :: "'v env \<Rightarrow> bool" where
  "user_code E \<longleftrightarrow>
     (\<forall>f s s'. e_run_cb E f s = Inr s' \<longrightarrow> (\<exists>cs. run (perform E) s cs = Inr s')) \<and>
     (\<forall>h a n s s'. e_run_handler E h a n s = Inr s' \<longrightarrow> (\<exists>cs. run (perform E) s cs = Inr s'))"

lemma send_switch_plain:
  "send_switch E p msg s = Inr (key, src, n, s1) \<Longrightarrow> m_type msg \<noteq> kFreeBufferPair \<Longrightarrow> s1 = s"
  by (auto simp: send_switch_def res_eqs split: msg_type.splits msg_body.splits if_splits)

lemma kept_push_read_record: "push_read_record p r s = Inr s' \<Longrightarrow> kept s s'"
  by (auto simp: push_read_record_def res_eqs intro: kept_put_qp)

lemma kept_SendMsg: "SendMsg E mid t a n cb s = Inr s' \<Longrightarrow> kept s s'"
  by (auto simp: SendMsg_def res_eqs Let_def Msg_UserMsg_def split: if_splits
      elim!: PostSendRequest_moves dest!: send_switch_plain)

lemma kept_DoRead: "DoRead E mid a n d cb s = Inr s' \<Longrightarrow> kept s s'"
  by (auto simp: DoRead_def DealWorkRecord_def res_eqs Let_def Msg_PleaseWrite_def
      elim!: PostSendRequest_moves dest!: send_switch_plain kept_push_read_record
      intro: moved_trans)

lemma kept_perform: "perform E s c = Inr s' \<Longrightarrow> kept s s'"
  by (cases c)
    (auto simp: kept_SendMsg kept_DoRead RegisterReadDoneCb_def qp_RegisterReadDoneCb_def
      RegisterMsgHandler_def res_eqs intro: kept_put_qp)

lemma kept_user:
  assumes "user_code E"
  shows "e_run_cb E f s = Inr s' \<Longrightarrow> kept s s'" and "e_run_handler E h a n s = Inr s' \<Longrightarrow> kept s s'"
proof -
  have "kept s s'" if "run (perform E) s cs = Inr s'" for cs
    using kept_run [where f = "perform E", OF _ that] kept_perform by blast
  with assms show "e_run_cb E f s = Inr s' \<Longrightarrow> kept s s'" "e_run_handler E h a n s = Inr s' \<Longrightarrow> kept s s'"
    unfolding user_code_def by blast+
qed

lemma kept_callback: "user_code E \<Longrightarrow> run_callback E cb s = Inr s' \<Longrightarrow> kept s s'"
  by (auto simp: run_callback_def dest: kept_user(1) split: option.splits)

lemma kept_put_callback:
  assumes "user_code E" and "get_qp p s = Inr q" and "send_msg_buf q' = send_msg_buf q"
    and "recv_msg_buf q' = recv_msg_buf q" and "run_callback E cb (put_qp p q' s) = Inr s'"
  shows "kept s s'"
  using kept_put_qp [OF assms(2-4)] kept_callback [OF assms(1,5)] by (rule moved_trans)

lemma kept_send_switch:
  assumes "user_code E" and "send_switch E p msg s = Inr (key, src, n, s1)"
  shows "kept s s1"
proof (cases "m_type msg = kFreeBufferPair")
  case True
  with assms show ?thesis
    by (auto simp: send_switch_def res_eqs split: msg_body.splits if_splits elim!: kept_put_callback [rotated 4])
next
  case False
  with send_switch_plain [OF assms(2)] show ?thesis by simp
qed

lemma kept_PostSendRequest: "user_code E \<Longrightarrow> PostSendRequest E p msg s = Inr s' \<Longrightarrow> kept s s'"
  by (elim PostSendRequest_moves) (rule moved_trans [OF kept_send_switch])

section \<open>Completions\<close>

lemma kept_SetWorkRecordOffset: "SetWorkRecordOffset mid off s = Inr s' \<Longrightarrow> kept s s'"
  by (auto simp: SetWorkRecordOffset_def qp_SetWorkRecordOffset_def res_eqs intro: kept_put_qp)

lemma SyncRead_calls:
  assumes "SyncRead c get_rec set_off r2n mid b d (m, n) = Inr mn'"
  obtains off n1 is_last m1 where "set_off mid off n = Inr n1" and "r2n mid b is_last (m1, n1) = Inr mn'"
  using assms by (auto simp: SyncRead_def res_eqs Let_def)

lemma kept_SyncRead:
  assumes "user_code E" and "helper_SyncRead E p mid b d s = Inr s'"
  shows "kept s s'"
proof -
  obtain m' t where t: "SyncRead (e_cfg E) GetWorkRecord SetWorkRecordOffset (node_r2n E) mid b d (n_mem s, s)
      = Inr (m', t)" and s': "s' = t\<lparr>n_mem := m'\<rparr>"
    using assms(2) by (auto simp: helper_SyncRead_def res_eqs split: if_splits)
  from t obtain off n1 is_last m1 where "SetWorkRecordOffset mid off s = Inr n1"
    and "node_r2n E mid b is_last (m1, n1) = Inr (m', t)" by (rule SyncRead_calls)
  moreover from this(2) have "kept n1 t"
    using kept_PostSendRequest [OF assms(1)]
    by (fastforce simp: node_r2n_def Register2NormalDone_def res_eqs Let_def)
  ultimately show ?thesis unfolding s' by (auto dest: kept_SetWorkRecordOffset intro: moved_trans)
qed

lemma kept_recv_switch:
  assumes u: "user_code E" and "recv_switch E p key a n s = Inr s'"
  shows "kept s s'"
proof (cases "sint key < sint (msg_type_int kNumType)")
  case True
  with assms(2) have "recv_control E p key a n s = Inr s'" by (simp add: recv_switch_def)
  then show ?thesis
    by (auto simp: recv_control_def res_eqs Let_def split: if_splits
        dest!: kept_helper_calls elim!: moved_trans kept_put_callback [OF u, rotated 3])
next
  case False
  with assms(2) show ?thesis
    by (auto simp: recv_switch_def recv_user_def res_eqs split: option.splits dest: kept_user(2) [OF u])
qed

lemma DeleteWorkRequestId_Inr:
  "DeleteWorkRequestId p w s = Inr s' \<longleftrightarrow>
     (\<exists>x. n_wrs s w = Some x \<and> wrid_qp x = p \<and> s' = s\<lparr>n_wrs := (n_wrs s)(w := None)\<rparr>)"
  by (auto simp: DeleteWorkRequestId_def get_wr_def res_eqs split: option.splits)

lemma held_wr: "held M s \<Longrightarrow> n_wrs s w = Some x \<Longrightarrow> w < next_wr s"
  by (metis held_def leI option.distinct(1))

text \<open>A receive buffer that is posted again moves from the completed request to the new one.\<close>

lemma home_repost:
  assumes h: "buffers_home s" and w: "n_wrs s w = Some x" "wrid_msg_mr x = Some i"
    and post: "PostRecvRequest E p i s = Inr t" and del: "DeleteWorkRequestId p w t = Inr s'"
  shows "buffers_home s' \<and> recv_bufs s' = recv_bufs s"
proof -
  let ?t = "add_wr \<lparr>wrid_qp = p, outstanding_sge_cnt = 0, wrid_msg_mr = Some i\<rparr> s"
  have lt: "w < next_wr s" using h w(1) held_wr unfolding buffers_home_def by blast
  obtain v where t: "t = ?t\<lparr>n_ext := v\<rparr>"
    using post by (auto simp: PostRecvRequest_def new_wr_is_add res_eqs Let_def split_beta)
  have s': "s' = t\<lparr>n_wrs := (n_wrs t)(w := None)\<rparr>" using del by (auto simp: DeleteWorkRequestId_Inr)
  have "buffers_in_flight s' + {#i#} = buffers_in_flight s + {#i#}"
    using in_flight_upd [of w t None] lt w by (simp add: s' t)
  with h show ?thesis
    by (auto simp: buffers_home_def held_def receives_into_def s' t)
qed

text \<open>A send buffer goes back to the free ones.\<close>

lemma home_send_done:
  assumes h: "buffers_home s" and w: "n_wrs s w = Some x" "wrid_msg_mr x = Some i"
    and i: "\<not> receives_into s i" and q: "get_qp p s = Inr q"
    and del: "DeleteWorkRequestId p w (put_qp p (q\<lparr>send_msg_buf := queue_push (send_msg_buf q) i\<rparr>) s) = Inr s'"
  shows "buffers_home s' \<and> recv_bufs s' = recv_bufs s"
proof -
  let ?t = "put_qp p (q\<lparr>send_msg_buf := queue_push (send_msg_buf q) i\<rparr>) s"
  have lt: "w < next_wr s" using h w(1) held_wr unfolding buffers_home_def by blast
  have s': "s' = ?t\<lparr>n_wrs := (n_wrs s)(w := None)\<rparr>" using del by (auto simp: DeleteWorkRequestId_Inr)
  have flight: "buffers_in_flight s = add_mset i (buffers_in_flight s')"
    using in_flight_upd [of w ?t None] lt w by (simp add: s')
  have free: "free_buffers s' = add_mset i (free_buffers s)"
    using free_buffers_put_qp [OF q, of "q\<lparr>send_msg_buf := queue_push (send_msg_buf q) i\<rparr>"]
    by (simp add: s' queue_push_def)
  have r: "recv_bufs s' = recv_bufs s" using q by (simp add: s')
  with h flight free i show ?thesis
    by (auto simp: buffers_home_def held_def receives_into_def s')
qed

section \<open>A machine that has come up\<close>

text \<open>
  Before the receives are posted every message buffer is in one list of one queue pair and no
  work request is outstanding. \<open>ps\<close> are the machine's peers.
\<close>

definition recv_of :: "'v node \<Rightarrow> nat \<Rightarrow> nat list" where
  "recv_of s p = (case qp_vec s ! p of None \<Rightarrow> [] | Some q \<Rightarrow> recv_msg_buf q)"

definition nothing_posted :: "nat list \<Rightarrow> 'v node \<Rightarrow> bool" where
  "nothing_posted ps s \<longleftrightarrow>
     free_buffers s + mset (concat (map (recv_of s) ps)) = mset [0..<next_mr s] \<and>
     (\<forall>i. receives_into s i \<longrightarrow> i \<in> set (concat (map (recv_of s) ps))) \<and>
     (\<forall>w. n_wrs s w = None) \<and> (\<forall>i. n_mrs s i \<noteq> None \<longleftrightarrow> i < next_mr s)"

definition posts :: "nat multiset \<Rightarrow> 'v node \<Rightarrow> 'v node \<Rightarrow> bool" where
  "posts A s s' \<longleftrightarrow> qp_vec s' = qp_vec s \<and> n_mrs s' = n_mrs s \<and> next_mr s' = next_mr s \<and>
     buffers_in_flight s' = buffers_in_flight s + A \<and>
     ((\<forall>w. next_wr s \<le> w \<longrightarrow> n_wrs s w = None) \<longrightarrow> (\<forall>w. next_wr s' \<le> w \<longrightarrow> n_wrs s' w = None))"

lemma posts_refl: "posts {#} s s"
  by (simp add: posts_def)

lemma posts_trans: "posts A s t \<Longrightarrow> posts B t u \<Longrightarrow> posts (A + B) s u"
  by (auto simp: posts_def ac_simps)

lemma PostRecvRequest_posts: "PostRecvRequest E p i s = Inr s' \<Longrightarrow> posts {#i#} s s'"
  by (auto simp: PostRecvRequest_def new_wr_is_add res_eqs Let_def split_beta posts_def)

lemma posts_run:
  assumes "\<And>s e s'. f s e = Inr s' \<Longrightarrow> qp_vec s = qs \<Longrightarrow> posts (g e) s s'"
    and "run f s es = Inr s'" and "qp_vec s = qs"
  shows "posts (sum_list (map g es)) s s'"
  using assms(2,3)
proof (induction es arbitrary: s)
  case (Cons e es)
  then obtain t where t: "f s e = Inr t" "run f t es = Inr s'" by (auto simp: res_eqs)
  then have "posts (g e) s t" using assms(1) Cons.prems by blast
  moreover from this have "qp_vec t = qs" using Cons.prems by (simp add: posts_def)
  ultimately show ?case using Cons.IH [OF t(2)] posts_trans by fastforce
qed (simp add: posts_refl)

lemma sum_list_single: "sum_list (map (\<lambda>i. {#i#}) is) = mset is"
  by (induction "is") simp_all

lemma sum_list_mset: "sum_list (map (\<lambda>p. mset (f p)) ps) = mset (concat (map f ps))"
  by (induction ps) simp_all

lemma PostAllRecvRequest_posts:
  assumes "PostAllRecvRequest E p s = Inr s'"
  shows "posts (mset (recv_of s p)) s s'"
proof -
  obtain q where q: "get_qp p s = Inr q"
    and run: "run (\<lambda>s' i. PostRecvRequest E p i s') s (recv_msg_buf q) = Inr s'"
    using assms by (auto simp: PostAllRecvRequest_def res_eqs)
  have "posts (sum_list (map (\<lambda>i. {#i#}) (recv_msg_buf q))) s s'"
    by (rule posts_run [OF _ run refl]) (rule PostRecvRequest_posts)
  with q show ?thesis by (simp add: sum_list_single recv_of_def get_qp_Inr)
qed

lemma posted_home:
  assumes n: "nothing_posted ps s" and run: "run (\<lambda>s p. PostAllRecvRequest E p s) s ps = Inr s'"
  shows "buffers_home s' \<and> recv_bufs s' = recv_bufs s"
proof -
  have "posts (mset (recv_of s p)) t t'" if "PostAllRecvRequest E p t = Inr t'" "qp_vec t = qp_vec s" for p t t'
    using PostAllRecvRequest_posts [OF that(1)] that(2) by (simp add: recv_of_def)
  from posts_run [OF this run refl] have p: "posts (mset (concat (map (recv_of s) ps))) s s'"
    by (simp add: sum_list_mset)
  have flight: "buffers_in_flight s = {#}" using n by (simp add: nothing_posted_def buffers_in_flight_def)
  have same: "free_buffers s' = free_buffers s" "recv_bufs s' = recv_bufs s"
    using p by (simp_all add: posts_def free_buffers_def recv_bufs_def)
  have once: "\<not> receives_into s i" if "i \<in># free_buffers s" for i
  proof
    assume "receives_into s i"
    then have "i \<in># mset (concat (map (recv_of s) ps))" using n by (simp add: nothing_posted_def)
    with that have "2 \<le> count (free_buffers s + mset (concat (map (recv_of s) ps))) i"
      by (metis Suc_1 add_mono count_greater_eq_one_iff one_add_one plus_multiset.rep_eq)
    also have "\<dots> = count (mset [0..<next_mr s]) i" using n by (simp only: nothing_posted_def)
    also have "\<dots> \<le> 1" by (metis count_mset distinct_count_atmost_1 distinct_upt le_numeral_extra(4) linorder_le_cases zero_le)
    finally show False by simp
  qed
  have "i < next_mr s" if "receives_into s i" for i
  proof -
    have "i \<in># mset (concat (map (recv_of s) ps))"
      using n that by (simp add: nothing_posted_def)
    then have "i \<in># free_buffers s + mset (concat (map (recv_of s) ps))"
      by (simp only: union_iff simp_thms)
    moreover have "free_buffers s + mset (concat (map (recv_of s) ps)) = mset [0..<next_mr s]"
      using n by (simp only: nothing_posted_def)
    ultimately have "i \<in># mset [0..<next_mr s]" by (simp only:)
    then show ?thesis by simp
  qed
  with once same p flight n show ?thesis
    by (simp add: buffers_home_def held_def receives_into_def posts_def nothing_posted_def)
qed

section \<open>Any calls and completions\<close>

datatype 'v machine_event = User "'v user_call" | Completed ibv_wc

fun machine_step :: "'v env \<Rightarrow> 'v node \<Rightarrow> 'v machine_event \<Rightarrow> 'v node res" where
  "machine_step E s (User c) = perform E s c"
| "machine_step E s (Completed wc) = handle_wc E s wc"

text \<open>
  The device reports a completion with the opcode of the request: the end of a send is not
  reported for a posted receive, the end of an RDMA write not for a request with a message.
\<close>

fun reported :: "'v node \<Rightarrow> 'v machine_event \<Rightarrow> bool" where
  "reported s (User c) = True"
| "reported s (Completed wc) =
     (case n_wrs s (wc_wr_id wc) of None \<Rightarrow> True
      | Some x \<Rightarrow> (case wrid_msg_mr x of None \<Rightarrow> True
         | Some i \<Rightarrow> wc_opcode_of wc \<noteq> IBV_WC_RDMA_WRITE \<and>
             (wc_opcode_of wc = IBV_WC_SEND \<longrightarrow> \<not> receives_into s i)))"

lemma RDMAWriteDone_home:
  assumes h: "buffers_home s" and x: "n_wrs s w = Some x" "wrid_msg_mr x = None"
    and ends: "RDMAWriteDone p w s = Inr s'"
  shows "buffers_home s' \<and> recv_bufs s' = recv_bufs s"
proof -
  have lt: "w < next_wr s" using h x(1) held_wr unfolding buffers_home_def by blast
  obtain y where s': "s' = s\<lparr>n_wrs := (n_wrs s)(w := y)\<rparr>" and y: "named_by y = {#}"
    using ends x by (auto simp: RDMAWriteDone_def get_wr_def put_wr_def Let_def DeleteWorkRequestId_Inr
        split: if_splits)
  have "buffers_in_flight s' = buffers_in_flight s"
    using in_flight_upd [OF lt, of y] x y by (simp add: s')
  with h lt show ?thesis by (auto simp: buffers_home_def held_def receives_into_def s')
qed

lemma RDMARecvDone_parts:
  assumes u: "user_code E" and d: "RDMARecvDone E p w imm s = Inr s'"
  obtains s1 y i t where "kept s s1" and "n_wrs s1 w = Some y" and "wrid_msg_mr y = Some i"
    and "PostRecvRequest E p i s1 = Inr t" and "DeleteWorkRequestId p w t = Inr s'"
proof (cases "imm = INT_MAX")
  case True
  with d show ?thesis
    by (auto simp: RDMARecvDone_def get_wr_def the_mr_def res_eqs split: option.splits intro: that [of s])
next
  case False
  with d show ?thesis
    by (auto simp: RDMARecvDone_def get_wr_def the_mr_def res_eqs split: if_splits option.splits
        dest!: kept_SyncRead [OF u] intro: that)
qed

lemma kept_callback_if:
  "user_code E \<Longrightarrow> (if b then run_callback E cb s else Inr s) = Inr s' \<Longrightarrow> kept s s'"
  by (auto dest: kept_callback split: if_splits)

lemma handle_wc_home:
  assumes u: "user_code E" and h: "buffers_home s" and r: "reported s (Completed wc)"
    and wc: "handle_wc E s wc = Inr s'"
  shows "buffers_home s' \<and> recv_bufs s' = recv_bufs s"
proof -
  let ?w = "wc_wr_id wc"
  obtain x where x: "n_wrs s ?w = Some x"
    using wc by (auto simp: handle_wc_def get_wr_def res_eqs split: option.splits)
  have h': "held {#} s" using h by (simp add: buffers_home_def)
  note stays = keptD [OF _ h', folded buffers_home_def]
  have repost: "buffers_home s' \<and> recv_bufs s' = recv_bufs s"
    if "kept s s1" "wrid_msg_mr x = Some i" "PostRecvRequest E (wrid_qp x) i s1 = Inr t"
      "DeleteWorkRequestId (wrid_qp x) ?w t = Inr s'" for s1 i t
    using home_repost [OF stays(1) [OF that(1)] stays(3) [OF that(1) x] that(2-4)] stays(2) [OF that(1)]
    by simp
  show ?thesis
  proof (cases "wc_opcode_of wc")
    case IBV_WC_SEND
    with wc x obtain i mr s1 q where i: "wrid_msg_mr x = Some i" and s1: "kept s s1" "get_qp (wrid_qp x) s1 = Inr q"
      and del: "DeleteWorkRequestId (wrid_qp x) ?w
        (put_qp (wrid_qp x) (q\<lparr>send_msg_buf := queue_push (send_msg_buf q) i\<rparr>) s1) = Inr s'"
      by (auto simp: handle_wc_def get_wr_def SendDone_def the_mr_def res_eqs split: option.splits
          dest: kept_callback_if [OF u])
    from r x i IBV_WC_SEND have "\<not> receives_into s i" by simp
    then have "\<not> receives_into s1 i" using stays(2) [OF s1(1)] by (simp add: receives_into_def)
    from home_send_done [OF stays(1) [OF s1(1)] stays(3) [OF s1(1) x] i this s1(2) del] stays(2) [OF s1(1)]
    show ?thesis by simp
  next
    case IBV_WC_RDMA_WRITE
    with r x have "wrid_msg_mr x = None" by (simp split: option.splits)
    with IBV_WC_RDMA_WRITE wc x h show ?thesis
      by (auto simp: handle_wc_def get_wr_def res_eqs dest: RDMAWriteDone_home)
  next
    case IBV_WC_RECV_RDMA_WITH_IMM
    with wc x have "RDMARecvDone E (wrid_qp x) ?w (wc_imm_data wc) s = Inr s'"
      by (simp add: handle_wc_def get_wr_def res_eqs)
    from RDMARecvDone_parts [OF u this] obtain s1 y i t where s1: "kept s s1"
      and y: "n_wrs s1 ?w = Some y" "wrid_msg_mr y = Some i"
      and t: "PostRecvRequest E (wrid_qp x) i s1 = Inr t" "DeleteWorkRequestId (wrid_qp x) ?w t = Inr s'" .
    from y(1) stays(3) [OF s1 x] have "y = x" by simp
    with y(2) repost [OF s1 _ t] show ?thesis by simp
  next
    case IBV_WC_RECV
    with wc x repost show ?thesis
      by (auto simp: handle_wc_def get_wr_def RecvDone_def the_mr_def Let_def res_eqs split: option.splits
          dest!: kept_recv_switch [OF u])
  next
    case (wc_other k)
    with wc x show ?thesis by (simp add: handle_wc_def get_wr_def res_eqs)
  qed
qed

interpretation machine: guarded_ops "machine_step E"
    "\<lambda>s. user_code E \<and> buffers_home s \<and> recv_bufs s = B" reported
proof unfold_locales
  fix s e s'
  assume inv: "user_code E \<and> buffers_home s \<and> recv_bufs s = B" and "reported s e" "machine_step E s e = Inr s'"
  moreover have "kept s s' \<Longrightarrow> buffers_home s' \<and> recv_bufs s' = recv_bufs s"
    using inv by (auto simp: buffers_home_def dest: keptD)
  ultimately show "user_code E \<and> buffers_home s' \<and> recv_bufs s' = B"
    by (cases e) (auto dest: kept_perform handle_wc_home)
qed


text \<open>One queue pair with a receive and a send buffer: a message is sent, one arrives.\<close>

definition buffers_node :: "unit node" where
  "buffers_node = demo_node\<lparr>n_mrs := (\<lambda>i. if i < 2 then n_mrs demo_node 0 else None), next_mr := 2,
     n_wrs := (\<lambda>_. None), next_wr := 0,
     qp_vec := [None, Some (demo_qp\<lparr>recv_msg_buf := [0], send_msg_buf := [1]\<rparr>)]\<rparr>"

definition demo_wc :: "wc_opcode \<Rightarrow> nat \<Rightarrow> i32 \<Rightarrow> unit machine_event" where
  "demo_wc c w k = Completed \<lparr>wc_success = True, wc_wr_id = w, wc_opcode_of = c, wc_imm_data = k\<rparr>"

lemma demo_user_code: "user_code demo_env"
  unfolding user_code_def by (auto simp: demo_env_def intro: exI [of _ "[]"])

lemmas machine_defs = handle_wc_def get_wr_def put_wr_def RecvDone_def SendDone_def the_mr_def get_mr_def
  recv_switch_def recv_user_def GetMsgHandler_def is_user_msg_def run_callback_def DeleteWorkRequestId_def
  PostRecvRequest_def PostAllRecvRequest_def SendMsg_def PostSendRequest_def send_switch_def
  GetOneSendMsgMRFromBuf_def set_msg_def post_send_def NewWorkRequestId_def get_qp_def put_qp_def
  queue_front_def queue_push_def Msg_UserMsg_def MaxMsgBytes_def Let_def

lemmas demo_data = buffers_node_def demo_node_def demo_qp_def demo_env_def demo_pair_def default_config_def

lemma buffers_node_posted:
  "run (\<lambda>s p. PostAllRecvRequest demo_env p s) buffers_node [1] =
     Inr (buffers_node\<lparr>n_wrs := [0 \<mapsto> \<lparr>wrid_qp = 1, outstanding_sge_cnt = 0, wrid_msg_mr = Some 0\<rparr>], next_wr := 1\<rparr>)"
  by (simp add: machine_defs demo_data vec_at_def del: One_nat_def)

abbreviation demo_events :: "unit machine_event list" where
  "demo_events \<equiv> [User (call_SendMsg 1 10 64 2 None), demo_wc IBV_WC_RECV 0 13, demo_wc IBV_WC_SEND 1 0]"

lemma buffers_node_run:
  "\<exists>s s'. run (\<lambda>s p. PostAllRecvRequest demo_env p s) buffers_node [1] = Inr s \<and>
     schedule (machine_step demo_env) reported s demo_events \<and>
     run (machine_step demo_env) s demo_events = Inr s' \<and> next_mr s' = 2"
  unfolding buffers_node_posted sum.inject ex_simps
  by (simp add: machine_defs demo_data vec_at_def demo_wc_def receives_into_def recv_bufs_def)

lemma buffers_node_starts: "nothing_posted [1] buffers_node"
  by (auto simp: nothing_posted_def free_buffers_def receives_into_def recv_bufs_def recv_of_def
      demo_data numeral_2_eq_2 lessThan_Suc split: if_splits)


end
