(* ===== verification/Cluster.thy ===== *)
theory Cluster
  imports CtrlServerProps CtrlProg
begin

text \<open>
  Several machines at once: on each a thread that runs a program of CtrlProg.thy and a control
  server of CtrlServer.thy. A thread issues its next call, which the server of the call takes
  off its queue; it waits until that server has finished the call. The threads of a plan push
  values under keys of their own, pull what others push, meet, clear their keys and meet again:
  no server faults, every pull gets its value, and the threads cannot get stuck.
\<close>

section \<open>Threads and servers\<close>

datatype 'a thread = Running "'a prog" | Waiting nat nat "ctrl_response \<Rightarrow> 'a prog"

record 'a cluster =
  cl_server :: "nat \<Rightarrow> server"
  cl_thread :: "nat \<Rightarrow> 'a thread"

text \<open>
  \<open>Issue i c\<close>: the call of thread \<open>i\<close> arrives as call object \<open>c\<close>; \<open>Answer i\<close>: its response arrives;
  \<open>Serve j item\<close>: anything else that server \<open>j\<close> takes off its queue.
\<close>

datatype event = Issue nat nat | Answer nat | Serve nat cq_item

definition serve :: "nat \<Rightarrow> cq_item \<Rightarrow> 'a cluster \<Rightarrow> 'a cluster res" where
  "serve j item s = rbind (HandleRpcs_step (cl_server s j) item) (\<lambda>sv.
     Inr (s\<lparr>cl_server := (cl_server s)(j := sv)\<rparr>))"

definition set_thread :: "nat \<Rightarrow> 'a thread \<Rightarrow> 'a cluster \<Rightarrow> 'a cluster" where
  "set_thread i t s = s\<lparr>cl_thread := (cl_thread s)(i := t)\<rparr>"

fun cluster_step :: "(ctrl_request \<Rightarrow> nat) \<Rightarrow> 'a cluster \<Rightarrow> event \<Rightarrow> 'a cluster res" where
  "cluster_step rt s (Issue i c) = (case cl_thread s i of
     Running (Call q k) \<Rightarrow> rbind (serve (rt q) (Arrived c q) s) (\<lambda>s'. Inr (set_thread i (Waiting (rt q) c k) s'))
   | _ \<Rightarrow> Inr s)"
| "cluster_step rt s (Answer i) = (case cl_thread s i of
     Waiting j c k \<Rightarrow> (case map_of (finished (cl_server s j)) c of
       Some a \<Rightarrow> Inr (set_thread i (Running (k a)) s)
     | None \<Rightarrow> Inr s)
   | _ \<Rightarrow> Inr s)"
| "cluster_step rt s (Serve j item) = serve j item s"

text \<open>The server of a call: that of the key, server 0 for a barrier.\<close>

definition ctrl_route :: "(string \<Rightarrow> nat) \<Rightarrow> ctrl_request \<Rightarrow> nat" where
  "ctrl_route responsible q = (case q of
     PushKVRequest k v \<Rightarrow> responsible k
   | PullKVRequest k \<Rightarrow> responsible k
   | ClearKVRequest k \<Rightarrow> responsible k
   | _ \<Rightarrow> 0)"

text \<open>
  What gRPC does: a request goes to a registered call object of its method. The other items
  are requests of the heartbeat threads and notifications that a response went out.
\<close>

definition takes :: "server \<Rightarrow> nat \<Rightarrow> ctrl_method \<Rightarrow> bool" where
  "takes sv c m \<longleftrightarrow> c \<in> set (registered sv) \<and>
     (case call_heap sv c of None \<Rightarrow> False | Some call \<Rightarrow> method_of (request call) = m)"

fun other_item :: "string \<Rightarrow> server \<Rightarrow> cq_item \<Rightarrow> bool" where
  "other_item adr sv (Arrived c r) = (r = LoadServerRequest adr \<and> takes sv c kLoadServer)"
| "other_item adr sv (Sent c) = answered_call sv c"
| "other_item adr sv (NotOk t) = False"
| "other_item adr sv AlarmTag = False"

fun cluster_allowed ::
  "nat \<Rightarrow> (nat \<Rightarrow> string) \<Rightarrow> (ctrl_request \<Rightarrow> nat) \<Rightarrow> 'a cluster \<Rightarrow> event \<Rightarrow> bool"
where
  "cluster_allowed n adr rt s (Issue i c) = (i < n \<and> (case cl_thread s i of
     Running (Call q k) \<Rightarrow> takes (cl_server s (rt q)) c (method_of q) | _ \<Rightarrow> False))"
| "cluster_allowed n adr rt s (Answer i) = (i < n \<and> (case cl_thread s i of
     Waiting j c k \<Rightarrow> c \<in> fst ` set (finished (cl_server s j)) | _ \<Rightarrow> False))"
| "cluster_allowed n adr rt s (Serve j item) = (j < n \<and> other_item (adr j) (cl_server s j) item)"

section \<open>One server\<close>

text \<open>Always up, with a registered call for every method.\<close>

definition server_up :: "string \<Rightarrow> server \<Rightarrow> bool" where
  "server_up adr sv \<longleftrightarrow> wf_server sv \<and> \<not> is_shutdown sv \<and> (\<forall>m. \<exists>c. takes sv c m) \<and>
     (is_first_connect sv \<or> this_machine_addr sv = adr)"

lemma takes_bound: "wf_server sv \<Longrightarrow> takes sv c m \<Longrightarrow> c < next_call sv"
  using wf_heap by (auto simp: takes_def split: option.splits)

lemma takes_EnqueueRequest:
  "takes (EnqueueRequest m sv) (next_call sv) m"
  "takes sv c m' \<Longrightarrow> c < next_call sv \<Longrightarrow> takes (EnqueueRequest m sv) c m'"
  by (cases m; simp add: takes_def EnqueueRequest_def CtrlCall_def)
    (auto simp: takes_def EnqueueRequest_def)

lemma server_up_new: "server_up adr (EnqueueRequests CtrlServer_init)"
proof -
  have init: "wf_server CtrlServer_init" by (simp add: CtrlServer_init_def wf_server_def)
  note wf = wf_EnqueueRequest
  have "\<exists>c. takes (EnqueueRequests CtrlServer_init) c m" for m
    unfolding EnqueueRequests_def
    using init by (cases m) (blast intro: wf takes_EnqueueRequest takes_bound)+
  then show ?thesis using wf_CtrlServer_init
    by (simp add: server_up_def EnqueueRequests_def) (simp add: CtrlServer_init_def)
qed

lemma takes_settle [simp]: "takes (settle v cs sv) c m = takes sv c m"
  by (auto simp: takes_def settle_def split: option.splits)

lemma takes_tables [simp]:
  "takes (sv\<lparr>kv := x\<rparr>) = takes sv" "takes (sv\<lparr>pending_kv_calls := p\<rparr>) = takes sv"
  "takes (sv\<lparr>barrier_calls := b\<rparr>) = takes sv" "takes (sv\<lparr>this_machine_addr := a\<rparr>) = takes sv"
  "takes (sv\<lparr>is_first_connect := f\<rparr>) = takes sv"
  by (simp_all add: takes_def fun_eq_iff)

lemma takes_request_effect:
  assumes "c' < next_call sv"
  shows "\<exists>c'. takes (request_effect c r sv) c' (method_of r)"
    and "takes sv c' m' \<Longrightarrow> takes (request_effect c r sv) c' m'"
proof -
  obtain X where X: "request_effect c r sv = EnqueueRequest (method_of r) X" "takes X = takes sv"
    "next_call X = next_call sv"
    by (cases r) (auto simp: request_effect_def fun_eq_iff split: option.splits)
  show "\<exists>c'. takes (request_effect c r sv) c' (method_of r)" unfolding X(1) using takes_EnqueueRequest(1) by blast
  show "takes sv c' m' \<Longrightarrow> takes (request_effect c r sv) c' m'"
    unfolding X(1) using takes_EnqueueRequest(2) [of X] X(2,3) assms by simp
qed

lemma takes_fill_request: "takes sv c' m \<Longrightarrow> c' \<noteq> c \<Longrightarrow> takes (fill_request c r sv) c' m"
  by (auto simp: takes_def fill_request_def set_call_def split: option.splits)

lemma item_ok_Arrived: "item_ok sv (Arrived c r) \<longleftrightarrow> takes sv c (method_of r) \<and> request_ok sv r"
  by (auto simp: item_ok_def takes_def split: option.splits)

text \<open>A request the protocol allows: the server stays up.\<close>

lemma server_up_Arrived:
  assumes up: "server_up adr sv" and c: "takes sv c (method_of r)" and ok: "request_ok sv r"
    and adr: "\<And>a. r = LoadServerRequest a \<Longrightarrow> a = adr"
  shows "HandleRpcs_step sv (Arrived c r) = Inr (item_effect (Arrived c r) sv)"
    and "server_up adr (item_effect (Arrived c r) sv)"
proof -
  have wf: "wf_server sv" using up by (simp add: server_up_def)
  have item: "item_ok sv (Arrived c r)" using c ok by (simp add: item_ok_Arrived)
  show "HandleRpcs_step sv (Arrived c r) = Inr (item_effect (Arrived c r) sv)"
    by (rule HandleRpcs_step_effect [OF wf item])
  let ?s = "fill_request c r sv"
  have wf': "wf_server ?s" using wf_fill_request [OF wf item] by blast
  have "\<exists>c'. takes (request_effect c r ?s) c' m" for m
  proof (cases "m = method_of r")
    case True
    have "c < next_call ?s" using takes_bound [OF wf c] by simp
    then show ?thesis using takes_request_effect(1) True by blast
  next
    case False
    obtain c' where c': "takes sv c' m" using up by (auto simp: server_up_def)
    with c False have "c' \<noteq> c" by (auto simp: takes_def split: option.splits)
    with c' have "takes ?s c' m" by (rule takes_fill_request)
    then show ?thesis using takes_request_effect(2) takes_bound [OF wf'] by blast
  qed
  moreover have "is_first_connect (request_effect c r ?s) \<or> this_machine_addr (request_effect c r ?s) = adr"
    using up adr by (cases r) (auto simp: server_up_def request_effect_def split: option.splits)
  moreover have "\<not> is_shutdown (request_effect c r ?s)"
    using up by (cases r) (auto simp: server_up_def request_effect_def split: option.splits)
  ultimately show "server_up adr (item_effect (Arrived c r) sv)"
    using wf_item_effect [OF wf item] by (simp add: server_up_def item_effect_def)
qed

lemma server_up_other:
  assumes up: "server_up adr sv" and item: "other_item adr sv item"
  shows "HandleRpcs_step sv item = Inr (item_effect item sv)" and "server_up adr (item_effect item sv)"
    and "kv (item_effect item sv) = kv sv" and "pend (item_effect item sv) = pend sv"
    and "barrier_calls (item_effect item sv) = barrier_calls sv"
proof -
  have wf: "wf_server sv" using up by (simp add: server_up_def)
  have "HandleRpcs_step sv item = Inr (item_effect item sv) \<and> server_up adr (item_effect item sv) \<and>
      kv (item_effect item sv) = kv sv \<and> pend (item_effect item sv) = pend sv \<and>
      barrier_calls (item_effect item sv) = barrier_calls sv"
  proof (cases item)
    case (Arrived c r)
    then have r: "r = LoadServerRequest adr" "takes sv c kLoadServer" using item by auto
    then have "request_ok sv r" "takes sv c (method_of r)" using up by (auto simp: server_up_def request_ok_def)
    from server_up_Arrived [OF up this(2,1)] show ?thesis
      unfolding Arrived using r(1)
      by (auto simp: item_effect_def request_effect_def fun_eq_iff kv_effect live_step_def pend_def)
  next
    case (Sent c)
    then have c: "answered_call sv c" using item by simp
    have "c \<notin> set (registered sv)"
      using wf_registered [OF wf, of c] c by (auto simp: answered_call_def open_call_def)
    then have takes: "takes (item_effect item sv) c' m" if "takes sv c' m" for c' m
      using that unfolding Sent by (auto simp: takes_def item_effect_def remove1_idem)
    have ok: "item_ok sv item" using c unfolding Sent by (simp add: item_ok_def)
    have "is_shutdown (item_effect item sv) = is_shutdown sv \<and>
        is_first_connect (item_effect item sv) = is_first_connect sv \<and>
        this_machine_addr (item_effect item sv) = this_machine_addr sv \<and> kv (item_effect item sv) = kv sv \<and>
        pend (item_effect item sv) = pend sv \<and> barrier_calls (item_effect item sv) = barrier_calls sv"
      unfolding Sent by (simp add: item_effect_def pend_def fun_eq_iff)
    moreover have "\<exists>c'. takes (item_effect item sv) c' m" for m
    proof -
      obtain c' where "takes sv c' m" using up by (auto simp: server_up_def)
      then show ?thesis using takes by blast
    qed
    moreover have "wf_server (item_effect item sv)" by (rule wf_item_effect [OF wf ok])
    ultimately show ?thesis using up HandleRpcs_step_effect [OF wf ok] by (simp add: server_up_def)
  qed (use item in auto)
  then show "HandleRpcs_step sv item = Inr (item_effect item sv)" "server_up adr (item_effect item sv)"
    "kv (item_effect item sv) = kv sv" "pend (item_effect item sv) = pend sv"
    "barrier_calls (item_effect item sv) = barrier_calls sv" by blast+
qed

section \<open>A call on its way\<close>

text \<open>The response to a call: sent, or to come when the key is pushed or the barrier is full.\<close>

definition listed :: "server \<Rightarrow> nat \<Rightarrow> ctrl_request \<Rightarrow> bool" where
  "listed sv c q \<longleftrightarrow> (case q of
     PullKVRequest k \<Rightarrow> c \<in> set (pend sv k)
   | BarrierRequest nm m \<Rightarrow> c \<in> set (arrived sv nm)
   | _ \<Rightarrow> False)"

definition in_flight :: "server \<Rightarrow> nat \<Rightarrow> ctrl_request \<Rightarrow> ctrl_response \<Rightarrow> bool" where
  "in_flight sv c q a \<longleftrightarrow> (c, a) \<in> set (finished sv) \<or> listed sv c q"

lemma arrived_simps [simp]:
  "arrived (EnqueueRequest m s) n = arrived s n" "arrived (settle v cs s) n = arrived s n"
  by (simp_all add: arrived_def)

lemma arrived_effect:
  "arrived (item_effect (Arrived c r) s) n = (case r of
     BarrierRequest n' m \<Rightarrow> if n' = n
       then (if (of_nat (Suc (length (arrived s n))) :: u64) = scast m then [] else arrived s n @ [c])
       else arrived s n
   | _ \<Rightarrow> arrived s n)"
  by (cases r) (auto simp: item_effect_def request_effect_def arrived_def split: option.splits)

lemma barrier_calls_effect:
  "barrier_calls (item_effect (Arrived c r) s) n = (case r of
     BarrierRequest n' m \<Rightarrow> if n' = n
       then (if (of_nat (Suc (length (arrived s n))) :: u64) = scast m then None else Some (arrived s n @ [c], m))
       else barrier_calls s n
   | _ \<Rightarrow> barrier_calls s n)"
  by (cases r) (auto simp: item_effect_def request_effect_def arrived_def split: option.splits)

lemma kv_Arrived: "kv (item_effect (Arrived c r) s) k = live_step k r (kv s k)"
  by (simp add: item_effect_def kv_effect)

lemma pend_Arrived:
  "pend (item_effect (Arrived c r) s) k = (case r of
     PushKVRequest k' v \<Rightarrow> if k' = k then [] else pend s k
   | ClearKVRequest k' \<Rightarrow> if k' = k then [] else pend s k
   | PullKVRequest k' \<Rightarrow> if k' = k \<and> kv s k = None then pend s k @ [c] else pend s k
   | _ \<Rightarrow> pend s k)"
  by (simp add: item_effect_def pend_effect split: ctrl_request.split)

lemma pend_stored: "wf_server s \<Longrightarrow> kv s k \<noteq> None \<Longrightarrow> pend s k = []"
  using wf_pending [of s k] by (cases "pending_kv_calls s k") (auto simp: pend_def)

lemma full_barrier_answers:
  "(of_nat (Suc (length (arrived s n))) :: u64) = scast m \<Longrightarrow> c' \<in> set (arrived s n @ [c]) \<Longrightarrow>
   (c', BarrierResponse) \<in> set (finished (item_effect (Arrived c (BarrierRequest n m)) s))"
  by (auto simp: item_effect_def request_effect_def)

text \<open>The new call.\<close>

definition response_fits :: "server \<Rightarrow> ctrl_request \<Rightarrow> ctrl_response \<Rightarrow> bool" where
  "response_fits s q a \<longleftrightarrow> (case q of
     PullKVRequest k \<Rightarrow> (\<forall>v. kv s k = Some v \<longrightarrow> a = PullKVResponse v)
   | _ \<Rightarrow> a = default_response (method_of q))"

lemma in_flight_new:
  assumes "response_fits s q a"
  shows "in_flight (item_effect (Arrived c q) s) c q a"
proof (cases q)
  case (BarrierRequest n m)
  with assms show ?thesis using full_barrier_answers [of s n m c c]
    by (auto simp: in_flight_def listed_def arrived_effect response_fits_def)
next
  case (PullKVRequest k)
  show ?thesis
  proof (cases "kv s k")
    case None
    then show ?thesis using PullKVRequest by (simp add: in_flight_def listed_def pend_Arrived)
  next
    case (Some v)
    then show ?thesis using PullKVRequest assms
      by (simp add: in_flight_def response_fits_def item_effect_def request_effect_def)
  qed
qed (use assms in \<open>auto simp: in_flight_def item_effect_def request_effect_def response_fits_def\<close>)

text \<open>A call that was on its way before.\<close>

lemma in_flight_keeps:
  assumes wf: "wf_server s" and fl: "in_flight s c' q' a'" and ok: "request_ok s q"
    and pull: "\<And>k v. q' = PullKVRequest k \<Longrightarrow> q = PushKVRequest k v \<Longrightarrow> a' = PullKVResponse v"
    and bar: "\<And>n m. q' = BarrierRequest n m \<Longrightarrow> a' = BarrierResponse"
  shows "in_flight (item_effect (Arrived c q) s) c' q' a'"
proof (cases "(c', a') \<in> set (finished s)")
  case True
  then show ?thesis using finished_effect_mono unfolding in_flight_def by blast
next
  case False
  then have l: "listed s c' q'" using fl by (simp add: in_flight_def)
  show ?thesis
  proof (cases q')
    case (PullKVRequest k)
    then have c': "c' \<in> set (pend s k)" using l by (simp add: listed_def)
    show ?thesis
    proof (cases "\<exists>v. q = PushKVRequest k v")
      case True
      then obtain v where q: "q = PushKVRequest k v" by blast
      have "c' \<in> set (pend (fill_request c q s) k)" using c' by simp
      from push_answers [OF this, of v c] pull [OF PullKVRequest q] q show ?thesis
        by (simp add: in_flight_def item_effect_def)
    next
      case False
      moreover have "q \<noteq> ClearKVRequest k"
        using ok c' pend_stored [OF wf, of k] by (auto simp: request_ok_def)
      ultimately show ?thesis
        using c' PullKVRequest by (auto simp: in_flight_def listed_def pend_Arrived split: ctrl_request.splits)
    qed
  next
    case (BarrierRequest n m)
    then have c': "c' \<in> set (arrived s n)" using l by (simp add: listed_def)
    show ?thesis
    proof (cases "\<exists>m'. q = BarrierRequest n m' \<and> (of_nat (Suc (length (arrived s n))) :: u64) = scast m'")
      case True
      then show ?thesis using full_barrier_answers [of s n _ c' c] c' bar [OF BarrierRequest]
        by (auto simp: in_flight_def)
    next
      case False
      then show ?thesis using c' BarrierRequest
        by (auto simp: in_flight_def listed_def arrived_effect split: ctrl_request.splits)
    qed
  qed (use l in \<open>simp_all add: listed_def\<close>)
qed

lemma listed_unfinished:
  assumes wf: "wf_server s" and "listed s c q" shows "c \<notin> fst ` set (finished s)"
proof -
  have "\<exists>r. held s c r"
    using assms(2) pend_held [OF wf] arrived_held' [OF wf]
    by (cases q) (simp_all add: listed_def, blast+)
  then show ?thesis using held_fresh [OF wf] by blast
qed

lemma in_flight_answer:
  assumes wf: "wf_server s" and fl: "in_flight s c q a" and fin: "c \<in> fst ` set (finished s)"
  shows "map_of (finished s) c = Some a"
proof -
  have "(c, a) \<in> set (finished s)"
    using fl listed_unfinished [OF wf, of c q] fin by (auto simp: in_flight_def)
  then show ?thesis using wf_distinct(2) [OF wf] by (simp add: map_of_eq_Some_iff)
qed

lemma in_flight_other:
  "server_up adr s \<Longrightarrow> other_item adr s item \<Longrightarrow> in_flight s c q a \<Longrightarrow> in_flight (item_effect item s) c q a"
  using server_up_other [of adr s item] finished_effect_mono [of s item]
  by (auto simp: in_flight_def listed_def arrived_def split: ctrl_request.splits)
section \<open>A plan\<close>

text \<open>
  What the threads do: push, pull, meet at \<open>pl_b1\<close>, clear what they pushed, meet at \<open>pl_b2\<close>.
  \<open>pl_route\<close> is the server of a key; barriers are held at server 0. \<open>pl_fin\<close> is what a thread
  returns.
\<close>

record 'a plan =
  pl_num :: nat
  pl_push :: "nat \<Rightarrow> (string \<times> byte list) list"
  pl_pull :: "nat \<Rightarrow> (string \<times> byte list) list"
  pl_b1 :: string
  pl_b2 :: string
  pl_route :: "string \<Rightarrow> nat"
  pl_addr :: "nat \<Rightarrow> string"
  pl_fin :: "nat \<Rightarrow> 'a"

definition barrier_call :: "'a plan \<Rightarrow> string \<Rightarrow> ctrl_request \<times> ctrl_response" where
  "barrier_call L nm = (BarrierRequest nm (of_nat (pl_num L)), BarrierResponse)"

definition plan_trace :: "'a plan \<Rightarrow> nat \<Rightarrow> (ctrl_request \<times> ctrl_response) list" where
  "plan_trace L i =
     map (\<lambda>(k, v). (PushKVRequest k v, PushKVResponse)) (pl_push L i) @
     map (\<lambda>(k, v). (PullKVRequest k, PullKVResponse v)) (pl_pull L i) @ [barrier_call L (pl_b1 L)] @
     map (\<lambda>(k, v). (ClearKVRequest k, ClearKVResponse)) (pl_push L i) @ [barrier_call L (pl_b2 L)]"

abbreviation plan_route :: "'a plan \<Rightarrow> ctrl_request \<Rightarrow> nat" where
  "plan_route L \<equiv> ctrl_route (pl_route L)"

definition plan_ok :: "'a plan \<Rightarrow> bool" where
  "plan_ok L \<longleftrightarrow> 0 < pl_num L \<and> pl_num L < 2 ^ 31 \<and> pl_b1 L \<noteq> pl_b2 L \<and> (\<forall>k. pl_route L k < pl_num L) \<and>
     (\<forall>i < pl_num L. distinct (map fst (pl_push L i))) \<and>
     (\<forall>i < pl_num L. \<forall>j < pl_num L. i \<noteq> j \<longrightarrow> fst ` set (pl_push L i) \<inter> fst ` set (pl_push L j) = {}) \<and>
     (\<forall>i < pl_num L. \<forall>e \<in> set (pl_pull L i). \<exists>j < pl_num L. e \<in> set (pl_push L j))"

lemma plan_okD:
  assumes "plan_ok L"
  shows "0 < pl_num L" and "pl_num L < 2 ^ 31" and "pl_b1 L \<noteq> pl_b2 L" and "pl_route L k < pl_num L"
    and "i < pl_num L \<Longrightarrow> e \<in> set (pl_pull L i) \<Longrightarrow> \<exists>j < pl_num L. e \<in> set (pl_push L j)"
  using assms unfolding plan_ok_def by blast+

lemma plan_key:
  assumes "plan_ok L" and "i < pl_num L" and "j < pl_num L" and "x < length (pl_push L i)" and "y < length (pl_push L j)"
    and "fst (pl_push L i ! x) = fst (pl_push L j ! y)"
  shows "i = j" and "x = y"
proof -
  have "fst (pl_push L i ! x) \<in> fst ` set (pl_push L i) \<inter> fst ` set (pl_push L j)"
    using nth_mem [OF assms(4)] nth_mem [OF assms(5)] assms(6) by (metis IntI imageI)
  with assms(1-3) show ij: "i = j" unfolding plan_ok_def by blast
  have "distinct (map fst (pl_push L i))" using assms(1,2) by (simp add: plan_ok_def)
  then show "x = y" using assms(4-6) ij nth_eq_iff_index_eq [of "map fst (pl_push L i)" x y] by simp
qed

lemma plan_route_bound: "plan_ok L \<Longrightarrow> plan_route L q < pl_num L"
  using plan_okD(1,4) by (auto simp: ctrl_route_def split: ctrl_request.splits)

text \<open>The calls by their number.\<close>

abbreviation npush :: "'a plan \<Rightarrow> nat \<Rightarrow> nat" where "npush L i \<equiv> length (pl_push L i)"
abbreviation meet1 :: "'a plan \<Rightarrow> nat \<Rightarrow> nat" where "meet1 L i \<equiv> length (pl_push L i) + length (pl_pull L i)"
abbreviation meet2 :: "'a plan \<Rightarrow> nat \<Rightarrow> nat" where "meet2 L i \<equiv> meet1 L i + 1 + length (pl_push L i)"

lemma length_plan_trace: "length (plan_trace L i) = meet2 L i + 1"
  by (simp add: plan_trace_def)

lemma plan_trace_nth:
  "x < npush L i \<Longrightarrow> plan_trace L i ! x = (case pl_push L i ! x of (k, v) \<Rightarrow> (PushKVRequest k v, PushKVResponse))"
  "x < length (pl_pull L i) \<Longrightarrow> plan_trace L i ! (npush L i + x) =
     (case pl_pull L i ! x of (k, v) \<Rightarrow> (PullKVRequest k, PullKVResponse v))"
  "plan_trace L i ! meet1 L i = barrier_call L (pl_b1 L)"
  "x < npush L i \<Longrightarrow> plan_trace L i ! (meet1 L i + 1 + x) =
     (case pl_push L i ! x of (k, v) \<Rightarrow> (ClearKVRequest k, ClearKVResponse))"
  "plan_trace L i ! meet2 L i = barrier_call L (pl_b2 L)"
  by (simp_all add: plan_trace_def nth_append)

lemma plan_trace_cases [consumes 1, case_names push pull meet1 clear meet2]:
  assumes "x < length (plan_trace L i)"
  obtains k v where "x < npush L i" and "pl_push L i ! x = (k, v)" and "plan_trace L i ! x = (PushKVRequest k v, PushKVResponse)"
  | k v where "npush L i \<le> x" and "x < meet1 L i" and "(k, v) \<in> set (pl_pull L i)"
      and "plan_trace L i ! x = (PullKVRequest k, PullKVResponse v)"
  | "x = meet1 L i" and "plan_trace L i ! x = barrier_call L (pl_b1 L)"
  | y k v where "y < npush L i" and "x = meet1 L i + 1 + y" and "pl_push L i ! y = (k, v)"
      and "plan_trace L i ! x = (ClearKVRequest k, ClearKVResponse)"
  | "x = meet2 L i" and "plan_trace L i ! x = barrier_call L (pl_b2 L)"
proof -
  consider "x < npush L i" | y where "x = npush L i + y" "y < length (pl_pull L i)" | "x = meet1 L i"
    | y where "x = meet1 L i + 1 + y" "y < npush L i" | "x = meet2 L i"
  proof -
    have "x < npush L i \<or> (\<exists>y. x = npush L i + y \<and> y < length (pl_pull L i)) \<or> x = meet1 L i \<or>
        (\<exists>y. x = meet1 L i + 1 + y \<and> y < npush L i) \<or> x = meet2 L i"
      using assms unfolding length_plan_trace by presburger
    then show thesis using that by blast
  qed
  then show thesis
  proof cases
    case 1
    then show thesis using that(1) plan_trace_nth(1) [OF 1] by (cases "pl_push L i ! x") simp
  next
    case (2 y)
    then show thesis using that(2) plan_trace_nth(2) [OF 2(2)] nth_mem [OF 2(2)]
      by (cases "pl_pull L i ! y") simp
  next
    case (4 y)
    then show thesis using that(4) [of y] plan_trace_nth(4) [OF 4(2)] by (cases "pl_push L i ! y") simp
  qed (use that(3,5) plan_trace_nth(3,5) in blast)+
qed
text \<open>The value a pull is to get.\<close>

lemma plan_pull_value:
  assumes L: "plan_ok L" and i: "i < pl_num L" "x < length (plan_trace L i)" "plan_trace L i ! x = (PullKVRequest k, a)"
    and j: "j < pl_num L" "y < npush L j" "fst (pl_push L j ! y) = k"
  shows "a = PullKVResponse (snd (pl_push L j ! y))"
  using i(2)
proof (cases rule: plan_trace_cases)
  case (pull k' v)
  then have kv: "(k, v) \<in> set (pl_pull L i)" "a = PullKVResponse v" using i(3) by simp_all
  from plan_okD(5) [OF L i(1) kv(1)] obtain j' where j': "j' < pl_num L" "(k, v) \<in> set (pl_push L j')" by blast
  from j'(2) obtain y' where y': "y' < npush L j'" "pl_push L j' ! y' = (k, v)" by (auto simp: in_set_conv_nth)
  have "j' = j" "y' = y" using plan_key [OF L j'(1) j(1) y'(1) j(2)] y'(2) j(3) by simp_all
  with y' kv(2) show ?thesis by simp
qed (use i(3) in \<open>auto simp: barrier_call_def\<close>)

lemma plan_barrier_response:
  assumes "x < length (plan_trace L i)" and "plan_trace L i ! x = (BarrierRequest nm m, a)"
  shows "a = BarrierResponse"
  using assms(1) by (cases rule: plan_trace_cases) (use assms(2) in \<open>auto simp: barrier_call_def\<close>)

section \<open>The invariant\<close>

text \<open>\<open>p i\<close>: how many calls of thread \<open>i\<close> have arrived.\<close>

definition thread_ok :: "'a plan \<Rightarrow> 'a cluster \<Rightarrow> nat \<Rightarrow> nat \<Rightarrow> bool" where
  "thread_ok L s i p \<longleftrightarrow> (case cl_thread s i of
     Running pr \<Rightarrow> performs (drop p (plan_trace L i)) pr (Inr (pl_fin L i))
   | Waiting j c k \<Rightarrow> \<exists>x q a. p = Suc x \<and> x < length (plan_trace L i) \<and> plan_trace L i ! x = (q, a) \<and>
       j = plan_route L q \<and> performs (drop p (plan_trace L i)) (k a) (Inr (pl_fin L i)) \<and>
       in_flight (cl_server s j) c q a)"

text \<open>A key is stored from its push to its clearing.\<close>

definition stored :: "'a plan \<Rightarrow> (nat \<Rightarrow> nat) \<Rightarrow> 'a cluster \<Rightarrow> bool" where
  "stored L p s \<longleftrightarrow> (\<forall>i < pl_num L. \<forall>x < npush L i. case pl_push L i ! x of (k, v) \<Rightarrow>
     kv (cl_server s (pl_route L k)) k = (if x < p i \<and> p i \<le> meet1 L i + 1 + x then Some v else None))"

text \<open>At a barrier: until the last thread arrives all that have come wait.\<close>

definition meeting :: "'a plan \<Rightarrow> (nat \<Rightarrow> nat) \<Rightarrow> 'a cluster \<Rightarrow> string \<Rightarrow> (nat \<Rightarrow> nat) \<Rightarrow> bool" where
  "meeting L p s nm idx \<longleftrightarrow>
     (if \<forall>i < pl_num L. idx i < p i then barrier_calls (cl_server s 0) nm = None
      else length (arrived (cl_server s 0) nm) = card {i. i < pl_num L \<and> idx i < p i} \<and>
        (\<forall>it. barrier_calls (cl_server s 0) nm = Some it \<longrightarrow> snd it = of_nat (pl_num L)) \<and>
        (\<forall>i < pl_num L. idx i < p i \<longrightarrow> p i = Suc (idx i) \<and>
          (\<exists>c k. cl_thread s i = Waiting 0 c k \<and> c \<in> set (arrived (cl_server s 0) nm))))"

definition plan_inv :: "'a plan \<Rightarrow> (nat \<Rightarrow> nat) \<Rightarrow> 'a cluster \<Rightarrow> bool" where
  "plan_inv L p s \<longleftrightarrow> (\<forall>j < pl_num L. server_up (pl_addr L j) (cl_server s j)) \<and>
     (\<forall>i < pl_num L. p i \<le> length (plan_trace L i) \<and> thread_ok L s i (p i)) \<and> stored L p s \<and>
     meeting L p s (pl_b1 L) (meet1 L) \<and> meeting L p s (pl_b2 L) (meet2 L)"

lemma plan_invD:
  assumes "plan_inv L p s"
  shows "j < pl_num L \<Longrightarrow> server_up (pl_addr L j) (cl_server s j)"
    and "i < pl_num L \<Longrightarrow> p i \<le> length (plan_trace L i)" and "i < pl_num L \<Longrightarrow> thread_ok L s i (p i)"
    and "stored L p s" and "meeting L p s (pl_b1 L) (meet1 L)" and "meeting L p s (pl_b2 L) (meet2 L)"
  using assms by (simp_all add: plan_inv_def)

lemma storedD:
  assumes "stored L p s" and "i < pl_num L" and "x < npush L i" and "pl_push L i ! x = (k, v)"
  shows "kv (cl_server s (pl_route L k)) k = (if x < p i \<and> p i \<le> meet1 L i + 1 + x then Some v else None)"
  using assms unfolding stored_def by fastforce

text \<open>The next call of a thread.\<close>

lemma next_call_of:
  assumes "thread_ok L s i p" and "p \<le> length (plan_trace L i)" and "cl_thread s i = Running (Call q k)"
  obtains a where "p < length (plan_trace L i)" and "plan_trace L i ! p = (q, a)"
    and "performs (drop (Suc p) (plan_trace L i)) (k a) (Inr (pl_fin L i))"
proof -
  have p: "performs (drop p (plan_trace L i)) (Call q k) (Inr (pl_fin L i))"
    using assms(1,3) by (simp add: thread_ok_def)
  then have lt: "p < length (plan_trace L i)" by (intro not_le_imp_less notI) simp
  obtain q' a where qa: "plan_trace L i ! p = (q', a)" by (cases "plan_trace L i ! p")
  from p have "performs ((q', a) # drop (Suc p) (plan_trace L i)) (Call q k) (Inr (pl_fin L i))"
    by (simp add: Cons_nth_drop_Suc [OF lt, symmetric] qa)
  with qa lt that show thesis by auto
qed

lemma issue_ok:
  assumes L: "plan_ok L" and inv: "plan_inv L p s" and i: "i < pl_num L" "p i < length (plan_trace L i)"
    and q: "plan_trace L i ! p i = (q, a)"
  shows "request_ok (cl_server s (plan_route L q)) q" and "response_fits (cl_server s (plan_route L q)) q a"
    and "q \<noteq> LoadServerRequest adr"
proof -
  note st = plan_invD(4) [OF inv]
  have meet: "request_ok (cl_server s 0) (BarrierRequest nm (of_nat (pl_num L)))"
    if "meeting L p s nm idx" "p i = idx i" for nm idx
  proof -
    have "\<not> (\<forall>i < pl_num L. idx i < p i)" using i(1) that(2) by force
    then show ?thesis using that(1) by (auto simp: meeting_def request_ok_def split: option.splits)
  qed
  have "request_ok (cl_server s (plan_route L q)) q \<and> response_fits (cl_server s (plan_route L q)) q a \<and>
      q \<noteq> LoadServerRequest adr"
    using i(2)
  proof (cases rule: plan_trace_cases)
    case (push k v)
    have "q = PushKVRequest k v" "a = PushKVResponse" using push(3) q by simp_all
    then show ?thesis using storedD [OF st i(1) push(1,2)] push(1)
      by (simp add: ctrl_route_def request_ok_def response_fits_def)
  next
    case (pull k v)
    have "a = PullKVResponse v'" if "kv (cl_server s (pl_route L k)) k = Some v'" for v'
    proof -
      obtain j y where j: "j < pl_num L" "y < npush L j" "pl_push L j ! y = (k, v)"
        using plan_okD(5) [OF L i(1) pull(3)] by (auto simp: in_set_conv_nth)
      then show ?thesis using storedD [OF st j] that pull(4) q by (auto split: if_splits)
    qed
    then show ?thesis using pull(4) q by (auto simp: ctrl_route_def request_ok_def response_fits_def)
  next
    case meet1
    then show ?thesis using meet [OF plan_invD(5) [OF inv]] q
      by (auto simp: barrier_call_def ctrl_route_def response_fits_def)
  next
    case (clear y k v)
    have "q = ClearKVRequest k" "a = ClearKVResponse" using clear(4) q by simp_all
    then show ?thesis using storedD [OF st i(1) clear(1,3)] clear(1,2)
      by (simp add: ctrl_route_def request_ok_def response_fits_def)
  next
    case meet2
    then show ?thesis using meet [OF plan_invD(6) [OF inv]] q
      by (auto simp: barrier_call_def ctrl_route_def response_fits_def)
  qed
  then show "request_ok (cl_server s (plan_route L q)) q" "response_fits (cl_server s (plan_route L q)) q a"
    "q \<noteq> LoadServerRequest adr" by blast+
qed
section \<open>The steps keep it\<close>

text \<open>After call \<open>q\<close> of thread \<open>i\<close> has arrived as \<open>c\<close>.\<close>

definition issued :: "'a plan \<Rightarrow> nat \<Rightarrow> nat \<Rightarrow> ctrl_request \<Rightarrow> (ctrl_response \<Rightarrow> 'a prog) \<Rightarrow> 'a cluster \<Rightarrow> 'a cluster" where
  "issued L i c q k s = (let j = plan_route L q in
     s\<lparr>cl_server := (cl_server s)(j := item_effect (Arrived c q) (cl_server s j)),
       cl_thread := (cl_thread s)(i := Waiting j c k)\<rparr>)"

lemma issued_simps [simp]:
  "cl_server (issued L i c q k s) j = (if j = plan_route L q
     then item_effect (Arrived c q) (cl_server s j) else cl_server s j)"
  "cl_thread (issued L i c q k s) i' = (if i' = i then Waiting (plan_route L q) c k else cl_thread s i')"
  by (simp_all add: issued_def Let_def)

lemma stored_issued:
  assumes L: "plan_ok L" and inv: "plan_inv L p s" and i: "i < pl_num L" "p i < length (plan_trace L i)"
    and q: "plan_trace L i ! p i = (q, a)"
  shows "stored L (p(i := Suc (p i))) (issued L i c q k s)"
  unfolding stored_def
proof (intro allI impI, clarify)
  fix i0 x k0 v0 assume h: "i0 < pl_num L" "x < npush L i0" "pl_push L i0 ! x = (k0, v0)"
  let ?p = "p(i := Suc (p i))" and ?sv = "cl_server s (pl_route L k0)"
  note old = storedD [OF plan_invD(4) [OF inv] h]
  have new: "kv (cl_server (issued L i c q k s) (pl_route L k0)) k0 =
      (if plan_route L q = pl_route L k0 then live_step k0 q (kv ?sv k0) else kv ?sv k0)"
    by (simp add: kv_Arrived)
  show "kv (cl_server (issued L i c q k s) (pl_route L k0)) k0 =
      (if x < ?p i0 \<and> ?p i0 \<le> meet1 L i0 + 1 + x then Some v0 else None)"
    using i(2)
  proof (cases rule: plan_trace_cases)
    case (push k' v')
    have q': "q = PushKVRequest k' v'" using push(3) q by simp
    show ?thesis
    proof (cases "k' = k0")
      case True
      have "i = i0" "p i = x" using plan_key [OF L i(1) h(1) push(1) h(2)] push(2) h(3) True by simp_all
      then show ?thesis unfolding new using q' True push(2) h(3) by (simp add: ctrl_route_def live_step_def)
    next
      case False
      then have "i = i0 \<Longrightarrow> p i \<noteq> x" using push(2) h(3) by auto
      then show ?thesis unfolding new old using q' False push(1) by (auto simp: live_step_def)
    qed
  next
    case (clear y k' v')
    have q': "q = ClearKVRequest k'" using clear(4) q by simp
    show ?thesis
    proof (cases "k' = k0")
      case True
      have "i = i0" "y = x" using plan_key [OF L i(1) h(1) clear(1) h(2)] clear(3) h(3) True by simp_all
      then show ?thesis unfolding new using q' True clear(2) by (simp add: ctrl_route_def live_step_def)
    next
      case False
      then have "i = i0 \<Longrightarrow> y \<noteq> x" using clear(3) h(3) by auto
      then show ?thesis unfolding new old using q' False clear(1,2) h(2) by (auto simp: live_step_def)
    qed
  next
    case (pull k' v')
    have "q = PullKVRequest k'" using pull(4) q by simp
    then show ?thesis unfolding new old using pull(1,2) h(2) by (auto simp: live_step_def)
  next
    case meet1
    then have "q = BarrierRequest (pl_b1 L) (of_nat (pl_num L))" using q by (simp add: barrier_call_def)
    then show ?thesis unfolding new old using meet1(1) h(2) by (auto simp: live_step_def)
  next
    case meet2
    then have "q = BarrierRequest (pl_b2 L) (of_nat (pl_num L))" using q by (simp add: barrier_call_def)
    then show ?thesis unfolding new old using meet2(1) h(2) by (auto simp: live_step_def)
  qed
qed

lemma meetingD:
  assumes "meeting L p s nm idx" and "\<not> (\<forall>i < pl_num L. idx i < p i)"
  shows "length (arrived (cl_server s 0) nm) = card {i. i < pl_num L \<and> idx i < p i}"
    and "barrier_calls (cl_server s 0) nm = Some it \<Longrightarrow> snd it = of_nat (pl_num L)"
    and "i < pl_num L \<Longrightarrow> idx i < p i \<Longrightarrow> p i = Suc (idx i)"
    and "i < pl_num L \<Longrightarrow> idx i < p i \<Longrightarrow>
      \<exists>c k. cl_thread s i = Waiting 0 c k \<and> c \<in> set (arrived (cl_server s 0) nm)"
  using assms(1) unfolding meeting_def if_not_P [OF assms(2)] by blast+

text \<open>A barrier that the call does not concern.\<close>

lemma meeting_other:
  assumes m: "meeting L p s nm idx" and i: "i < pl_num L" "cl_thread s i = Running pr"
    and ne: "p i \<noteq> idx i" and q: "\<And>m. q \<noteq> BarrierRequest nm m"
  shows "meeting L (p(i := Suc (p i))) (issued L i c q k s) nm idx"
proof -
  let ?p = "p(i := Suc (p i))" and ?s = "issued L i c q k s"
  have tables: "barrier_calls (cl_server ?s 0) nm = barrier_calls (cl_server s 0) nm"
    "arrived (cl_server ?s 0) nm = arrived (cl_server s 0) nm"
    using q by (auto simp: barrier_calls_effect arrived_effect split: ctrl_request.splits)
  have came: "idx i' < ?p i' \<longleftrightarrow> idx i' < p i'" for i' using ne by auto
  show ?thesis
  proof (cases "\<forall>i < pl_num L. idx i < p i")
    case True
    then show ?thesis using m came tables by (simp add: meeting_def)
  next
    case False
    then have out: "\<not> idx i < p i" using meetingD(4) [OF m False i(1)] i(2) by auto
    have "?p i' = Suc (idx i') \<and> (\<exists>c k. cl_thread ?s i' = Waiting 0 c k \<and> c \<in> set (arrived (cl_server s 0) nm))"
      if "i' < pl_num L" "idx i' < p i'" for i'
      using meetingD(3,4) [OF m False that] that out by (cases "i' = i") auto
    then show ?thesis using meetingD(1,2) [OF m False] unfolding meeting_def came tables if_not_P [OF False] by blast
  qed
qed

lemma meeting_arrives:
  assumes L: "plan_ok L" and m: "meeting L p s nm idx" and i: "i < pl_num L" "cl_thread s i = Running pr" "p i = idx i"
  shows "meeting L (p(i := Suc (p i))) (issued L i c (BarrierRequest nm (of_nat (pl_num L))) k s) nm idx"
proof -
  let ?q = "BarrierRequest nm (of_nat (pl_num L))" and ?n = "pl_num L"
  let ?p = "p(i := Suc (p i))" and ?s = "issued L i c ?q k s" and ?sv = "cl_server s 0"
  let ?M = "{i. i < ?n \<and> idx i < p i}"
  have inc: "\<not> (\<forall>i < ?n. idx i < p i)" using i(1,3) by force
  with m have len: "length (arrived ?sv nm) = card ?M"
    and wait: "\<And>i. i < ?n \<Longrightarrow> idx i < p i \<Longrightarrow> p i = Suc (idx i) \<and>
      (\<exists>c k. cl_thread s i = Waiting 0 c k \<and> c \<in> set (arrived ?sv nm))"
    by (simp_all add: meeting_def)
  have M': "{i'. i' < ?n \<and> idx i' < ?p i'} = insert i ?M" "i \<notin> ?M" using i(1,3) by auto
  then have card': "card {i'. i' < ?n \<and> idx i' < ?p i'} = Suc (card ?M)" by simp
  have "insert i ?M \<subseteq> {..<?n}" using i(1) by auto
  then have le: "Suc (card ?M) \<le> ?n" using card_mono [of "{..<?n}" "insert i ?M"] M'(2) by simp
  have all: "(\<forall>i' < ?n. idx i' < ?p i') \<longleftrightarrow> Suc (card ?M) = ?n"
  proof
    assume "\<forall>i' < ?n. idx i' < ?p i'"
    then have "{i'. i' < ?n \<and> idx i' < ?p i'} = {..<?n}" by auto
    then show "Suc (card ?M) = ?n" using card' by simp
  next
    assume "Suc (card ?M) = ?n"
    then have "insert i ?M = {..<?n}" using \<open>insert i ?M \<subseteq> {..<?n}\<close> M'(2) by (intro card_subset_eq) simp_all
    then show "\<forall>i' < ?n. idx i' < ?p i'" unfolding M'(1) [symmetric] by blast
  qed
  have "sint (of_nat ?n :: i32) = int ?n"
    using plan_okD(2) [OF L] by (simp add: signed_of_nat signed_take_bit_int_eq_self)
  then have full: "(of_nat (Suc (card ?M)) :: u64) = scast (of_nat ?n :: i32) \<longleftrightarrow> Suc (card ?M) = ?n"
    using barrier_length [of "of_nat ?n" "Suc (card ?M)"] plan_okD(1) [OF L] le by simp
  have route: "plan_route L ?q = 0" by (simp add: ctrl_route_def)
  have tables: "barrier_calls (cl_server ?s 0) nm = (if Suc (card ?M) = ?n then None
      else Some (arrived ?sv nm @ [c], of_nat ?n))"
    "arrived (cl_server ?s 0) nm = (if Suc (card ?M) = ?n then [] else arrived ?sv nm @ [c])"
    using full by (simp_all add: route barrier_calls_effect arrived_effect len)
  show ?thesis
  proof (cases "Suc (card ?M) = ?n")
    case True
    then show ?thesis unfolding meeting_def all tables by simp
  next
    case False
    have "?p i' = Suc (idx i') \<and> (\<exists>c' k'. cl_thread ?s i' = Waiting 0 c' k' \<and> c' \<in> set (arrived ?sv nm @ [c]))"
      if "i' < ?n" "idx i' < ?p i'" for i'
    proof (cases "i' = i")
      case False
      then show ?thesis using that wait [of i'] by auto
    qed (use i(3) route in simp)
    then show ?thesis using False unfolding meeting_def all tables card' by (simp add: len)
  qed
qed
text \<open>The three kinds of steps.\<close>

lemma thread_ok_other:
  assumes t: "thread_ok L s i p" and same: "cl_thread s' i = cl_thread s i"
    and fl: "\<And>j c q a x. plan_trace L i ! x = (q, a) \<Longrightarrow> x < length (plan_trace L i) \<Longrightarrow> j = plan_route L q \<Longrightarrow>
      in_flight (cl_server s j) c q a \<Longrightarrow> in_flight (cl_server s' j) c q a"
  shows "thread_ok L s' i p"
proof (cases "cl_thread s i")
  case (Running pr)
  then show ?thesis using t same by (simp add: thread_ok_def)
next
  case (Waiting j c k)
  with t obtain x q a where x: "p = Suc x" "x < length (plan_trace L i)" "plan_trace L i ! x = (q, a)"
    "j = plan_route L q" "performs (drop p (plan_trace L i)) (k a) (Inr (pl_fin L i))"
    "in_flight (cl_server s j) c q a" by (auto simp: thread_ok_def)
  then show ?thesis using fl [OF x(3,2,4,6)] Waiting same by (simp add: thread_ok_def)
qed

lemma issue_step:
  assumes L: "plan_ok L" and inv: "plan_inv L p s"
    and al: "cluster_allowed (pl_num L) (pl_addr L) (plan_route L) s (Issue i c)"
  shows "\<exists>s'. cluster_step (plan_route L) s (Issue i c) = Inr s' \<and> plan_inv L (p(i := Suc (p i))) s' \<and>
    (\<exists>pr j k. cl_thread s i = Running pr \<and> cl_thread s' = (cl_thread s)(i := Waiting j c k))"
proof -
  obtain q k where i: "i < pl_num L" and t: "cl_thread s i = Running (Call q k)"
    and c: "takes (cl_server s (plan_route L q)) c (method_of q)"
    using al by (auto split: thread.splits prog.splits)
  let ?j = "plan_route L q" and ?s' = "issued L i c q k s"
  obtain a where a: "p i < length (plan_trace L i)" "plan_trace L i ! p i = (q, a)"
    "performs (drop (Suc (p i)) (plan_trace L i)) (k a) (Inr (pl_fin L i))"
    using next_call_of [OF plan_invD(3) [OF inv i] plan_invD(2) [OF inv i] t] by blast
  note ok = issue_ok [OF L inv i a(1,2)]
  have j: "?j < pl_num L" by (rule plan_route_bound [OF L])
  note up = plan_invD(1) [OF inv]
  note sv = server_up_Arrived [OF up [OF j] c ok(1)]
  have wf: "wf_server (cl_server s ?j)" using up [OF j] by (simp add: server_up_def)
  have adr: "q = LoadServerRequest b \<Longrightarrow> b = pl_addr L ?j" for b using ok(3) by blast
  have step: "cluster_step (plan_route L) s (Issue i c) = Inr ?s'"
    using t sv(1) [OF adr] by (simp add: serve_def set_thread_def issued_def Let_def)
  have ups: "server_up (pl_addr L j') (cl_server ?s' j')" if "j' < pl_num L" for j'
    using up [OF that] sv(2) [OF adr] by simp
  have own: "thread_ok L ?s' i (Suc (p i))"
    using a in_flight_new [OF ok(2)] by (simp add: thread_ok_def)
  have others: "thread_ok L ?s' i' (p i')" if i': "i' < pl_num L" "i' \<noteq> i" for i'
  proof (rule thread_ok_other [OF plan_invD(3) [OF inv i'(1)]])
    show "cl_thread ?s' i' = cl_thread s i'" using i'(2) by simp
    fix j' c' q' a' x
    assume x: "plan_trace L i' ! x = (q', a')" "x < length (plan_trace L i')"
      and fl: "in_flight (cl_server s j') c' q' a'"
    have "in_flight (item_effect (Arrived c q) (cl_server s ?j)) c' q' a'" if "j' = ?j"
    proof (rule in_flight_keeps [OF wf fl [unfolded that] ok(1)])
      fix k0 v assume q': "q' = PullKVRequest k0" and q: "q = PushKVRequest k0 v"
      from a(1) have "p i < npush L i \<and> pl_push L i ! p i = (k0, v)"
        by (cases rule: plan_trace_cases) (use a(2) q in \<open>auto simp: barrier_call_def\<close>)
      then show "a' = PullKVResponse v"
        using plan_pull_value [OF L i'(1) x(2) x(1) [unfolded q'] i] by fastforce
    next
      fix n m assume "q' = BarrierRequest n m"
      then show "a' = BarrierResponse" using plan_barrier_response x by blast
    qed
    then show "in_flight (cl_server ?s' j') c' q' a'" using fl by simp
  qed
  have b: "pl_b1 L \<noteq> pl_b2 L" by (rule plan_okD(3) [OF L])
  have other: "meeting L (p(i := Suc (p i))) ?s' (pl_b1 L) (meet1 L) \<and>
      meeting L (p(i := Suc (p i))) ?s' (pl_b2 L) (meet2 L)"
    if "p i \<noteq> meet1 L i" "p i \<noteq> meet2 L i" "\<And>nm m. q \<noteq> BarrierRequest nm m"
    using meeting_other [OF plan_invD(5) [OF inv] i t that(1,3)] meeting_other [OF plan_invD(6) [OF inv] i t that(2,3)]
    by blast
  have meets: "meeting L (p(i := Suc (p i))) ?s' (pl_b1 L) (meet1 L) \<and>
      meeting L (p(i := Suc (p i))) ?s' (pl_b2 L) (meet2 L)"
    using a(1)
  proof (cases rule: plan_trace_cases)
    case meet1
    then have q: "q = BarrierRequest (pl_b1 L) (of_nat (pl_num L))" using a(2) by (simp add: barrier_call_def)
    have "meeting L (p(i := Suc (p i))) ?s' (pl_b2 L) (meet2 L)"
      by (rule meeting_other [OF plan_invD(6) [OF inv] i t]) (use meet1(1) q b in auto)
    then show ?thesis using meeting_arrives [OF L plan_invD(5) [OF inv] i t meet1(1)] q by simp
  next
    case meet2
    then have q: "q = BarrierRequest (pl_b2 L) (of_nat (pl_num L))" using a(2) by (simp add: barrier_call_def)
    have "meeting L (p(i := Suc (p i))) ?s' (pl_b1 L) (meet1 L)"
      by (rule meeting_other [OF plan_invD(5) [OF inv] i t]) (use meet2(1) q b in auto)
    then show ?thesis using meeting_arrives [OF L plan_invD(6) [OF inv] i t meet2(1)] q by simp
  next
    case (push k' v)
    then show ?thesis by (intro other) (use a(2) in simp_all)
  next
    case (pull k' v)
    then show ?thesis by (intro other) (use a(2) in simp_all)
  next
    case (clear y k' v)
    moreover from clear(4) have "q = ClearKVRequest k'" using a(2) by simp
    ultimately show ?thesis by (intro other) simp_all
  qed
  have "plan_inv L (p(i := Suc (p i))) ?s'"
    using ups own others a(1) plan_invD(2) [OF inv] stored_issued [OF L inv i a(1,2)] meets
    by (simp add: plan_inv_def)
  moreover have "cl_thread ?s' = (cl_thread s)(i := Waiting ?j c k)" by (simp add: fun_eq_iff)
  ultimately show ?thesis using step t by blast
qed

lemma meeting_cong:
  assumes "meeting L p s nm idx"
    and "barrier_calls (cl_server s' 0) nm = barrier_calls (cl_server s 0) nm"
    and "\<not> (\<forall>i < pl_num L. idx i < p i) \<Longrightarrow> (\<And>i. i < pl_num L \<Longrightarrow> idx i < p i \<Longrightarrow> cl_thread s' i = cl_thread s i)"
  shows "meeting L p s' nm idx"
proof (cases "\<forall>i < pl_num L. idx i < p i")
  case True
  then show ?thesis using assms(1,2) by (simp add: meeting_def)
next
  case False
  have "arrived (cl_server s' 0) nm = arrived (cl_server s 0) nm" using assms(2) by (simp add: arrived_def)
  then show ?thesis using meetingD [OF assms(1) False] assms(2) assms(3) [OF False]
    unfolding meeting_def if_not_P [OF False] by auto
qed

lemma serve_step:
  assumes L: "plan_ok L" and inv: "plan_inv L p s"
    and al: "cluster_allowed (pl_num L) (pl_addr L) (plan_route L) s (Serve j item)"
  shows "\<exists>s'. cluster_step (plan_route L) s (Serve j item) = Inr s' \<and> plan_inv L p s' \<and> cl_thread s' = cl_thread s"
proof -
  let ?s' = "s\<lparr>cl_server := (cl_server s)(j := item_effect item (cl_server s j))\<rparr>"
  have j: "j < pl_num L" "other_item (pl_addr L j) (cl_server s j) item" using al by simp_all
  note up = plan_invD(1) [OF inv]
  note sv = server_up_other [OF up [OF j(1)] j(2)]
  have step: "cluster_step (plan_route L) s (Serve j item) = Inr ?s'" using sv(1) by (simp add: serve_def)
  have ups: "server_up (pl_addr L j') (cl_server ?s' j')" if "j' < pl_num L" for j'
    using up [OF that] sv(2) by simp
  have threads: "thread_ok L ?s' i (p i)" if "i < pl_num L" for i
    by (rule thread_ok_other [OF plan_invD(3) [OF inv that]])
      (use in_flight_other [OF up [OF j(1)] j(2)] in \<open>auto simp: fun_upd_def\<close>)
  have tables: "kv (cl_server ?s' j') = kv (cl_server s j')"
    "barrier_calls (cl_server ?s' j') = barrier_calls (cl_server s j')" for j' using sv(3,5) by simp_all
  have "stored L p ?s'" using plan_invD(4) [OF inv] unfolding stored_def tables .
  moreover have "meeting L p ?s' (pl_b1 L) (meet1 L)" "meeting L p ?s' (pl_b2 L) (meet2 L)"
    by (rule meeting_cong [OF plan_invD(5) [OF inv]], simp_all only: tables, simp)
      (rule meeting_cong [OF plan_invD(6) [OF inv]], simp_all only: tables, simp)
  ultimately have "plan_inv L p ?s'" using ups threads plan_invD(2) [OF inv] by (simp add: plan_inv_def)
  then show ?thesis using step by auto
qed

lemma answer_step:
  assumes L: "plan_ok L" and inv: "plan_inv L p s"
    and al: "cluster_allowed (pl_num L) (pl_addr L) (plan_route L) s (Answer i)"
  shows "\<exists>s'. cluster_step (plan_route L) s (Answer i) = Inr s' \<and> plan_inv L p s' \<and>
    (\<exists>j c k pr. cl_thread s i = Waiting j c k \<and> cl_thread s' = (cl_thread s)(i := Running pr))"
proof -
  obtain j c k where i: "i < pl_num L" and t: "cl_thread s i = Waiting j c k"
    and fin: "c \<in> fst ` set (finished (cl_server s j))" using al by (auto split: thread.splits)
  obtain x q a where x: "p i = Suc x" "x < length (plan_trace L i)" "plan_trace L i ! x = (q, a)"
    "j = plan_route L q" "performs (drop (p i) (plan_trace L i)) (k a) (Inr (pl_fin L i))"
    "in_flight (cl_server s j) c q a"
    using plan_invD(3) [OF inv i] t by (auto simp: thread_ok_def)
  have "server_up (pl_addr L j) (cl_server s j)" using plan_invD(1) [OF inv] plan_route_bound [OF L] x(4) by simp
  then have wf: "wf_server (cl_server s j)" by (simp add: server_up_def)
  let ?s' = "set_thread i (Running (k a)) s"
  have step: "cluster_step (plan_route L) s (Answer i) = Inr ?s'"
    using t in_flight_answer [OF wf x(6) fin] by simp
  have th: "cl_thread ?s' = (cl_thread s)(i := Running (k a))" and sv: "cl_server ?s' = cl_server s"
    by (simp_all add: set_thread_def)
  have own: "thread_ok L ?s' i (p i)" using x(5) by (simp add: thread_ok_def th)
  have others: "thread_ok L ?s' i' (p i')" if "i' < pl_num L" "i' \<noteq> i" for i'
    by (rule thread_ok_other [OF plan_invD(3) [OF inv that(1)]]) (use that in \<open>simp_all add: th sv\<close>)
  have out: "i' \<noteq> i" if "meeting L p s nm idx" "\<not> (\<forall>i < pl_num L. idx i < p i)" "i' < pl_num L" "idx i' < p i'"
    for nm idx i'
  proof
    assume "i' = i"
    from meetingD(4) [OF that] t this have "j = 0" "c \<in> set (arrived (cl_server s 0) nm)" by auto
    then have "listed (cl_server s j) c (BarrierRequest nm 0)" by (simp add: listed_def)
    from listed_unfinished [OF wf this] fin show False by simp
  qed
  have meet: "meeting L p ?s' nm idx" if m: "meeting L p s nm idx" for nm idx
  proof (rule meeting_cong [OF m])
    show "cl_thread ?s' i' = cl_thread s i'"
      if "\<not> (\<forall>i < pl_num L. idx i < p i)" "i' < pl_num L" "idx i' < p i'" for i'
      using out [OF m that] by (simp add: th)
  qed (simp add: sv)
  have threads: "thread_ok L ?s' i' (p i')" if "i' < pl_num L" for i'
    using own others [OF that] by (cases "i' = i") simp_all
  have "stored L p ?s'" using plan_invD(4) [OF inv] unfolding stored_def sv .
  then have "plan_inv L p ?s'"
    using threads meet [OF plan_invD(5) [OF inv]] meet [OF plan_invD(6) [OF inv]] plan_invD(1,2) [OF inv]
    by (simp add: plan_inv_def sv)
  then show ?thesis using step t th by blast
qed
section \<open>Runs\<close>

definition own :: "event \<Rightarrow> bool" where
  "own e \<longleftrightarrow> (case e of Serve j item \<Rightarrow> False | _ \<Rightarrow> True)"

definition waiting :: "nat \<Rightarrow> 'a cluster \<Rightarrow> nat set" where
  "waiting n s = {i. i < n \<and> (case cl_thread s i of Waiting j c k \<Rightarrow> True | Running pr \<Rightarrow> False)}"

lemma finite_waiting [simp]: "finite (waiting n s)"
  by (simp add: waiting_def)

lemma cluster_step_inv:
  assumes L: "plan_ok L" and inv: "plan_inv L p s"
    and al: "cluster_allowed (pl_num L) (pl_addr L) (plan_route L) s e"
  shows "\<exists>s' p'. cluster_step (plan_route L) s e = Inr s' \<and> plan_inv L p' s' \<and>
    (if own e then 1 else 0) + card (waiting (pl_num L) s') + 2 * (\<Sum>i < pl_num L. p i) =
      card (waiting (pl_num L) s) + 2 * (\<Sum>i < pl_num L. p' i)"
proof (cases e)
  case (Issue i c)
  have i: "i < pl_num L" using al Issue by simp
  from issue_step [OF L inv al [unfolded Issue]] obtain s' pr j k where s':
    "cluster_step (plan_route L) s (Issue i c) = Inr s'" "plan_inv L (p(i := Suc (p i))) s'"
    "cl_thread s i = Running pr" "cl_thread s' = (cl_thread s)(i := Waiting j c k)" by blast
  have "waiting (pl_num L) s' = insert i (waiting (pl_num L) s)" "i \<notin> waiting (pl_num L) s"
    using s'(3,4) i by (auto simp: waiting_def)
  moreover have "(\<Sum>x < pl_num L. (p(i := Suc (p i))) x) = Suc (\<Sum>x < pl_num L. p x)"
  proof -
    have part: "(\<Sum>x < pl_num L. f x) = f i + (\<Sum>x \<in> {..<pl_num L} - {i}. f x)" for f :: "nat \<Rightarrow> nat"
      using i by (intro sum.remove) simp_all
    have "(\<Sum>x \<in> {..<pl_num L} - {i}. (p(i := Suc (p i))) x) = (\<Sum>x \<in> {..<pl_num L} - {i}. p x)"
      by (rule sum.cong) simp_all
    then show ?thesis unfolding part [of p] part [of "p(i := Suc (p i))"] by simp
  qed
  ultimately show ?thesis using s'(1,2) Issue by (intro exI [of _ s'] exI [of _ "p(i := Suc (p i))"]) (simp add: own_def)
next
  case (Answer i)
  have i: "i < pl_num L" using al Answer by simp
  from answer_step [OF L inv al [unfolded Answer]] obtain s' pr j c k where s':
    "cluster_step (plan_route L) s (Answer i) = Inr s'" "plan_inv L p s'"
    "cl_thread s i = Waiting j c k" "cl_thread s' = (cl_thread s)(i := Running pr)" by blast
  have "waiting (pl_num L) s = insert i (waiting (pl_num L) s')" "i \<notin> waiting (pl_num L) s'"
    using s'(3,4) i by (auto simp: waiting_def)
  then show ?thesis using s'(1,2) Answer by (intro exI [of _ s'] exI [of _ p]) (simp add: own_def)
next
  case (Serve j item)
  from serve_step [OF L inv al [unfolded Serve]] obtain s' where s':
    "cluster_step (plan_route L) s (Serve j item) = Inr s'" "plan_inv L p s'" "cl_thread s' = cl_thread s" by blast
  then show ?thesis using Serve by (intro exI [of _ s'] exI [of _ p]) (simp add: own_def waiting_def)
qed

definition cluster_start :: "(nat \<Rightarrow> 'a prog) \<Rightarrow> 'a cluster" where
  "cluster_start progs = \<lparr>cl_server = (\<lambda>_. EnqueueRequests CtrlServer_init), cl_thread = (\<lambda>i. Running (progs i))\<rparr>"

lemma cluster_start_inv:
  assumes L: "plan_ok L" and t: "\<And>i. i < pl_num L \<Longrightarrow> performs (plan_trace L i) (progs i) (Inr (pl_fin L i))"
  shows "plan_inv L (\<lambda>_. 0) (cluster_start progs)" and "waiting (pl_num L) (cluster_start progs) = {}"
proof -
  have new: "kv (EnqueueRequests CtrlServer_init) = (\<lambda>_. None)"
    "barrier_calls (EnqueueRequests CtrlServer_init) = (\<lambda>_. None)"
    by (simp_all add: EnqueueRequests_def) (simp_all add: CtrlServer_init_def)
  have n: "0 < pl_num L" by (rule plan_okD(1) [OF L])
  have "meeting L (\<lambda>_. 0) (cluster_start progs) nm idx" for nm idx
    using n by (auto simp: meeting_def cluster_start_def new arrived_def)
  moreover have "stored L (\<lambda>_. 0) (cluster_start progs)"
    by (simp add: stored_def cluster_start_def new split: prod.split)
  ultimately show "plan_inv L (\<lambda>_. 0) (cluster_start progs)"
    using t by (simp add: plan_inv_def thread_ok_def) (simp add: cluster_start_def server_up_new)
  show "waiting (pl_num L) (cluster_start progs) = {}" by (simp add: waiting_def cluster_start_def)
qed

interpretation cluster: safe_ops "cluster_step (plan_route L)" "\<lambda>s. plan_ok L \<and> (\<exists>p. plan_inv L p s)"
  "cluster_allowed (pl_num L) (pl_addr L) (plan_route L)" for L
  by unfold_locales (use cluster_step_inv in fastforce)+

section \<open>No deadlock\<close>

lemma returned_thread:
  assumes "thread_ok L s i p" and "p \<le> length (plan_trace L i)" and "cl_thread s i = Running (Ret r)"
  shows "p = length (plan_trace L i)" and "r = Inr (pl_fin L i)"
proof -
  have "performs (drop p (plan_trace L i)) (Ret r) (Inr (pl_fin L i))" using assms(1,3) by (simp add: thread_ok_def)
  moreover from this have "drop p (plan_trace L i) = []" by (cases "drop p (plan_trace L i)") auto
  ultimately show "p = length (plan_trace L i)" "r = Inr (pl_fin L i)" using assms(2) by simp_all
qed

lemma no_deadlock:
  assumes L: "plan_ok L" and inv: "plan_inv L p s"
    and stuck: "\<And>e. own e \<Longrightarrow> \<not> cluster_allowed (pl_num L) (pl_addr L) (plan_route L) s e"
    and i0: "i0 < pl_num L"
  shows "\<exists>r. cl_thread s i0 = Running (Ret r)"
proof -
  note up = plan_invD(1) [OF inv] and th = plan_invD(3) [OF inv] and le = plan_invD(2) [OF inv]
  have wf: "wf_server (cl_server s (plan_route L q))" for q
    using up [OF plan_route_bound [OF L]] by (simp add: server_up_def)
  txt \<open>No thread is about to call.\<close>
  have ret: "\<exists>r. pr = Ret r" if "i < pl_num L" "cl_thread s i = Running pr" for i pr
  proof (cases pr)
    case (Call q k)
    obtain c where "takes (cl_server s (plan_route L q)) c (method_of q)"
      using up [OF plan_route_bound [OF L]] unfolding server_up_def by blast
    then have "cluster_allowed (pl_num L) (pl_addr L) (plan_route L) s (Issue i c)" using that Call by simp
    then show ?thesis using stuck [of "Issue i c"] by (simp add: own_def)
  qed simp
  have ended: "p i = length (plan_trace L i)" if "i < pl_num L" "cl_thread s i = Running pr" for i pr
    using ret [OF that] returned_thread [OF th [OF that(1)] le [OF that(1)]] that(2) by blast
  txt \<open>A thread that waits has its call in a list.\<close>
  have listed: "\<exists>x q a. p i = Suc x \<and> x < length (plan_trace L i) \<and> plan_trace L i ! x = (q, a) \<and>
      listed (cl_server s (plan_route L q)) c q" if i: "i < pl_num L" "cl_thread s i = Waiting j c k" for i j c k
  proof -
    obtain x q a where x: "p i = Suc x" "x < length (plan_trace L i)" "plan_trace L i ! x = (q, a)"
      "j = plan_route L q" "in_flight (cl_server s j) c q a"
      using th [OF i(1)] i(2) by (auto simp: thread_ok_def)
    have "c \<notin> fst ` set (finished (cl_server s j))"
      using stuck [of "Answer i"] i by (auto simp: own_def)
    then have "listed (cl_server s j) c q" using x(5) by (force simp: in_flight_def)
    then show ?thesis using x by blast
  qed
  txt \<open>So it waits at a barrier.\<close>
  have at: "(p i = Suc (meet1 L i) \<and> arrived (cl_server s 0) (pl_b1 L) \<noteq> []) \<or>
      (p i = Suc (meet2 L i) \<and> arrived (cl_server s 0) (pl_b2 L) \<noteq> [])"
    if i: "i < pl_num L" "cl_thread s i = Waiting j c k" for i j c k
  proof -
    obtain x q a where x: "p i = Suc x" "x < length (plan_trace L i)" "plan_trace L i ! x = (q, a)"
      "listed (cl_server s (plan_route L q)) c q" using listed [OF i] by blast
    show ?thesis using x(2)
    proof (cases rule: plan_trace_cases)
      case (pull key v)
      then have q: "q = PullKVRequest key" using x(3) by simp
      then have "pend (cl_server s (pl_route L key)) key \<noteq> []" using x(4) by (auto simp: listed_def ctrl_route_def)
      then have none: "kv (cl_server s (pl_route L key)) key = None"
        using pend_stored wf [of "PullKVRequest key"] by (fastforce simp: ctrl_route_def)
      obtain j' y where j': "j' < pl_num L" "y < npush L j'" "pl_push L j' ! y = (key, v)"
        using plan_okD(5) [OF L i(1) pull(3)] by (auto simp: in_set_conv_nth)
      have "\<not> (\<forall>i < pl_num L. meet1 L i < p i)" using i(1) x(1) pull(2) by force
      from meetingD(3) [OF plan_invD(5) [OF inv] this j'(1)] have "p j' \<le> Suc (meet1 L j')" by linarith
      then have early: "p j' \<le> y" using storedD [OF plan_invD(4) [OF inv] j'] none by (auto split: if_splits)
      show ?thesis
      proof (cases "cl_thread s j'")
        case (Running pr)
        then show ?thesis using ended [OF j'(1)] early j'(2) by (simp add: length_plan_trace)
      next
        case (Waiting a b d)
        obtain x' q' a' where x': "p j' = Suc x'" "plan_trace L j' ! x' = (q', a')"
          "listed (cl_server s (plan_route L q')) b q'" using listed [OF j'(1) Waiting] by blast
        then have "x' < npush L j'" using early j'(2) by simp
        from plan_trace_nth(1) [OF this] x'(2,3) show ?thesis by (auto simp: listed_def split: prod.splits)
      qed
    next
      case meet1
      then show ?thesis using x by (auto simp: barrier_call_def listed_def ctrl_route_def)
    next
      case meet2
      then show ?thesis using x by (auto simp: barrier_call_def listed_def ctrl_route_def)
    qed (use x(3,4) in \<open>auto simp: listed_def\<close>)
  qed
  txt \<open>At the first barrier all have come, so nobody waits there; then the same at the second.\<close>
  have full: "\<exists>i < pl_num L. p i \<le> idx i" if "meeting L p s nm idx" "arrived (cl_server s 0) nm \<noteq> []" for nm idx
    using that by (auto simp: meeting_def arrived_def not_less split: if_splits)
  have past: "p i = length (plan_trace L i) \<or> p i = Suc (meet1 L i) \<or> p i = Suc (meet2 L i)" if "i < pl_num L" for i
    using ended [OF that] at [OF that] by (cases "cl_thread s i") blast+
  have b1: "arrived (cl_server s 0) (pl_b1 L) = []"
    using full [OF plan_invD(5) [OF inv]] past by (fastforce simp: length_plan_trace)
  have b2: "arrived (cl_server s 0) (pl_b2 L) = []"
  proof (rule ccontr)
    assume "\<not> ?thesis"
    from full [OF plan_invD(6) [OF inv] this] obtain i where i: "i < pl_num L" "p i \<le> meet2 L i" by blast
    show False
    proof (cases "cl_thread s i")
      case (Running pr)
      then show False using ended [OF i(1)] i(2) by (simp add: length_plan_trace)
    next
      case (Waiting j c k)
      then show False using at [OF i(1)] b1 i(2) by fastforce
    qed
  qed
  show ?thesis
  proof (cases "cl_thread s i0")
    case (Running pr)
    then show ?thesis using ret [OF i0] by blast
  next
    case (Waiting j c k)
    then show ?thesis using at [OF i0] b1 b2 by blast
  qed
qed
section \<open>What a run does\<close>

lemma plan_run:
  assumes L: "plan_ok L"
    and t: "\<And>i. i < pl_num L \<Longrightarrow> performs (plan_trace L i) (progs i) (Inr (pl_fin L i))"
    and sch: "schedule (cluster_step (plan_route L)) (cluster_allowed (pl_num L) (pl_addr L) (plan_route L))
      (cluster_start progs) es"
  shows "\<exists>s. run (cluster_step (plan_route L)) (cluster_start progs) es = Inr s \<and>
    (\<forall>i r. i < pl_num L \<longrightarrow> cl_thread s i = Running (Ret r) \<longrightarrow> r = Inr (pl_fin L i)) \<and>
    length (filter own es) \<le> 2 * (\<Sum>i < pl_num L. length (plan_trace L i)) \<and>
    ((\<forall>i < pl_num L. cl_thread s i = Running (Ret (Inr (pl_fin L i)))) \<or>
      (\<exists>e. own e \<and> cluster_allowed (pl_num L) (pl_addr L) (plan_route L) s e))"
proof -
  let ?n = "pl_num L" and ?s0 = "cluster_start progs"
  let ?H = "\<lambda>es s. \<exists>p. plan_inv L p s \<and> length (filter own es) + card (waiting ?n s) = 2 * (\<Sum>i < ?n. p i)"
  note start = cluster_start_inv [OF L t]
  have "plan_ok L \<and> (\<exists>p. plan_inv L p ?s0)" using L start(1) by blast
  moreover have "?H [] ?s0" using start by (intro exI [of _ "\<lambda>_. 0"]) simp
  moreover have "?H (es @ [e]) s'" if h: "?H es s" and al: "cluster_allowed ?n (pl_addr L) (plan_route L) s e"
    and step: "cluster_step (plan_route L) s e = Inr s'" for es s e s'
  proof -
    obtain p where p: "plan_inv L p s" "length (filter own es) + card (waiting ?n s) = 2 * (\<Sum>i < ?n. p i)"
      using h by blast
    from cluster_step_inv [OF L p(1) al] step obtain p' where "plan_inv L p' s'"
      "(if own e then 1 else 0) + card (waiting ?n s') + 2 * (\<Sum>i < ?n. p i) =
        card (waiting ?n s) + 2 * (\<Sum>i < ?n. p' i)" by auto
    with p(2) show ?thesis by (intro exI [of _ p']) (auto split: if_splits)
  qed
  ultimately obtain s where run: "run (cluster_step (plan_route L)) ?s0 es = Inr s" and "?H es s"
    using cluster.run_history [OF _ sch, of ?H] by blast
  then obtain p where inv: "plan_inv L p s" and sum: "length (filter own es) + card (waiting ?n s) = 2 * (\<Sum>i < ?n. p i)"
    by blast
  have fin: "r = Inr (pl_fin L i)" if "i < ?n" "cl_thread s i = Running (Ret r)" for i r
    using returned_thread(2) [OF plan_invD(3) [OF inv that(1)] plan_invD(2) [OF inv that(1)] that(2)] .
  have "(\<Sum>i < ?n. p i) \<le> (\<Sum>i < ?n. length (plan_trace L i))"
    by (rule sum_mono) (use plan_invD(2) [OF inv] in simp)
  then have "length (filter own es) \<le> 2 * (\<Sum>i < ?n. length (plan_trace L i))" using sum by simp
  moreover have "(\<forall>i < ?n. cl_thread s i = Running (Ret (Inr (pl_fin L i)))) \<or>
      (\<exists>e. own e \<and> cluster_allowed ?n (pl_addr L) (plan_route L) s e)"
    using no_deadlock [OF L inv] fin by metis
  ultimately show ?thesis using run fin by blast
qed

text \<open>There are complete runs: one with the most calls and responses.\<close>

lemma plan_completes:
  assumes L: "plan_ok L"
    and t: "\<And>i. i < pl_num L \<Longrightarrow> performs (plan_trace L i) (progs i) (Inr (pl_fin L i))"
  shows "\<exists>es s. schedule (cluster_step (plan_route L)) (cluster_allowed (pl_num L) (pl_addr L) (plan_route L))
      (cluster_start progs) es \<and> run (cluster_step (plan_route L)) (cluster_start progs) es = Inr s \<and>
    (\<forall>i < pl_num L. cl_thread s i = Running (Ret (Inr (pl_fin L i))))"
proof -
  let ?S = "schedule (cluster_step (plan_route L)) (cluster_allowed (pl_num L) (pl_addr L) (plan_route L)) (cluster_start progs)"
  let ?m = "\<lambda>es. length (filter own es)"
  have "?S []" by simp
  moreover have "\<forall>es. ?S es \<longrightarrow> ?m es \<le> 2 * (\<Sum>i < pl_num L. length (plan_trace L i))"
    using plan_run [OF L t] by blast
  ultimately obtain es where es: "?S es" "\<And>es'. ?S es' \<Longrightarrow> ?m es' \<le> ?m es"
    using ex_has_greatest_nat [of ?S "[]" ?m] by (metis le_imp_less_Suc)
  obtain s where s: "run (cluster_step (plan_route L)) (cluster_start progs) es = Inr s"
    "(\<forall>i < pl_num L. cl_thread s i = Running (Ret (Inr (pl_fin L i)))) \<or>
      (\<exists>e. own e \<and> cluster_allowed (pl_num L) (pl_addr L) (plan_route L) s e)"
    using plan_run [OF L t es(1)] by blast
  have "\<not> cluster_allowed (pl_num L) (pl_addr L) (plan_route L) s e" if "own e" for e
  proof
    assume "cluster_allowed (pl_num L) (pl_addr L) (plan_route L) s e"
    then have "?S (es @ [e])" using es(1) s(1) by (simp add: schedule_append split: sum.split)
    from es(2) [OF this] that show False by simp
  qed
  with s es(1) show ?thesis by blast
qed

end
