(* ===== verification/ClusterSetup.thy ===== *)
theory ClusterSetup
  imports SetupLink Cluster
begin

text \<open>
  All machines of a configuration run \<open>SetUp\<close> at once against their control servers: the plan
  of Cluster.thy with the keys and values of \<open>SetUp\<close>. In every interleaving no server and no
  machine faults, the calls end, and any two machines that have come up are connected.
\<close>

section \<open>The machines\<close>

abbreviation machine_count :: "comm_net_config \<Rightarrow> nat" where
  "machine_count c \<equiv> length (machines c)"

definition responsible :: "(string \<Rightarrow> u64) \<Rightarrow> comm_net_config \<Rightarrow> string \<Rightarrow> nat" where
  "responsible std_hash c k = unat (std_hash k) mod machine_count c"

definition machine_addr :: "comm_net_config \<Rightarrow> nat \<Rightarrow> string" where
  "machine_addr c i = addr (machines c ! i)"

text \<open>The stub the client uses for a call is that of the server in the cluster.\<close>

lemma call_stub_route:
  assumes "stubs cl = map (stub_addr c) (machines c)" and "0 < machine_count c" and "machine_count c < 2 ^ 31"
  shows "call_stub std_hash c cl q = Inr (stub_addr c (machines c ! ctrl_route (responsible std_hash c) q))"
proof -
  have tn: "unat (TotalMachineNum c) = machine_count c" using assms(3) by (simp add: TotalMachineNum_def)
  then have "TotalMachineNum c \<noteq> 0" using assms(2) by auto
  moreover have "unat (std_hash k mod TotalMachineNum c) = responsible std_hash c k" for k
    by (simp add: unat_mod tn responsible_def)
  moreover have "responsible std_hash c k < machine_count c" for k using assms(2) by (simp add: responsible_def)
  ultimately have "GetResponsibleStub std_hash c cl k = Inr (stub_addr c (machines c ! responsible std_hash c k))" for k
    using assms(1) by (simp add: GetResponsibleStub_def vec_index_def)
  moreover have "GetMasterStub cl = Inr (stub_addr c (machines c ! 0))"
    using assms(1,2) by (simp add: GetMasterStub_def vec_index_def)
  ultimately show ?thesis by (cases q) (simp_all add: call_stub_def ctrl_route_def)
qed

text \<open>Every machine is ready and knows the others by their numbers.\<close>

definition cluster_ready ::
  "comm_net_config \<Rightarrow> (nat \<Rightarrow> 'v env) \<Rightarrow> (nat \<Rightarrow> 'v verbs) \<Rightarrow> (nat \<Rightarrow> 'v heap) \<Rightarrow> (nat \<Rightarrow> device_attr) \<Rightarrow>
   (nat \<Rightarrow> 'v comm_net) \<Rightarrow> bool"
where
  "cluster_ready c E V heap attr sn \<longleftrightarrow> 0 < machine_count c \<and> machine_count c < 2 ^ 31 \<and>
     (\<forall>i < machine_count c. setup_ready (E i) (V i) (heap i) (attr i) (sn i) \<and> e_cfg (E i) = c \<and>
        cn_this (sn i) = of_nat i \<and> set (cn_peers (sn i)) = of_nat ` ({..<machine_count c} - {i}))"

lemma cluster_readyD:
  assumes "cluster_ready c E V heap attr sn"
  shows "0 < machine_count c" and "machine_count c < 2 ^ 31"
    and "i < machine_count c \<Longrightarrow> setup_ready (E i) (V i) (heap i) (attr i) (sn i)"
    and "i < machine_count c \<Longrightarrow> e_cfg (E i) = c" and "i < machine_count c \<Longrightarrow> cn_this (sn i) = of_nat i"
    and "i < machine_count c \<Longrightarrow> set (cn_peers (sn i)) = of_nat ` ({..<machine_count c} - {i})"
    and "i < machine_count c \<Longrightarrow> distinct (cn_peers (sn i))"
  using assms unfolding cluster_ready_def setup_ready_def by blast+

definition setup_cluster ::
  "(nat \<Rightarrow> 'v env) \<Rightarrow> (nat \<Rightarrow> 'v verbs) \<Rightarrow> protos \<Rightarrow> string \<Rightarrow> i32 \<Rightarrow> work_record \<Rightarrow> (nat \<Rightarrow> 'v comm_net) \<Rightarrow>
   'v comm_net cluster"
where
  "setup_cluster E V P srcfile jb jr sn = cluster_start (\<lambda>i. SetUp (E i) (V i) P srcfile jb jr (sn i))"

section \<open>The plan of SetUp\<close>

definition pushed_conn :: "peer_out list \<Rightarrow> i64 \<Rightarrow> byte list" where
  "pushed_conn os peer = fst (the (map_of os peer))"

definition setup_push :: "protos \<Rightarrow> (nat \<Rightarrow> peer_out list) \<Rightarrow> nat \<Rightarrow> (string \<times> byte list) list" where
  "setup_push P os i = concat (map (\<lambda>(peer, conn, tok).
     [(GenConnInfoKey (of_nat i) peer, conn), (GenTokensMsgKey (of_nat i) peer, ser_tokens P tok)]) (os i))"

definition conn_for :: "(nat \<Rightarrow> peer_out list) \<Rightarrow> nat \<Rightarrow> i64 \<Rightarrow> byte list" where
  "conn_for os i peer = pushed_conn (os (unat peer)) (of_nat i)"

definition val_for :: "protos \<Rightarrow> (nat \<Rightarrow> peer_out list) \<Rightarrow> nat \<Rightarrow> i64 \<Rightarrow> byte list" where
  "val_for P os i peer = ser_tokens P (pushed_tokens (os (unat peer)) (of_nat i))"

definition setup_pull :: "protos \<Rightarrow> (nat \<Rightarrow> peer_out list) \<Rightarrow> nat \<Rightarrow> (string \<times> byte list) list" where
  "setup_pull P os i = concat (map (\<lambda>peer.
     [(GenConnInfoKey peer (of_nat i), conn_for os i peer), (GenTokensMsgKey peer (of_nat i), val_for P os i peer)])
     (map fst (os i)))"

definition setup_plan ::
  "comm_net_config \<Rightarrow> (string \<Rightarrow> u64) \<Rightarrow> protos \<Rightarrow> string \<Rightarrow> (nat \<Rightarrow> peer_out list) \<Rightarrow> (nat \<Rightarrow> 'a) \<Rightarrow> 'a plan"
where
  "setup_plan c std_hash P srcfile os fin = \<lparr>pl_num = machine_count c, pl_push = setup_push P os,
     pl_pull = setup_pull P os, pl_b1 = file_line srcfile 62, pl_b2 = file_line srcfile 68,
     pl_route = responsible std_hash c, pl_addr = machine_addr c, pl_fin = fin\<rparr>"

lemma setup_plan_simps [simp]:
  "pl_num (setup_plan c std_hash P srcfile os fin) = machine_count c"
  "pl_push (setup_plan c std_hash P srcfile os fin) = setup_push P os"
  "pl_pull (setup_plan c std_hash P srcfile os fin) = setup_pull P os"
  "pl_b1 (setup_plan c std_hash P srcfile os fin) = file_line srcfile 62"
  "pl_b2 (setup_plan c std_hash P srcfile os fin) = file_line srcfile 68"
  "pl_route (setup_plan c std_hash P srcfile os fin) = responsible std_hash c"
  "pl_addr (setup_plan c std_hash P srcfile os fin) = machine_addr c"
  "pl_fin (setup_plan c std_hash P srcfile os fin) = fin"
  by (simp_all add: setup_plan_def)

text \<open>Its traces are those of \<open>SetUp\<close>.\<close>

lemma setup_plan_trace:
  assumes "machine_count c < 2 ^ 31"
  shows "plan_trace (setup_plan c std_hash P srcfile os fin) i =
    setup_trace c P srcfile (of_nat i) (os i) (conn_for os i) (val_for P os i)"
proof -
  have num: "(ucast (TotalMachineNum c) :: i32) = of_nat (machine_count c)"
    using assms by (simp add: TotalMachineNum_def unsigned_of_nat take_bit_nat_eq_self)
  have push: "map (\<lambda>(k, v). (PushKVRequest k v, PushKVResponse)) (setup_push P os i) =
      concat (map (push_trace P (of_nat i)) (os i))"
    unfolding setup_push_def map_concat by (simp add: comp_def push_trace_def split_def)
  have pull: "map (\<lambda>(k, v). (PullKVRequest k, PullKVResponse v)) (setup_pull P os i) =
      concat (map (pull_trace (of_nat i) (conn_for os i) (val_for P os i)) (map fst (os i)))"
    unfolding setup_pull_def map_concat by (simp add: comp_def pull_trace_def)
  have clear: "map (\<lambda>(k, v). (ClearKVRequest k, ClearKVResponse)) (setup_push P os i) =
      concat (map (clear_trace (of_nat i)) (map fst (os i)))"
    unfolding setup_push_def map_concat by (simp add: comp_def clear_trace_def split_def)
  show ?thesis
    by (simp add: plan_trace_def setup_trace_def push pull clear barrier_call_def barrier_trace_def num)
qed

lemma file_line_inject: "file_line f m = file_line f n \<longleftrightarrow> m = n"
  by (simp add: file_line_def nat_digits_inject)

lemma machine_id_inject:
  assumes "i < 2 ^ 31" and "j < 2 ^ 31"
  shows "(of_nat i :: i64) = of_nat j \<longleftrightarrow> i = j" and "(ucast (of_nat i :: i64) :: i32) = ucast (of_nat j :: i64) \<longleftrightarrow> i = j"
proof -
  have "unat (of_nat i :: i64) = i" "unat (of_nat j :: i64) = j" using assms by (simp_all add: unat_of_nat_u64)
  then show "(of_nat i :: i64) = of_nat j \<longleftrightarrow> i = j" by metis
  have "unat (ucast (of_nat k :: i64) :: i32) = k" if "k < 2 ^ 31" for k
    using that by (simp add: unsigned_of_nat unsigned_ucast_eq take_bit_nat_eq_self)
  with assms show "(ucast (of_nat i :: i64) :: i32) = ucast (of_nat j :: i64) \<longleftrightarrow> i = j" by metis
qed

lemma setup_keys:
  "fst ` set (setup_push P os i) =
     (\<Union>p \<in> fst ` set (os i). {GenConnInfoKey (of_nat i) p, GenTokensMsgKey (of_nat i) p})"
  unfolding setup_push_def by force

lemmas keys_eq = keys_inject keys_inject [THEN conjunct2, THEN conjunct2, THEN not_sym]

lemma distinct_keys:
  assumes "distinct ps" and "\<And>p p'. p \<in> set ps \<Longrightarrow> p' \<in> set ps \<Longrightarrow> (ucast p :: i32) = ucast p' \<Longrightarrow> p = p'"
  shows "distinct (concat (map (\<lambda>p. [GenConnInfoKey a p, GenTokensMsgKey a p]) ps))"
  using assms
proof (induction ps)
  case (Cons p ps)
  have "distinct (concat (map (\<lambda>p. [GenConnInfoKey a p, GenTokensMsgKey a p]) ps))"
    using Cons.prems by (intro Cons.IH) auto
  moreover have "GenTokensMsgKey a p \<noteq> GenTokensMsgKey a p'" if "p' \<in> set ps" for p'
    using Cons.prems(1) Cons.prems(2) [of p p'] that by (auto simp: keys_inject)
  ultimately show ?case using Cons.prems(1) by (auto simp: keys_eq)
qed simp

lemma setup_plan_ok:
  assumes ready: "cluster_ready c E V heap attr sn"
    and os: "\<And>i. i < machine_count c \<Longrightarrow> map fst (os i) = cn_peers (sn i)"
  shows "plan_ok (setup_plan c std_hash P srcfile os fin)"
proof -
  let ?n = "machine_count c"
  note n = cluster_readyD(1,2) [OF ready]
  have big: "i < 2 ^ 31" if "i < ?n" for i using that n(2) by simp
  have peers: "fst ` set (os i) = of_nat ` ({..<?n} - {i})" if "i < ?n" for i
    using os [OF that] cluster_readyD(6) [OF ready that] by (metis set_map)
  have dist: "distinct (map fst (setup_push P os i))" if i: "i < ?n" for i
  proof -
    have keys: "map fst (setup_push P os i) =
        concat (map (\<lambda>p. [GenConnInfoKey (of_nat i) p, GenTokensMsgKey (of_nat i) p]) (cn_peers (sn i)))"
      unfolding os [OF i, symmetric] setup_push_def map_concat by (simp add: comp_def split_def)
    show ?thesis unfolding keys
    proof (rule distinct_keys)
      show "distinct (cn_peers (sn i))" by (rule cluster_readyD(7) [OF ready i])
      fix p p' assume pp: "p \<in> set (cn_peers (sn i))" "p' \<in> set (cn_peers (sn i))" "(ucast p :: i32) = ucast p'"
      then obtain j j' where "p = of_nat j" "j < ?n" "p' = of_nat j'" "j' < ?n"
        unfolding cluster_readyD(6) [OF ready i] by auto
      then show "p = p'" using pp(3) machine_id_inject(2) [OF big big, of j j'] by auto
    qed
  qed
  have apart: "fst ` set (setup_push P os i) \<inter> fst ` set (setup_push P os j) = {}"
    if "i < ?n" "j < ?n" "i \<noteq> j" for i j
    unfolding setup_keys using machine_id_inject(1) [OF big big, of i j] that by (auto simp: keys_eq)
  have source: "\<exists>j < ?n. e \<in> set (setup_push P os j)" if i: "i < ?n" and e: "e \<in> set (setup_pull P os i)" for i e
  proof -
    from e obtain p where p: "p \<in> fst ` set (os i)"
      "e = (GenConnInfoKey p (of_nat i), conn_for os i p) \<or> e = (GenTokensMsgKey p (of_nat i), val_for P os i p)"
      by (auto simp: setup_pull_def)
    then obtain j where j: "j < ?n" "j \<noteq> i" "p = of_nat j" unfolding peers [OF i] by auto
    have pj: "unat p = j" using j(3) big [OF j(1)] by (simp add: unat_of_nat_u64)
    have "of_nat i \<in> fst ` set (os j)" unfolding peers [OF j(1)] using i j(2) by auto
    then obtain conn tok where m: "map_of (os j) (of_nat i) = Some (conn, tok)"
      by (metis (no_types) map_of_eq_None_iff not_None_eq prod.exhaust)
    then have "(of_nat i, conn, tok) \<in> set (os j)" by (rule map_of_SomeD)
    then have "(GenConnInfoKey (of_nat j) (of_nat i), conn) \<in> set (setup_push P os j)"
      "(GenTokensMsgKey (of_nat j) (of_nat i), ser_tokens P tok) \<in> set (setup_push P os j)"
      unfolding setup_push_def by force+
    moreover have "conn_for os i p = conn" "val_for P os i p = ser_tokens P tok"
      unfolding conn_for_def val_for_def pushed_conn_def pushed_tokens_def pj m by simp_all
    ultimately show ?thesis using p(2) j(1,3) by auto
  qed
  show ?thesis
    unfolding plan_ok_def using n dist apart source by (simp add: file_line_inject responsible_def)
qed

text \<open>As many tokens are pushed for a peer as there are buffers.\<close>

lemma pushed_length:
  assumes up: "sets_up E V heap P srcfile os s" and P: "\<And>ts. parse_tokens P (ser_tokens P ts) = ts"
    and p: "p \<in> set (cn_peers s)"
  shows "length (pushed_tokens os p) = buffer_count (e_cfg E)"
proof -
  let ?some = "\<lambda>_. ser_tokens P (replicate (buffer_count (e_cfg E)) \<lparr>mem_ptr = [], mr_rkeys = []\<rparr>)"
  have "\<forall>p \<in> set (cn_peers s). buffer_count (e_cfg E) \<le> length (parse_tokens P (?some p))" by (simp add: P)
  from sets_upD [OF up this] obtain s' where "net_stage E heap P ?some 2 (pushed_tokens os) (cn_peers s) {} s'" by blast
  then obtain q bases where q: "tokens_of q = pushed_tokens os p" "qp_built E heap (cn_node s') q bases"
    using p by (fastforce simp: net_stage_def peer_qp_def)
  show ?thesis using qp_built_length [OF q(2)] unfolding q(1) [symmetric] tokens_of_def by simp
qed
section \<open>Every machine comes up\<close>

text \<open>What a machine pushes, and the state it ends in.\<close>

definition comes_up ::
  "comm_net_config \<Rightarrow> (nat \<Rightarrow> 'v env) \<Rightarrow> (nat \<Rightarrow> 'v verbs) \<Rightarrow> (nat \<Rightarrow> 'v heap) \<Rightarrow> protos \<Rightarrow> string \<Rightarrow> i32 \<Rightarrow>
   work_record \<Rightarrow> (nat \<Rightarrow> 'v comm_net) \<Rightarrow> (nat \<Rightarrow> peer_out list) \<Rightarrow> (nat \<Rightarrow> 'v comm_net) \<Rightarrow> bool"
where
  "comes_up c E V heap P srcfile jb jr sn os fin \<longleftrightarrow> (\<forall>i < machine_count c.
     map fst (os i) = cn_peers (sn i) \<and>
     performs (setup_trace c P srcfile (of_nat i) (os i) (conn_for os i) (val_for P os i))
       (SetUp (E i) (V i) P srcfile jb jr (sn i)) (Inr (fin i)) \<and>
     net_stage (E i) (heap i) P (val_for P os i) 2 (pushed_tokens (os i)) (cn_peers (sn i)) {} (fin i) \<and>
     cn_this (fin i) = of_nat i)"

lemma setup_outcome:
  assumes ready: "cluster_ready c E V heap attr sn" and P: "\<And>ts. parse_tokens P (ser_tokens P ts) = ts"
  shows "\<exists>os fin. comes_up c E V heap P srcfile jb jr sn os fin"
proof -
  let ?n = "machine_count c"
  have "\<forall>i. \<exists>o'. i < ?n \<longrightarrow> sets_up (E i) (V i) (heap i) P srcfile o' (sn i)"
    using SetUp_sets_up cluster_readyD(3) [OF ready] by blast
  then obtain os where os: "\<And>i. i < ?n \<Longrightarrow> sets_up (E i) (V i) (heap i) P srcfile (os i) (sn i)" by metis
  have "\<exists>s'. i < ?n \<longrightarrow> performs (setup_trace c P srcfile (of_nat i) (os i) (conn_for os i) (val_for P os i))
      (SetUp (E i) (V i) P srcfile jb jr (sn i)) (Inr s') \<and>
      net_stage (E i) (heap i) P (val_for P os i) 2 (pushed_tokens (os i)) (cn_peers (sn i)) {} s' \<and> cn_this s' = of_nat i" for i
  proof (cases "i < ?n")
    case True
    note cfg = cluster_readyD(4) [OF ready] and ids = cluster_readyD(5) [OF ready]
    have "buffer_count (e_cfg (E i)) \<le> length (parse_tokens P (val_for P os i p))" if p: "p \<in> set (cn_peers (sn i))" for p
    proof -
      obtain j where j: "j < ?n" "j \<noteq> i" "p = of_nat j" using p cluster_readyD(6) [OF ready True] by auto
      have "unat p = j" using j(1,3) cluster_readyD(2) [OF ready] by (simp add: unat_of_nat_u64)
      moreover have "of_nat i \<in> set (cn_peers (sn j))" using cluster_readyD(6) [OF ready j(1)] True j(2) by auto
      from pushed_length [OF os [OF j(1)] P this] have "length (pushed_tokens (os j) (of_nat i)) = buffer_count (e_cfg (E i))"
        using cfg [OF j(1)] cfg [OF True] by simp
      ultimately show ?thesis by (simp add: val_for_def P)
    qed
    then have "\<forall>p \<in> set (cn_peers (sn i)). buffer_count (e_cfg (E i)) \<le> length (parse_tokens P (val_for P os i p))" by blast
    from sets_upD [OF os [OF True] this, of "conn_for os i" jb jr] show ?thesis
      unfolding cfg [OF True] ids [OF True] by blast
  qed simp
  then obtain fin where fin: "\<And>i. i < ?n \<Longrightarrow> performs (setup_trace c P srcfile (of_nat i) (os i) (conn_for os i) (val_for P os i))
      (SetUp (E i) (V i) P srcfile jb jr (sn i)) (Inr (fin i)) \<and>
      net_stage (E i) (heap i) P (val_for P os i) 2 (pushed_tokens (os i)) (cn_peers (sn i)) {} (fin i) \<and> cn_this (fin i) = of_nat i"
    by metis
  have "map fst (os i) = cn_peers (sn i)" if "i < ?n" for i using os [OF that] by (simp add: sets_up_def)
  with fin show ?thesis unfolding comes_up_def by blast
qed

lemma comes_up_plan:
  assumes ready: "cluster_ready c E V heap attr sn" and up: "comes_up c E V heap P srcfile jb jr sn os fin"
  shows "plan_ok (setup_plan c std_hash P srcfile os fin)"
    and "i < machine_count c \<Longrightarrow> performs (plan_trace (setup_plan c std_hash P srcfile os fin) i)
      (SetUp (E i) (V i) P srcfile jb jr (sn i)) (Inr (fin i))"
proof -
  show "plan_ok (setup_plan c std_hash P srcfile os fin)"
    by (rule setup_plan_ok [OF ready]) (use up in \<open>simp add: comes_up_def\<close>)
  assume "i < machine_count c"
  then show "performs (plan_trace (setup_plan c std_hash P srcfile os fin) i)
      (SetUp (E i) (V i) P srcfile jb jr (sn i)) (Inr (fin i))"
    using up by (simp add: comes_up_def setup_plan_trace [OF cluster_readyD(2) [OF ready]])
qed

lemma length_concat_two: "(\<And>x. length (f x) = 2) \<Longrightarrow> length (concat (map f xs)) = 2 * length xs"
  by (induction xs) simp_all

lemma setup_calls:
  assumes "cluster_ready c E V heap attr sn" and "i < machine_count c" and "map fst os = cn_peers (sn i)"
  shows "length (setup_trace c P srcfile this os conn_in val_in) = 6 * machine_count c - 4"
proof -
  have "length (cn_peers (sn i)) = machine_count c - 1"
  proof -
    have "inj_on (of_nat :: nat \<Rightarrow> i64) ({..<machine_count c} - {i})"
      using machine_id_inject(1) cluster_readyD(2) [OF assms(1)] by (intro inj_onI) auto
    then have "card (set (cn_peers (sn i))) = machine_count c - 1"
      unfolding cluster_readyD(6) [OF assms(1,2)] using assms(2) by (simp add: card_image)
    then show ?thesis using distinct_card [OF cluster_readyD(7) [OF assms(1,2)]] by simp
  qed
  then have os: "length os = machine_count c - 1" using assms(3) by (metis length_map)
  have "length (concat (map (push_trace P this) os)) = 2 * length os"
    "length (concat (map (pull_trace this conn_in val_in) (map fst os))) = 2 * length (map fst os)"
    "length (concat (map (clear_trace this) (map fst os))) = 2 * length (map fst os)"
    by (rule length_concat_two, simp add: push_trace_def pull_trace_def clear_trace_def split: prod.split)+
  then show ?thesis using os assms(2) unfolding setup_trace_def barrier_trace_def length_append by simp
qed

lemma setup_connected:
  assumes ready: "cluster_ready c E V heap attr sn" and R: "rdma_copies R" and P: "\<And>ts. parse_tokens P (ser_tokens P ts) = ts"
    and up: "comes_up c E V heap P srcfile jb jr sn os fin"
    and i: "i < machine_count c" and j: "j < machine_count c" "j \<noteq> i"
  shows "connected R (E i) (fin i) (E j) (fin j)"
proof -
  have st: "net_stage (E i) (heap i) P (val_for P os i) 2 (pushed_tokens (os i)) (cn_peers (sn i)) {} (fin i)"
    and ids: "cn_this (fin i) = of_nat i" if "i < machine_count c" for i
    using up that by (simp_all add: comes_up_def)
  show ?thesis
  proof (rule stages_connected [OF _ _ R st [OF i] _ st [OF j(1)]])
    note cfg = cluster_readyD(4) [OF ready] and peers = cluster_readyD(6) [OF ready]
    show "setup_config (e_cfg (E i))" using cluster_readyD(3) [OF ready i] by (simp add: setup_ready_def)
    show "e_cfg (E j) = e_cfg (E i)" using cfg i j(1) by simp
    show "cn_this (fin j) \<in> set (cn_peers (sn i))" unfolding ids [OF j(1)] peers [OF i] using j by auto
    show "cn_this (fin i) \<in> set (cn_peers (sn j))" unfolding ids [OF i] peers [OF j(1)] using i j(2) by auto
    have "unat (of_nat j :: i64) = j" using j(1) cluster_readyD(2) [OF ready] by (simp add: unat_of_nat_u64)
    then show "parse_tokens P (val_for P os i (cn_this (fin j))) = pushed_tokens (os j) (cn_this (fin i))"
      unfolding ids [OF i] ids [OF j(1)] by (simp add: val_for_def P del: unat_of_nat)
  qed
qed

section \<open>The theorems\<close>

abbreviation setup_step :: "(string \<Rightarrow> u64) \<Rightarrow> comm_net_config \<Rightarrow> 'a cluster \<Rightarrow> event \<Rightarrow> 'a cluster res" where
  "setup_step std_hash c \<equiv> cluster_step (ctrl_route (responsible std_hash c))"

abbreviation setup_allowed :: "(string \<Rightarrow> u64) \<Rightarrow> comm_net_config \<Rightarrow> 'a cluster \<Rightarrow> event \<Rightarrow> bool" where
  "setup_allowed std_hash c \<equiv> cluster_allowed (machine_count c) (machine_addr c) (ctrl_route (responsible std_hash c))"

lemma comes_up_run:
  assumes ready: "cluster_ready c E V heap attr sn" and up: "comes_up c E V heap P srcfile jb jr sn os fin"
    and sch: "schedule (setup_step std_hash c) (setup_allowed std_hash c) (setup_cluster E V P srcfile jb jr sn) es"
  shows "\<exists>s. run (setup_step std_hash c) (setup_cluster E V P srcfile jb jr sn) es = Inr s \<and>
    (\<forall>i r. i < machine_count c \<longrightarrow> cl_thread s i = Running (Ret r) \<longrightarrow> r = Inr (fin i)) \<and>
    length (filter own es) \<le> 2 * (machine_count c * (6 * machine_count c - 4)) \<and>
    ((\<forall>i < machine_count c. cl_thread s i = Running (Ret (Inr (fin i)))) \<or> (\<exists>e. own e \<and> setup_allowed std_hash c s e))"
proof -
  let ?L = "setup_plan c std_hash P srcfile os fin" and ?progs = "\<lambda>i. SetUp (E i) (V i) P srcfile jb jr (sn i)"
  have L: "plan_ok ?L" by (rule comes_up_plan(1) [OF ready up])
  have t: "performs (plan_trace ?L i) (?progs i) (Inr (pl_fin ?L i))" if "i < pl_num ?L" for i
    using comes_up_plan(2) [OF ready up] that by simp
  have "length (plan_trace ?L i) = 6 * machine_count c - 4" if "i < machine_count c" for i
    using setup_calls [OF ready that] up that
    by (simp add: comes_up_def setup_plan_trace [OF cluster_readyD(2) [OF ready]])
  then have calls: "(\<Sum>i < machine_count c. length (plan_trace ?L i)) = machine_count c * (6 * machine_count c - 4)"
    by simp
  have sch': "schedule (cluster_step (plan_route ?L)) (cluster_allowed (pl_num ?L) (pl_addr ?L) (plan_route ?L))
      (cluster_start ?progs) es" using sch by (simp add: setup_cluster_def)
  from plan_run [OF L t sch'] show ?thesis unfolding setup_plan_simps calls setup_cluster_def .
qed

text \<open>There are orders in which everything happens.\<close>

lemma set_up_completes:
  assumes ready: "cluster_ready c E V heap attr sn" and P: "\<And>ts. parse_tokens P (ser_tokens P ts) = ts"
  shows "\<exists>es s. schedule (setup_step std_hash c) (setup_allowed std_hash c) (setup_cluster E V P srcfile jb jr sn) es \<and>
    run (setup_step std_hash c) (setup_cluster E V P srcfile jb jr sn) es = Inr s \<and>
    (\<forall>i < machine_count c. \<exists>si. cl_thread s i = Running (Ret (Inr si)))"
proof -
  obtain os fin where up: "comes_up c E V heap P srcfile jb jr sn os fin" using setup_outcome [OF ready P] by blast
  let ?L = "setup_plan c std_hash P srcfile os fin" and ?progs = "\<lambda>i. SetUp (E i) (V i) P srcfile jb jr (sn i)"
  have L: "plan_ok ?L" by (rule comes_up_plan(1) [OF ready up])
  have "performs (plan_trace ?L i) (?progs i) (Inr (pl_fin ?L i))" if "i < pl_num ?L" for i
    using comes_up_plan(2) [OF ready up] that by simp
  from plan_completes [OF L this] show ?thesis unfolding setup_plan_simps setup_cluster_def by blast
qed


text \<open>
  C12: the set-up ends. Whatever the order, the machines make at most \<open>6 n - 4\<close> calls each, and
  as long as one of them has not returned, one can make its next call or has a response to
  take: nobody waits for a key that is never pushed or at a barrier that never fills.
\<close>

theorem cluster_set_up_ends:
  assumes ready: "cluster_ready c E V heap attr sn" and P: "\<And>ts. parse_tokens P (ser_tokens P ts) = ts"
    and sch: "schedule (setup_step std_hash c) (setup_allowed std_hash c) (setup_cluster E V P srcfile jb jr sn) es"
  shows "\<exists>s. run (setup_step std_hash c) (setup_cluster E V P srcfile jb jr sn) es = Inr s \<and>
    length (filter own es) \<le> 2 * (machine_count c * (6 * machine_count c - 4)) \<and>
    ((\<forall>i < machine_count c. \<exists>si. cl_thread s i = Running (Ret (Inr si))) \<or>
     (\<exists>e. own e \<and> setup_allowed std_hash c s e))"
proof -
  obtain os fin where up: "comes_up c E V heap P srcfile jb jr sn os fin" using setup_outcome [OF ready P] by blast
  show ?thesis using comes_up_run [OF ready up sch] by blast
qed

end
