(* ===== verification/ClusterDemo.thy ===== *)
theory ClusterDemo
  imports SetupDemo ClusterSetup
begin

text \<open>
  Two of the concrete machines of SetupDemo.thy, with an encoding of the exchanged tokens, come
  up together.
\<close>

section \<open>An encoding\<close>

text \<open>Records of nine bytes: an address, a key, or the end of one descriptor.\<close>

definition entry :: "byte \<Rightarrow> u64 \<Rightarrow> byte list" where
  "entry kind x = kind # le_encode 8 x"

definition demo_ser_token :: "mem_desc_proto \<Rightarrow> byte list" where
  "demo_ser_token d = concat (map (entry 1) (mem_ptr d)) @ concat (map (\<lambda>k. entry 2 (ucast k)) (mr_rkeys d)) @ entry 3 0"

definition demo_ser :: "mem_desc_proto list \<Rightarrow> byte list" where
  "demo_ser ts = concat (map demo_ser_token ts)"

function demo_parse :: "u64 list \<Rightarrow> u32 list \<Rightarrow> byte list \<Rightarrow> mem_desc_proto list" where
  "demo_parse as ks [] = []"
| "demo_parse as ks (kind # bs) =
     (let x = le_decode (take 8 bs); rest = drop 8 bs in
      if kind = 1 then demo_parse (as @ [x]) ks rest
      else if kind = 2 then demo_parse as (ks @ [ucast x]) rest
      else \<lparr>mem_ptr = as, mr_rkeys = ks\<rparr> # demo_parse [] [] rest)"
  by pat_completeness auto
termination by (relation "measure (\<lambda>(as, ks, bs). length bs)") auto

lemma key_widened: "(ucast (ucast k :: u64) :: u32) = k"
  by (rule bit_word_eqI) (auto simp: bit_simps)

lemma demo_parse_entry:
  "demo_parse as ks (entry 1 x @ bs) = demo_parse (as @ [x]) ks bs"
  "demo_parse as ks (entry 2 (ucast k) @ bs) = demo_parse as (ks @ [k]) bs"
  "demo_parse as ks (entry 3 x @ bs) = \<lparr>mem_ptr = as, mr_rkeys = ks\<rparr> # demo_parse [] [] bs"
  by (simp_all add: entry_def le_roundtrip_64 key_widened)

lemma demo_parse_columns:
  "demo_parse as ks (concat (map (entry 1) xs) @ bs) = demo_parse (as @ xs) ks bs"
  "demo_parse as ks (concat (map (\<lambda>k. entry 2 (ucast k)) ys) @ bs) = demo_parse as (ks @ ys) bs"
  by (induction xs arbitrary: as, simp_all add: demo_parse_entry)
    (induction ys arbitrary: ks, simp_all add: demo_parse_entry)

lemma demo_parse_ser: "demo_parse [] [] (demo_ser ts) = ts"
  by (induction ts) (simp_all add: demo_ser_def demo_ser_token_def demo_parse_columns demo_parse_entry)

definition demo_protos :: protos where
  "demo_protos = \<lparr>ser_conn = (\<lambda>ci. le_encode 4 (ucast (ci_qp_num ci))),
     parse_conn = (\<lambda>bs. \<lparr>ci_lid = 3, ci_qp_num = ucast (le_decode bs), ci_subnet_prefix = 1, ci_interface_id = 2\<rparr>),
     ser_tokens = demo_ser, parse_tokens = demo_parse [] []\<rparr>"

lemma demo_protos_ok: "parse_tokens demo_protos (ser_tokens demo_protos ts) = ts"
  by (simp add: demo_protos_def demo_parse_ser)

section \<open>The machines\<close>

definition demo_net :: "nat \<Rightarrow> u64 comm_net" where
  "demo_net i = fresh_net (of_nat i) [if i = 0 then 1 else 0]"

definition demo_cluster :: "u64 comm_net cluster" where
  "demo_cluster = setup_cluster (\<lambda>_. bump_env demo_cfg) (\<lambda>_. demo_verbs) demo_protos ''src'' 0 (WorkRecord 0 0 0 0 None) demo_net"

lemma demo_count: "machine_count demo_cfg = 2"
  by (simp add: demo_cfg_ok(4) demo_machines_def)

lemma demo_ready:
  "cluster_ready demo_cfg (\<lambda>_. bump_env demo_cfg) (\<lambda>_. demo_verbs) (\<lambda>_. bump_heap) (\<lambda>_. demo_attr) demo_net"
proof -
  have cfg: "e_cfg (bump_env demo_cfg) = demo_cfg" by (simp add: bump_env_def)
  have "qp_room demo_cfg demo_attr \<le> room bump_heap fresh_node"
    unfolding demo_cfg_ok(2) fresh_room by simp
  then have "setup_ready (bump_env demo_cfg) demo_verbs bump_heap demo_attr (demo_net i)" for i
    using demo_cfg_ok(1,3) bump_heap_ok demo_verbs_ok fresh_wf
    by (simp add: setup_ready_def cfg demo_net_def fresh_net_def)
  moreover have "set (cn_peers (demo_net i)) = of_nat ` ({..<2} - {i})" if "i < 2" for i
  proof -
    have "{..<2} - {0} = {1 :: nat}" "{..<2} - {1} = {0 :: nat}" by auto
    moreover have "i = 0 \<or> i = 1" using that by linarith
    ultimately show ?thesis by (elim disjE) (simp_all add: demo_net_def fresh_net_def)
  qed
  ultimately show ?thesis
    by (simp add: cluster_ready_def demo_count cfg) (simp add: demo_net_def fresh_net_def)
qed

lemma demo_completes:
  obtains es s where "schedule (setup_step std_hash demo_cfg) (setup_allowed std_hash demo_cfg) demo_cluster es"
    and "run (setup_step std_hash demo_cfg) demo_cluster es = Inr s"
    and "\<forall>i < machine_count demo_cfg. \<exists>si. cl_thread s i = Running (Ret (Inr si))"
  using set_up_completes [OF demo_ready demo_protos_ok] unfolding demo_cluster_def by blast


theorem cluster_set_up_ends_witness:
  "\<exists>es s. run (setup_step (\<lambda>k. 5) demo_cfg) demo_cluster es = Inr s \<and> length (filter own es) \<le> 32 \<and>
    (\<forall>i < 2. \<exists>si. cl_thread s i = Running (Ret (Inr si)))"
proof -
  obtain es s where es: "schedule (setup_step (\<lambda>k. 5) demo_cfg) (setup_allowed (\<lambda>k. 5) demo_cfg) demo_cluster es"
    "run (setup_step (\<lambda>k. 5) demo_cfg) demo_cluster es = Inr s"
    "\<forall>i < machine_count demo_cfg. \<exists>si. cl_thread s i = Running (Ret (Inr si))" by (rule demo_completes)
  from cluster_set_up_ends [OF demo_ready demo_protos_ok es(1) [unfolded demo_cluster_def]]
  have "length (filter own es) \<le> 32" unfolding demo_count by auto
  then show ?thesis using es(2,3) unfolding demo_count by blast
qed

end
