(* ===== verification/Preproc.thy ===== *)
theory Preproc
  imports Prelude
begin

text \<open>
  The macro language that \<open>common/preprocessor.h\<close> and \<open>common/preprocessor_internal.h\<close> are
  written in: preprocessing tokens, macro definitions, and the expansion algorithm of the
  C++ standard (\<open>[cpp.rescan]\<close>) in its usual form, where every token carries the set of
  macro names it may not be expanded for. This is the language's semantics; the macros of
  the repository are in \<open>BaseMacros\<close> and \<open>IterTable\<close>.

  An identifier is the sequence of the segments it was written or pasted from: the common
  prefix, a word, a decimal number. \<open>spelling\<close> is its text.
\<close>

section \<open>Tokens and macros\<close>

datatype seg = CNPP | W string | N nat

type_synonym ident = "seg list"

fun seg_text :: "seg \<Rightarrow> string" where
  "seg_text CNPP = ''CN_PP_INTERNAL_''"
| "seg_text (W w) = w"
| "seg_text (N n) = nat_digits n"

definition spelling :: "ident \<Rightarrow> string" where
  "spelling i = concat (map seg_text i)"

datatype pp = Id ident | Num nat | LP | RP | Comma | Lit string | Punct string

text \<open>A token with the names it is painted with.\<close>

type_synonym ptok = "pp \<times> ident set"

text \<open>
  An operand of a macro body is a token, a parameter, or \<open>#parameter\<close>; a body is a list of
  groups, the operands within a group being joined by \<open>##\<close>. Parameter number \<open>n\<close> of a
  variadic macro with \<open>n\<close> named parameters is \<open>__VA_ARGS__\<close>.
\<close>

datatype operand = T pp | P nat | Strz nat

type_synonym body = "operand list list"

datatype macro = Object body | Function nat bool body

type_synonym macro_defs = "(ident \<times> macro) list"

section \<open>Arguments\<close>

definition cons_first :: "ptok \<Rightarrow> (ptok list list \<times> 'h \<times> ptok list) option \<Rightarrow>
  (ptok list list \<times> 'h \<times> ptok list) option" where
  "cons_first t r = (case r of
     Some (a # as, h, rest) \<Rightarrow> Some ((t # a) # as, h, rest)
   | _ \<Rightarrow> None)"

definition new_arg :: "(ptok list list \<times> 'h \<times> ptok list) option \<Rightarrow>
  (ptok list list \<times> 'h \<times> ptok list) option" where
  "new_arg r = map_option (\<lambda>(as, h, rest). ([] # as, h, rest)) r"

text \<open>
  The arguments after an opening parenthesis, at nesting depth \<open>d\<close>: the comma-separated
  token lists, the paint of the closing parenthesis and the tokens behind it.
\<close>

fun get_args :: "nat \<Rightarrow> ptok list \<Rightarrow> (ptok list list \<times> ident set \<times> ptok list) option" where
  "get_args d [] = None"
| "get_args d (t # ts) = (case fst t of
     RP \<Rightarrow> (case d of 0 \<Rightarrow> Some ([[]], snd t, ts) | Suc d' \<Rightarrow> cons_first t (get_args d' ts))
   | LP \<Rightarrow> cons_first t (get_args (Suc d) ts)
   | Comma \<Rightarrow> (case d of 0 \<Rightarrow> new_arg (get_args 0 ts) | Suc _ \<Rightarrow> cons_first t (get_args d ts))
   | _ \<Rightarrow> cons_first t (get_args d ts))"

fun join_commas :: "ptok list list \<Rightarrow> ptok list" where
  "join_commas [] = []"
| "join_commas [a] = a"
| "join_commas (a # as) = a @ (Comma, {}) # join_commas as"

text \<open>
  The values of the parameters: a macro without parameters takes one empty argument, and
  the variable arguments may be missing.
\<close>

definition bind_args :: "nat \<Rightarrow> bool \<Rightarrow> ptok list list \<Rightarrow> ptok list list option" where
  "bind_args n variadic as =
     (if variadic then (if n \<le> length as then Some (take n as @ [join_commas (drop n as)]) else None)
      else if n = 0 then (if as = [[]] then Some [] else None)
      else if length as = n then Some as else None)"

section \<open>Substitution\<close>

fun paste :: "pp \<Rightarrow> pp \<Rightarrow> pp option" where
  "paste (Id a) (Id b) = Some (Id (a @ b))"
| "paste (Id a) (Num n) = Some (Id (a @ [N n]))"
| "paste _ _ = None"

text \<open>\<open>ls ## rs\<close>: the last token of \<open>ls\<close> with the first of \<open>rs\<close>; an empty side vanishes.\<close>

definition glue :: "ptok list \<Rightarrow> ptok list \<Rightarrow> ptok list option" where
  "glue ls rs = (if ls = [] then Some rs else if rs = [] then Some ls else
     map_option (\<lambda>t. butlast ls @ (t, snd (last ls) \<inter> snd (hd rs)) # tl rs)
       (paste (fst (last ls)) (fst (hd rs))))"

fun tok_text :: "pp \<Rightarrow> string" where
  "tok_text (Id i) = spelling i"
| "tok_text (Num n) = nat_digits n"
| "tok_text LP = ''(''"
| "tok_text RP = '')''"
| "tok_text Comma = '',''"
| "tok_text (Lit s) = s"
| "tok_text (Punct s) = s"

text \<open>\<open>#x\<close>; the white space between tokens is not kept by this model.\<close>

definition stringize :: "ptok list \<Rightarrow> ptok" where
  "stringize ts = (Lit (concat (map (tok_text \<circ> fst) ts)), {})"

fun raw_operand :: "ptok list list \<Rightarrow> operand \<Rightarrow> ptok list" where
  "raw_operand bs (T t) = [(t, {})]"
| "raw_operand bs (P i) = bs ! i"
| "raw_operand bs (Strz i) = [stringize (bs ! i)]"

fun glue_all :: "ptok list \<Rightarrow> ptok list list \<Rightarrow> ptok list option" where
  "glue_all ts [] = Some ts"
| "glue_all ts (us # uss) = Option.bind (glue ts us) (\<lambda>vs. glue_all vs uss)"

text \<open>
  A group: a parameter alone is replaced by its fully expanded argument, operands of \<open>##\<close>
  and \<open>#\<close> by the argument as written.
\<close>

fun subst_group ::
  "(ptok list \<Rightarrow> ptok list option) \<Rightarrow> ptok list list \<Rightarrow> operand list \<Rightarrow> ptok list option"
where
  "subst_group ex bs [] = Some []"
| "subst_group ex bs [P i] = ex (bs ! i)"
| "subst_group ex bs (u # us) = glue_all (raw_operand bs u) (map (raw_operand bs) us)"

fun subst_body ::
  "(ptok list \<Rightarrow> ptok list option) \<Rightarrow> ptok list list \<Rightarrow> body \<Rightarrow> ptok list option"
where
  "subst_body ex bs [] = Some []"
| "subst_body ex bs (g # gs) =
     Option.bind (subst_group ex bs g) (\<lambda>ts. map_option (append ts) (subst_body ex bs gs))"

definition paint :: "ident set \<Rightarrow> ptok list \<Rightarrow> ptok list" where
  "paint H ts = map (\<lambda>(t, h). (t, h \<union> H)) ts"

section \<open>Expansion\<close>

text \<open>The macro a token stands for, unless it is painted with its name.\<close>

definition macro_at :: "(ident \<Rightarrow> macro option) \<Rightarrow> ptok \<Rightarrow> (ident \<times> macro) option" where
  "macro_at M t = (case fst t of
     Id i \<Rightarrow> if i \<in> snd t then None else map_option (Pair i) (M i)
   | _ \<Rightarrow> None)"

text \<open>
  Expansion with fuel: None is fuel that has run out, an unterminated call, a wrong number of
  arguments or an invalid pasting. A function-like macro that no parenthesis follows stays.
\<close>

fun expand :: "(ident \<Rightarrow> macro option) \<Rightarrow> nat \<Rightarrow> ptok list \<Rightarrow> ptok list option" where
  "expand M n [] = Some []"
| "expand M 0 (t # ts) = None"
| "expand M (Suc n) (t # ts) =
     (case macro_at M t of
        None \<Rightarrow> map_option (Cons t) (expand M n ts)
      | Some (i, Object b) \<Rightarrow>
          Option.bind (subst_body (expand M n) [] b) (\<lambda>out.
            expand M n (paint (insert i (snd t)) out @ ts))
      | Some (i, Function k variadic b) \<Rightarrow>
          (case ts of
             (LP, h0) # us \<Rightarrow>
               Option.bind (get_args 0 us) (\<lambda>(as, h, rest).
               Option.bind (bind_args k variadic as) (\<lambda>bs.
               Option.bind (subst_body (expand M n) bs b) (\<lambda>out.
                 expand M n (paint (insert i (snd t \<inter> h)) out @ rest))))
           | _ \<Rightarrow> map_option (Cons t) (expand M n ts)))"

text \<open>More fuel does not change a result.\<close>

lemma subst_group_mono:
  "(\<And>ts out. ex ts = Some out \<Longrightarrow> ex' ts = Some out) \<Longrightarrow>
   subst_group ex bs g = Some out \<Longrightarrow> subst_group ex' bs g = Some out"
  by (induction ex bs g rule: subst_group.induct) auto

lemma subst_body_mono:
  "(\<And>ts out. ex ts = Some out \<Longrightarrow> ex' ts = Some out) \<Longrightarrow>
   subst_body ex bs b = Some out \<Longrightarrow> subst_body ex' bs b = Some out"
proof (induction b arbitrary: out)
  case (Cons g gs)
  from Cons.prems(2) obtain ts us where "subst_group ex bs g = Some ts" "subst_body ex bs gs = Some us"
    "out = ts @ us" by (auto simp: bind_eq_Some_conv)
  with Cons.IH [OF Cons.prems(1)] subst_group_mono [OF Cons.prems(1)] show ?case by simp
qed simp

lemma expand_Suc: "expand M n ts = Some out \<Longrightarrow> expand M (Suc n) ts = Some out"
proof (induction n arbitrary: ts out)
  case 0
  then show ?case by (cases ts) auto
next
  case (Suc n)
  note sub = subst_body_mono [of "expand M n" "expand M (Suc n)", OF Suc.IH]
  show ?case
  proof (cases ts)
    case (Cons t us)
    show ?thesis
    proof (cases "macro_at M t")
      case None
      with Suc.prems Suc.IH [of us] Cons show ?thesis by auto
    next
      case (Some im)
      obtain i m where im: "im = (i, m)" by (cases im)
      show ?thesis
      proof (cases m)
        case (Object b)
        with Suc.prems Cons Some im obtain o' where "subst_body (expand M n) [] b = Some o'"
          "expand M n (paint (insert i (snd t)) o' @ us) = Some out"
          by (auto simp: bind_eq_Some_conv)
        with sub [of "[]" b] Suc.IH Object Cons Some im show ?thesis by simp
      next
        case (Function k v b)
        show ?thesis
        proof (cases "\<exists>h0 vs. us = (LP, h0) # vs")
          case False
          then have "(case us of (LP, h0) # vs \<Rightarrow> f h0 vs | _ \<Rightarrow> z) = z" for f and z :: "'z"
            by (auto split: list.splits pp.splits)
          with Suc.prems Suc.IH [of us] Cons Some im Function show ?thesis
            by (simp del: expand.simps(3) add: expand.simps(3) [of M n] expand.simps(3) [of M "Suc n"])
              (auto split: list.splits pp.splits)
        next
          case True
          then obtain h0 vs where us: "us = (LP, h0) # vs" by blast
          with Suc.prems Cons Some im Function obtain as h rest bs o' where
            "get_args 0 vs = Some (as, h, rest)" "bind_args k v as = Some bs"
            "subst_body (expand M n) bs b = Some o'"
            "expand M n (paint (insert i (snd t \<inter> h)) o' @ rest) = Some out"
            by (auto simp: bind_eq_Some_conv)
          with sub [of bs b] Suc.IH Function Cons Some im us show ?thesis by simp
        qed
      qed
    qed
  qed (use Suc.prems in simp)
qed

lemma expand_mono: "expand M n ts = Some out \<Longrightarrow> n \<le> k \<Longrightarrow> expand M k ts = Some out"
  by (induction k) (auto simp: le_Suc_eq intro: expand_Suc)


section \<open>Expansion as a relation\<close>

text \<open>\<open>yields M ts out\<close>: with enough fuel, the tokens \<open>ts\<close> expand to \<open>out\<close>.\<close>

definition yields :: "(ident \<Rightarrow> macro option) \<Rightarrow> ptok list \<Rightarrow> ptok list \<Rightarrow> bool" where
  "yields M ts out \<longleftrightarrow> (\<exists>n. expand M n ts = Some out)"

definition yields_body ::
  "(ident \<Rightarrow> macro option) \<Rightarrow> ptok list list \<Rightarrow> body \<Rightarrow> ptok list \<Rightarrow> bool"
where
  "yields_body M bs b out \<longleftrightarrow> (\<exists>n. subst_body (expand M n) bs b = Some out)"

lemma yields_unique: "yields M ts out \<Longrightarrow> yields M ts out' \<Longrightarrow> out = out'"
  unfolding yields_def by (metis expand_mono nat_le_linear option.inject)

lemma yields_Nil: "yields M [] []"
  by (simp add: yields_def)

lemma yields_keep:
  assumes "macro_at M t = None" and "yields M ts out"
  shows "yields M (t # ts) (t # out)"
proof -
  from assms(2) obtain n where "expand M n ts = Some out" by (auto simp: yields_def)
  with assms(1) have "expand M (Suc n) (t # ts) = Some (t # out)" by simp
  then show ?thesis unfolding yields_def by blast
qed

lemma yields_no_call:
  assumes "macro_at M t = Some (i, Function k v b)" and "yields M ts out"
    and "ts = [] \<or> fst (hd ts) \<noteq> LP"
  shows "yields M (t # ts) (t # out)"
proof -
  from assms(2) obtain n where n: "expand M n ts = Some out" by (auto simp: yields_def)
  have "expand M (Suc n) (t # ts) = Some (t # out)"
    using assms(1,3) n by (cases ts) (auto split: pp.splits)
  then show ?thesis unfolding yields_def by blast
qed

lemma yields_object:
  assumes "macro_at M t = Some (i, Object b)" and "yields_body M [] b o'"
    and "yields M (paint (insert i (snd t)) o' @ ts) out"
  shows "yields M (t # ts) out"
proof -
  from assms(2,3) obtain n k where n: "subst_body (expand M n) [] b = Some o'"
    and k: "expand M k (paint (insert i (snd t)) o' @ ts) = Some out"
    by (auto simp: yields_def yields_body_def)
  let ?m = "max n k"
  have "subst_body (expand M ?m) [] b = Some o'"
    using subst_body_mono [OF _ n] expand_mono by (metis max.cobounded1)
  moreover have "expand M ?m (paint (insert i (snd t)) o' @ ts) = Some out"
    using expand_mono [OF k] by simp
  ultimately have "expand M (Suc ?m) (t # ts) = Some out" using assms(1) by simp
  then show ?thesis unfolding yields_def by blast
qed

lemma yields_call:
  assumes "macro_at M t = Some (i, Function k v b)" and "get_args 0 us = Some (as, h, rest)"
    and "bind_args k v as = Some bs" and "yields_body M bs b o'"
    and "yields M (paint (insert i (snd t \<inter> h)) o' @ rest) out"
  shows "yields M (t # (LP, h0) # us) out"
proof -
  from assms(4,5) obtain n l where n: "subst_body (expand M n) bs b = Some o'"
    and l: "expand M l (paint (insert i (snd t \<inter> h)) o' @ rest) = Some out"
    by (auto simp: yields_def yields_body_def)
  let ?m = "max n l"
  have "subst_body (expand M ?m) bs b = Some o'"
    using subst_body_mono [OF _ n] expand_mono by (metis max.cobounded1)
  moreover have "expand M ?m (paint (insert i (snd t \<inter> h)) o' @ rest) = Some out"
    using expand_mono [OF l] by simp
  ultimately have "expand M (Suc ?m) (t # (LP, h0) # us) = Some out" using assms(1-3) by simp
  then show ?thesis unfolding yields_def by blast
qed

lemma body_Nil: "yields_body M bs [] []"
  by (simp add: yields_body_def)

lemma body_tok: "yields_body M bs gs out \<Longrightarrow> yields_body M bs ([T t] # gs) ((t, {}) # out)"
  by (auto simp: yields_body_def)

lemma body_raw:
  assumes "glue_all (raw_operand bs u) (map (raw_operand bs) (u' # us)) = Some ts"
    and "yields_body M bs gs out"
  shows "yields_body M bs ((u # u' # us) # gs) (ts @ out)"
  using assms by (cases u) (auto simp: yields_body_def)

lemma body_param:
  assumes "yields M (bs ! i) ts" and "yields_body M bs gs out"
  shows "yields_body M bs ([P i] # gs) (ts @ out)"
proof -
  from assms obtain n k where n: "expand M n (bs ! i) = Some ts"
    and k: "subst_body (expand M k) bs gs = Some out"
    by (auto simp: yields_def yields_body_def)
  let ?m = "max n k"
  have "expand M ?m (bs ! i) = Some ts" using expand_mono [OF n] by simp
  moreover have "subst_body (expand M ?m) bs gs = Some out"
    using subst_body_mono [OF _ k] expand_mono by (metis max.cobounded2)
  ultimately have "subst_body (expand M ?m) bs ([P i] # gs) = Some (ts @ out)" by simp
  then show ?thesis unfolding yields_body_def by blast
qed

section \<open>Inert tokens and balanced arguments\<close>

text \<open>Tokens that no macro is defined for expand to themselves.\<close>

definition inert :: "(ident \<Rightarrow> macro option) \<Rightarrow> ptok list \<Rightarrow> bool" where
  "inert M ts \<longleftrightarrow> (\<forall>t \<in> set ts. \<forall>i. fst t = Id i \<longrightarrow> M i = None)"

lemma inert_simps [simp]:
  "inert M []"
  "inert M (t # ts) \<longleftrightarrow> (\<forall>i. fst t = Id i \<longrightarrow> M i = None) \<and> inert M ts"
  "inert M (ts @ us) \<longleftrightarrow> inert M ts \<and> inert M us"
  "inert M (paint H ts) \<longleftrightarrow> inert M ts"
  by (auto simp: inert_def paint_def)

lemma macro_at_inert: "\<forall>i. fst t = Id i \<longrightarrow> M i = None \<Longrightarrow> macro_at M t = None"
  by (cases "fst t") (auto simp: macro_at_def)

lemma yields_inert_append: "inert M ts \<Longrightarrow> yields M us out \<Longrightarrow> yields M (ts @ us) (ts @ out)"
  by (induction ts) (auto intro!: yields_keep macro_at_inert)

lemma yields_inert: "inert M ts \<Longrightarrow> yields M ts ts"
  using yields_inert_append [OF _ yields_Nil] by fastforce

text \<open>
  Balanced tokens: the depth never falls below zero and ends at zero; \<open>one_arg\<close> tokens have,
  beside that, no comma outside parentheses, so they are one argument of a call.
\<close>

fun balanced :: "nat \<Rightarrow> ptok list \<Rightarrow> bool" where
  "balanced d [] = (d = 0)"
| "balanced d (t # ts) = (case fst t of
     LP \<Rightarrow> balanced (Suc d) ts
   | RP \<Rightarrow> (case d of 0 \<Rightarrow> False | Suc d' \<Rightarrow> balanced d' ts)
   | _ \<Rightarrow> balanced d ts)"

fun one_arg :: "nat \<Rightarrow> ptok list \<Rightarrow> bool" where
  "one_arg d [] = (d = 0)"
| "one_arg d (t # ts) = (case fst t of
     LP \<Rightarrow> one_arg (Suc d) ts
   | RP \<Rightarrow> (case d of 0 \<Rightarrow> False | Suc d' \<Rightarrow> one_arg d' ts)
   | Comma \<Rightarrow> d \<noteq> 0 \<and> one_arg d ts
   | _ \<Rightarrow> one_arg d ts)"

lemma one_arg_balanced: "one_arg d ts \<Longrightarrow> balanced d ts"
  by (induction d ts rule: one_arg.induct) (auto split: pp.splits nat.splits)

lemma balanced_append: "balanced d ts \<Longrightarrow> balanced 0 us \<Longrightarrow> balanced d (ts @ us)"
  by (induction d ts rule: balanced.induct) (auto split: pp.splits nat.splits)

lemma one_arg_append: "one_arg d ts \<Longrightarrow> one_arg 0 us \<Longrightarrow> one_arg d (ts @ us)"
  by (induction d ts rule: one_arg.induct) (auto split: pp.splits nat.splits)

lemma balanced_one_arg: "balanced d ts \<Longrightarrow> one_arg (Suc d) (ts @ [(RP, h)])"
  by (induction d ts rule: balanced.induct) (auto split: pp.splits nat.splits)

lemma one_arg_parens: "balanced 0 ts \<Longrightarrow> one_arg 0 ((LP, h) # ts @ [(RP, h')])"
  by (simp add: balanced_one_arg)

lemma one_arg_paint [simp]: "one_arg d (paint H ts) = one_arg d ts"
  unfolding paint_def by (induction d ts rule: one_arg.induct) (auto split: pp.splits nat.splits)

lemma get_args_one:
  "one_arg d ts \<Longrightarrow> get_args 0 us = Some (a # as, h, rest) \<Longrightarrow>
   get_args d (ts @ us) = Some ((ts @ a) # as, h, rest)"
  by (induction d ts rule: one_arg.induct)
    (auto simp: cons_first_def split: pp.splits nat.splits)

lemma get_args_last: "one_arg 0 ts \<Longrightarrow> get_args 0 (ts @ (RP, h) # rest) = Some ([ts], h, rest)"
  using get_args_one [of 0 ts "(RP, h) # rest" "[]"] by simp

lemma get_args_next:
  "one_arg 0 ts \<Longrightarrow> get_args 0 us = Some (as, h, rest) \<Longrightarrow>
   get_args 0 (ts @ (Comma, h') # us) = Some (ts # as, h, rest)"
  using get_args_one [of 0 ts "(Comma, h') # us" "[]"] by (simp add: new_arg_def)

section \<open>Expansion of parts\<close>

text \<open>Tokens that follow, and do not open an argument list, are expanded on their own.\<close>

lemma get_args_append:
  "get_args d ts = Some (as, h, rest) \<Longrightarrow> get_args d (ts @ us) = Some (as, h, rest @ us)"
proof (induction d ts arbitrary: as h rest rule: get_args.induct)
  case (2 d t ts)
  then show ?case
    by (fastforce simp: cons_first_def new_arg_def split: pp.splits nat.splits option.splits list.splits)
qed simp

lemma expand_append:
  "expand M n ts = Some a \<Longrightarrow> expand M k us = Some b \<Longrightarrow> us = [] \<or> fst (hd us) \<noteq> LP \<Longrightarrow>
   expand M (n + k) (ts @ us) = Some (a @ b)"
proof (induction n arbitrary: ts a)
  case 0
  then show ?case by (cases ts) auto
next
  case (Suc n)
  note sub = subst_body_mono [of "expand M n" "expand M (n + k)", OF expand_mono [OF _ le_add1]]
  show ?case
  proof (cases ts)
    case Nil
    with Suc.prems show ?thesis using expand_mono [OF Suc.prems(2), of "Suc n + k"] by simp
  next
    case (Cons t vs)
    show ?thesis
    proof (cases "macro_at M t")
      case None
      with Suc.prems Suc.IH [of vs] Cons show ?thesis by auto
    next
      case (Some im)
      obtain i m where im: "im = (i, m)" by (cases im)
      show ?thesis
      proof (cases m)
        case (Object body)
        with Suc.prems Cons Some im obtain o' where "subst_body (expand M n) [] body = Some o'"
          "expand M n (paint (insert i (snd t)) o' @ vs) = Some a"
          by (auto simp: bind_eq_Some_conv)
        with sub [of "[]" body] Suc.IH [of "paint (insert i (snd t)) o' @ vs"] Suc.prems(2,3) Object Cons Some im
        show ?thesis by simp
      next
        case (Function p v body)
        show ?thesis
        proof (cases "\<exists>h0 ws. vs = (LP, h0) # ws")
          case False
          then have none: "(case vs of (LP, h0) # ws \<Rightarrow> f h0 ws | _ \<Rightarrow> z) = z" for f and z :: "'z"
            by (auto split: list.splits pp.splits)
          from False Suc.prems(3) have "\<nexists>h0 ws. vs @ us = (LP, h0) # ws" by (cases vs; cases us) auto
          then have none': "(case vs @ us of (LP, h0) # ws \<Rightarrow> f h0 ws | _ \<Rightarrow> z) = z" for f and z :: "'z"
            by (auto split: list.splits pp.splits)
          from Suc.prems(1) Cons Some im Function none obtain c where "expand M n vs = Some c" "a = t # c"
            by (auto simp: none)
          with Suc.IH [of vs c] Suc.prems(2,3) Cons Some im Function show ?thesis by (simp add: none')
        next
          case True
          then obtain h0 ws where vs: "vs = (LP, h0) # ws" by blast
          with Suc.prems(1) Cons Some im Function obtain as h rest bs o' where
            "get_args 0 ws = Some (as, h, rest)" "bind_args p v as = Some bs"
            "subst_body (expand M n) bs body = Some o'"
            "expand M n (paint (insert i (snd t \<inter> h)) o' @ rest) = Some a"
            by (auto simp: bind_eq_Some_conv)
          with sub [of bs body] Suc.IH [of "paint (insert i (snd t \<inter> h)) o' @ rest"] Suc.prems(2,3)
            Function Cons Some im vs get_args_append [of 0 ws as h rest us] show ?thesis by simp
        qed
      qed
    qed
  qed
qed

lemma yields_append:
  "yields M ts a \<Longrightarrow> yields M us b \<Longrightarrow> us = [] \<or> fst (hd us) \<noteq> LP \<Longrightarrow> yields M (ts @ us) (a @ b)"
  unfolding yields_def by (blast dest: expand_append)

text \<open>A body without \<open>#\<close> and \<open>##\<close>, with the expanded arguments in it.\<close>

fun plain :: "nat \<Rightarrow> body \<Rightarrow> bool" where
  "plain n [] = True"
| "plain n ([T t] # gs) = plain n gs"
| "plain n ([P i] # gs) = (i < n \<and> plain n gs)"
| "plain n _ = False"

fun fill :: "ptok list list \<Rightarrow> body \<Rightarrow> ptok list" where
  "fill bs ([T t] # gs) = (t, {}) # fill bs gs"
| "fill bs ([P i] # gs) = bs ! i @ fill bs gs"
| "fill bs _ = []"

lemma body_fill: "plain (length bs) b \<Longrightarrow> list_all2 (yields M) bs bs' \<Longrightarrow> yields_body M bs b (fill bs' b)"
  by (induction "length bs" b rule: plain.induct)
    (auto intro: body_Nil body_tok body_param list_all2_nthD)

lemma macro_call:
  assumes "M i = Some (Function k v b)" and "i \<notin> H" and "get_args 0 us = Some (as, h, rest)"
    and "bind_args k v as = Some bs" and "plain (length bs) b" and "list_all2 (yields M) bs bs'"
    and "yields M (paint (insert i (H \<inter> h)) (fill bs' b) @ rest) out"
  shows "yields M ((Id i, H) # (LP, h0) # us) out"
  by (rule yields_call [OF _ assms(3,4) body_fill [OF assms(5,6)]])
    (use assms(1,2,7) in \<open>simp_all add: macro_at_def\<close>)

end
