(* ===== verification/BaseMacros.thy ===== *)
theory BaseMacros
  imports Preproc
begin

text \<open>
  The hand-written macros of \<open>common/preprocessor_internal.h\<close> (lines 1 to 301) and the public
  ones of \<open>common/preprocessor.h\<close>, in the order of the files.
\<close>

text \<open>Tuples, stringizing and pasting.\<close>

definition base_macros :: macro_defs where
  "base_macros =
    [([W ''CN_PP_TUPLE'', N 2, W ''VARADIC''], Function 1 False [[T (Id [W ''CN_PP_TUPLE'', N 2,
      W ''VARADIC_I''])], [T LP], [P 0], [T RP]]),
     ([W ''CN_PP_TUPLE'', N 2, W ''VARADIC_I''], Function 1 False [[T (Id [W ''CN_PP_TUPLE'', N
      2, W ''VARADIC_II''])], [P 0]]),
     ([W ''CN_PP_TUPLE'', N 2, W ''VARADIC_II''], Function 0 True [[P 0]]),
     ([CNPP, W ''STRINGIZE''], Function 1 False [[T (Id [CNPP, W ''STRINGIZE_I''])], [T LP], [P
      0], [T RP]]),
     ([CNPP, W ''STRINGIZE_I''], Function 1 False [[Strz 0]]),
     ([CNPP, W ''CAT''], Function 2 False [[T (Id [CNPP, W ''CAT_I''])], [T LP], [P 0], [T
      Comma], [P 1], [T RP]]),
     ([CNPP, W ''CAT_I''], Function 2 False [[P 0, P 1]])]"

text \<open>\<open>CN_PP_INTERNAL_JOIN\<close>: pasting a list of words with a separator.\<close>

definition join_macros :: macro_defs where
  "join_macros =
    [([CNPP, W ''JOIN''], Function 1 True [[T (Id [CNPP, W ''CAT''])], [T LP], [T (Id [CNPP, W
      ''CAT''])], [T LP], [T (Id [CNPP, W ''JOIN_''])], [T Comma], [T (Id [CNPP, W
      ''VARIADIC_SIZE''])], [T LP], [P 1], [T RP], [T RP], [T LP], [P 0], [T Comma], [P 1], [T
      RP], [T Comma], [T RP]]),
     ([CNPP, W ''JOIN_'', N 0], Function 1 False []),
     ([CNPP, W ''JOIN_'', N 1], Function 2 False [[P 1]]),
     ([CNPP, W ''JOIN_'', N 2], Function 2 True [[T (Id [CNPP, W ''CAT''])], [T LP], [T (Id
      [CNPP, W ''CAT''])], [T LP], [T (Id [CNPP, W ''CAT''])], [T LP], [P 1], [T Comma], [P 0],
      [T RP], [T Comma], [T (Id [CNPP, W ''JOIN_'', N 1])], [T LP], [P 0], [T Comma], [P 2], [T
      RP], [T RP], [T Comma], [T RP]]),
     ([CNPP, W ''JOIN_'', N 3], Function 2 True [[T (Id [CNPP, W ''CAT''])], [T LP], [T (Id
      [CNPP, W ''CAT''])], [T LP], [T (Id [CNPP, W ''CAT''])], [T LP], [P 1], [T Comma], [P 0],
      [T RP], [T Comma], [T (Id [CNPP, W ''JOIN_'', N 2])], [T LP], [P 0], [T Comma], [P 2], [T
      RP], [T RP], [T Comma], [T RP]]),
     ([CNPP, W ''JOIN_'', N 4], Function 2 True [[T (Id [CNPP, W ''CAT''])], [T LP], [T (Id
      [CNPP, W ''CAT''])], [T LP], [T (Id [CNPP, W ''CAT''])], [T LP], [P 1], [T Comma], [P 0],
      [T RP], [T Comma], [T (Id [CNPP, W ''JOIN_'', N 3])], [T LP], [P 0], [T Comma], [P 2], [T
      RP], [T RP], [T Comma], [T RP]]),
     ([CNPP, W ''JOIN_'', N 5], Function 2 True [[T (Id [CNPP, W ''CAT''])], [T LP], [T (Id
      [CNPP, W ''CAT''])], [T LP], [T (Id [CNPP, W ''CAT''])], [T LP], [P 1], [T Comma], [P 0],
      [T RP], [T Comma], [T (Id [CNPP, W ''JOIN_'', N 4])], [T LP], [P 0], [T Comma], [P 2], [T
      RP], [T RP], [T Comma], [T RP]]),
     ([CNPP, W ''JOIN_'', N 6], Function 2 True [[T (Id [CNPP, W ''CAT''])], [T LP], [T (Id
      [CNPP, W ''CAT''])], [T LP], [T (Id [CNPP, W ''CAT''])], [T LP], [P 1], [T Comma], [P 0],
      [T RP], [T Comma], [T (Id [CNPP, W ''JOIN_'', N 5])], [T LP], [P 0], [T Comma], [P 2], [T
      RP], [T RP], [T Comma], [T RP]]),
     ([CNPP, W ''JOIN_'', N 7], Function 2 True [[T (Id [CNPP, W ''CAT''])], [T LP], [T (Id
      [CNPP, W ''CAT''])], [T LP], [T (Id [CNPP, W ''CAT''])], [T LP], [P 1], [T Comma], [P 0],
      [T RP], [T Comma], [T (Id [CNPP, W ''JOIN_'', N 6])], [T LP], [P 0], [T Comma], [P 2], [T
      RP], [T RP], [T Comma], [T RP]]),
     ([CNPP, W ''JOIN_'', N 8], Function 2 True [[T (Id [CNPP, W ''CAT''])], [T LP], [T (Id
      [CNPP, W ''CAT''])], [T LP], [T (Id [CNPP, W ''CAT''])], [T LP], [P 1], [T Comma], [P 0],
      [T RP], [T Comma], [T (Id [CNPP, W ''JOIN_'', N 7])], [T LP], [P 0], [T Comma], [P 2], [T
      RP], [T RP], [T Comma], [T RP]]),
     ([CNPP, W ''JOIN_'', N 9], Function 2 True [[T (Id [CNPP, W ''CAT''])], [T LP], [T (Id
      [CNPP, W ''CAT''])], [T LP], [T (Id [CNPP, W ''CAT''])], [T LP], [P 1], [T Comma], [P 0],
      [T RP], [T Comma], [T (Id [CNPP, W ''JOIN_'', N 8])], [T LP], [P 0], [T Comma], [P 2], [T
      RP], [T RP], [T Comma], [T RP]]),
     ([CNPP, W ''JOIN_'', N 10], Function 2 True [[T (Id [CNPP, W ''CAT''])], [T LP], [T (Id
      [CNPP, W ''CAT''])], [T LP], [T (Id [CNPP, W ''CAT''])], [T LP], [P 1], [T Comma], [P 0],
      [T RP], [T Comma], [T (Id [CNPP, W ''JOIN_'', N 9])], [T LP], [P 0], [T Comma], [P 2], [T
      RP], [T RP], [T Comma], [T RP]]),
     ([CNPP, W ''JOIN_'', N 11], Function 2 True [[T (Id [CNPP, W ''CAT''])], [T LP], [T (Id
      [CNPP, W ''CAT''])], [T LP], [T (Id [CNPP, W ''CAT''])], [T LP], [P 1], [T Comma], [P 0],
      [T RP], [T Comma], [T (Id [CNPP, W ''JOIN_'', N 10])], [T LP], [P 0], [T Comma], [P 2], [T
      RP], [T RP], [T Comma], [T RP]]),
     ([CNPP, W ''JOIN_'', N 12], Function 2 True [[T (Id [CNPP, W ''CAT''])], [T LP], [T (Id
      [CNPP, W ''CAT''])], [T LP], [T (Id [CNPP, W ''CAT''])], [T LP], [P 1], [T Comma], [P 0],
      [T RP], [T Comma], [T (Id [CNPP, W ''JOIN_'', N 11])], [T LP], [P 0], [T Comma], [P 2], [T
      RP], [T RP], [T Comma], [T RP]]),
     ([CNPP, W ''JOIN_'', N 13], Function 2 True [[T (Id [CNPP, W ''CAT''])], [T LP], [T (Id
      [CNPP, W ''CAT''])], [T LP], [T (Id [CNPP, W ''CAT''])], [T LP], [P 1], [T Comma], [P 0],
      [T RP], [T Comma], [T (Id [CNPP, W ''JOIN_'', N 12])], [T LP], [P 0], [T Comma], [P 2], [T
      RP], [T RP], [T Comma], [T RP]]),
     ([CNPP, W ''JOIN_'', N 14], Function 2 True [[T (Id [CNPP, W ''CAT''])], [T LP], [T (Id
      [CNPP, W ''CAT''])], [T LP], [T (Id [CNPP, W ''CAT''])], [T LP], [P 1], [T Comma], [P 0],
      [T RP], [T Comma], [T (Id [CNPP, W ''JOIN_'', N 13])], [T LP], [P 0], [T Comma], [P 2], [T
      RP], [T RP], [T Comma], [T RP]]),
     ([CNPP, W ''JOIN_'', N 15], Function 2 True [[T (Id [CNPP, W ''CAT''])], [T LP], [T (Id
      [CNPP, W ''CAT''])], [T LP], [T (Id [CNPP, W ''CAT''])], [T LP], [P 1], [T Comma], [P 0],
      [T RP], [T Comma], [T (Id [CNPP, W ''JOIN_'', N 14])], [T LP], [P 0], [T Comma], [P 2], [T
      RP], [T RP], [T Comma], [T RP]])]"

text \<open>Head and tail of a sequence, pairs, tuples.\<close>

definition seq_pair_macros :: macro_defs where
  "seq_pair_macros =
    [([CNPP, W ''SEQ_HEAD''], Function 1 False [[T (Id [CNPP, W ''PAIR_FIRST''])], [T LP], [T
      (Id [CNPP, W ''SEQ_TO_PAIR''])], [T LP], [P 0], [T RP], [T RP]]),
     ([CNPP, W ''SEQ_TAIL''], Function 1 False [[T (Id [CNPP, W ''PAIR_SECOND''])], [T LP], [T
      (Id [CNPP, W ''SEQ_TO_PAIR''])], [T LP], [P 0], [T RP], [T RP]]),
     ([CNPP, W ''SEQ_TO_PAIR''], Function 1 False [[T LP], [T (Id [CNPP, W ''SEQ_TO_PAIR_''])],
      [P 0], [T RP]]),
     ([CNPP, W ''SEQ_TO_PAIR_''], Function 1 False [[P 0], [T Comma], [T (Id [CNPP, W
      ''NIL''])]]),
     ([CNPP, W ''NIL''], Object []),
     ([CNPP, W ''PAIR_FIRST''], Function 1 False [[T (Id [CNPP, W ''PAIR_FIRST_I''])], [T LP],
      [P 0], [T RP]]),
     ([CNPP, W ''PAIR_FIRST_I''], Function 1 False [[T (Id [CNPP, W ''FIRST_ARG''])], [P 0]]),
     ([CNPP, W ''PAIR_SECOND''], Function 1 False [[T (Id [CNPP, W ''PAIR_SECOND_I''])], [T LP],
      [P 0], [T RP]]),
     ([CNPP, W ''PAIR_SECOND_I''], Function 1 False [[T (Id [CNPP, W ''SECOND_ARG''])], [P 0]]),
     ([CNPP, W ''FIRST_ARG''], Function 1 True [[P 0]]),
     ([CNPP, W ''SECOND_ARG''], Function 2 True [[P 1]]),
     ([CNPP, W ''MAKE_TUPLE''], Function 0 True [[T LP], [P 0], [T RP]]),
     ([CNPP, W ''MAKE_TUPLE_SEQ''], Function 0 True [[T LP], [T (Id [CNPP, W ''MAKE_TUPLE''])],
      [T LP], [P 0], [T RP], [T RP]])]"

text \<open>Pushing on the front of a tuple, and its elements.\<close>

definition tuple_macros :: macro_defs where
  "tuple_macros =
    [([CNPP, W ''TUPLE_PUSH_FRONT''], Function 2 False [[T (Id [CNPP, W ''CAT''])], [T LP], [T
      (Id [CNPP, W ''TUPLE_PUSH_FRONT_''])], [T Comma], [T (Id [CNPP, W ''TUPLE_SIZE''])], [T
      LP], [P 0], [T RP], [T RP], [T LP], [P 0], [T Comma], [P 1], [T RP]]),
     ([CNPP, W ''TUPLE_PUSH_FRONT_'', N 0], Function 2 False [[T LP], [P 1], [T RP]]),
     ([CNPP, W ''TUPLE_PUSH_FRONT_'', N 1], Function 2 False [[T LP], [P 1], [T Comma], [T (Id
      [CNPP, W ''TUPLE_ELEM''])], [T LP], [T (Num 0)], [T Comma], [P 0], [T RP], [T RP]]),
     ([CNPP, W ''TUPLE_PUSH_FRONT_'', N 2], Function 2 False [[T LP], [P 1], [T Comma], [T (Id
      [CNPP, W ''TUPLE_ELEM''])], [T LP], [T (Num 0)], [T Comma], [P 0], [T RP], [T Comma], [T
      (Id [CNPP, W ''TUPLE_ELEM''])], [T LP], [T (Num 1)], [T Comma], [P 0], [T RP], [T RP]]),
     ([CNPP, W ''TUPLE_PUSH_FRONT_'', N 3], Function 2 False [[T LP], [P 1], [T Comma], [T (Id
      [CNPP, W ''TUPLE_ELEM''])], [T LP], [T (Num 0)], [T Comma], [P 0], [T RP], [T Comma], [T
      (Id [CNPP, W ''TUPLE_ELEM''])], [T LP], [T (Num 1)], [T Comma], [P 0], [T RP], [T Comma],
      [T (Id [CNPP, W ''TUPLE_ELEM''])], [T LP], [T (Num 2)], [T Comma], [P 0], [T RP], [T RP]]),
     ([CNPP, W ''TUPLE_PUSH_FRONT_'', N 4], Function 2 False [[T LP], [P 1], [T Comma], [T (Id
      [CNPP, W ''TUPLE_ELEM''])], [T LP], [T (Num 0)], [T Comma], [P 0], [T RP], [T Comma], [T
      (Id [CNPP, W ''TUPLE_ELEM''])], [T LP], [T (Num 1)], [T Comma], [P 0], [T RP], [T Comma],
      [T (Id [CNPP, W ''TUPLE_ELEM''])], [T LP], [T (Num 2)], [T Comma], [P 0], [T RP], [T
      Comma], [T (Id [CNPP, W ''TUPLE_ELEM''])], [T LP], [T (Num 3)], [T Comma], [P 0], [T RP],
      [T RP]]),
     ([CNPP, W ''TUPLE_PUSH_FRONT_'', N 5], Function 2 False [[T LP], [P 1], [T Comma], [T (Id
      [CNPP, W ''TUPLE_ELEM''])], [T LP], [T (Num 0)], [T Comma], [P 0], [T RP], [T Comma], [T
      (Id [CNPP, W ''TUPLE_ELEM''])], [T LP], [T (Num 1)], [T Comma], [P 0], [T RP], [T Comma],
      [T (Id [CNPP, W ''TUPLE_ELEM''])], [T LP], [T (Num 2)], [T Comma], [P 0], [T RP], [T
      Comma], [T (Id [CNPP, W ''TUPLE_ELEM''])], [T LP], [T (Num 3)], [T Comma], [P 0], [T RP],
      [T Comma], [T (Id [CNPP, W ''TUPLE_ELEM''])], [T LP], [T (Num 4)], [T Comma], [P 0], [T
      RP], [T RP]]),
     ([CNPP, W ''TUPLE_PUSH_FRONT_'', N 6], Function 2 False [[T LP], [P 1], [T Comma], [T (Id
      [CNPP, W ''TUPLE_ELEM''])], [T LP], [T (Num 0)], [T Comma], [P 0], [T RP], [T Comma], [T
      (Id [CNPP, W ''TUPLE_ELEM''])], [T LP], [T (Num 1)], [T Comma], [P 0], [T RP], [T Comma],
      [T (Id [CNPP, W ''TUPLE_ELEM''])], [T LP], [T (Num 2)], [T Comma], [P 0], [T RP], [T
      Comma], [T (Id [CNPP, W ''TUPLE_ELEM''])], [T LP], [T (Num 3)], [T Comma], [P 0], [T RP],
      [T Comma], [T (Id [CNPP, W ''TUPLE_ELEM''])], [T LP], [T (Num 4)], [T Comma], [P 0], [T
      RP], [T Comma], [T (Id [CNPP, W ''TUPLE_ELEM''])], [T LP], [T (Num 5)], [T Comma], [P 0],
      [T RP], [T RP]]),
     ([CNPP, W ''TUPLE_PUSH_FRONT_'', N 7], Function 2 False [[T LP], [P 1], [T Comma], [T (Id
      [CNPP, W ''TUPLE_ELEM''])], [T LP], [T (Num 0)], [T Comma], [P 0], [T RP], [T Comma], [T
      (Id [CNPP, W ''TUPLE_ELEM''])], [T LP], [T (Num 1)], [T Comma], [P 0], [T RP], [T Comma],
      [T (Id [CNPP, W ''TUPLE_ELEM''])], [T LP], [T (Num 2)], [T Comma], [P 0], [T RP], [T
      Comma], [T (Id [CNPP, W ''TUPLE_ELEM''])], [T LP], [T (Num 3)], [T Comma], [P 0], [T RP],
      [T Comma], [T (Id [CNPP, W ''TUPLE_ELEM''])], [T LP], [T (Num 4)], [T Comma], [P 0], [T
      RP], [T Comma], [T (Id [CNPP, W ''TUPLE_ELEM''])], [T LP], [T (Num 5)], [T Comma], [P 0],
      [T RP], [T Comma], [T (Id [CNPP, W ''TUPLE_ELEM''])], [T LP], [T (Num 6)], [T Comma], [P
      0], [T RP], [T RP]]),
     ([CNPP, W ''TUPLE_PUSH_FRONT_'', N 8], Function 2 False [[T LP], [P 1], [T Comma], [T (Id
      [CNPP, W ''TUPLE_ELEM''])], [T LP], [T (Num 0)], [T Comma], [P 0], [T RP], [T Comma], [T
      (Id [CNPP, W ''TUPLE_ELEM''])], [T LP], [T (Num 1)], [T Comma], [P 0], [T RP], [T Comma],
      [T (Id [CNPP, W ''TUPLE_ELEM''])], [T LP], [T (Num 2)], [T Comma], [P 0], [T RP], [T
      Comma], [T (Id [CNPP, W ''TUPLE_ELEM''])], [T LP], [T (Num 3)], [T Comma], [P 0], [T RP],
      [T Comma], [T (Id [CNPP, W ''TUPLE_ELEM''])], [T LP], [T (Num 4)], [T Comma], [P 0], [T
      RP], [T Comma], [T (Id [CNPP, W ''TUPLE_ELEM''])], [T LP], [T (Num 5)], [T Comma], [P 0],
      [T RP], [T Comma], [T (Id [CNPP, W ''TUPLE_ELEM''])], [T LP], [T (Num 6)], [T Comma], [P
      0], [T RP], [T Comma], [T (Id [CNPP, W ''TUPLE_ELEM''])], [T LP], [T (Num 7)], [T Comma],
      [P 0], [T RP], [T RP]]),
     ([CNPP, W ''TUPLE_ELEM''], Function 2 False [[T (Id [CNPP, W ''TUPLE_ELEM_I''])], [T LP],
      [P 0], [T Comma], [P 1], [T RP]]),
     ([CNPP, W ''TUPLE_ELEM_I''], Function 2 False [[T (Id [CNPP, W ''CAT''])], [T LP], [T (Id
      [CNPP, W ''CAT''])], [T LP], [T (Id [CNPP, W ''ARG_''])], [T Comma], [P 0], [T RP], [P 1],
      [T Comma], [T RP]]),
     ([CNPP, W ''ARG_'', N 0], Function 1 True [[P 0]]),
     ([CNPP, W ''ARG_'', N 1], Function 2 True [[P 1]]),
     ([CNPP, W ''ARG_'', N 2], Function 3 True [[P 2]]),
     ([CNPP, W ''ARG_'', N 3], Function 4 True [[P 3]]),
     ([CNPP, W ''ARG_'', N 4], Function 5 True [[P 4]]),
     ([CNPP, W ''ARG_'', N 5], Function 6 True [[P 5]]),
     ([CNPP, W ''ARG_'', N 6], Function 7 True [[P 6]]),
     ([CNPP, W ''ARG_'', N 7], Function 8 True [[P 7]])]"

text \<open>The number of arguments, and the test for an empty argument list.\<close>

definition size_macros :: macro_defs where
  "size_macros =
    [([CNPP, W ''TUPLE_SIZE''], Function 1 False [[T (Id [CNPP, W ''CAT''])], [T LP], [T (Id
      [CNPP, W ''TUPLE_SIZE_''])], [T Comma], [T (Id [CNPP, W ''IS_TUPLE_EMPTY''])], [T LP], [P
      0], [T RP], [T RP], [T LP], [P 0], [T RP]]),
     ([CNPP, W ''TUPLE_SIZE_'', N 1], Function 1 False [[T (Num 0)]]),
     ([CNPP, W ''TUPLE_SIZE_'', N 0], Function 1 False [[T (Id [CNPP, W ''TUPLE_SIZE_'', N 0, W
      ''_I''])], [T LP], [P 0], [T RP]]),
     ([CNPP, W ''TUPLE_SIZE_'', N 0, W ''_I''], Function 1 False [[T (Id [CNPP, W ''CAT''])], [T
      LP], [T (Id [CNPP, W ''VARIADIC_SIZE''])], [P 0], [T Comma], [T RP]]),
     ([CNPP, W ''VARIADIC_SIZE''], Function 0 True [[T (Id [CNPP, W ''CAT''])], [T LP], [T (Id
      [CNPP, W ''VARIADIC_SIZE_I''])], [T LP], [P 0], [T Comma], [T (Num 64)], [T Comma], [T (Num
      63)], [T Comma], [T (Num 62)], [T Comma], [T (Num 61)], [T Comma], [T (Num 60)], [T Comma],
      [T (Num 59)], [T Comma], [T (Num 58)], [T Comma], [T (Num 57)], [T Comma], [T (Num 56)], [T
      Comma], [T (Num 55)], [T Comma], [T (Num 54)], [T Comma], [T (Num 53)], [T Comma], [T (Num
      52)], [T Comma], [T (Num 51)], [T Comma], [T (Num 50)], [T Comma], [T (Num 49)], [T Comma],
      [T (Num 48)], [T Comma], [T (Num 47)], [T Comma], [T (Num 46)], [T Comma], [T (Num 45)], [T
      Comma], [T (Num 44)], [T Comma], [T (Num 43)], [T Comma], [T (Num 42)], [T Comma], [T (Num
      41)], [T Comma], [T (Num 40)], [T Comma], [T (Num 39)], [T Comma], [T (Num 38)], [T Comma],
      [T (Num 37)], [T Comma], [T (Num 36)], [T Comma], [T (Num 35)], [T Comma], [T (Num 34)], [T
      Comma], [T (Num 33)], [T Comma], [T (Num 32)], [T Comma], [T (Num 31)], [T Comma], [T (Num
      30)], [T Comma], [T (Num 29)], [T Comma], [T (Num 28)], [T Comma], [T (Num 27)], [T Comma],
      [T (Num 26)], [T Comma], [T (Num 25)], [T Comma], [T (Num 24)], [T Comma], [T (Num 23)], [T
      Comma], [T (Num 22)], [T Comma], [T (Num 21)], [T Comma], [T (Num 20)], [T Comma], [T (Num
      19)], [T Comma], [T (Num 18)], [T Comma], [T (Num 17)], [T Comma], [T (Num 16)], [T Comma],
      [T (Num 15)], [T Comma], [T (Num 14)], [T Comma], [T (Num 13)], [T Comma], [T (Num 12)], [T
      Comma], [T (Num 11)], [T Comma], [T (Num 10)], [T Comma], [T (Num 9)], [T Comma], [T (Num
      8)], [T Comma], [T (Num 7)], [T Comma], [T (Num 6)], [T Comma], [T (Num 5)], [T Comma], [T
      (Num 4)], [T Comma], [T (Num 3)], [T Comma], [T (Num 2)], [T Comma], [T (Num 1)], [T
      Comma], [T RP], [T Comma], [T RP]]),
     ([CNPP, W ''VARIADIC_SIZE_I''], Function 65 True [[P 64]]),
     ([CNPP, W ''IS_TUPLE_EMPTY''], Function 1 False [[T (Id [CNPP, W ''IS_TUPLE_EMPTY_I''])],
      [T LP], [P 0], [T RP]]),
     ([CNPP, W ''IS_TUPLE_EMPTY_I''], Function 1 False [[T (Id [CNPP, W ''CAT''])], [T LP], [T
      (Id [CNPP, W ''IS_VARIADIC_EMPTY''])], [P 0], [T Comma], [T RP]]),
     ([CNPP, W ''IS_VARIADIC_EMPTY''], Function 0 True [[T (Id [CNPP, W
      ''IS_VARIADIC_EMPTY_''])], [T LP], [T (Id [CNPP, W ''VARIADIC_HAS_COMMA''])], [T LP], [P
      0], [T RP], [T Comma], [T (Id [CNPP, W ''VARIADIC_HAS_COMMA''])], [T LP], [T (Id [W ''_'',
      CNPP, W ''TRIGGER_PARENTHESIS_''])], [P 0], [T RP], [T Comma], [T (Id [CNPP, W
      ''VARIADIC_HAS_COMMA''])], [T LP], [P 0], [T LP], [T RP], [T RP], [T Comma], [T (Id [CNPP,
      W ''VARIADIC_HAS_COMMA''])], [T LP], [T (Id [W ''_'', CNPP, W ''TRIGGER_PARENTHESIS_''])],
      [P 0], [T LP], [T RP], [T RP], [T RP]]),
     ([CNPP, W ''IS_VARIADIC_EMPTY_''], Function 4 False [[T (Id [CNPP, W
      ''VARIADIC_HAS_COMMA''])], [T LP], [T (Id [CNPP, W ''CAT'', N 5])], [T LP], [T (Id [CNPP, W
      ''IS_EMPTY_CASE_''])], [T Comma], [P 0], [T Comma], [P 1], [T Comma], [P 2], [T Comma], [P
      3], [T RP], [T RP]]),
     ([CNPP, W ''VARIADIC_HAS_COMMA''], Function 0 True [[T (Id [CNPP, W ''CAT''])], [T LP], [T
      (Id [CNPP, W ''VARIADIC_HAS_COMMA_I''])], [T LP], [P 0], [T Comma], [T (Num 1)], [T Comma],
      [T (Num 1)], [T Comma], [T (Num 1)], [T Comma], [T (Num 1)], [T Comma], [T (Num 1)], [T
      Comma], [T (Num 1)], [T Comma], [T (Num 1)], [T Comma], [T (Num 1)], [T Comma], [T (Num
      1)], [T Comma], [T (Num 1)], [T Comma], [T (Num 1)], [T Comma], [T (Num 1)], [T Comma], [T
      (Num 1)], [T Comma], [T (Num 1)], [T Comma], [T (Num 1)], [T Comma], [T (Num 1)], [T
      Comma], [T (Num 1)], [T Comma], [T (Num 1)], [T Comma], [T (Num 1)], [T Comma], [T (Num
      1)], [T Comma], [T (Num 1)], [T Comma], [T (Num 1)], [T Comma], [T (Num 1)], [T Comma], [T
      (Num 1)], [T Comma], [T (Num 1)], [T Comma], [T (Num 1)], [T Comma], [T (Num 1)], [T
      Comma], [T (Num 1)], [T Comma], [T (Num 1)], [T Comma], [T (Num 1)], [T Comma], [T (Num
      1)], [T Comma], [T (Num 1)], [T Comma], [T (Num 1)], [T Comma], [T (Num 1)], [T Comma], [T
      (Num 1)], [T Comma], [T (Num 1)], [T Comma], [T (Num 1)], [T Comma], [T (Num 1)], [T
      Comma], [T (Num 1)], [T Comma], [T (Num 1)], [T Comma], [T (Num 1)], [T Comma], [T (Num
      1)], [T Comma], [T (Num 1)], [T Comma], [T (Num 1)], [T Comma], [T (Num 1)], [T Comma], [T
      (Num 1)], [T Comma], [T (Num 1)], [T Comma], [T (Num 1)], [T Comma], [T (Num 1)], [T
      Comma], [T (Num 1)], [T Comma], [T (Num 1)], [T Comma], [T (Num 1)], [T Comma], [T (Num
      1)], [T Comma], [T (Num 1)], [T Comma], [T (Num 1)], [T Comma], [T (Num 1)], [T Comma], [T
      (Num 1)], [T Comma], [T (Num 1)], [T Comma], [T (Num 1)], [T Comma], [T (Num 1)], [T
      Comma], [T (Num 1)], [T Comma], [T (Num 1)], [T Comma], [T (Num 1)], [T Comma], [T (Num
      0)], [T RP], [T Comma], [T RP]]),
     ([CNPP, W ''VARIADIC_HAS_COMMA_I''], Function 65 True [[P 64]]),
     ([W ''_'', CNPP, W ''TRIGGER_PARENTHESIS_''], Function 0 True [[T Comma]]),
     ([CNPP, W ''CAT'', N 5], Function 5 False [[P 0, P 1, P 2, P 3, P 4]]),
     ([CNPP, W ''IS_EMPTY_CASE_'', N 0, N 0, N 0, N 1], Object [[T Comma]])]"

text \<open>The product of sequences.\<close>

definition product_macros :: macro_defs where
  "product_macros =
    [([CNPP, W ''SEQ_PRODUCT_FOR_EACH_TUPLE''], Function 2 True [[T (Id [CNPP, W
      ''SEQ_FOR_EACH_TUPLE''])], [T LP], [P 0], [T Comma], [T (Id [W ''_''])], [T Comma], [T (Id
      [CNPP, W ''SEQ_PRODUCT''])], [T LP], [P 1], [T Comma], [P 2], [T RP], [T RP]]),
     ([CNPP, W ''SEQ_PRODUCT''], Function 1 True [[T (Id [CNPP, W ''CAT''])], [T LP], [T (Id
      [CNPP, W ''CAT''])], [T LP], [T (Id [CNPP, W ''SEQ_PRODUCT_''])], [T Comma], [T (Id [CNPP,
      W ''VARIADIC_SIZE''])], [T LP], [P 0], [T Comma], [P 1], [T RP], [T RP], [T LP], [P 0], [T
      Comma], [P 1], [T RP], [T Comma], [T RP]]),
     ([CNPP, W ''SEQ_PRODUCT_'', N 0], Function 0 False []),
     ([CNPP, W ''SEQ_PRODUCT_'', N 1], Function 1 False [[T (Id [CNPP, W
      ''TUPLE_SEQ_X_ATOMIC_SEQ''])], [T LP], [T LP], [T LP], [T RP], [T RP], [T Comma], [P 0], [T
      RP]]),
     ([CNPP, W ''SEQ_PRODUCT_'', N 2], Function 1 True [[T (Id [CNPP, W
      ''TUPLE_SEQ_X_ATOMIC_SEQ''])], [T LP], [T (Id [CNPP, W ''SEQ_PRODUCT_'', N 1])], [T LP], [P
      1], [T RP], [T Comma], [P 0], [T RP]]),
     ([CNPP, W ''SEQ_PRODUCT_'', N 3], Function 1 True [[T (Id [CNPP, W
      ''TUPLE_SEQ_X_ATOMIC_SEQ''])], [T LP], [T (Id [CNPP, W ''SEQ_PRODUCT_'', N 2])], [T LP], [P
      1], [T RP], [T Comma], [P 0], [T RP]]),
     ([CNPP, W ''SEQ_PRODUCT_'', N 4], Function 1 True [[T (Id [CNPP, W
      ''TUPLE_SEQ_X_ATOMIC_SEQ''])], [T LP], [T (Id [CNPP, W ''SEQ_PRODUCT_'', N 3])], [T LP], [P
      1], [T RP], [T Comma], [P 0], [T RP]]),
     ([CNPP, W ''SEQ_PRODUCT_'', N 5], Function 1 True [[T (Id [CNPP, W
      ''TUPLE_SEQ_X_ATOMIC_SEQ''])], [T LP], [T (Id [CNPP, W ''SEQ_PRODUCT_'', N 4])], [T LP], [P
      1], [T RP], [T Comma], [P 0], [T RP]]),
     ([CNPP, W ''SEQ_PRODUCT_'', N 6], Function 1 True [[T (Id [CNPP, W
      ''TUPLE_SEQ_X_ATOMIC_SEQ''])], [T LP], [T (Id [CNPP, W ''SEQ_PRODUCT_'', N 5])], [T LP], [P
      1], [T RP], [T Comma], [P 0], [T RP]]),
     ([CNPP, W ''SEQ_PRODUCT_'', N 7], Function 1 True [[T (Id [CNPP, W
      ''TUPLE_SEQ_X_ATOMIC_SEQ''])], [T LP], [T (Id [CNPP, W ''SEQ_PRODUCT_'', N 6])], [T LP], [P
      1], [T RP], [T Comma], [P 0], [T RP]]),
     ([CNPP, W ''SEQ_PRODUCT_'', N 8], Function 1 True [[T (Id [CNPP, W
      ''TUPLE_SEQ_X_ATOMIC_SEQ''])], [T LP], [T (Id [CNPP, W ''SEQ_PRODUCT_'', N 7])], [T LP], [P
      1], [T RP], [T Comma], [P 0], [T RP]]),
     ([CNPP, W ''SEQ_PRODUCT_'', N 9], Function 1 True [[T (Id [CNPP, W
      ''TUPLE_SEQ_X_ATOMIC_SEQ''])], [T LP], [T (Id [CNPP, W ''SEQ_PRODUCT_'', N 8])], [T LP], [P
      1], [T RP], [T Comma], [P 0], [T RP]]),
     ([CNPP, W ''SEQ_PRODUCT_'', N 10], Function 1 True [[T (Id [CNPP, W
      ''TUPLE_SEQ_X_ATOMIC_SEQ''])], [T LP], [T (Id [CNPP, W ''SEQ_PRODUCT_'', N 9])], [T LP], [P
      1], [T RP], [T Comma], [P 0], [T RP]])]"

text \<open>Iteration over the tuples and atoms of a sequence.\<close>

definition for_each_macros :: macro_defs where
  "for_each_macros =
    [([CNPP, W ''OUTTER_FOR_EACH_TUPLE''], Function 2 False [[T (Id [CNPP, W
      ''OUTTER_SEQ_FOR_EACH_TUPLE''])], [T LP], [P 0], [T Comma], [T (Id [W ''_''])], [T Comma],
      [P 1], [T RP]]),
     ([CNPP, W ''FOR_EACH_TUPLE''], Function 2 False [[T (Id [CNPP, W ''SEQ_FOR_EACH_TUPLE''])],
      [T LP], [P 0], [T Comma], [T (Id [W ''_''])], [T Comma], [P 1], [T RP]]),
     ([CNPP, W ''TUPLE_SEQ_X_ATOMIC_SEQ''], Function 2 False [[T (Id [CNPP, W ''D'', N 1, W
      ''_SEQ_FOR_EACH''])], [T LP], [T (Id [CNPP, W ''D'', N 1, W ''_APPLY_ATOMIC_WITH_DATA''])],
      [T Comma], [T (Id [CNPP, W ''TUPLE_X_ATOMIC_SEQ''])], [T Comma], [P 1], [T Comma], [P 0],
      [T RP]]),
     ([CNPP, W ''TUPLE_X_ATOMIC_SEQ''], Function 2 False [[T (Id [CNPP, W ''D'', N 2, W
      ''_SEQ_FOR_EACH''])], [T LP], [T (Id [CNPP, W ''D'', N 2, W ''_APPLY_ATOMIC_WITH_DATA''])],
      [T Comma], [T (Id [CNPP, W ''MAKE_SEQ_TUPLE_PUSH_FRONT''])], [T Comma], [P 1], [T Comma],
      [P 0], [T RP]]),
     ([CNPP, W ''D'', N 1, W ''_APPLY_ATOMIC_WITH_DATA''], Function 3 False [[P 0], [T LP], [P
      1], [T Comma], [P 2], [T RP]]),
     ([CNPP, W ''D'', N 2, W ''_APPLY_ATOMIC_WITH_DATA''], Function 3 False [[P 0], [T LP], [P
      1], [T Comma], [P 2], [T RP]]),
     ([CNPP, W ''MAKE_SEQ_TUPLE_PUSH_FRONT''], Function 2 False [[T LP], [T (Id [CNPP, W
      ''TUPLE_PUSH_FRONT''])], [T LP], [P 0], [T Comma], [P 1], [T RP], [T RP]])]"

text \<open>The size of a sequence, and the entry points of the iteration.\<close>

definition seq_size_macros :: macro_defs where
  "seq_size_macros =
    [([CNPP, W ''SEQ_SIZE''], Function 1 False [[T (Id [CNPP, W ''SEQ_SIZE_I''])], [T LP], [P
      0], [T RP]]),
     ([CNPP, W ''SEQ_SIZE_I''], Function 1 False [[T (Id [CNPP, W ''CAT''])], [T LP], [T (Id
      [CNPP, W ''SEQ_SIZE_''])], [T Comma], [T (Id [CNPP, W ''SEQ_SIZE_'', N 0])], [P 0], [T
      RP]]),
     ([CNPP, W ''OUTTER_SEQ_FOR_EACH_TUPLE''], Object [[T (Id [CNPP, W ''D'', N 0, W
      ''_SEQ_FOR_EACH_TUPLE''])]]),
     ([CNPP, W ''SEQ_FOR_EACH_TUPLE''], Object [[T (Id [CNPP, W ''D'', N 1, W
      ''_SEQ_FOR_EACH_TUPLE''])]]),
     ([CNPP, W ''D'', N 0, W ''_SEQ_FOR_EACH_TUPLE''], Function 3 False [[T (Id [CNPP, W ''D'',
      N 0, W ''_SEQ_FOR_EACH''])], [T LP], [T (Id [CNPP, W ''D'', N 0, W ''_APPLY_TUPLE''])], [T
      Comma], [P 0], [T Comma], [P 1], [T Comma], [P 2], [T RP]]),
     ([CNPP, W ''D'', N 1, W ''_SEQ_FOR_EACH_TUPLE''], Function 3 False [[T (Id [CNPP, W ''D'',
      N 1, W ''_SEQ_FOR_EACH''])], [T LP], [T (Id [CNPP, W ''APPLY_TUPLE''])], [T Comma], [P 0],
      [T Comma], [P 1], [T Comma], [P 2], [T RP]]),
     ([CNPP, W ''D'', N 2, W ''_SEQ_FOR_EACH_TUPLE''], Function 3 False [[T (Id [CNPP, W ''D'',
      N 2, W ''_SEQ_FOR_EACH''])], [T LP], [T (Id [CNPP, W ''APPLY_TUPLE''])], [T Comma], [P 0],
      [T Comma], [P 1], [T Comma], [P 2], [T RP]]),
     ([CNPP, W ''SEQ_FOR_EACH_ATOMIC''], Object [[T (Id [CNPP, W ''D'', N 1, W
      ''_SEQ_FOR_EACH_ATOMIC''])]]),
     ([CNPP, W ''D'', N 1, W ''_SEQ_FOR_EACH_ATOMIC''], Function 3 False [[T (Id [CNPP, W ''D'',
      N 1, W ''_SEQ_FOR_EACH''])], [T LP], [T (Id [CNPP, W ''APPLY_ATOMIC''])], [T Comma], [P 0],
      [T Comma], [P 1], [T Comma], [P 2], [T RP]]),
     ([CNPP, W ''D'', N 2, W ''_SEQ_FOR_EACH_ATOMIC''], Function 3 False [[T (Id [CNPP, W ''D'',
      N 2, W ''_SEQ_FOR_EACH''])], [T LP], [T (Id [CNPP, W ''APPLY_ATOMIC''])], [T Comma], [P 0],
      [T Comma], [P 1], [T Comma], [P 2], [T RP]]),
     ([CNPP, W ''D'', N 0, W ''_APPLY_TUPLE''], Function 3 False [[T (Id [CNPP, W ''D'', N 0, W
      ''_APPLY_TUPLE_I''])], [T LP], [P 0], [T Comma], [P 1], [T Comma], [P 2], [T RP]]),
     ([CNPP, W ''D'', N 0, W ''_APPLY_TUPLE_I''], Function 3 False [[P 0], [P 2]]),
     ([CNPP, W ''APPLY_TUPLE''], Function 3 False [[T (Id [CNPP, W ''APPLY_TUPLE_I''])], [T LP],
      [P 0], [T Comma], [P 1], [T Comma], [P 2], [T RP]]),
     ([CNPP, W ''APPLY_TUPLE_I''], Function 3 False [[P 0], [P 2]]),
     ([CNPP, W ''APPLY_ATOMIC''], Function 3 False [[P 0], [T LP], [P 2], [T RP]]),
     ([CNPP, W ''APPLY_ATOMIC_WITH_DATA''], Function 3 False [[P 0], [T LP], [P 1], [T Comma],
      [P 2], [T RP]]),
     ([CNPP, W ''D'', N 0, W ''_SEQ_FOR_EACH''], Function 4 False [[T (Id [CNPP, W ''CAT''])],
      [T LP], [T (Id [CNPP, W ''D'', N 0, W ''_SEQ_FOR_EACH_''])], [T Comma], [T (Id [CNPP, W
      ''SEQ_SIZE''])], [T LP], [P 3], [T RP], [T RP], [T LP], [P 0], [T Comma], [P 1], [T Comma],
      [P 2], [T Comma], [P 3], [T RP]]),
     ([CNPP, W ''D'', N 1, W ''_SEQ_FOR_EACH''], Function 4 False [[T (Id [CNPP, W ''CAT''])],
      [T LP], [T (Id [CNPP, W ''D'', N 1, W ''_SEQ_FOR_EACH_''])], [T Comma], [T (Id [CNPP, W
      ''SEQ_SIZE''])], [T LP], [P 3], [T RP], [T RP], [T LP], [P 0], [T Comma], [P 1], [T Comma],
      [P 2], [T Comma], [P 3], [T RP]]),
     ([CNPP, W ''D'', N 2, W ''_SEQ_FOR_EACH''], Function 4 False [[T (Id [CNPP, W ''CAT''])],
      [T LP], [T (Id [CNPP, W ''D'', N 2, W ''_SEQ_FOR_EACH_''])], [T Comma], [T (Id [CNPP, W
      ''SEQ_SIZE''])], [T LP], [P 3], [T RP], [T RP], [T LP], [P 0], [T Comma], [P 1], [T Comma],
      [P 2], [T Comma], [P 3], [T RP]]),
     ([CNPP, W ''D'', N 0, W ''_SEQ_FOR_EACH_'', N 0], Function 4 False []),
     ([CNPP, W ''D'', N 1, W ''_SEQ_FOR_EACH_'', N 0], Function 4 False []),
     ([CNPP, W ''D'', N 2, W ''_SEQ_FOR_EACH_'', N 0], Function 4 False [])]"

text \<open>The public names.\<close>

definition public_macros :: macro_defs where
  "public_macros =
    [([W ''CN_PP_CAT''], Function 2 False [[T (Id [CNPP, W ''CAT''])], [T LP], [P 0], [T Comma],
      [P 1], [T RP]]),
     ([W ''CN_PP_STRINGIZE''], Function 1 False [[T (Id [CNPP, W ''STRINGIZE''])], [T LP], [P
      0], [T RP]]),
     ([W ''CN_PP_PAIR_FIRST''], Function 1 False [[T (Id [CNPP, W ''PAIR_FIRST''])], [T LP], [P
      0], [T RP]]),
     ([W ''CN_PP_PAIR_SECOND''], Function 1 False [[T (Id [CNPP, W ''PAIR_SECOND''])], [T LP],
      [P 0], [T RP]]),
     ([W ''CN_PP_TUPLE_SIZE''], Function 1 False [[T (Id [CNPP, W ''TUPLE_SIZE''])], [T LP], [P
      0], [T RP]]),
     ([W ''CN_PP_TUPLE_ELEM''], Function 2 False [[T (Id [CNPP, W ''TUPLE_ELEM''])], [T LP], [P
      0], [T Comma], [P 1], [T RP]]),
     ([W ''CN_PP_MAKE_TUPLE_SEQ''], Function 0 True [[T (Id [CNPP, W ''MAKE_TUPLE_SEQ''])], [T
      LP], [P 0], [T RP]]),
     ([W ''CN_PP_FOR_EACH_TUPLE''], Function 2 False [[T (Id [CNPP, W ''FOR_EACH_TUPLE''])], [T
      LP], [P 0], [T Comma], [P 1], [T RP]]),
     ([W ''CN_PP_OUTTER_FOR_EACH_TUPLE''], Function 2 False [[T (Id [CNPP, W
      ''OUTTER_FOR_EACH_TUPLE''])], [T LP], [P 0], [T Comma], [P 1], [T RP]]),
     ([W ''CN_PP_SEQ_PRODUCT_FOR_EACH_TUPLE''], Function 1 True [[T (Id [CNPP, W
      ''SEQ_PRODUCT_FOR_EACH_TUPLE''])], [T LP], [P 0], [T Comma], [P 1], [T RP]]),
     ([W ''CN_PP_VARIADIC_SIZE''], Function 0 True [[T (Id [CNPP, W ''VARIADIC_SIZE''])], [T
      LP], [P 0], [T RP]]),
     ([W ''CN_PP_SEQ_SIZE''], Function 1 False [[T (Id [CNPP, W ''SEQ_SIZE''])], [T LP], [P 0],
      [T RP]]),
     ([W ''CN_PP_ATOMIC_TO_TUPLE''], Function 1 False [[T LP], [P 0], [T RP]]),
     ([W ''CN_PP_FOR_EACH_ATOMIC''], Function 2 False [[T (Id [W ''CN_PP_FOR_EACH_TUPLE''])], [T
      LP], [P 0], [T Comma], [T (Id [W ''CN_PP_SEQ_MAP''])], [T LP], [T (Id [W
      ''CN_PP_ATOMIC_TO_TUPLE''])], [T Comma], [P 1], [T RP], [T RP]]),
     ([W ''CN_PP_SEQ_PRODUCT''], Function 1 True [[T (Id [CNPP, W ''SEQ_PRODUCT''])], [T LP], [P
      0], [T Comma], [P 1], [T RP]]),
     ([W ''CN_PP_SEQ_MAP''], Function 2 False [[T (Id [W
      ''CN_PP_SEQ_PRODUCT_FOR_EACH_TUPLE''])], [T LP], [T (Id [W ''CN_PP_I_SEQ_MAP_DO_EACH''])],
      [T Comma], [T LP], [P 0], [T RP], [T Comma], [P 1], [T RP]]),
     ([W ''CN_PP_I_SEQ_MAP_DO_EACH''], Function 2 False [[T LP], [P 0], [T LP], [P 1], [T RP],
      [T RP]]),
     ([W ''CN_PP_JOIN''], Function 1 True [[T (Id [CNPP, W ''JOIN''])], [T LP], [P 0], [T
      Comma], [P 1], [T RP]]),
     ([W ''CN_PP_TUPLE_PUSH_FRONT''], Function 2 False [[T (Id [CNPP, W ''TUPLE_PUSH_FRONT''])],
      [T LP], [P 0], [T Comma], [P 1], [T RP]]),
     ([W ''CN_PP_FORCE''], Function 0 True [[T (Id [W ''CN_PP_TUPLE'', N 2, W ''VARADIC''])], [T
      LP], [T (Id [W ''CN_PP_CAT''])], [T LP], [T LP], [P 0], [T RP], [T Comma], [T RP], [T RP]])]"

end
