(* ===== verification/IterTable.thy ===== *)
theory IterTable
  imports BaseMacros
begin

text \<open>
  The generated part of \<open>common/preprocessor_internal.h\<close> (lines 322 to 7487): five macros for
  each of the 512 indices. The tables below list the macros of the file, ten indices each,
  with the numbers that stand there; the PHP program in the comment of lines 303 to 317
  that is said to have produced them is \<open>php_output\<close>.
\<close>

section \<open>The three shapes of macro\<close>

definition seq_size :: "nat \<Rightarrow> nat \<Rightarrow> ident \<times> macro" where
  "seq_size i j =
     ([CNPP, W ''SEQ_SIZE_'', N i], Function 1 False [[T (Id [CNPP, W ''SEQ_SIZE_'', N j])]])"

definition seq_size_value :: "nat \<Rightarrow> nat \<Rightarrow> ident \<times> macro" where
  "seq_size_value i v =
     ([CNPP, W ''SEQ_SIZE_'', CNPP, W ''SEQ_SIZE_'', N i], Object [[T (Num v)]])"

text \<open>\<open>apply(m, d, SEQ_HEAD(seq)) FOR_EACH_k(apply, m, d, SEQ_TAIL(seq))\<close>\<close>

definition for_each :: "nat \<Rightarrow> nat \<Rightarrow> nat \<Rightarrow> ident \<times> macro" where
  "for_each dim n k =
     ([CNPP, W ''D'', N dim, W ''_SEQ_FOR_EACH_'', N n],
      Function 4 False
       [[P 0], [T LP], [P 1], [T Comma], [P 2], [T Comma],
        [T (Id [CNPP, W ''SEQ_HEAD''])], [T LP], [P 3], [T RP], [T RP],
        [T (Id [CNPP, W ''D'', N dim, W ''_SEQ_FOR_EACH_'', N k])], [T LP], [P 0], [T Comma],
        [P 1], [T Comma], [P 2], [T Comma],
        [T (Id [CNPP, W ''SEQ_TAIL''])], [T LP], [P 3], [T RP], [T RP]])"

section \<open>The generator\<close>

definition php_limit :: nat where "php_limit = 512"
definition php_dim :: nat where "php_dim = 2"

definition php_iter :: "nat \<Rightarrow> macro_defs" where
  "php_iter i = [seq_size i (i + 1), seq_size_value i i] @
     map (\<lambda>d. for_each d (i + 1) i) [0..<php_dim + 1]"

definition php_output :: macro_defs where
  "php_output = concat (map php_iter [0..<php_limit])"

section \<open>The macros of the file\<close>

definition iter_0 :: macro_defs where
  "iter_0 =
    [seq_size 0 1, seq_size_value 0 0, for_each 0 1 0, for_each 1 1 0, for_each 2 1 0,
     seq_size 1 2, seq_size_value 1 1, for_each 0 2 1, for_each 1 2 1, for_each 2 2 1,
     seq_size 2 3, seq_size_value 2 2, for_each 0 3 2, for_each 1 3 2, for_each 2 3 2,
     seq_size 3 4, seq_size_value 3 3, for_each 0 4 3, for_each 1 4 3, for_each 2 4 3,
     seq_size 4 5, seq_size_value 4 4, for_each 0 5 4, for_each 1 5 4, for_each 2 5 4,
     seq_size 5 6, seq_size_value 5 5, for_each 0 6 5, for_each 1 6 5, for_each 2 6 5,
     seq_size 6 7, seq_size_value 6 6, for_each 0 7 6, for_each 1 7 6, for_each 2 7 6,
     seq_size 7 8, seq_size_value 7 7, for_each 0 8 7, for_each 1 8 7, for_each 2 8 7,
     seq_size 8 9, seq_size_value 8 8, for_each 0 9 8, for_each 1 9 8, for_each 2 9 8,
     seq_size 9 10, seq_size_value 9 9, for_each 0 10 9, for_each 1 10 9, for_each 2 10 9]"

definition iter_10 :: macro_defs where
  "iter_10 =
    [seq_size 10 11, seq_size_value 10 10, for_each 0 11 10, for_each 1 11 10, for_each 2 11 10,
     seq_size 11 12, seq_size_value 11 11, for_each 0 12 11, for_each 1 12 11, for_each 2 12 11,
     seq_size 12 13, seq_size_value 12 12, for_each 0 13 12, for_each 1 13 12, for_each 2 13 12,
     seq_size 13 14, seq_size_value 13 13, for_each 0 14 13, for_each 1 14 13, for_each 2 14 13,
     seq_size 14 15, seq_size_value 14 14, for_each 0 15 14, for_each 1 15 14, for_each 2 15 14,
     seq_size 15 16, seq_size_value 15 15, for_each 0 16 15, for_each 1 16 15, for_each 2 16 15,
     seq_size 16 17, seq_size_value 16 16, for_each 0 17 16, for_each 1 17 16, for_each 2 17 16,
     seq_size 17 18, seq_size_value 17 17, for_each 0 18 17, for_each 1 18 17, for_each 2 18 17,
     seq_size 18 19, seq_size_value 18 18, for_each 0 19 18, for_each 1 19 18, for_each 2 19 18,
     seq_size 19 20, seq_size_value 19 19, for_each 0 20 19, for_each 1 20 19, for_each 2 20 19]"

definition iter_20 :: macro_defs where
  "iter_20 =
    [seq_size 20 21, seq_size_value 20 20, for_each 0 21 20, for_each 1 21 20, for_each 2 21 20,
     seq_size 21 22, seq_size_value 21 21, for_each 0 22 21, for_each 1 22 21, for_each 2 22 21,
     seq_size 22 23, seq_size_value 22 22, for_each 0 23 22, for_each 1 23 22, for_each 2 23 22,
     seq_size 23 24, seq_size_value 23 23, for_each 0 24 23, for_each 1 24 23, for_each 2 24 23,
     seq_size 24 25, seq_size_value 24 24, for_each 0 25 24, for_each 1 25 24, for_each 2 25 24,
     seq_size 25 26, seq_size_value 25 25, for_each 0 26 25, for_each 1 26 25, for_each 2 26 25,
     seq_size 26 27, seq_size_value 26 26, for_each 0 27 26, for_each 1 27 26, for_each 2 27 26,
     seq_size 27 28, seq_size_value 27 27, for_each 0 28 27, for_each 1 28 27, for_each 2 28 27,
     seq_size 28 29, seq_size_value 28 28, for_each 0 29 28, for_each 1 29 28, for_each 2 29 28,
     seq_size 29 30, seq_size_value 29 29, for_each 0 30 29, for_each 1 30 29, for_each 2 30 29]"

definition iter_30 :: macro_defs where
  "iter_30 =
    [seq_size 30 31, seq_size_value 30 30, for_each 0 31 30, for_each 1 31 30, for_each 2 31 30,
     seq_size 31 32, seq_size_value 31 31, for_each 0 32 31, for_each 1 32 31, for_each 2 32 31,
     seq_size 32 33, seq_size_value 32 32, for_each 0 33 32, for_each 1 33 32, for_each 2 33 32,
     seq_size 33 34, seq_size_value 33 33, for_each 0 34 33, for_each 1 34 33, for_each 2 34 33,
     seq_size 34 35, seq_size_value 34 34, for_each 0 35 34, for_each 1 35 34, for_each 2 35 34,
     seq_size 35 36, seq_size_value 35 35, for_each 0 36 35, for_each 1 36 35, for_each 2 36 35,
     seq_size 36 37, seq_size_value 36 36, for_each 0 37 36, for_each 1 37 36, for_each 2 37 36,
     seq_size 37 38, seq_size_value 37 37, for_each 0 38 37, for_each 1 38 37, for_each 2 38 37,
     seq_size 38 39, seq_size_value 38 38, for_each 0 39 38, for_each 1 39 38, for_each 2 39 38,
     seq_size 39 40, seq_size_value 39 39, for_each 0 40 39, for_each 1 40 39, for_each 2 40 39]"

definition iter_40 :: macro_defs where
  "iter_40 =
    [seq_size 40 41, seq_size_value 40 40, for_each 0 41 40, for_each 1 41 40, for_each 2 41 40,
     seq_size 41 42, seq_size_value 41 41, for_each 0 42 41, for_each 1 42 41, for_each 2 42 41,
     seq_size 42 43, seq_size_value 42 42, for_each 0 43 42, for_each 1 43 42, for_each 2 43 42,
     seq_size 43 44, seq_size_value 43 43, for_each 0 44 43, for_each 1 44 43, for_each 2 44 43,
     seq_size 44 45, seq_size_value 44 44, for_each 0 45 44, for_each 1 45 44, for_each 2 45 44,
     seq_size 45 46, seq_size_value 45 45, for_each 0 46 45, for_each 1 46 45, for_each 2 46 45,
     seq_size 46 47, seq_size_value 46 46, for_each 0 47 46, for_each 1 47 46, for_each 2 47 46,
     seq_size 47 48, seq_size_value 47 47, for_each 0 48 47, for_each 1 48 47, for_each 2 48 47,
     seq_size 48 49, seq_size_value 48 48, for_each 0 49 48, for_each 1 49 48, for_each 2 49 48,
     seq_size 49 50, seq_size_value 49 49, for_each 0 50 49, for_each 1 50 49, for_each 2 50 49]"

definition iter_50 :: macro_defs where
  "iter_50 =
    [seq_size 50 51, seq_size_value 50 50, for_each 0 51 50, for_each 1 51 50, for_each 2 51 50,
     seq_size 51 52, seq_size_value 51 51, for_each 0 52 51, for_each 1 52 51, for_each 2 52 51,
     seq_size 52 53, seq_size_value 52 52, for_each 0 53 52, for_each 1 53 52, for_each 2 53 52,
     seq_size 53 54, seq_size_value 53 53, for_each 0 54 53, for_each 1 54 53, for_each 2 54 53,
     seq_size 54 55, seq_size_value 54 54, for_each 0 55 54, for_each 1 55 54, for_each 2 55 54,
     seq_size 55 56, seq_size_value 55 55, for_each 0 56 55, for_each 1 56 55, for_each 2 56 55,
     seq_size 56 57, seq_size_value 56 56, for_each 0 57 56, for_each 1 57 56, for_each 2 57 56,
     seq_size 57 58, seq_size_value 57 57, for_each 0 58 57, for_each 1 58 57, for_each 2 58 57,
     seq_size 58 59, seq_size_value 58 58, for_each 0 59 58, for_each 1 59 58, for_each 2 59 58,
     seq_size 59 60, seq_size_value 59 59, for_each 0 60 59, for_each 1 60 59, for_each 2 60 59]"

definition iter_60 :: macro_defs where
  "iter_60 =
    [seq_size 60 61, seq_size_value 60 60, for_each 0 61 60, for_each 1 61 60, for_each 2 61 60,
     seq_size 61 62, seq_size_value 61 61, for_each 0 62 61, for_each 1 62 61, for_each 2 62 61,
     seq_size 62 63, seq_size_value 62 62, for_each 0 63 62, for_each 1 63 62, for_each 2 63 62,
     seq_size 63 64, seq_size_value 63 63, for_each 0 64 63, for_each 1 64 63, for_each 2 64 63,
     seq_size 64 65, seq_size_value 64 64, for_each 0 65 64, for_each 1 65 64, for_each 2 65 64,
     seq_size 65 66, seq_size_value 65 65, for_each 0 66 65, for_each 1 66 65, for_each 2 66 65,
     seq_size 66 67, seq_size_value 66 66, for_each 0 67 66, for_each 1 67 66, for_each 2 67 66,
     seq_size 67 68, seq_size_value 67 67, for_each 0 68 67, for_each 1 68 67, for_each 2 68 67,
     seq_size 68 69, seq_size_value 68 68, for_each 0 69 68, for_each 1 69 68, for_each 2 69 68,
     seq_size 69 70, seq_size_value 69 69, for_each 0 70 69, for_each 1 70 69, for_each 2 70 69]"

definition iter_70 :: macro_defs where
  "iter_70 =
    [seq_size 70 71, seq_size_value 70 70, for_each 0 71 70, for_each 1 71 70, for_each 2 71 70,
     seq_size 71 72, seq_size_value 71 71, for_each 0 72 71, for_each 1 72 71, for_each 2 72 71,
     seq_size 72 73, seq_size_value 72 72, for_each 0 73 72, for_each 1 73 72, for_each 2 73 72,
     seq_size 73 74, seq_size_value 73 73, for_each 0 74 73, for_each 1 74 73, for_each 2 74 73,
     seq_size 74 75, seq_size_value 74 74, for_each 0 75 74, for_each 1 75 74, for_each 2 75 74,
     seq_size 75 76, seq_size_value 75 75, for_each 0 76 75, for_each 1 76 75, for_each 2 76 75,
     seq_size 76 77, seq_size_value 76 76, for_each 0 77 76, for_each 1 77 76, for_each 2 77 76,
     seq_size 77 78, seq_size_value 77 77, for_each 0 78 77, for_each 1 78 77, for_each 2 78 77,
     seq_size 78 79, seq_size_value 78 78, for_each 0 79 78, for_each 1 79 78, for_each 2 79 78,
     seq_size 79 80, seq_size_value 79 79, for_each 0 80 79, for_each 1 80 79, for_each 2 80 79]"

definition iter_80 :: macro_defs where
  "iter_80 =
    [seq_size 80 81, seq_size_value 80 80, for_each 0 81 80, for_each 1 81 80, for_each 2 81 80,
     seq_size 81 82, seq_size_value 81 81, for_each 0 82 81, for_each 1 82 81, for_each 2 82 81,
     seq_size 82 83, seq_size_value 82 82, for_each 0 83 82, for_each 1 83 82, for_each 2 83 82,
     seq_size 83 84, seq_size_value 83 83, for_each 0 84 83, for_each 1 84 83, for_each 2 84 83,
     seq_size 84 85, seq_size_value 84 84, for_each 0 85 84, for_each 1 85 84, for_each 2 85 84,
     seq_size 85 86, seq_size_value 85 85, for_each 0 86 85, for_each 1 86 85, for_each 2 86 85,
     seq_size 86 87, seq_size_value 86 86, for_each 0 87 86, for_each 1 87 86, for_each 2 87 86,
     seq_size 87 88, seq_size_value 87 87, for_each 0 88 87, for_each 1 88 87, for_each 2 88 87,
     seq_size 88 89, seq_size_value 88 88, for_each 0 89 88, for_each 1 89 88, for_each 2 89 88,
     seq_size 89 90, seq_size_value 89 89, for_each 0 90 89, for_each 1 90 89, for_each 2 90 89]"

definition iter_90 :: macro_defs where
  "iter_90 =
    [seq_size 90 91, seq_size_value 90 90, for_each 0 91 90, for_each 1 91 90, for_each 2 91 90,
     seq_size 91 92, seq_size_value 91 91, for_each 0 92 91, for_each 1 92 91, for_each 2 92 91,
     seq_size 92 93, seq_size_value 92 92, for_each 0 93 92, for_each 1 93 92, for_each 2 93 92,
     seq_size 93 94, seq_size_value 93 93, for_each 0 94 93, for_each 1 94 93, for_each 2 94 93,
     seq_size 94 95, seq_size_value 94 94, for_each 0 95 94, for_each 1 95 94, for_each 2 95 94,
     seq_size 95 96, seq_size_value 95 95, for_each 0 96 95, for_each 1 96 95, for_each 2 96 95,
     seq_size 96 97, seq_size_value 96 96, for_each 0 97 96, for_each 1 97 96, for_each 2 97 96,
     seq_size 97 98, seq_size_value 97 97, for_each 0 98 97, for_each 1 98 97, for_each 2 98 97,
     seq_size 98 99, seq_size_value 98 98, for_each 0 99 98, for_each 1 99 98, for_each 2 99 98,
     seq_size 99 100, seq_size_value 99 99, for_each 0 100 99, for_each 1 100 99, for_each 2 100
      99]"

definition iter_100 :: macro_defs where
  "iter_100 =
    [seq_size 100 101, seq_size_value 100 100, for_each 0 101 100, for_each 1 101 100, for_each
      2 101 100,
     seq_size 101 102, seq_size_value 101 101, for_each 0 102 101, for_each 1 102 101, for_each
      2 102 101,
     seq_size 102 103, seq_size_value 102 102, for_each 0 103 102, for_each 1 103 102, for_each
      2 103 102,
     seq_size 103 104, seq_size_value 103 103, for_each 0 104 103, for_each 1 104 103, for_each
      2 104 103,
     seq_size 104 105, seq_size_value 104 104, for_each 0 105 104, for_each 1 105 104, for_each
      2 105 104,
     seq_size 105 106, seq_size_value 105 105, for_each 0 106 105, for_each 1 106 105, for_each
      2 106 105,
     seq_size 106 107, seq_size_value 106 106, for_each 0 107 106, for_each 1 107 106, for_each
      2 107 106,
     seq_size 107 108, seq_size_value 107 107, for_each 0 108 107, for_each 1 108 107, for_each
      2 108 107,
     seq_size 108 109, seq_size_value 108 108, for_each 0 109 108, for_each 1 109 108, for_each
      2 109 108,
     seq_size 109 110, seq_size_value 109 109, for_each 0 110 109, for_each 1 110 109, for_each
      2 110 109]"

definition iter_110 :: macro_defs where
  "iter_110 =
    [seq_size 110 111, seq_size_value 110 110, for_each 0 111 110, for_each 1 111 110, for_each
      2 111 110,
     seq_size 111 112, seq_size_value 111 111, for_each 0 112 111, for_each 1 112 111, for_each
      2 112 111,
     seq_size 112 113, seq_size_value 112 112, for_each 0 113 112, for_each 1 113 112, for_each
      2 113 112,
     seq_size 113 114, seq_size_value 113 113, for_each 0 114 113, for_each 1 114 113, for_each
      2 114 113,
     seq_size 114 115, seq_size_value 114 114, for_each 0 115 114, for_each 1 115 114, for_each
      2 115 114,
     seq_size 115 116, seq_size_value 115 115, for_each 0 116 115, for_each 1 116 115, for_each
      2 116 115,
     seq_size 116 117, seq_size_value 116 116, for_each 0 117 116, for_each 1 117 116, for_each
      2 117 116,
     seq_size 117 118, seq_size_value 117 117, for_each 0 118 117, for_each 1 118 117, for_each
      2 118 117,
     seq_size 118 119, seq_size_value 118 118, for_each 0 119 118, for_each 1 119 118, for_each
      2 119 118,
     seq_size 119 120, seq_size_value 119 119, for_each 0 120 119, for_each 1 120 119, for_each
      2 120 119]"

definition iter_120 :: macro_defs where
  "iter_120 =
    [seq_size 120 121, seq_size_value 120 120, for_each 0 121 120, for_each 1 121 120, for_each
      2 121 120,
     seq_size 121 122, seq_size_value 121 121, for_each 0 122 121, for_each 1 122 121, for_each
      2 122 121,
     seq_size 122 123, seq_size_value 122 122, for_each 0 123 122, for_each 1 123 122, for_each
      2 123 122,
     seq_size 123 124, seq_size_value 123 123, for_each 0 124 123, for_each 1 124 123, for_each
      2 124 123,
     seq_size 124 125, seq_size_value 124 124, for_each 0 125 124, for_each 1 125 124, for_each
      2 125 124,
     seq_size 125 126, seq_size_value 125 125, for_each 0 126 125, for_each 1 126 125, for_each
      2 126 125,
     seq_size 126 127, seq_size_value 126 126, for_each 0 127 126, for_each 1 127 126, for_each
      2 127 126,
     seq_size 127 128, seq_size_value 127 127, for_each 0 128 127, for_each 1 128 127, for_each
      2 128 127,
     seq_size 128 129, seq_size_value 128 128, for_each 0 129 128, for_each 1 129 128, for_each
      2 129 128,
     seq_size 129 130, seq_size_value 129 129, for_each 0 130 129, for_each 1 130 129, for_each
      2 130 129]"

definition iter_130 :: macro_defs where
  "iter_130 =
    [seq_size 130 131, seq_size_value 130 130, for_each 0 131 130, for_each 1 131 130, for_each
      2 131 130,
     seq_size 131 132, seq_size_value 131 131, for_each 0 132 131, for_each 1 132 131, for_each
      2 132 131,
     seq_size 132 133, seq_size_value 132 132, for_each 0 133 132, for_each 1 133 132, for_each
      2 133 132,
     seq_size 133 134, seq_size_value 133 133, for_each 0 134 133, for_each 1 134 133, for_each
      2 134 133,
     seq_size 134 135, seq_size_value 134 134, for_each 0 135 134, for_each 1 135 134, for_each
      2 135 134,
     seq_size 135 136, seq_size_value 135 135, for_each 0 136 135, for_each 1 136 135, for_each
      2 136 135,
     seq_size 136 137, seq_size_value 136 136, for_each 0 137 136, for_each 1 137 136, for_each
      2 137 136,
     seq_size 137 138, seq_size_value 137 137, for_each 0 138 137, for_each 1 138 137, for_each
      2 138 137,
     seq_size 138 139, seq_size_value 138 138, for_each 0 139 138, for_each 1 139 138, for_each
      2 139 138,
     seq_size 139 140, seq_size_value 139 139, for_each 0 140 139, for_each 1 140 139, for_each
      2 140 139]"

definition iter_140 :: macro_defs where
  "iter_140 =
    [seq_size 140 141, seq_size_value 140 140, for_each 0 141 140, for_each 1 141 140, for_each
      2 141 140,
     seq_size 141 142, seq_size_value 141 141, for_each 0 142 141, for_each 1 142 141, for_each
      2 142 141,
     seq_size 142 143, seq_size_value 142 142, for_each 0 143 142, for_each 1 143 142, for_each
      2 143 142,
     seq_size 143 144, seq_size_value 143 143, for_each 0 144 143, for_each 1 144 143, for_each
      2 144 143,
     seq_size 144 145, seq_size_value 144 144, for_each 0 145 144, for_each 1 145 144, for_each
      2 145 144,
     seq_size 145 146, seq_size_value 145 145, for_each 0 146 145, for_each 1 146 145, for_each
      2 146 145,
     seq_size 146 147, seq_size_value 146 146, for_each 0 147 146, for_each 1 147 146, for_each
      2 147 146,
     seq_size 147 148, seq_size_value 147 147, for_each 0 148 147, for_each 1 148 147, for_each
      2 148 147,
     seq_size 148 149, seq_size_value 148 148, for_each 0 149 148, for_each 1 149 148, for_each
      2 149 148,
     seq_size 149 150, seq_size_value 149 149, for_each 0 150 149, for_each 1 150 149, for_each
      2 150 149]"

definition iter_150 :: macro_defs where
  "iter_150 =
    [seq_size 150 151, seq_size_value 150 150, for_each 0 151 150, for_each 1 151 150, for_each
      2 151 150,
     seq_size 151 152, seq_size_value 151 151, for_each 0 152 151, for_each 1 152 151, for_each
      2 152 151,
     seq_size 152 153, seq_size_value 152 152, for_each 0 153 152, for_each 1 153 152, for_each
      2 153 152,
     seq_size 153 154, seq_size_value 153 153, for_each 0 154 153, for_each 1 154 153, for_each
      2 154 153,
     seq_size 154 155, seq_size_value 154 154, for_each 0 155 154, for_each 1 155 154, for_each
      2 155 154,
     seq_size 155 156, seq_size_value 155 155, for_each 0 156 155, for_each 1 156 155, for_each
      2 156 155,
     seq_size 156 157, seq_size_value 156 156, for_each 0 157 156, for_each 1 157 156, for_each
      2 157 156,
     seq_size 157 158, seq_size_value 157 157, for_each 0 158 157, for_each 1 158 157, for_each
      2 158 157,
     seq_size 158 159, seq_size_value 158 158, for_each 0 159 158, for_each 1 159 158, for_each
      2 159 158,
     seq_size 159 160, seq_size_value 159 159, for_each 0 160 159, for_each 1 160 159, for_each
      2 160 159]"

definition iter_160 :: macro_defs where
  "iter_160 =
    [seq_size 160 161, seq_size_value 160 160, for_each 0 161 160, for_each 1 161 160, for_each
      2 161 160,
     seq_size 161 162, seq_size_value 161 161, for_each 0 162 161, for_each 1 162 161, for_each
      2 162 161,
     seq_size 162 163, seq_size_value 162 162, for_each 0 163 162, for_each 1 163 162, for_each
      2 163 162,
     seq_size 163 164, seq_size_value 163 163, for_each 0 164 163, for_each 1 164 163, for_each
      2 164 163,
     seq_size 164 165, seq_size_value 164 164, for_each 0 165 164, for_each 1 165 164, for_each
      2 165 164,
     seq_size 165 166, seq_size_value 165 165, for_each 0 166 165, for_each 1 166 165, for_each
      2 166 165,
     seq_size 166 167, seq_size_value 166 166, for_each 0 167 166, for_each 1 167 166, for_each
      2 167 166,
     seq_size 167 168, seq_size_value 167 167, for_each 0 168 167, for_each 1 168 167, for_each
      2 168 167,
     seq_size 168 169, seq_size_value 168 168, for_each 0 169 168, for_each 1 169 168, for_each
      2 169 168,
     seq_size 169 170, seq_size_value 169 169, for_each 0 170 169, for_each 1 170 169, for_each
      2 170 169]"

definition iter_170 :: macro_defs where
  "iter_170 =
    [seq_size 170 171, seq_size_value 170 170, for_each 0 171 170, for_each 1 171 170, for_each
      2 171 170,
     seq_size 171 172, seq_size_value 171 171, for_each 0 172 171, for_each 1 172 171, for_each
      2 172 171,
     seq_size 172 173, seq_size_value 172 172, for_each 0 173 172, for_each 1 173 172, for_each
      2 173 172,
     seq_size 173 174, seq_size_value 173 173, for_each 0 174 173, for_each 1 174 173, for_each
      2 174 173,
     seq_size 174 175, seq_size_value 174 174, for_each 0 175 174, for_each 1 175 174, for_each
      2 175 174,
     seq_size 175 176, seq_size_value 175 175, for_each 0 176 175, for_each 1 176 175, for_each
      2 176 175,
     seq_size 176 177, seq_size_value 176 176, for_each 0 177 176, for_each 1 177 176, for_each
      2 177 176,
     seq_size 177 178, seq_size_value 177 177, for_each 0 178 177, for_each 1 178 177, for_each
      2 178 177,
     seq_size 178 179, seq_size_value 178 178, for_each 0 179 178, for_each 1 179 178, for_each
      2 179 178,
     seq_size 179 180, seq_size_value 179 179, for_each 0 180 179, for_each 1 180 179, for_each
      2 180 179]"

definition iter_180 :: macro_defs where
  "iter_180 =
    [seq_size 180 181, seq_size_value 180 180, for_each 0 181 180, for_each 1 181 180, for_each
      2 181 180,
     seq_size 181 182, seq_size_value 181 181, for_each 0 182 181, for_each 1 182 181, for_each
      2 182 181,
     seq_size 182 183, seq_size_value 182 182, for_each 0 183 182, for_each 1 183 182, for_each
      2 183 182,
     seq_size 183 184, seq_size_value 183 183, for_each 0 184 183, for_each 1 184 183, for_each
      2 184 183,
     seq_size 184 185, seq_size_value 184 184, for_each 0 185 184, for_each 1 185 184, for_each
      2 185 184,
     seq_size 185 186, seq_size_value 185 185, for_each 0 186 185, for_each 1 186 185, for_each
      2 186 185,
     seq_size 186 187, seq_size_value 186 186, for_each 0 187 186, for_each 1 187 186, for_each
      2 187 186,
     seq_size 187 188, seq_size_value 187 187, for_each 0 188 187, for_each 1 188 187, for_each
      2 188 187,
     seq_size 188 189, seq_size_value 188 188, for_each 0 189 188, for_each 1 189 188, for_each
      2 189 188,
     seq_size 189 190, seq_size_value 189 189, for_each 0 190 189, for_each 1 190 189, for_each
      2 190 189]"

definition iter_190 :: macro_defs where
  "iter_190 =
    [seq_size 190 191, seq_size_value 190 190, for_each 0 191 190, for_each 1 191 190, for_each
      2 191 190,
     seq_size 191 192, seq_size_value 191 191, for_each 0 192 191, for_each 1 192 191, for_each
      2 192 191,
     seq_size 192 193, seq_size_value 192 192, for_each 0 193 192, for_each 1 193 192, for_each
      2 193 192,
     seq_size 193 194, seq_size_value 193 193, for_each 0 194 193, for_each 1 194 193, for_each
      2 194 193,
     seq_size 194 195, seq_size_value 194 194, for_each 0 195 194, for_each 1 195 194, for_each
      2 195 194,
     seq_size 195 196, seq_size_value 195 195, for_each 0 196 195, for_each 1 196 195, for_each
      2 196 195,
     seq_size 196 197, seq_size_value 196 196, for_each 0 197 196, for_each 1 197 196, for_each
      2 197 196,
     seq_size 197 198, seq_size_value 197 197, for_each 0 198 197, for_each 1 198 197, for_each
      2 198 197,
     seq_size 198 199, seq_size_value 198 198, for_each 0 199 198, for_each 1 199 198, for_each
      2 199 198,
     seq_size 199 200, seq_size_value 199 199, for_each 0 200 199, for_each 1 200 199, for_each
      2 200 199]"

definition iter_200 :: macro_defs where
  "iter_200 =
    [seq_size 200 201, seq_size_value 200 200, for_each 0 201 200, for_each 1 201 200, for_each
      2 201 200,
     seq_size 201 202, seq_size_value 201 201, for_each 0 202 201, for_each 1 202 201, for_each
      2 202 201,
     seq_size 202 203, seq_size_value 202 202, for_each 0 203 202, for_each 1 203 202, for_each
      2 203 202,
     seq_size 203 204, seq_size_value 203 203, for_each 0 204 203, for_each 1 204 203, for_each
      2 204 203,
     seq_size 204 205, seq_size_value 204 204, for_each 0 205 204, for_each 1 205 204, for_each
      2 205 204,
     seq_size 205 206, seq_size_value 205 205, for_each 0 206 205, for_each 1 206 205, for_each
      2 206 205,
     seq_size 206 207, seq_size_value 206 206, for_each 0 207 206, for_each 1 207 206, for_each
      2 207 206,
     seq_size 207 208, seq_size_value 207 207, for_each 0 208 207, for_each 1 208 207, for_each
      2 208 207,
     seq_size 208 209, seq_size_value 208 208, for_each 0 209 208, for_each 1 209 208, for_each
      2 209 208,
     seq_size 209 210, seq_size_value 209 209, for_each 0 210 209, for_each 1 210 209, for_each
      2 210 209]"

definition iter_210 :: macro_defs where
  "iter_210 =
    [seq_size 210 211, seq_size_value 210 210, for_each 0 211 210, for_each 1 211 210, for_each
      2 211 210,
     seq_size 211 212, seq_size_value 211 211, for_each 0 212 211, for_each 1 212 211, for_each
      2 212 211,
     seq_size 212 213, seq_size_value 212 212, for_each 0 213 212, for_each 1 213 212, for_each
      2 213 212,
     seq_size 213 214, seq_size_value 213 213, for_each 0 214 213, for_each 1 214 213, for_each
      2 214 213,
     seq_size 214 215, seq_size_value 214 214, for_each 0 215 214, for_each 1 215 214, for_each
      2 215 214,
     seq_size 215 216, seq_size_value 215 215, for_each 0 216 215, for_each 1 216 215, for_each
      2 216 215,
     seq_size 216 217, seq_size_value 216 216, for_each 0 217 216, for_each 1 217 216, for_each
      2 217 216,
     seq_size 217 218, seq_size_value 217 217, for_each 0 218 217, for_each 1 218 217, for_each
      2 218 217,
     seq_size 218 219, seq_size_value 218 218, for_each 0 219 218, for_each 1 219 218, for_each
      2 219 218,
     seq_size 219 220, seq_size_value 219 219, for_each 0 220 219, for_each 1 220 219, for_each
      2 220 219]"

definition iter_220 :: macro_defs where
  "iter_220 =
    [seq_size 220 221, seq_size_value 220 220, for_each 0 221 220, for_each 1 221 220, for_each
      2 221 220,
     seq_size 221 222, seq_size_value 221 221, for_each 0 222 221, for_each 1 222 221, for_each
      2 222 221,
     seq_size 222 223, seq_size_value 222 222, for_each 0 223 222, for_each 1 223 222, for_each
      2 223 222,
     seq_size 223 224, seq_size_value 223 223, for_each 0 224 223, for_each 1 224 223, for_each
      2 224 223,
     seq_size 224 225, seq_size_value 224 224, for_each 0 225 224, for_each 1 225 224, for_each
      2 225 224,
     seq_size 225 226, seq_size_value 225 225, for_each 0 226 225, for_each 1 226 225, for_each
      2 226 225,
     seq_size 226 227, seq_size_value 226 226, for_each 0 227 226, for_each 1 227 226, for_each
      2 227 226,
     seq_size 227 228, seq_size_value 227 227, for_each 0 228 227, for_each 1 228 227, for_each
      2 228 227,
     seq_size 228 229, seq_size_value 228 228, for_each 0 229 228, for_each 1 229 228, for_each
      2 229 228,
     seq_size 229 230, seq_size_value 229 229, for_each 0 230 229, for_each 1 230 229, for_each
      2 230 229]"

definition iter_230 :: macro_defs where
  "iter_230 =
    [seq_size 230 231, seq_size_value 230 230, for_each 0 231 230, for_each 1 231 230, for_each
      2 231 230,
     seq_size 231 232, seq_size_value 231 231, for_each 0 232 231, for_each 1 232 231, for_each
      2 232 231,
     seq_size 232 233, seq_size_value 232 232, for_each 0 233 232, for_each 1 233 232, for_each
      2 233 232,
     seq_size 233 234, seq_size_value 233 233, for_each 0 234 233, for_each 1 234 233, for_each
      2 234 233,
     seq_size 234 235, seq_size_value 234 234, for_each 0 235 234, for_each 1 235 234, for_each
      2 235 234,
     seq_size 235 236, seq_size_value 235 235, for_each 0 236 235, for_each 1 236 235, for_each
      2 236 235,
     seq_size 236 237, seq_size_value 236 236, for_each 0 237 236, for_each 1 237 236, for_each
      2 237 236,
     seq_size 237 238, seq_size_value 237 237, for_each 0 238 237, for_each 1 238 237, for_each
      2 238 237,
     seq_size 238 239, seq_size_value 238 238, for_each 0 239 238, for_each 1 239 238, for_each
      2 239 238,
     seq_size 239 240, seq_size_value 239 239, for_each 0 240 239, for_each 1 240 239, for_each
      2 240 239]"

definition iter_240 :: macro_defs where
  "iter_240 =
    [seq_size 240 241, seq_size_value 240 240, for_each 0 241 240, for_each 1 241 240, for_each
      2 241 240,
     seq_size 241 242, seq_size_value 241 241, for_each 0 242 241, for_each 1 242 241, for_each
      2 242 241,
     seq_size 242 243, seq_size_value 242 242, for_each 0 243 242, for_each 1 243 242, for_each
      2 243 242,
     seq_size 243 244, seq_size_value 243 243, for_each 0 244 243, for_each 1 244 243, for_each
      2 244 243,
     seq_size 244 245, seq_size_value 244 244, for_each 0 245 244, for_each 1 245 244, for_each
      2 245 244,
     seq_size 245 246, seq_size_value 245 245, for_each 0 246 245, for_each 1 246 245, for_each
      2 246 245,
     seq_size 246 247, seq_size_value 246 246, for_each 0 247 246, for_each 1 247 246, for_each
      2 247 246,
     seq_size 247 248, seq_size_value 247 247, for_each 0 248 247, for_each 1 248 247, for_each
      2 248 247,
     seq_size 248 249, seq_size_value 248 248, for_each 0 249 248, for_each 1 249 248, for_each
      2 249 248,
     seq_size 249 250, seq_size_value 249 249, for_each 0 250 249, for_each 1 250 249, for_each
      2 250 249]"

definition iter_250 :: macro_defs where
  "iter_250 =
    [seq_size 250 251, seq_size_value 250 250, for_each 0 251 250, for_each 1 251 250, for_each
      2 251 250,
     seq_size 251 252, seq_size_value 251 251, for_each 0 252 251, for_each 1 252 251, for_each
      2 252 251,
     seq_size 252 253, seq_size_value 252 252, for_each 0 253 252, for_each 1 253 252, for_each
      2 253 252,
     seq_size 253 254, seq_size_value 253 253, for_each 0 254 253, for_each 1 254 253, for_each
      2 254 253,
     seq_size 254 255, seq_size_value 254 254, for_each 0 255 254, for_each 1 255 254, for_each
      2 255 254,
     seq_size 255 256, seq_size_value 255 255, for_each 0 256 255, for_each 1 256 255, for_each
      2 256 255,
     seq_size 256 257, seq_size_value 256 256, for_each 0 257 256, for_each 1 257 256, for_each
      2 257 256,
     seq_size 257 258, seq_size_value 257 257, for_each 0 258 257, for_each 1 258 257, for_each
      2 258 257,
     seq_size 258 259, seq_size_value 258 258, for_each 0 259 258, for_each 1 259 258, for_each
      2 259 258,
     seq_size 259 260, seq_size_value 259 259, for_each 0 260 259, for_each 1 260 259, for_each
      2 260 259]"

definition iter_260 :: macro_defs where
  "iter_260 =
    [seq_size 260 261, seq_size_value 260 260, for_each 0 261 260, for_each 1 261 260, for_each
      2 261 260,
     seq_size 261 262, seq_size_value 261 261, for_each 0 262 261, for_each 1 262 261, for_each
      2 262 261,
     seq_size 262 263, seq_size_value 262 262, for_each 0 263 262, for_each 1 263 262, for_each
      2 263 262,
     seq_size 263 264, seq_size_value 263 263, for_each 0 264 263, for_each 1 264 263, for_each
      2 264 263,
     seq_size 264 265, seq_size_value 264 264, for_each 0 265 264, for_each 1 265 264, for_each
      2 265 264,
     seq_size 265 266, seq_size_value 265 265, for_each 0 266 265, for_each 1 266 265, for_each
      2 266 265,
     seq_size 266 267, seq_size_value 266 266, for_each 0 267 266, for_each 1 267 266, for_each
      2 267 266,
     seq_size 267 268, seq_size_value 267 267, for_each 0 268 267, for_each 1 268 267, for_each
      2 268 267,
     seq_size 268 269, seq_size_value 268 268, for_each 0 269 268, for_each 1 269 268, for_each
      2 269 268,
     seq_size 269 270, seq_size_value 269 269, for_each 0 270 269, for_each 1 270 269, for_each
      2 270 269]"

definition iter_270 :: macro_defs where
  "iter_270 =
    [seq_size 270 271, seq_size_value 270 270, for_each 0 271 270, for_each 1 271 270, for_each
      2 271 270,
     seq_size 271 272, seq_size_value 271 271, for_each 0 272 271, for_each 1 272 271, for_each
      2 272 271,
     seq_size 272 273, seq_size_value 272 272, for_each 0 273 272, for_each 1 273 272, for_each
      2 273 272,
     seq_size 273 274, seq_size_value 273 273, for_each 0 274 273, for_each 1 274 273, for_each
      2 274 273,
     seq_size 274 275, seq_size_value 274 274, for_each 0 275 274, for_each 1 275 274, for_each
      2 275 274,
     seq_size 275 276, seq_size_value 275 275, for_each 0 276 275, for_each 1 276 275, for_each
      2 276 275,
     seq_size 276 277, seq_size_value 276 276, for_each 0 277 276, for_each 1 277 276, for_each
      2 277 276,
     seq_size 277 278, seq_size_value 277 277, for_each 0 278 277, for_each 1 278 277, for_each
      2 278 277,
     seq_size 278 279, seq_size_value 278 278, for_each 0 279 278, for_each 1 279 278, for_each
      2 279 278,
     seq_size 279 280, seq_size_value 279 279, for_each 0 280 279, for_each 1 280 279, for_each
      2 280 279]"

definition iter_280 :: macro_defs where
  "iter_280 =
    [seq_size 280 281, seq_size_value 280 280, for_each 0 281 280, for_each 1 281 280, for_each
      2 281 280,
     seq_size 281 282, seq_size_value 281 281, for_each 0 282 281, for_each 1 282 281, for_each
      2 282 281,
     seq_size 282 283, seq_size_value 282 282, for_each 0 283 282, for_each 1 283 282, for_each
      2 283 282,
     seq_size 283 284, seq_size_value 283 283, for_each 0 284 283, for_each 1 284 283, for_each
      2 284 283,
     seq_size 284 285, seq_size_value 284 284, for_each 0 285 284, for_each 1 285 284, for_each
      2 285 284,
     seq_size 285 286, seq_size_value 285 285, for_each 0 286 285, for_each 1 286 285, for_each
      2 286 285,
     seq_size 286 287, seq_size_value 286 286, for_each 0 287 286, for_each 1 287 286, for_each
      2 287 286,
     seq_size 287 288, seq_size_value 287 287, for_each 0 288 287, for_each 1 288 287, for_each
      2 288 287,
     seq_size 288 289, seq_size_value 288 288, for_each 0 289 288, for_each 1 289 288, for_each
      2 289 288,
     seq_size 289 290, seq_size_value 289 289, for_each 0 290 289, for_each 1 290 289, for_each
      2 290 289]"

definition iter_290 :: macro_defs where
  "iter_290 =
    [seq_size 290 291, seq_size_value 290 290, for_each 0 291 290, for_each 1 291 290, for_each
      2 291 290,
     seq_size 291 292, seq_size_value 291 291, for_each 0 292 291, for_each 1 292 291, for_each
      2 292 291,
     seq_size 292 293, seq_size_value 292 292, for_each 0 293 292, for_each 1 293 292, for_each
      2 293 292,
     seq_size 293 294, seq_size_value 293 293, for_each 0 294 293, for_each 1 294 293, for_each
      2 294 293,
     seq_size 294 295, seq_size_value 294 294, for_each 0 295 294, for_each 1 295 294, for_each
      2 295 294,
     seq_size 295 296, seq_size_value 295 295, for_each 0 296 295, for_each 1 296 295, for_each
      2 296 295,
     seq_size 296 297, seq_size_value 296 296, for_each 0 297 296, for_each 1 297 296, for_each
      2 297 296,
     seq_size 297 298, seq_size_value 297 297, for_each 0 298 297, for_each 1 298 297, for_each
      2 298 297,
     seq_size 298 299, seq_size_value 298 298, for_each 0 299 298, for_each 1 299 298, for_each
      2 299 298,
     seq_size 299 300, seq_size_value 299 299, for_each 0 300 299, for_each 1 300 299, for_each
      2 300 299]"

definition iter_300 :: macro_defs where
  "iter_300 =
    [seq_size 300 301, seq_size_value 300 300, for_each 0 301 300, for_each 1 301 300, for_each
      2 301 300,
     seq_size 301 302, seq_size_value 301 301, for_each 0 302 301, for_each 1 302 301, for_each
      2 302 301,
     seq_size 302 303, seq_size_value 302 302, for_each 0 303 302, for_each 1 303 302, for_each
      2 303 302,
     seq_size 303 304, seq_size_value 303 303, for_each 0 304 303, for_each 1 304 303, for_each
      2 304 303,
     seq_size 304 305, seq_size_value 304 304, for_each 0 305 304, for_each 1 305 304, for_each
      2 305 304,
     seq_size 305 306, seq_size_value 305 305, for_each 0 306 305, for_each 1 306 305, for_each
      2 306 305,
     seq_size 306 307, seq_size_value 306 306, for_each 0 307 306, for_each 1 307 306, for_each
      2 307 306,
     seq_size 307 308, seq_size_value 307 307, for_each 0 308 307, for_each 1 308 307, for_each
      2 308 307,
     seq_size 308 309, seq_size_value 308 308, for_each 0 309 308, for_each 1 309 308, for_each
      2 309 308,
     seq_size 309 310, seq_size_value 309 309, for_each 0 310 309, for_each 1 310 309, for_each
      2 310 309]"

definition iter_310 :: macro_defs where
  "iter_310 =
    [seq_size 310 311, seq_size_value 310 310, for_each 0 311 310, for_each 1 311 310, for_each
      2 311 310,
     seq_size 311 312, seq_size_value 311 311, for_each 0 312 311, for_each 1 312 311, for_each
      2 312 311,
     seq_size 312 313, seq_size_value 312 312, for_each 0 313 312, for_each 1 313 312, for_each
      2 313 312,
     seq_size 313 314, seq_size_value 313 313, for_each 0 314 313, for_each 1 314 313, for_each
      2 314 313,
     seq_size 314 315, seq_size_value 314 314, for_each 0 315 314, for_each 1 315 314, for_each
      2 315 314,
     seq_size 315 316, seq_size_value 315 315, for_each 0 316 315, for_each 1 316 315, for_each
      2 316 315,
     seq_size 316 317, seq_size_value 316 316, for_each 0 317 316, for_each 1 317 316, for_each
      2 317 316,
     seq_size 317 318, seq_size_value 317 317, for_each 0 318 317, for_each 1 318 317, for_each
      2 318 317,
     seq_size 318 319, seq_size_value 318 318, for_each 0 319 318, for_each 1 319 318, for_each
      2 319 318,
     seq_size 319 320, seq_size_value 319 319, for_each 0 320 319, for_each 1 320 319, for_each
      2 320 319]"

definition iter_320 :: macro_defs where
  "iter_320 =
    [seq_size 320 321, seq_size_value 320 320, for_each 0 321 320, for_each 1 321 320, for_each
      2 321 320,
     seq_size 321 322, seq_size_value 321 321, for_each 0 322 321, for_each 1 322 321, for_each
      2 322 321,
     seq_size 322 323, seq_size_value 322 322, for_each 0 323 322, for_each 1 323 322, for_each
      2 323 322,
     seq_size 323 324, seq_size_value 323 323, for_each 0 324 323, for_each 1 324 323, for_each
      2 324 323,
     seq_size 324 325, seq_size_value 324 324, for_each 0 325 324, for_each 1 325 324, for_each
      2 325 324,
     seq_size 325 326, seq_size_value 325 325, for_each 0 326 325, for_each 1 326 325, for_each
      2 326 325,
     seq_size 326 327, seq_size_value 326 326, for_each 0 327 326, for_each 1 327 326, for_each
      2 327 326,
     seq_size 327 328, seq_size_value 327 327, for_each 0 328 327, for_each 1 328 327, for_each
      2 328 327,
     seq_size 328 329, seq_size_value 328 328, for_each 0 329 328, for_each 1 329 328, for_each
      2 329 328,
     seq_size 329 330, seq_size_value 329 329, for_each 0 330 329, for_each 1 330 329, for_each
      2 330 329]"

definition iter_330 :: macro_defs where
  "iter_330 =
    [seq_size 330 331, seq_size_value 330 330, for_each 0 331 330, for_each 1 331 330, for_each
      2 331 330,
     seq_size 331 332, seq_size_value 331 331, for_each 0 332 331, for_each 1 332 331, for_each
      2 332 331,
     seq_size 332 333, seq_size_value 332 332, for_each 0 333 332, for_each 1 333 332, for_each
      2 333 332,
     seq_size 333 334, seq_size_value 333 333, for_each 0 334 333, for_each 1 334 333, for_each
      2 334 333,
     seq_size 334 335, seq_size_value 334 334, for_each 0 335 334, for_each 1 335 334, for_each
      2 335 334,
     seq_size 335 336, seq_size_value 335 335, for_each 0 336 335, for_each 1 336 335, for_each
      2 336 335,
     seq_size 336 337, seq_size_value 336 336, for_each 0 337 336, for_each 1 337 336, for_each
      2 337 336,
     seq_size 337 338, seq_size_value 337 337, for_each 0 338 337, for_each 1 338 337, for_each
      2 338 337,
     seq_size 338 339, seq_size_value 338 338, for_each 0 339 338, for_each 1 339 338, for_each
      2 339 338,
     seq_size 339 340, seq_size_value 339 339, for_each 0 340 339, for_each 1 340 339, for_each
      2 340 339]"

definition iter_340 :: macro_defs where
  "iter_340 =
    [seq_size 340 341, seq_size_value 340 340, for_each 0 341 340, for_each 1 341 340, for_each
      2 341 340,
     seq_size 341 342, seq_size_value 341 341, for_each 0 342 341, for_each 1 342 341, for_each
      2 342 341,
     seq_size 342 343, seq_size_value 342 342, for_each 0 343 342, for_each 1 343 342, for_each
      2 343 342,
     seq_size 343 344, seq_size_value 343 343, for_each 0 344 343, for_each 1 344 343, for_each
      2 344 343,
     seq_size 344 345, seq_size_value 344 344, for_each 0 345 344, for_each 1 345 344, for_each
      2 345 344,
     seq_size 345 346, seq_size_value 345 345, for_each 0 346 345, for_each 1 346 345, for_each
      2 346 345,
     seq_size 346 347, seq_size_value 346 346, for_each 0 347 346, for_each 1 347 346, for_each
      2 347 346,
     seq_size 347 348, seq_size_value 347 347, for_each 0 348 347, for_each 1 348 347, for_each
      2 348 347,
     seq_size 348 349, seq_size_value 348 348, for_each 0 349 348, for_each 1 349 348, for_each
      2 349 348,
     seq_size 349 350, seq_size_value 349 349, for_each 0 350 349, for_each 1 350 349, for_each
      2 350 349]"

definition iter_350 :: macro_defs where
  "iter_350 =
    [seq_size 350 351, seq_size_value 350 350, for_each 0 351 350, for_each 1 351 350, for_each
      2 351 350,
     seq_size 351 352, seq_size_value 351 351, for_each 0 352 351, for_each 1 352 351, for_each
      2 352 351,
     seq_size 352 353, seq_size_value 352 352, for_each 0 353 352, for_each 1 353 352, for_each
      2 353 352,
     seq_size 353 354, seq_size_value 353 353, for_each 0 354 353, for_each 1 354 353, for_each
      2 354 353,
     seq_size 354 355, seq_size_value 354 354, for_each 0 355 354, for_each 1 355 354, for_each
      2 355 354,
     seq_size 355 356, seq_size_value 355 355, for_each 0 356 355, for_each 1 356 355, for_each
      2 356 355,
     seq_size 356 357, seq_size_value 356 356, for_each 0 357 356, for_each 1 357 356, for_each
      2 357 356,
     seq_size 357 358, seq_size_value 357 357, for_each 0 358 357, for_each 1 358 357, for_each
      2 358 357,
     seq_size 358 359, seq_size_value 358 358, for_each 0 359 358, for_each 1 359 358, for_each
      2 359 358,
     seq_size 359 360, seq_size_value 359 359, for_each 0 360 359, for_each 1 360 359, for_each
      2 360 359]"

definition iter_360 :: macro_defs where
  "iter_360 =
    [seq_size 360 361, seq_size_value 360 360, for_each 0 361 360, for_each 1 361 360, for_each
      2 361 360,
     seq_size 361 362, seq_size_value 361 361, for_each 0 362 361, for_each 1 362 361, for_each
      2 362 361,
     seq_size 362 363, seq_size_value 362 362, for_each 0 363 362, for_each 1 363 362, for_each
      2 363 362,
     seq_size 363 364, seq_size_value 363 363, for_each 0 364 363, for_each 1 364 363, for_each
      2 364 363,
     seq_size 364 365, seq_size_value 364 364, for_each 0 365 364, for_each 1 365 364, for_each
      2 365 364,
     seq_size 365 366, seq_size_value 365 365, for_each 0 366 365, for_each 1 366 365, for_each
      2 366 365,
     seq_size 366 367, seq_size_value 366 366, for_each 0 367 366, for_each 1 367 366, for_each
      2 367 366,
     seq_size 367 368, seq_size_value 367 367, for_each 0 368 367, for_each 1 368 367, for_each
      2 368 367,
     seq_size 368 369, seq_size_value 368 368, for_each 0 369 368, for_each 1 369 368, for_each
      2 369 368,
     seq_size 369 370, seq_size_value 369 369, for_each 0 370 369, for_each 1 370 369, for_each
      2 370 369]"

definition iter_370 :: macro_defs where
  "iter_370 =
    [seq_size 370 371, seq_size_value 370 370, for_each 0 371 370, for_each 1 371 370, for_each
      2 371 370,
     seq_size 371 372, seq_size_value 371 371, for_each 0 372 371, for_each 1 372 371, for_each
      2 372 371,
     seq_size 372 373, seq_size_value 372 372, for_each 0 373 372, for_each 1 373 372, for_each
      2 373 372,
     seq_size 373 374, seq_size_value 373 373, for_each 0 374 373, for_each 1 374 373, for_each
      2 374 373,
     seq_size 374 375, seq_size_value 374 374, for_each 0 375 374, for_each 1 375 374, for_each
      2 375 374,
     seq_size 375 376, seq_size_value 375 375, for_each 0 376 375, for_each 1 376 375, for_each
      2 376 375,
     seq_size 376 377, seq_size_value 376 376, for_each 0 377 376, for_each 1 377 376, for_each
      2 377 376,
     seq_size 377 378, seq_size_value 377 377, for_each 0 378 377, for_each 1 378 377, for_each
      2 378 377,
     seq_size 378 379, seq_size_value 378 378, for_each 0 379 378, for_each 1 379 378, for_each
      2 379 378,
     seq_size 379 380, seq_size_value 379 379, for_each 0 380 379, for_each 1 380 379, for_each
      2 380 379]"

definition iter_380 :: macro_defs where
  "iter_380 =
    [seq_size 380 381, seq_size_value 380 380, for_each 0 381 380, for_each 1 381 380, for_each
      2 381 380,
     seq_size 381 382, seq_size_value 381 381, for_each 0 382 381, for_each 1 382 381, for_each
      2 382 381,
     seq_size 382 383, seq_size_value 382 382, for_each 0 383 382, for_each 1 383 382, for_each
      2 383 382,
     seq_size 383 384, seq_size_value 383 383, for_each 0 384 383, for_each 1 384 383, for_each
      2 384 383,
     seq_size 384 385, seq_size_value 384 384, for_each 0 385 384, for_each 1 385 384, for_each
      2 385 384,
     seq_size 385 386, seq_size_value 385 385, for_each 0 386 385, for_each 1 386 385, for_each
      2 386 385,
     seq_size 386 387, seq_size_value 386 386, for_each 0 387 386, for_each 1 387 386, for_each
      2 387 386,
     seq_size 387 388, seq_size_value 387 387, for_each 0 388 387, for_each 1 388 387, for_each
      2 388 387,
     seq_size 388 389, seq_size_value 388 388, for_each 0 389 388, for_each 1 389 388, for_each
      2 389 388,
     seq_size 389 390, seq_size_value 389 389, for_each 0 390 389, for_each 1 390 389, for_each
      2 390 389]"

definition iter_390 :: macro_defs where
  "iter_390 =
    [seq_size 390 391, seq_size_value 390 390, for_each 0 391 390, for_each 1 391 390, for_each
      2 391 390,
     seq_size 391 392, seq_size_value 391 391, for_each 0 392 391, for_each 1 392 391, for_each
      2 392 391,
     seq_size 392 393, seq_size_value 392 392, for_each 0 393 392, for_each 1 393 392, for_each
      2 393 392,
     seq_size 393 394, seq_size_value 393 393, for_each 0 394 393, for_each 1 394 393, for_each
      2 394 393,
     seq_size 394 395, seq_size_value 394 394, for_each 0 395 394, for_each 1 395 394, for_each
      2 395 394,
     seq_size 395 396, seq_size_value 395 395, for_each 0 396 395, for_each 1 396 395, for_each
      2 396 395,
     seq_size 396 397, seq_size_value 396 396, for_each 0 397 396, for_each 1 397 396, for_each
      2 397 396,
     seq_size 397 398, seq_size_value 397 397, for_each 0 398 397, for_each 1 398 397, for_each
      2 398 397,
     seq_size 398 399, seq_size_value 398 398, for_each 0 399 398, for_each 1 399 398, for_each
      2 399 398,
     seq_size 399 400, seq_size_value 399 399, for_each 0 400 399, for_each 1 400 399, for_each
      2 400 399]"

definition iter_400 :: macro_defs where
  "iter_400 =
    [seq_size 400 401, seq_size_value 400 400, for_each 0 401 400, for_each 1 401 400, for_each
      2 401 400,
     seq_size 401 402, seq_size_value 401 401, for_each 0 402 401, for_each 1 402 401, for_each
      2 402 401,
     seq_size 402 403, seq_size_value 402 402, for_each 0 403 402, for_each 1 403 402, for_each
      2 403 402,
     seq_size 403 404, seq_size_value 403 403, for_each 0 404 403, for_each 1 404 403, for_each
      2 404 403,
     seq_size 404 405, seq_size_value 404 404, for_each 0 405 404, for_each 1 405 404, for_each
      2 405 404,
     seq_size 405 406, seq_size_value 405 405, for_each 0 406 405, for_each 1 406 405, for_each
      2 406 405,
     seq_size 406 407, seq_size_value 406 406, for_each 0 407 406, for_each 1 407 406, for_each
      2 407 406,
     seq_size 407 408, seq_size_value 407 407, for_each 0 408 407, for_each 1 408 407, for_each
      2 408 407,
     seq_size 408 409, seq_size_value 408 408, for_each 0 409 408, for_each 1 409 408, for_each
      2 409 408,
     seq_size 409 410, seq_size_value 409 409, for_each 0 410 409, for_each 1 410 409, for_each
      2 410 409]"

definition iter_410 :: macro_defs where
  "iter_410 =
    [seq_size 410 411, seq_size_value 410 410, for_each 0 411 410, for_each 1 411 410, for_each
      2 411 410,
     seq_size 411 412, seq_size_value 411 411, for_each 0 412 411, for_each 1 412 411, for_each
      2 412 411,
     seq_size 412 413, seq_size_value 412 412, for_each 0 413 412, for_each 1 413 412, for_each
      2 413 412,
     seq_size 413 414, seq_size_value 413 413, for_each 0 414 413, for_each 1 414 413, for_each
      2 414 413,
     seq_size 414 415, seq_size_value 414 414, for_each 0 415 414, for_each 1 415 414, for_each
      2 415 414,
     seq_size 415 416, seq_size_value 415 415, for_each 0 416 415, for_each 1 416 415, for_each
      2 416 415,
     seq_size 416 417, seq_size_value 416 416, for_each 0 417 416, for_each 1 417 416, for_each
      2 417 416,
     seq_size 417 418, seq_size_value 417 417, for_each 0 418 417, for_each 1 418 417, for_each
      2 418 417,
     seq_size 418 419, seq_size_value 418 418, for_each 0 419 418, for_each 1 419 418, for_each
      2 419 418,
     seq_size 419 420, seq_size_value 419 419, for_each 0 420 419, for_each 1 420 419, for_each
      2 420 419]"

definition iter_420 :: macro_defs where
  "iter_420 =
    [seq_size 420 421, seq_size_value 420 420, for_each 0 421 420, for_each 1 421 420, for_each
      2 421 420,
     seq_size 421 422, seq_size_value 421 421, for_each 0 422 421, for_each 1 422 421, for_each
      2 422 421,
     seq_size 422 423, seq_size_value 422 422, for_each 0 423 422, for_each 1 423 422, for_each
      2 423 422,
     seq_size 423 424, seq_size_value 423 423, for_each 0 424 423, for_each 1 424 423, for_each
      2 424 423,
     seq_size 424 425, seq_size_value 424 424, for_each 0 425 424, for_each 1 425 424, for_each
      2 425 424,
     seq_size 425 426, seq_size_value 425 425, for_each 0 426 425, for_each 1 426 425, for_each
      2 426 425,
     seq_size 426 427, seq_size_value 426 426, for_each 0 427 426, for_each 1 427 426, for_each
      2 427 426,
     seq_size 427 428, seq_size_value 427 427, for_each 0 428 427, for_each 1 428 427, for_each
      2 428 427,
     seq_size 428 429, seq_size_value 428 428, for_each 0 429 428, for_each 1 429 428, for_each
      2 429 428,
     seq_size 429 430, seq_size_value 429 429, for_each 0 430 429, for_each 1 430 429, for_each
      2 430 429]"

definition iter_430 :: macro_defs where
  "iter_430 =
    [seq_size 430 431, seq_size_value 430 430, for_each 0 431 430, for_each 1 431 430, for_each
      2 431 430,
     seq_size 431 432, seq_size_value 431 431, for_each 0 432 431, for_each 1 432 431, for_each
      2 432 431,
     seq_size 432 433, seq_size_value 432 432, for_each 0 433 432, for_each 1 433 432, for_each
      2 433 432,
     seq_size 433 434, seq_size_value 433 433, for_each 0 434 433, for_each 1 434 433, for_each
      2 434 433,
     seq_size 434 435, seq_size_value 434 434, for_each 0 435 434, for_each 1 435 434, for_each
      2 435 434,
     seq_size 435 436, seq_size_value 435 435, for_each 0 436 435, for_each 1 436 435, for_each
      2 436 435,
     seq_size 436 437, seq_size_value 436 436, for_each 0 437 436, for_each 1 437 436, for_each
      2 437 436,
     seq_size 437 438, seq_size_value 437 437, for_each 0 438 437, for_each 1 438 437, for_each
      2 438 437,
     seq_size 438 439, seq_size_value 438 438, for_each 0 439 438, for_each 1 439 438, for_each
      2 439 438,
     seq_size 439 440, seq_size_value 439 439, for_each 0 440 439, for_each 1 440 439, for_each
      2 440 439]"

definition iter_440 :: macro_defs where
  "iter_440 =
    [seq_size 440 441, seq_size_value 440 440, for_each 0 441 440, for_each 1 441 440, for_each
      2 441 440,
     seq_size 441 442, seq_size_value 441 441, for_each 0 442 441, for_each 1 442 441, for_each
      2 442 441,
     seq_size 442 443, seq_size_value 442 442, for_each 0 443 442, for_each 1 443 442, for_each
      2 443 442,
     seq_size 443 444, seq_size_value 443 443, for_each 0 444 443, for_each 1 444 443, for_each
      2 444 443,
     seq_size 444 445, seq_size_value 444 444, for_each 0 445 444, for_each 1 445 444, for_each
      2 445 444,
     seq_size 445 446, seq_size_value 445 445, for_each 0 446 445, for_each 1 446 445, for_each
      2 446 445,
     seq_size 446 447, seq_size_value 446 446, for_each 0 447 446, for_each 1 447 446, for_each
      2 447 446,
     seq_size 447 448, seq_size_value 447 447, for_each 0 448 447, for_each 1 448 447, for_each
      2 448 447,
     seq_size 448 449, seq_size_value 448 448, for_each 0 449 448, for_each 1 449 448, for_each
      2 449 448,
     seq_size 449 450, seq_size_value 449 449, for_each 0 450 449, for_each 1 450 449, for_each
      2 450 449]"

definition iter_450 :: macro_defs where
  "iter_450 =
    [seq_size 450 451, seq_size_value 450 450, for_each 0 451 450, for_each 1 451 450, for_each
      2 451 450,
     seq_size 451 452, seq_size_value 451 451, for_each 0 452 451, for_each 1 452 451, for_each
      2 452 451,
     seq_size 452 453, seq_size_value 452 452, for_each 0 453 452, for_each 1 453 452, for_each
      2 453 452,
     seq_size 453 454, seq_size_value 453 453, for_each 0 454 453, for_each 1 454 453, for_each
      2 454 453,
     seq_size 454 455, seq_size_value 454 454, for_each 0 455 454, for_each 1 455 454, for_each
      2 455 454,
     seq_size 455 456, seq_size_value 455 455, for_each 0 456 455, for_each 1 456 455, for_each
      2 456 455,
     seq_size 456 457, seq_size_value 456 456, for_each 0 457 456, for_each 1 457 456, for_each
      2 457 456,
     seq_size 457 458, seq_size_value 457 457, for_each 0 458 457, for_each 1 458 457, for_each
      2 458 457,
     seq_size 458 459, seq_size_value 458 458, for_each 0 459 458, for_each 1 459 458, for_each
      2 459 458,
     seq_size 459 460, seq_size_value 459 459, for_each 0 460 459, for_each 1 460 459, for_each
      2 460 459]"

definition iter_460 :: macro_defs where
  "iter_460 =
    [seq_size 460 461, seq_size_value 460 460, for_each 0 461 460, for_each 1 461 460, for_each
      2 461 460,
     seq_size 461 462, seq_size_value 461 461, for_each 0 462 461, for_each 1 462 461, for_each
      2 462 461,
     seq_size 462 463, seq_size_value 462 462, for_each 0 463 462, for_each 1 463 462, for_each
      2 463 462,
     seq_size 463 464, seq_size_value 463 463, for_each 0 464 463, for_each 1 464 463, for_each
      2 464 463,
     seq_size 464 465, seq_size_value 464 464, for_each 0 465 464, for_each 1 465 464, for_each
      2 465 464,
     seq_size 465 466, seq_size_value 465 465, for_each 0 466 465, for_each 1 466 465, for_each
      2 466 465,
     seq_size 466 467, seq_size_value 466 466, for_each 0 467 466, for_each 1 467 466, for_each
      2 467 466,
     seq_size 467 468, seq_size_value 467 467, for_each 0 468 467, for_each 1 468 467, for_each
      2 468 467,
     seq_size 468 469, seq_size_value 468 468, for_each 0 469 468, for_each 1 469 468, for_each
      2 469 468,
     seq_size 469 470, seq_size_value 469 469, for_each 0 470 469, for_each 1 470 469, for_each
      2 470 469]"

definition iter_470 :: macro_defs where
  "iter_470 =
    [seq_size 470 471, seq_size_value 470 470, for_each 0 471 470, for_each 1 471 470, for_each
      2 471 470,
     seq_size 471 472, seq_size_value 471 471, for_each 0 472 471, for_each 1 472 471, for_each
      2 472 471,
     seq_size 472 473, seq_size_value 472 472, for_each 0 473 472, for_each 1 473 472, for_each
      2 473 472,
     seq_size 473 474, seq_size_value 473 473, for_each 0 474 473, for_each 1 474 473, for_each
      2 474 473,
     seq_size 474 475, seq_size_value 474 474, for_each 0 475 474, for_each 1 475 474, for_each
      2 475 474,
     seq_size 475 476, seq_size_value 475 475, for_each 0 476 475, for_each 1 476 475, for_each
      2 476 475,
     seq_size 476 477, seq_size_value 476 476, for_each 0 477 476, for_each 1 477 476, for_each
      2 477 476,
     seq_size 477 478, seq_size_value 477 477, for_each 0 478 477, for_each 1 478 477, for_each
      2 478 477,
     seq_size 478 479, seq_size_value 478 478, for_each 0 479 478, for_each 1 479 478, for_each
      2 479 478,
     seq_size 479 480, seq_size_value 479 479, for_each 0 480 479, for_each 1 480 479, for_each
      2 480 479]"

definition iter_480 :: macro_defs where
  "iter_480 =
    [seq_size 480 481, seq_size_value 480 480, for_each 0 481 480, for_each 1 481 480, for_each
      2 481 480,
     seq_size 481 482, seq_size_value 481 481, for_each 0 482 481, for_each 1 482 481, for_each
      2 482 481,
     seq_size 482 483, seq_size_value 482 482, for_each 0 483 482, for_each 1 483 482, for_each
      2 483 482,
     seq_size 483 484, seq_size_value 483 483, for_each 0 484 483, for_each 1 484 483, for_each
      2 484 483,
     seq_size 484 485, seq_size_value 484 484, for_each 0 485 484, for_each 1 485 484, for_each
      2 485 484,
     seq_size 485 486, seq_size_value 485 485, for_each 0 486 485, for_each 1 486 485, for_each
      2 486 485,
     seq_size 486 487, seq_size_value 486 486, for_each 0 487 486, for_each 1 487 486, for_each
      2 487 486,
     seq_size 487 488, seq_size_value 487 487, for_each 0 488 487, for_each 1 488 487, for_each
      2 488 487,
     seq_size 488 489, seq_size_value 488 488, for_each 0 489 488, for_each 1 489 488, for_each
      2 489 488,
     seq_size 489 490, seq_size_value 489 489, for_each 0 490 489, for_each 1 490 489, for_each
      2 490 489]"

definition iter_490 :: macro_defs where
  "iter_490 =
    [seq_size 490 491, seq_size_value 490 490, for_each 0 491 490, for_each 1 491 490, for_each
      2 491 490,
     seq_size 491 492, seq_size_value 491 491, for_each 0 492 491, for_each 1 492 491, for_each
      2 492 491,
     seq_size 492 493, seq_size_value 492 492, for_each 0 493 492, for_each 1 493 492, for_each
      2 493 492,
     seq_size 493 494, seq_size_value 493 493, for_each 0 494 493, for_each 1 494 493, for_each
      2 494 493,
     seq_size 494 495, seq_size_value 494 494, for_each 0 495 494, for_each 1 495 494, for_each
      2 495 494,
     seq_size 495 496, seq_size_value 495 495, for_each 0 496 495, for_each 1 496 495, for_each
      2 496 495,
     seq_size 496 497, seq_size_value 496 496, for_each 0 497 496, for_each 1 497 496, for_each
      2 497 496,
     seq_size 497 498, seq_size_value 497 497, for_each 0 498 497, for_each 1 498 497, for_each
      2 498 497,
     seq_size 498 499, seq_size_value 498 498, for_each 0 499 498, for_each 1 499 498, for_each
      2 499 498,
     seq_size 499 500, seq_size_value 499 499, for_each 0 500 499, for_each 1 500 499, for_each
      2 500 499]"

definition iter_500 :: macro_defs where
  "iter_500 =
    [seq_size 500 501, seq_size_value 500 500, for_each 0 501 500, for_each 1 501 500, for_each
      2 501 500,
     seq_size 501 502, seq_size_value 501 501, for_each 0 502 501, for_each 1 502 501, for_each
      2 502 501,
     seq_size 502 503, seq_size_value 502 502, for_each 0 503 502, for_each 1 503 502, for_each
      2 503 502,
     seq_size 503 504, seq_size_value 503 503, for_each 0 504 503, for_each 1 504 503, for_each
      2 504 503,
     seq_size 504 505, seq_size_value 504 504, for_each 0 505 504, for_each 1 505 504, for_each
      2 505 504,
     seq_size 505 506, seq_size_value 505 505, for_each 0 506 505, for_each 1 506 505, for_each
      2 506 505,
     seq_size 506 507, seq_size_value 506 506, for_each 0 507 506, for_each 1 507 506, for_each
      2 507 506,
     seq_size 507 508, seq_size_value 507 507, for_each 0 508 507, for_each 1 508 507, for_each
      2 508 507,
     seq_size 508 509, seq_size_value 508 508, for_each 0 509 508, for_each 1 509 508, for_each
      2 509 508,
     seq_size 509 510, seq_size_value 509 509, for_each 0 510 509, for_each 1 510 509, for_each
      2 510 509]"

definition iter_510 :: macro_defs where
  "iter_510 =
    [seq_size 510 511, seq_size_value 510 510, for_each 0 511 510, for_each 1 511 510, for_each
      2 511 510,
     seq_size 511 512, seq_size_value 511 511, for_each 0 512 511, for_each 1 512 511, for_each
      2 512 511]"

definition iter_table :: macro_defs where
  "iter_table = concat
    [iter_0, iter_10, iter_20, iter_30, iter_40, iter_50, iter_60, iter_70, iter_80, iter_90,
     iter_100, iter_110, iter_120, iter_130, iter_140, iter_150, iter_160, iter_170, iter_180,
     iter_190, iter_200, iter_210, iter_220, iter_230, iter_240, iter_250, iter_260, iter_270,
     iter_280, iter_290, iter_300, iter_310, iter_320, iter_330, iter_340, iter_350, iter_360,
     iter_370, iter_380, iter_390, iter_400, iter_410, iter_420, iter_430, iter_440, iter_450,
     iter_460, iter_470, iter_480, iter_490, iter_500, iter_510]"

section \<open>The file is what the generator produces\<close>

lemma php_iter_eq:
  "php_iter i = [seq_size i (i + 1), seq_size_value i i, for_each 0 (i + 1) i, for_each 1 (i + 1) i,
     for_each 2 (i + 1) i]"
  by (simp add: php_iter_def php_dim_def upt_rec numeral_2_eq_2)

lemma iter_0_generated: "iter_0 = concat (map php_iter [0..<10])"
  by code_simp

lemma iter_10_generated: "iter_10 = concat (map php_iter [10..<20])"
  by (simp add: iter_10_def php_iter_eq)

lemma iter_20_generated: "iter_20 = concat (map php_iter [20..<30])"
  by (simp add: iter_20_def php_iter_eq)

lemma iter_30_generated: "iter_30 = concat (map php_iter [30..<40])"
  by (simp add: iter_30_def php_iter_eq)

lemma iter_40_generated: "iter_40 = concat (map php_iter [40..<50])"
  by (simp add: iter_40_def php_iter_eq)

lemma iter_50_generated: "iter_50 = concat (map php_iter [50..<60])"
  by (simp add: iter_50_def php_iter_eq)

lemma iter_60_generated: "iter_60 = concat (map php_iter [60..<70])"
  by (simp add: iter_60_def php_iter_eq)

lemma iter_70_generated: "iter_70 = concat (map php_iter [70..<80])"
  by (simp add: iter_70_def php_iter_eq)

lemma iter_80_generated: "iter_80 = concat (map php_iter [80..<90])"
  by (simp add: iter_80_def php_iter_eq)

lemma iter_90_generated: "iter_90 = concat (map php_iter [90..<100])"
  by (simp add: iter_90_def php_iter_eq)

lemma iter_100_generated: "iter_100 = concat (map php_iter [100..<110])"
  by (simp add: iter_100_def php_iter_eq)

lemma iter_110_generated: "iter_110 = concat (map php_iter [110..<120])"
  by (simp add: iter_110_def php_iter_eq)

lemma iter_120_generated: "iter_120 = concat (map php_iter [120..<130])"
  by (simp add: iter_120_def php_iter_eq)

lemma iter_130_generated: "iter_130 = concat (map php_iter [130..<140])"
  by (simp add: iter_130_def php_iter_eq)

lemma iter_140_generated: "iter_140 = concat (map php_iter [140..<150])"
  by (simp add: iter_140_def php_iter_eq)

lemma iter_150_generated: "iter_150 = concat (map php_iter [150..<160])"
  by (simp add: iter_150_def php_iter_eq)

lemma iter_160_generated: "iter_160 = concat (map php_iter [160..<170])"
  by (simp add: iter_160_def php_iter_eq)

lemma iter_170_generated: "iter_170 = concat (map php_iter [170..<180])"
  by (simp add: iter_170_def php_iter_eq)

lemma iter_180_generated: "iter_180 = concat (map php_iter [180..<190])"
  by (simp add: iter_180_def php_iter_eq)

lemma iter_190_generated: "iter_190 = concat (map php_iter [190..<200])"
  by (simp add: iter_190_def php_iter_eq)

lemma iter_200_generated: "iter_200 = concat (map php_iter [200..<210])"
  by (simp add: iter_200_def php_iter_eq)

lemma iter_210_generated: "iter_210 = concat (map php_iter [210..<220])"
  by (simp add: iter_210_def php_iter_eq)

lemma iter_220_generated: "iter_220 = concat (map php_iter [220..<230])"
  by (simp add: iter_220_def php_iter_eq)

lemma iter_230_generated: "iter_230 = concat (map php_iter [230..<240])"
  by (simp add: iter_230_def php_iter_eq)

lemma iter_240_generated: "iter_240 = concat (map php_iter [240..<250])"
  by (simp add: iter_240_def php_iter_eq)

lemma iter_250_generated: "iter_250 = concat (map php_iter [250..<260])"
  by (simp add: iter_250_def php_iter_eq)

lemma iter_260_generated: "iter_260 = concat (map php_iter [260..<270])"
  by (simp add: iter_260_def php_iter_eq)

lemma iter_270_generated: "iter_270 = concat (map php_iter [270..<280])"
  by (simp add: iter_270_def php_iter_eq)

lemma iter_280_generated: "iter_280 = concat (map php_iter [280..<290])"
  by (simp add: iter_280_def php_iter_eq)

lemma iter_290_generated: "iter_290 = concat (map php_iter [290..<300])"
  by (simp add: iter_290_def php_iter_eq)

lemma iter_300_generated: "iter_300 = concat (map php_iter [300..<310])"
  by (simp add: iter_300_def php_iter_eq)

lemma iter_310_generated: "iter_310 = concat (map php_iter [310..<320])"
  by (simp add: iter_310_def php_iter_eq)

lemma iter_320_generated: "iter_320 = concat (map php_iter [320..<330])"
  by (simp add: iter_320_def php_iter_eq)

lemma iter_330_generated: "iter_330 = concat (map php_iter [330..<340])"
  by (simp add: iter_330_def php_iter_eq)

lemma iter_340_generated: "iter_340 = concat (map php_iter [340..<350])"
  by (simp add: iter_340_def php_iter_eq)

lemma iter_350_generated: "iter_350 = concat (map php_iter [350..<360])"
  by (simp add: iter_350_def php_iter_eq)

lemma iter_360_generated: "iter_360 = concat (map php_iter [360..<370])"
  by (simp add: iter_360_def php_iter_eq)

lemma iter_370_generated: "iter_370 = concat (map php_iter [370..<380])"
  by (simp add: iter_370_def php_iter_eq)

lemma iter_380_generated: "iter_380 = concat (map php_iter [380..<390])"
  by (simp add: iter_380_def php_iter_eq)

lemma iter_390_generated: "iter_390 = concat (map php_iter [390..<400])"
  by (simp add: iter_390_def php_iter_eq)

lemma iter_400_generated: "iter_400 = concat (map php_iter [400..<410])"
  by (simp add: iter_400_def php_iter_eq)

lemma iter_410_generated: "iter_410 = concat (map php_iter [410..<420])"
  by (simp add: iter_410_def php_iter_eq)

lemma iter_420_generated: "iter_420 = concat (map php_iter [420..<430])"
  by (simp add: iter_420_def php_iter_eq)

lemma iter_430_generated: "iter_430 = concat (map php_iter [430..<440])"
  by (simp add: iter_430_def php_iter_eq)

lemma iter_440_generated: "iter_440 = concat (map php_iter [440..<450])"
  by (simp add: iter_440_def php_iter_eq)

lemma iter_450_generated: "iter_450 = concat (map php_iter [450..<460])"
  by (simp add: iter_450_def php_iter_eq)

lemma iter_460_generated: "iter_460 = concat (map php_iter [460..<470])"
  by (simp add: iter_460_def php_iter_eq)

lemma iter_470_generated: "iter_470 = concat (map php_iter [470..<480])"
  by (simp add: iter_470_def php_iter_eq)

lemma iter_480_generated: "iter_480 = concat (map php_iter [480..<490])"
  by (simp add: iter_480_def php_iter_eq)

lemma iter_490_generated: "iter_490 = concat (map php_iter [490..<500])"
  by (simp add: iter_490_def php_iter_eq)

lemma iter_500_generated: "iter_500 = concat (map php_iter [500..<510])"
  by (simp add: iter_500_def php_iter_eq)

lemma iter_510_generated: "iter_510 = concat (map php_iter [510..<512])"
  by (simp add: iter_510_def php_iter_eq)

lemma generated_append:
  "i \<le> j \<Longrightarrow> j \<le> k \<Longrightarrow>
   concat (map php_iter [i..<j]) @ concat (map php_iter [j..<k]) = concat (map php_iter [i..<k])"
  using upt_add_eq_append [of i j "k - j"] by simp

text \<open>
  C1: the generated part of the header is exactly the output of the generator printed above
  it, so no macro of it was edited by hand, left out or numbered wrongly.
\<close>

lemma iterator_table_eq: "iter_table = php_output"
  unfolding iter_table_def php_output_def php_limit_def
  by (simp only: concat.simps append_Nil2 generated_append order_refl numeral_le_iff semiring_norm zero_le
      iter_0_generated iter_10_generated iter_20_generated iter_30_generated iter_40_generated
      iter_50_generated iter_60_generated iter_70_generated iter_80_generated iter_90_generated
      iter_100_generated iter_110_generated iter_120_generated iter_130_generated
      iter_140_generated iter_150_generated iter_160_generated iter_170_generated
      iter_180_generated iter_190_generated iter_200_generated iter_210_generated
      iter_220_generated iter_230_generated iter_240_generated iter_250_generated
      iter_260_generated iter_270_generated iter_280_generated iter_290_generated
      iter_300_generated iter_310_generated iter_320_generated iter_330_generated
      iter_340_generated iter_350_generated iter_360_generated iter_370_generated
      iter_380_generated iter_390_generated iter_400_generated iter_410_generated
      iter_420_generated iter_430_generated iter_440_generated iter_450_generated
      iter_460_generated iter_470_generated iter_480_generated iter_490_generated
      iter_500_generated iter_510_generated)

end
