(* ===== verification/PPProps.thy ===== *)
theory PPProps
  imports IterTable
begin

text \<open>
  What the macros do: the lookup of a macro in the two headers, and the size of a sequence.
\<close>

section \<open>The macros of the two headers\<close>

definition hand_macros :: macro_defs where
  "hand_macros = base_macros @ join_macros @ seq_pair_macros @ tuple_macros @ size_macros @
     product_macros @ for_each_macros @ seq_size_macros @ public_macros"

definition pp_env :: "ident \<Rightarrow> macro option" where
  "pp_env = map_of (hand_macros @ iter_table)"

lemmas hand_macros_defs = hand_macros_def base_macros_def join_macros_def seq_pair_macros_def
  tuple_macros_def size_macros_def product_macros_def for_each_macros_def seq_size_macros_def
  public_macros_def

lemma pp_env_hand: "map_of hand_macros i = Some m \<Longrightarrow> pp_env i = Some m"
  by (simp add: pp_env_def map_add_def)

lemma pp_env_iter: "map_of hand_macros i = None \<Longrightarrow> pp_env i = map_of iter_table i"
  by (auto simp: pp_env_def map_add_def split: option.splits)

lemmas shapes = seq_size_def seq_size_value_def for_each_def

lemma php_seq_size:
  "map_of (concat (map php_iter [0..<n])) [CNPP, W ''SEQ_SIZE_'', N i] =
     (if i < n then Some (snd (seq_size i (i + 1))) else None)"
proof (induction n)
  case (Suc n)
  have "map_of (php_iter n) [CNPP, W ''SEQ_SIZE_'', N i] =
      (if i = n then Some (snd (seq_size i (i + 1))) else None)"
    by (simp add: php_iter_eq shapes)
  with Suc show ?case by (auto simp: map_add_def)
qed simp

lemma php_seq_size_value:
  "map_of (concat (map php_iter [0..<n])) [CNPP, W ''SEQ_SIZE_'', CNPP, W ''SEQ_SIZE_'', N i] =
     (if i < n then Some (snd (seq_size_value i i)) else None)"
proof (induction n)
  case (Suc n)
  have "map_of (php_iter n) [CNPP, W ''SEQ_SIZE_'', CNPP, W ''SEQ_SIZE_'', N i] =
      (if i = n then Some (snd (seq_size_value i i)) else None)"
    by (simp add: php_iter_eq shapes)
  with Suc show ?case by (auto simp: map_add_def)
qed simp

lemma php_for_each:
  assumes "d \<le> 2"
  shows "map_of (concat (map php_iter [0..<n])) [CNPP, W ''D'', N d, W ''_SEQ_FOR_EACH_'', N k] =
     (if 0 < k \<and> k \<le> n then Some (snd (for_each d k (k - 1))) else None)"
proof (induction n)
  case (Suc n)
  have "d = 0 \<or> d = 1 \<or> d = 2" using assms by auto
  then have "map_of (php_iter n) [CNPP, W ''D'', N d, W ''_SEQ_FOR_EACH_'', N k] =
      (if k = Suc n then Some (snd (for_each d k (k - 1))) else None)"
    by (auto simp: php_iter_eq shapes)
  with Suc show ?case by (auto simp: map_add_def le_Suc_eq)
qed auto

text \<open>None of the hand-written macros has a name of the generated shapes.\<close>

fun generated_name :: "ident \<Rightarrow> bool" where
  "generated_name [CNPP, W w, N _] = (w = ''SEQ_SIZE_'')"
| "generated_name [CNPP, W w, CNPP, W w', N _] = (w = ''SEQ_SIZE_'')"
| "generated_name [CNPP, W w, N _, W w', N k] = (w = ''D'' \<and> w' = ''_SEQ_FOR_EACH_'' \<and> k \<noteq> 0)"
| "generated_name _ = False"

lemma hand_not_generated: "list_all (\<lambda>m. \<not> generated_name (fst m)) hand_macros"
  by code_simp

lemma hand_generated_None: "generated_name i \<Longrightarrow> map_of hand_macros i = None"
  using hand_not_generated by (auto simp: map_of_eq_None_iff list_all_iff)

lemma php_distinct: "distinct (map fst (concat (map php_iter [0..<n])))"
proof (induction n)
  case (Suc n)
  let ?old = "concat (map php_iter [0..<n])"
  have "map_of ?old k = None" if "k \<in> set (map fst (php_iter n))" for k
  proof -
    have cases: "k = [CNPP, W ''SEQ_SIZE_'', N n] \<or> k = [CNPP, W ''SEQ_SIZE_'', CNPP, W ''SEQ_SIZE_'', N n] \<or>
        (\<exists>d \<le> 2. k = [CNPP, W ''D'', N d, W ''_SEQ_FOR_EACH_'', N (Suc n)])"
      using that by (auto simp: php_iter_eq shapes)
    then show ?thesis
    proof (elim disjE exE conjE)
      fix d :: nat assume "d \<le> 2" and k: "k = [CNPP, W ''D'', N d, W ''_SEQ_FOR_EACH_'', N (Suc n)]"
      from php_for_each [OF this(1), of n "Suc n"] k show ?thesis by simp
    qed (simp_all only: php_seq_size [of n n] php_seq_size_value [of n n] less_irrefl if_False)
  qed
  then have "set (map fst ?old) \<inter> set (map fst (php_iter n)) = {}"
    by (fastforce simp: map_of_eq_None_iff simp del: map_of_append)
  moreover have "distinct (map fst (php_iter n))" by (simp add: php_iter_eq shapes)
  ultimately show ?case using Suc.IH by simp
qed simp

lemma php_generated_name: "list_all (\<lambda>m. generated_name (fst m)) (concat (map php_iter is))"
  by (induction "is") (auto simp: php_iter_eq shapes)

lemma hand_distinct: "distinct (map fst hand_macros)"
  by (simp add: hand_macros_defs)

text \<open>
  C31: the generated part of the header is exactly the output of the PHP program printed above
  it: no macro of it was edited by hand, left out or numbered wrongly. And no macro of the
  two headers is defined twice.
\<close>

theorem header_macros_generated:
  "iter_table = php_output \<and> distinct (map fst (hand_macros @ iter_table))"
proof
  show "iter_table = php_output" by (rule iterator_table_eq)
  have "distinct (map fst php_output)" by (simp only: php_output_def php_distinct)
  moreover have "set (map fst hand_macros) \<inter> set (map fst php_output) = {}"
    using hand_not_generated php_generated_name [of "[0..<php_limit]"]
    unfolding php_output_def list_all_iff by fastforce
  ultimately show "distinct (map fst (hand_macros @ iter_table))"
    using hand_distinct unfolding iterator_table_eq by (simp only: map_append distinct_append)
qed

lemma pp_env_generated: "generated_name i \<Longrightarrow> pp_env i = map_of (concat (map php_iter [0..<512])) i"
  using pp_env_iter [OF hand_generated_None]
  by (simp add: iterator_table_eq php_output_def php_limit_def del: map_of_append)

lemma env_SEQ_SIZE_N:
  "pp_env [CNPP, W ''SEQ_SIZE_'', N i] = (if i < 512 then
     Some (Function 1 False [[T (Id [CNPP, W ''SEQ_SIZE_'', N (i + 1)])]]) else None)"
  using pp_env_generated [of "[CNPP, W ''SEQ_SIZE_'', N i]"]
  by (simp add: php_seq_size seq_size_def del: map_of_append)

lemma env_SEQ_SIZE_value:
  "pp_env [CNPP, W ''SEQ_SIZE_'', CNPP, W ''SEQ_SIZE_'', N i] =
     (if i < 512 then Some (Object [[T (Num i)]]) else None)"
  using pp_env_generated [of "[CNPP, W ''SEQ_SIZE_'', CNPP, W ''SEQ_SIZE_'', N i]"]
  by (simp add: php_seq_size_value seq_size_value_def del: map_of_append)

lemma env_FOR_EACH:
  "d \<le> 2 \<Longrightarrow> 0 < k \<Longrightarrow> k \<le> 512 \<Longrightarrow>
   pp_env [CNPP, W ''D'', N d, W ''_SEQ_FOR_EACH_'', N k] = Some (snd (for_each d k (k - 1)))"
  using pp_env_generated [of "[CNPP, W ''D'', N d, W ''_SEQ_FOR_EACH_'', N k]"]
  by (simp add: php_for_each del: map_of_append)

lemma env_CAT: "pp_env [CNPP, W ''CAT''] = Some (Function 2 False
    [[T (Id [CNPP, W ''CAT_I''])], [T LP], [P 0], [T Comma], [P 1], [T RP]])"
  by (rule pp_env_hand) code_simp

lemma env_CAT_I: "pp_env [CNPP, W ''CAT_I''] = Some (Function 2 False [[P 0, P 1]])"
  by (rule pp_env_hand) code_simp

lemma env_SEQ_SIZE:
  "pp_env [W ''CN_PP_SEQ_SIZE''] =
     Some (Function 1 False [[T (Id [CNPP, W ''SEQ_SIZE''])], [T LP], [P 0], [T RP]])"
  "pp_env [CNPP, W ''SEQ_SIZE''] =
     Some (Function 1 False [[T (Id [CNPP, W ''SEQ_SIZE_I''])], [T LP], [P 0], [T RP]])"
  "pp_env [CNPP, W ''SEQ_SIZE_I''] = Some (Function 1 False
     [[T (Id [CNPP, W ''CAT''])], [T LP], [T (Id [CNPP, W ''SEQ_SIZE_''])], [T Comma],
      [T (Id [CNPP, W ''SEQ_SIZE_'', N 0])], [P 0], [T RP]])"
  by (rule pp_env_hand, code_simp)+

lemma env_SEQ_SIZE_prefix: "pp_env [CNPP, W ''SEQ_SIZE_''] = None"
proof -
  have "map_of hand_macros [CNPP, W ''SEQ_SIZE_''] = None" by code_simp
  moreover have "map_of (concat (map php_iter [0..<n])) [CNPP, W ''SEQ_SIZE_''] = None" for n
    by (induction n) (simp_all add: php_iter_eq shapes map_add_def)
  ultimately show ?thesis
    using pp_env_iter by (simp add: iterator_table_eq php_output_def php_limit_def del: map_of_append)
qed

section \<open>The size of a sequence\<close>

text \<open>A sequence: its elements in parentheses, one after the other, with any paint.\<close>

type_synonym elem = "ident set \<times> ptok list \<times> ident set"

definition seq_toks :: "elem list \<Rightarrow> ptok list" where
  "seq_toks es = concat (map (\<lambda>(h, e, h'). (LP, h) # e @ [(RP, h')]) es)"

definition elem_ok :: "(ident \<Rightarrow> macro option) \<Rightarrow> elem \<Rightarrow> bool" where
  "elem_ok M = (\<lambda>(h, e, h'). one_arg 0 e \<and> inert M e)"

lemma seq_toks_simps [simp]:
  "seq_toks [] = []"
  "seq_toks ((h, e, h') # es) = (LP, h) # e @ (RP, h') # seq_toks es"
  by (simp_all add: seq_toks_def)

lemma seq_toks_ok:
  "list_all (elem_ok M) es \<Longrightarrow> one_arg 0 (seq_toks es) \<and> inert M (seq_toks es)"
proof (induction es)
  case (Cons x es)
  obtain h e h' where x: "x = (h, e, h')" by (cases x)
  with Cons have "one_arg 0 (((LP, h) # e @ [(RP, h')]) @ seq_toks es)"
    by (intro one_arg_append one_arg_parens one_arg_balanced) (auto simp: elem_ok_def)
  with Cons x show ?case by (simp add: elem_ok_def)
qed simp

definition paint_elems :: "ident set \<Rightarrow> elem list \<Rightarrow> elem list" where
  "paint_elems H = map (\<lambda>(h, e, h'). (h \<union> H, paint H e, h' \<union> H))"

lemma paint_simps [simp]:
  "paint H [] = []"
  "paint H ((t, h) # ts) = (t, h \<union> H) # paint H ts"
  "paint H (ts @ us) = paint H ts @ paint H us"
  by (simp_all add: paint_def)

lemma paint_seq_toks [simp]: "paint H (seq_toks es) = seq_toks (paint_elems H es)"
  by (induction es) (auto simp: paint_elems_def)

lemma paint_elems_ok [simp]:
  "list_all (elem_ok M) (paint_elems H es) = list_all (elem_ok M) es"
  "length (paint_elems H es) = length es"
  by (auto simp: paint_elems_def list_all_iff elem_ok_def)

text \<open>
  The two headers included in a file that defines macros of its own, none of them with the
  internal prefix of the headers or the name of one of their macros.
\<close>

locale headers =
  fixes M :: "ident \<Rightarrow> macro option"
  assumes extends: "pp_env i = Some m \<Longrightarrow> M i = Some m"
    and reserved: "pp_env (CNPP # i) = None \<Longrightarrow> M (CNPP # i) = None"
begin

lemma internal: "M (CNPP # i) = pp_env (CNPP # i)"
  using extends [of "CNPP # i"] reserved [of i] by (cases "pp_env (CNPP # i)") auto

lemmas counting_macros = env_SEQ_SIZE_N env_SEQ_SIZE_value env_SEQ_SIZE_prefix env_CAT env_CAT_I
  env_SEQ_SIZE(2,3)

text \<open>\<open>SEQ_SIZE_i (e1) (e2) ...\<close> counts up by one per element.\<close>

lemma seq_count:
  assumes "list_all (elem_ok M) es" and "i + length es \<le> 512"
    and "\<And>j. i \<le> j \<Longrightarrow> [CNPP, W ''SEQ_SIZE_'', N j] \<notin> H"
  shows "\<exists>H'. yields M ((Id [CNPP, W ''SEQ_SIZE_'', N i], H) # seq_toks es)
      [(Id [CNPP, W ''SEQ_SIZE_'', N (i + length es)], H')] \<and>
    (\<forall>j w. [CNPP, W ''SEQ_SIZE_'', CNPP, w, j] \<in> H' \<longrightarrow> [CNPP, W ''SEQ_SIZE_'', CNPP, w, j] \<in> H)"
  using assms
proof (induction es arbitrary: i H)
  case Nil
  let ?t = "(Id [CNPP, W ''SEQ_SIZE_'', N i], H) :: ptok"
  have "yields M [?t] [?t]"
  proof (cases "macro_at M ?t")
    case None
    then show ?thesis by (rule yields_keep [OF _ yields_Nil])
  next
    case (Some im)
    then have "\<exists>j k v b. macro_at M ?t = Some (j, Function k v b)"
      by (auto simp: macro_at_def internal env_SEQ_SIZE_N split: if_splits)
    then show ?thesis using yields_no_call [OF _ yields_Nil] by fastforce
  qed
  then show ?case by (intro exI [of _ H]) simp
next
  case (Cons x es)
  obtain h e h' where x: "x = (h, e, h')" by (cases x)
  let ?t = "(Id [CNPP, W ''SEQ_SIZE_'', N i], H) :: ptok"
  let ?H = "insert [CNPP, W ''SEQ_SIZE_'', N i] (H \<inter> h')"
  have args: "get_args 0 (e @ (RP, h') # seq_toks es) = Some ([e], h', seq_toks es)"
    using Cons.prems x by (intro get_args_last) (simp add: elem_ok_def)
  have "\<exists>H'. yields M ((Id [CNPP, W ''SEQ_SIZE_'', N (i + 1)], ?H) # seq_toks es)
      [(Id [CNPP, W ''SEQ_SIZE_'', N (i + 1 + length es)], H')] \<and>
    (\<forall>j w. [CNPP, W ''SEQ_SIZE_'', CNPP, w, j] \<in> H' \<longrightarrow> [CNPP, W ''SEQ_SIZE_'', CNPP, w, j] \<in> ?H)"
    using Cons.prems by (intro Cons.IH) auto
  then obtain H' where H': "yields M ((Id [CNPP, W ''SEQ_SIZE_'', N (i + 1)], ?H) # seq_toks es)
      [(Id [CNPP, W ''SEQ_SIZE_'', N (i + 1 + length es)], H')]"
    "\<forall>j w. [CNPP, W ''SEQ_SIZE_'', CNPP, w, j] \<in> H' \<longrightarrow> [CNPP, W ''SEQ_SIZE_'', CNPP, w, j] \<in> ?H"
    by blast
  have e: "yields M e e" using Cons.prems x by (intro yields_inert) (simp add: elem_ok_def)
  have "yields M (?t # (LP, h) # e @ (RP, h') # seq_toks es)
      [(Id [CNPP, W ''SEQ_SIZE_'', N (i + 1 + length es)], H')]"
    by (rule macro_call [OF _ _ args, where bs = "[e]" and bs' = "[e]"])
      (use H'(1) e Cons.prems in \<open>auto simp: bind_args_def internal env_SEQ_SIZE_N\<close>)
  with H'(2) x show ?case by (intro exI [of _ H']) auto
qed

text \<open>\<open>CAT\<close> of two tokens that stay: the pasted token is rescanned with what follows.\<close>

lemma CAT_call:
  assumes H: "[CNPP, W ''CAT''] \<notin> H" "[CNPP, W ''CAT_I''] \<notin> H"
    and x: "one_arg 0 x" "yields M x [(s, hs)]" and y: "one_arg 0 y" "yields M y [(t, ht)]"
    and st: "paste s t = Some u" "s \<noteq> LP" "s \<noteq> RP" "s \<noteq> Comma" "t \<noteq> LP" "t \<noteq> RP" "t \<noteq> Comma"
    and u: "\<And>J. J \<subseteq> hs \<union> H \<union> {[CNPP, W ''CAT''], [CNPP, W ''CAT_I'']} \<Longrightarrow> \<exists>out. yields M ((u, J) # rest) out \<and> Q out"
  shows "\<exists>out. yields M ((Id [CNPP, W ''CAT''], H) # (LP, h) # x @ (Comma, c) # y @ (RP, h') # rest) out \<and> Q out"
proof -
  let ?K = "insert [CNPP, W ''CAT''] (H \<inter> h')"
  let ?L = "insert [CNPP, W ''CAT_I''] ?K"
  let ?J = "(hs \<union> ?K) \<inter> (ht \<union> ?K) \<union> ?L"
  have args: "get_args 0 (x @ (Comma, c) # y @ (RP, h') # rest) = Some ([x, y], h', rest)"
    using get_args_next [OF x(1) get_args_last [OF y(1)]] by simp
  have argsI: "get_args 0 ((s, hs \<union> ?K) # (Comma, ?K) # (t, ht \<union> ?K) # (RP, ?K) # rest) =
      Some ([[(s, hs \<union> ?K)], [(t, ht \<union> ?K)]], ?K, rest)"
    using st by (simp add: cons_first_def new_arg_def split: pp.splits)
  have mI: "macro_at M (Id [CNPP, W ''CAT_I''], ?K) =
      Some ([CNPP, W ''CAT_I''], Function 2 False [[P 0, P 1]])"
    using H by (auto simp: macro_at_def internal env_CAT_I)
  have "?J \<subseteq> hs \<union> H \<union> {[CNPP, W ''CAT''], [CNPP, W ''CAT_I'']}" by auto
  from u [OF this] obtain out where out: "yields M ((u, ?J) # rest) out" "Q out" by blast
  from out(1) have "yields M ((Id [CNPP, W ''CAT_I''], ?K) # (LP, ?K) # (s, hs \<union> ?K) # (Comma, ?K) # (t, ht \<union> ?K) #
      (RP, ?K) # rest) out"
    by (intro yields_call [OF mI argsI, where bs = "[[(s, hs \<union> ?K)], [(t, ht \<union> ?K)]]"])
      (use st in \<open>auto simp: bind_args_def yields_body_def glue_def\<close>)
  then have "yields M ((Id [CNPP, W ''CAT''], H) # (LP, h) # x @ (Comma, c) # y @ (RP, h') # rest) out"
    by (intro macro_call [OF _ _ args, where bs = "[x, y]" and bs' = "[[(s, hs)], [(t, ht)]]"])
      (use H x y in \<open>auto simp: internal env_CAT bind_args_def\<close>)
  with out(2) show ?thesis by blast
qed

end

text \<open>The names that the counting needs unpainted, and what it ends with.\<close>

definition counting :: "ident set" where
  "counting = {[CNPP, W ''CAT''], [CNPP, W ''CAT_I''], [CNPP, W ''SEQ_SIZE''], [CNPP, W ''SEQ_SIZE_I'']} \<union>
     range (\<lambda>i. [CNPP, W ''SEQ_SIZE_'', N i]) \<union>
     range (\<lambda>i. [CNPP, W ''SEQ_SIZE_'', CNPP, W ''SEQ_SIZE_'', N i])"

definition size_token :: "nat \<Rightarrow> pp" where
  "size_token n = (if n < 512 then Num n else Id [CNPP, W ''SEQ_SIZE_'', CNPP, W ''SEQ_SIZE_'', N n])"

context headers
begin

lemma CAT_count:
  assumes es: "list_all (elem_ok M) es" and n: "length es \<le> 512"
    and H: "H \<inter> counting \<subseteq> {[CNPP, W ''SEQ_SIZE''], [CNPP, W ''SEQ_SIZE_I'']}"
  shows "\<exists>J. yields M ((Id [CNPP, W ''CAT''], H) # (LP, H) # (Id [CNPP, W ''SEQ_SIZE_''], H) # (Comma, H) #
      (Id [CNPP, W ''SEQ_SIZE_'', N 0], H) # seq_toks es @ [(RP, H)]) [(size_token (length es), J)]"
proof -
  let ?n = "length es"
  let ?v = "[CNPP, W ''SEQ_SIZE_'', CNPP, W ''SEQ_SIZE_'', N ?n]"
  have free: "[CNPP, W ''CAT''] \<notin> H" "[CNPP, W ''CAT_I''] \<notin> H" "[CNPP, W ''SEQ_SIZE_'', N j] \<notin> H"
    "[CNPP, W ''SEQ_SIZE_'', CNPP, W ''SEQ_SIZE_'', N j] \<notin> H" for j
    using H by (auto simp: counting_def)
  have "\<exists>H1. yields M ((Id [CNPP, W ''SEQ_SIZE_'', N 0], H) # seq_toks es)
      [(Id [CNPP, W ''SEQ_SIZE_'', N ?n], H1)]"
    using seq_count [OF es, of 0 H] n free by auto
  then obtain H1 where c: "yields M ((Id [CNPP, W ''SEQ_SIZE_'', N 0], H) # seq_toks es)
      [(Id [CNPP, W ''SEQ_SIZE_'', N ?n], H1)]" by blast
  have p: "yields M [(Id [CNPP, W ''SEQ_SIZE_''], H)] [(Id [CNPP, W ''SEQ_SIZE_''], H)]"
    by (rule yields_inert) (simp add: internal env_SEQ_SIZE_prefix)
  have v: "yields M [(Id ?v, J)] [(size_token ?n, if ?n < 512 then insert ?v J else J)]"
    if "J \<subseteq> H \<union> H \<union> {[CNPP, W ''CAT''], [CNPP, W ''CAT_I'']}" for J
  proof (cases "?n < 512")
    case True
    with that free have "macro_at M (Id ?v, J) = Some (?v, Object [[T (Num ?n)]])"
      by (auto simp: macro_at_def internal env_SEQ_SIZE_value)
    with True show ?thesis
      by (intro yields_object [OF _ body_tok [OF body_Nil]]) (auto simp: yields_inert size_token_def)
  next
    case False
    then show ?thesis by (auto intro: yields_inert simp: internal env_SEQ_SIZE_value size_token_def)
  qed
  have "\<exists>out. yields M ((Id [CNPP, W ''CAT''], H) # (LP, H) # [(Id [CNPP, W ''SEQ_SIZE_''], H)] @ (Comma, H) #
      ((Id [CNPP, W ''SEQ_SIZE_'', N 0], H) # seq_toks es) @ (RP, H) # []) out \<and> (\<exists>J. out = [(size_token ?n, J)])"
    by (rule CAT_call [OF free(1,2) _ p _ c, where u = "Id ?v"])
      (use v seq_toks_ok [OF es] in auto)
  then show ?thesis by auto
qed

lemma SEQ_SIZE_macros:
  "M [CNPP, W ''SEQ_SIZE''] =
     Some (Function 1 False [[T (Id [CNPP, W ''SEQ_SIZE_I''])], [T LP], [P 0], [T RP]])"
  "M [CNPP, W ''SEQ_SIZE_I''] = Some (Function 1 False
     [[T (Id [CNPP, W ''CAT''])], [T LP], [T (Id [CNPP, W ''SEQ_SIZE_''])], [T Comma],
      [T (Id [CNPP, W ''SEQ_SIZE_'', N 0])], [P 0], [T RP]])"
  unfolding internal env_SEQ_SIZE by (rule refl)+

lemma seq_inert: "list_all (elem_ok M) es \<Longrightarrow> yields M (seq_toks es) (seq_toks es)"
  using seq_toks_ok yields_inert by blast

lemma get_seq: "list_all (elem_ok M) es \<Longrightarrow> get_args 0 (seq_toks es @ (RP, h) # rest) = Some ([seq_toks es], h, rest)"
  using get_args_last seq_toks_ok by blast

lemma SEQ_SIZE_count:
  assumes es: "list_all (elem_ok M) es" and n: "length es \<le> 512" and H: "H \<inter> counting = {}"
  shows "\<exists>J. yields M ((Id [CNPP, W ''SEQ_SIZE''], H) # (LP, h) # seq_toks es @ [(RP, h')]) [(size_token (length es), J)]"
proof -
  let ?A = "insert [CNPP, W ''SEQ_SIZE''] (H \<inter> h')"
  let ?B = "insert [CNPP, W ''SEQ_SIZE_I''] ?A"
  let ?es = "paint_elems ?A es"
  have ok: "list_all (elem_ok M) ?es" "list_all (elem_ok M) (paint_elems ?B ?es)" "length (paint_elems ?B ?es) \<le> 512"
    using es n by simp_all
  obtain J where J: "yields M ((Id [CNPP, W ''CAT''], ?B) # (LP, ?B) # (Id [CNPP, W ''SEQ_SIZE_''], ?B) # (Comma, ?B) #
      (Id [CNPP, W ''SEQ_SIZE_'', N 0], ?B) # seq_toks (paint_elems ?B ?es) @ [(RP, ?B)]) [(size_token (length es), J)]"
    using CAT_count [OF ok(2,3), of ?B] H by auto
  have "yields M ((Id [CNPP, W ''SEQ_SIZE_I''], ?A) # (LP, ?A) # seq_toks ?es @ [(RP, ?A)]) [(size_token (length es), J)]"
    by (rule macro_call [where M = M, OF SEQ_SIZE_macros(2) _ get_seq [OF ok(1)], where bs = "[seq_toks ?es]" and bs' = "[seq_toks ?es]"])
      (use J H seq_inert [OF ok(1)] in \<open>simp_all add: bind_args_def counting_def\<close>)
  then have "yields M ((Id [CNPP, W ''SEQ_SIZE''], H) # (LP, h) # seq_toks es @ [(RP, h')]) [(size_token (length es), J)]"
    by (intro macro_call [where M = M, OF SEQ_SIZE_macros(1) _ get_seq [OF es], where bs = "[seq_toks es]" and bs' = "[seq_toks es]"])
      (use H seq_inert [OF es] in \<open>simp_all add: bind_args_def counting_def\<close>)
  then show ?thesis by blast
qed

end

interpretation both_headers: headers pp_env
  by unfold_locales simp_all

text \<open>
  C25: the size of a sequence. \<open>CN_PP_SEQ_SIZE\<close> of a sequence of \<open>n\<close> elements that the
  preprocessor leaves alone expands to the number \<open>n\<close>, for every \<open>n\<close> below 512. At 512 the
  counting macro has no value any more, and the expansion is an undefined identifier.
\<close>

theorem CN_PP_SEQ_SIZE_counts:
  assumes "list_all (elem_ok pp_env) es" and "length es \<le> 512"
  shows "\<exists>n H. expand pp_env n
      ((Id [W ''CN_PP_SEQ_SIZE''], {}) # (LP, {}) # seq_toks es @ [(RP, {})]) =
    Some [(if length es < 512 then Num (length es)
           else Id [CNPP, W ''SEQ_SIZE_'', CNPP, W ''SEQ_SIZE_'', N 512], H)]"
proof -
  let ?A = "{[W ''CN_PP_SEQ_SIZE'']}"
  have ok: "list_all (elem_ok pp_env) (paint_elems ?A es)" "length (paint_elems ?A es) \<le> 512" using assms by simp_all
  have "?A \<inter> counting = {}" by (auto simp: counting_def)
  from both_headers.SEQ_SIZE_count [OF ok this] obtain J where
    "yields pp_env ((Id [CNPP, W ''SEQ_SIZE''], ?A) # (LP, ?A) # seq_toks (paint_elems ?A es) @ [(RP, ?A)])
      [(size_token (length es), J)]" by auto
  then have "yields pp_env ((Id [W ''CN_PP_SEQ_SIZE''], {}) # (LP, {}) # seq_toks es @ [(RP, {})])
      [(size_token (length es), J)]"
    by (intro macro_call [where M = pp_env, OF env_SEQ_SIZE(1) _ both_headers.get_seq [OF assms(1)],
        where bs = "[seq_toks es]" and bs' = "[seq_toks es]"])
      (simp_all add: bind_args_def both_headers.seq_inert [OF assms(1)])
  then obtain n where n: "expand pp_env n ((Id [W ''CN_PP_SEQ_SIZE''], {}) # (LP, {}) # seq_toks es @ [(RP, {})]) =
      Some [(size_token (length es), J)]" unfolding yields_def by blast
  have "size_token (length es) = (if length es < 512 then Num (length es)
      else Id [CNPP, W ''SEQ_SIZE_'', CNPP, W ''SEQ_SIZE_'', N 512])"
    using assms(2) by (auto simp: size_token_def)
  from n [unfolded this] show ?thesis by (intro exI)
qed

theorem CN_PP_SEQ_SIZE_counts_witness:
  "\<exists>n H. expand pp_env n
      ((Id [W ''CN_PP_SEQ_SIZE''], {}) # (LP, {}) #
        seq_toks [({}, [(Num 7, {})], {}), ({}, [(LP, {}), (Comma, {}), (RP, {})], {})] @ [(RP, {})]) =
    Some [(Num 2, H)]"
  using CN_PP_SEQ_SIZE_counts [of "[({}, [(Num 7, {})], {}), ({}, [(LP, {}), (Comma, {}), (RP, {})], {})]"]
  by (simp add: elem_ok_def numeral_2_eq_2)

end
