(* ===== verification/ForEach.thy ===== *)
theory ForEach
  imports PPProps
begin

text \<open>
  Iteration over a sequence: \<open>CN_PP_FOR_EACH_TUPLE(m, (t1)(t2)...(tn))\<close> is \<open>m t1 m t2 ... m tn\<close>.
\<close>

section \<open>Head and tail of a sequence\<close>

lemma env_pairs:
  "pp_env [CNPP, W ''SEQ_HEAD''] = Some (Function 1 False [[T (Id [CNPP, W ''PAIR_FIRST''])], [T LP],
     [T (Id [CNPP, W ''SEQ_TO_PAIR''])], [T LP], [P 0], [T RP], [T RP]])"
  "pp_env [CNPP, W ''SEQ_TAIL''] = Some (Function 1 False [[T (Id [CNPP, W ''PAIR_SECOND''])], [T LP],
     [T (Id [CNPP, W ''SEQ_TO_PAIR''])], [T LP], [P 0], [T RP], [T RP]])"
  "pp_env [CNPP, W ''SEQ_TO_PAIR''] = Some (Function 1 False [[T LP], [T (Id [CNPP, W ''SEQ_TO_PAIR_''])],
     [P 0], [T RP]])"
  "pp_env [CNPP, W ''SEQ_TO_PAIR_''] = Some (Function 1 False [[P 0], [T Comma], [T (Id [CNPP, W ''NIL''])]])"
  "pp_env [CNPP, W ''NIL''] = Some (Object [])"
  "pp_env [CNPP, W ''PAIR_FIRST''] = Some (Function 1 False [[T (Id [CNPP, W ''PAIR_FIRST_I''])], [T LP],
     [P 0], [T RP]])"
  "pp_env [CNPP, W ''PAIR_FIRST_I''] = Some (Function 1 False [[T (Id [CNPP, W ''FIRST_ARG''])], [P 0]])"
  "pp_env [CNPP, W ''PAIR_SECOND''] = Some (Function 1 False [[T (Id [CNPP, W ''PAIR_SECOND_I''])], [T LP],
     [P 0], [T RP]])"
  "pp_env [CNPP, W ''PAIR_SECOND_I''] = Some (Function 1 False [[T (Id [CNPP, W ''SECOND_ARG''])], [P 0]])"
  "pp_env [CNPP, W ''FIRST_ARG''] = Some (Function 1 True [[P 0]])"
  "pp_env [CNPP, W ''SECOND_ARG''] = Some (Function 2 True [[P 1]])"
  by (rule pp_env_hand, code_simp)+

definition pairing :: "ident set" where
  "pairing = {[CNPP, W ''SEQ_HEAD''], [CNPP, W ''SEQ_TAIL''], [CNPP, W ''SEQ_TO_PAIR''],
     [CNPP, W ''SEQ_TO_PAIR_''], [CNPP, W ''NIL''], [CNPP, W ''PAIR_FIRST''], [CNPP, W ''PAIR_FIRST_I''],
     [CNPP, W ''PAIR_SECOND''], [CNPP, W ''PAIR_SECOND_I''], [CNPP, W ''FIRST_ARG''], [CNPP, W ''SECOND_ARG'']}"

lemma paint_paint: "paint H (paint K ts) = paint (K \<union> H) ts"
  by (auto simp: paint_def)

lemma paint_elems_paint: "paint_elems H (paint_elems K es) = paint_elems (K \<union> H) es"
  by (auto simp: paint_elems_def paint_paint Un_assoc)

lemma paint_one: "paint_elems H (x # es) = (fst x \<union> H, paint H (fst (snd x)), snd (snd x) \<union> H) # paint_elems H es"
  by (cases x) (simp add: paint_elems_def)

text \<open>The pair of the first element and the rest.\<close>

definition pair_toks :: "ident set \<Rightarrow> ptok list \<Rightarrow> ident set \<Rightarrow> elem list \<Rightarrow> ident set \<Rightarrow> ptok list" where
  "pair_toks c1 e c2 es c3 = (LP, c1) # e @ (Comma, c2) # seq_toks es @ [(RP, c3)]"

lemma paint_pair: "paint H (pair_toks c1 e c2 es c3) =
    pair_toks (c1 \<union> H) (paint H e) (c2 \<union> H) (paint_elems H es) (c3 \<union> H)"
  by (simp add: pair_toks_def)

context headers
begin

lemma pair_macros:
  "M [CNPP, W ''SEQ_HEAD''] = Some (Function 1 False [[T (Id [CNPP, W ''PAIR_FIRST''])], [T LP],
     [T (Id [CNPP, W ''SEQ_TO_PAIR''])], [T LP], [P 0], [T RP], [T RP]])"
  "M [CNPP, W ''SEQ_TAIL''] = Some (Function 1 False [[T (Id [CNPP, W ''PAIR_SECOND''])], [T LP],
     [T (Id [CNPP, W ''SEQ_TO_PAIR''])], [T LP], [P 0], [T RP], [T RP]])"
  "M [CNPP, W ''SEQ_TO_PAIR''] = Some (Function 1 False [[T LP], [T (Id [CNPP, W ''SEQ_TO_PAIR_''])],
     [P 0], [T RP]])"
  "M [CNPP, W ''SEQ_TO_PAIR_''] = Some (Function 1 False [[P 0], [T Comma], [T (Id [CNPP, W ''NIL''])]])"
  "M [CNPP, W ''NIL''] = Some (Object [])"
  "M [CNPP, W ''PAIR_FIRST''] = Some (Function 1 False [[T (Id [CNPP, W ''PAIR_FIRST_I''])], [T LP],
     [P 0], [T RP]])"
  "M [CNPP, W ''PAIR_FIRST_I''] = Some (Function 1 False [[T (Id [CNPP, W ''FIRST_ARG''])], [P 0]])"
  "M [CNPP, W ''PAIR_SECOND''] = Some (Function 1 False [[T (Id [CNPP, W ''PAIR_SECOND_I''])], [T LP],
     [P 0], [T RP]])"
  "M [CNPP, W ''PAIR_SECOND_I''] = Some (Function 1 False [[T (Id [CNPP, W ''SECOND_ARG''])], [P 0]])"
  "M [CNPP, W ''FIRST_ARG''] = Some (Function 1 True [[P 0]])"
  "M [CNPP, W ''SECOND_ARG''] = Some (Function 2 True [[P 1]])"
  unfolding internal env_pairs by (rule refl)+

lemma pair_ok:
  assumes "one_arg 0 e" "inert M e" "list_all (elem_ok M) es"
  shows "one_arg 0 (pair_toks c1 e c2 es c3)" "inert M (pair_toks c1 e c2 es c3)"
    "get_args 0 (e @ (Comma, c2) # seq_toks es @ [(RP, c3)]) = Some ([e, seq_toks es], c3, [])"
proof -
  have es: "one_arg 0 (seq_toks es)" "inert M (seq_toks es)" using seq_toks_ok [OF assms(3)] by simp_all
  have "balanced 0 (e @ (Comma, c2) # seq_toks es)"
    using balanced_append [OF one_arg_balanced [OF assms(1)], of "(Comma, c2) # seq_toks es"]
      one_arg_balanced [OF es(1)] by simp
  from one_arg_parens [OF this] show "one_arg 0 (pair_toks c1 e c2 es c3)" by (simp add: pair_toks_def)
  show "inert M (pair_toks c1 e c2 es c3)" using assms(2) es(2) by (simp add: pair_toks_def)
  show "get_args 0 (e @ (Comma, c2) # seq_toks es @ [(RP, c3)]) = Some ([e, seq_toks es], c3, [])"
    by (rule get_args_next [OF assms(1) get_args_last [OF es(1)]])
qed

lemma SEQ_TO_PAIR_call:
  assumes e: "one_arg 0 e" "inert M e" and es: "list_all (elem_ok M) es"
    and H: "H \<inter> {[CNPP, W ''SEQ_TO_PAIR''], [CNPP, W ''SEQ_TO_PAIR_''], [CNPP, W ''NIL'']} = {}"
  shows "\<exists>A c1 c2 B c3. yields M ((Id [CNPP, W ''SEQ_TO_PAIR''], H) # (LP, c) # seq_toks ((h, e, h') # es) @ [(RP, r)])
      (pair_toks c1 (paint A e) c2 (paint_elems B es) c3)"
proof -
  let ?A = "insert [CNPP, W ''SEQ_TO_PAIR''] (H \<inter> r)"
  let ?B = "insert [CNPP, W ''SEQ_TO_PAIR_''] (?A \<inter> (h' \<union> ?A))"
  let ?es = "paint_elems ?A es"
  have ok: "list_all (elem_ok M) ((h, e, h') # es)" "list_all (elem_ok M) ?es"
    using e es by (simp add: elem_ok_def, simp only: paint_elems_ok es)
  have e1: "one_arg 0 (paint ?A e)" "yields M (paint ?A e) (paint ?A e)" using e by (simp_all add: yields_inert)
  have nil: "macro_at M (Id [CNPP, W ''NIL''], ?B) = Some ([CNPP, W ''NIL''], Object [])"
    using H by (simp add: macro_at_def pair_macros)
  have rest: "yields M ((Id [CNPP, W ''NIL''], ?B) # seq_toks ?es @ [(RP, ?A)]) (seq_toks ?es @ [(RP, ?A)])"
    by (rule yields_object [OF nil body_Nil]) (simp add: yields_inert seq_toks_ok [OF ok(2)])
  have "yields M (paint ?B (paint ?A e) @ (Comma, ?B) # (Id [CNPP, W ''NIL''], ?B) # seq_toks ?es @ [(RP, ?A)])
      (paint ?B (paint ?A e) @ (Comma, ?B) # seq_toks ?es @ [(RP, ?A)])"
    using e(2) rest by (intro yields_inert_append yields_keep) (simp_all add: macro_at_def)
  then have "yields M ((Id [CNPP, W ''SEQ_TO_PAIR_''], ?A) # (LP, h \<union> ?A) # paint ?A e @ (RP, h' \<union> ?A) # seq_toks ?es @ [(RP, ?A)])
      (paint ?B (paint ?A e) @ (Comma, ?B) # seq_toks ?es @ [(RP, ?A)])"
    by (intro macro_call [where M = M, OF pair_macros(4) _ get_args_last [OF e1(1)],
          where bs = "[paint ?A e]" and bs' = "[paint ?A e]"])
      (use H e1 in \<open>simp_all add: bind_args_def\<close>)
  then have "yields M ((LP, ?A) # (Id [CNPP, W ''SEQ_TO_PAIR_''], ?A) # seq_toks (paint_elems ?A ((h, e, h') # es)) @ [(RP, ?A)])
      (pair_toks ?A (paint ?B (paint ?A e)) ?B ?es ?A)"
    unfolding pair_toks_def by (intro yields_keep) (simp_all add: macro_at_def paint_one)
  then have "yields M ((Id [CNPP, W ''SEQ_TO_PAIR''], H) # (LP, c) # seq_toks ((h, e, h') # es) @ [(RP, r)])
      (pair_toks ?A (paint ?B (paint ?A e)) ?B ?es ?A)"
    by (intro macro_call [where M = M, OF pair_macros(3) _ get_seq [OF ok(1)],
          where bs = "[seq_toks ((h, e, h') # es)]" and bs' = "[seq_toks ((h, e, h') # es)]"])
      (use H seq_inert [OF ok(1)] in \<open>simp_all add: bind_args_def paint_one\<close>)
  then show ?thesis unfolding paint_paint by blast
qed

text \<open>\<open>PAIR_FIRST\<close> and \<open>PAIR_SECOND\<close>: the argument is expanded, then taken apart.\<close>

lemma pair_pick:
  assumes m: "M i = Some (Function 1 False [[T (Id j)], [T LP], [P 0], [T RP]])"
      "M j = Some (Function 1 False [[T (Id k)], [P 0]])"
    and H: "i \<notin> H" "j \<notin> H" "i \<noteq> j"
    and X: "one_arg 0 X" "yields M X Y" "one_arg 0 Y" "inert M Y"
    and k: "\<And>K A. K \<subseteq> insert i (insert j H) \<Longrightarrow> \<exists>B. yields M ((Id k, K) # paint A Y) (paint B z)"
  shows "\<exists>B. yields M ((Id i, H) # (LP, c) # X @ [(RP, r)]) (paint B z)"
proof -
  let ?A = "insert i (H \<inter> r)"
  let ?B = "insert j ?A"
  obtain B where "yields M ((Id k, ?B) # paint ?B (paint ?A Y)) (paint B z)"
    using k [of ?B "?A \<union> ?B"] unfolding paint_paint by blast
  then have "yields M ((Id j, ?A) # (LP, ?A) # paint ?A Y @ [(RP, ?A)]) (paint B z)"
    using H X by (intro macro_call [where M = M, OF m(2) _ get_args_last, where bs = "[paint ?A Y]" and bs' = "[paint ?A Y]"])
      (simp_all add: bind_args_def yields_inert)
  then have "yields M ((Id i, H) # (LP, c) # X @ [(RP, r)]) (paint B z)"
    by (intro macro_call [where M = M, OF m(1) _ get_args_last [OF X(1)], where bs = "[X]" and bs' = "[Y]"])
      (use H X in \<open>simp_all add: bind_args_def\<close>)
  then show ?thesis by blast
qed

lemma FIRST_ARG_call:
  assumes "one_arg 0 e" "inert M e" "list_all (elem_ok M) es" "[CNPP, W ''FIRST_ARG''] \<notin> K"
  shows "\<exists>B. yields M ((Id [CNPP, W ''FIRST_ARG''], K) # pair_toks c1 e c2 es c3) (paint B e)"
proof
  show "yields M ((Id [CNPP, W ''FIRST_ARG''], K) # pair_toks c1 e c2 es c3) (paint (insert [CNPP, W ''FIRST_ARG''] (K \<inter> c3)) e)"
    unfolding pair_toks_def
    by (intro macro_call [where M = M, OF pair_macros(10) _ pair_ok(3) [OF assms(1-3)],
          where bs = "[e, seq_toks es]" and bs' = "[e, seq_toks es]"])
      (use assms seq_inert in \<open>simp_all add: bind_args_def yields_inert\<close>)
qed

lemma SECOND_ARG_call:
  assumes "one_arg 0 e" "inert M e" "list_all (elem_ok M) es" "[CNPP, W ''SECOND_ARG''] \<notin> K"
  shows "\<exists>B. yields M ((Id [CNPP, W ''SECOND_ARG''], K) # pair_toks c1 e c2 es c3) (paint B (seq_toks es))"
proof
  show "yields M ((Id [CNPP, W ''SECOND_ARG''], K) # pair_toks c1 e c2 es c3)
      (paint (insert [CNPP, W ''SECOND_ARG''] (K \<inter> c3)) (seq_toks es))"
    unfolding pair_toks_def
    by (intro macro_call [where M = M, OF pair_macros(11) _ pair_ok(3) [OF assms(1-3)],
          where bs = "[e, seq_toks es, []]" and bs' = "[e, seq_toks es, []]"])
      (use assms seq_inert seq_toks_ok in \<open>simp_all add: bind_args_def yields_inert yields_Nil\<close>)
qed

lemma head_tail:
  assumes x: "list_all (elem_ok M) ((h, e, h') # es)" and H: "H \<inter> pairing = {}"
  shows SEQ_HEAD_call: "\<exists>B. yields M ((Id [CNPP, W ''SEQ_HEAD''], H) # (LP, c) # seq_toks ((h, e, h') # es) @ [(RP, r)])
      (paint B e)"
    and SEQ_TAIL_call: "\<exists>B. yields M ((Id [CNPP, W ''SEQ_TAIL''], H) # (LP, c) # seq_toks ((h, e, h') # es) @ [(RP, r)])
      (paint B (seq_toks es))"
proof -
  let ?s = "(h, e, h') # es"
  have ok: "one_arg 0 e" "inert M e" "list_all (elem_ok M) es" using x by (simp_all add: elem_ok_def)
  have pick: "\<exists>B. yields M ((Id i, H) # (LP, c) # seq_toks ?s @ [(RP, r)]) (paint B z)"
    if m: "M i = Some (Function 1 False [[T (Id i')], [T LP], [T (Id [CNPP, W ''SEQ_TO_PAIR''])], [T LP], [P 0], [T RP], [T RP]])"
        "M i' = Some (Function 1 False [[T (Id j)], [T LP], [P 0], [T RP]])"
        "M j = Some (Function 1 False [[T (Id k)], [P 0]])"
      and d: "distinct [i, i', j, k, [CNPP, W ''SEQ_TO_PAIR'']]" "{i, i', j, k} \<subseteq> pairing" "i \<noteq> [CNPP, W ''SEQ_TO_PAIR_'']" "i \<noteq> [CNPP, W ''NIL'']"
      and last: "\<And>K A c1 c2 B c3. k \<notin> K \<Longrightarrow> \<exists>B'. yields M ((Id k, K) # pair_toks c1 (paint A e) c2 (paint_elems B es) c3) (paint B' z)"
    for i i' j k z
  proof -
    let ?A = "insert i (H \<inter> r)"
    let ?X = "(Id [CNPP, W ''SEQ_TO_PAIR''], ?A) # (LP, ?A) # paint ?A (seq_toks ?s) @ [(RP, ?A)]"
    have notin: "i \<notin> H" "i' \<notin> H" "j \<notin> H" "k \<notin> H" using H d(2) by blast+
    have sp: "[CNPP, W ''SEQ_TO_PAIR''] \<notin> H" "[CNPP, W ''SEQ_TO_PAIR_''] \<notin> H" "[CNPP, W ''NIL''] \<notin> H"
      using H by (auto simp: pairing_def)
    have A: "?A \<inter> {[CNPP, W ''SEQ_TO_PAIR''], [CNPP, W ''SEQ_TO_PAIR_''], [CNPP, W ''NIL'']} = {}"
      "i' \<notin> ?A" "j \<notin> ?A" using notin sp d(1,3,4) by auto
    have s: "paint ?A (seq_toks ?s) = seq_toks ((h \<union> ?A, paint ?A e, h' \<union> ?A) # paint_elems ?A es)" by (simp add: paint_one)
    have e: "one_arg 0 (paint ?A e)" "inert M (paint ?A e)" "list_all (elem_ok M) (paint_elems ?A es)" using ok by simp_all
    have "\<exists>A' c1 c2 B c3. yields M ?X (pair_toks c1 (paint A' (paint ?A e)) c2 (paint_elems B (paint_elems ?A es)) c3)"
      unfolding s by (rule SEQ_TO_PAIR_call [OF e A(1)])
    then obtain A' c1 c2 B c3 where p: "yields M ?X (pair_toks c1 (paint A' (paint ?A e)) c2 (paint_elems B (paint_elems ?A es)) c3)"
      by (elim exE) (rule that)
    have "one_arg 0 (paint ?A (seq_toks ?s))" unfolding one_arg_paint by (rule seq_toks_ok [OF x, THEN conjunct1])
    from one_arg_parens [OF one_arg_balanced [OF this], of ?A ?A] have X: "one_arg 0 ?X" by (simp del: paint_seq_toks)
    have Y: "one_arg 0 (paint A' (paint ?A e))" "inert M (paint A' (paint ?A e))"
      "list_all (elem_ok M) (paint_elems B (paint_elems ?A es))" using ok by simp_all
    have k: "\<exists>B'. yields M ((Id k, K) # paint D (pair_toks c1 (paint A' (paint ?A e)) c2 (paint_elems B (paint_elems ?A es)) c3)) (paint B' z)"
      if "K \<subseteq> insert i' (insert j ?A)" for K D
    proof -
      have "k \<notin> K" using that notin d(1) by auto
      then show ?thesis unfolding paint_pair paint_paint paint_elems_paint by (rule last)
    qed
    have "i' \<noteq> j" using d(1) by simp
    from pair_pick [OF m(2,3) A(2,3) this X p pair_ok(1,2) [OF Y] k]
    obtain B' where B': "yields M ((Id i', ?A) # (LP, ?A) # ?X @ [(RP, ?A)]) (paint B' z)" by blast
    from notin(1) have "yields M ((Id i, H) # (LP, c) # seq_toks ?s @ [(RP, r)]) (paint B' z)"
      by (intro macro_call [where M = M, OF m(1) _ get_seq [OF x], where bs = "[seq_toks ?s]" and bs' = "[seq_toks ?s]"])
        (use B' seq_inert [OF x] in \<open>simp_all add: bind_args_def\<close>)
    then show ?thesis by blast
  qed
  have first: "\<exists>B'. yields M ((Id [CNPP, W ''FIRST_ARG''], K) # pair_toks c1 (paint A e) c2 (paint_elems B es) c3) (paint B' e)"
    if "[CNPP, W ''FIRST_ARG''] \<notin> K" for K A c1 c2 B c3
    using FIRST_ARG_call [of "paint A e" "paint_elems B es" K c1 c2 c3] that ok unfolding paint_paint by auto
  have second: "\<exists>B'. yields M ((Id [CNPP, W ''SECOND_ARG''], K) # pair_toks c1 (paint A e) c2 (paint_elems B es) c3)
      (paint B' (seq_toks es))" if "[CNPP, W ''SECOND_ARG''] \<notin> K" for K A c1 c2 B c3
    using SECOND_ARG_call [of "paint A e" "paint_elems B es" K c1 c2 c3] that ok
    unfolding paint_seq_toks paint_elems_paint by auto
  show "\<exists>B. yields M ((Id [CNPP, W ''SEQ_HEAD''], H) # (LP, c) # seq_toks ?s @ [(RP, r)]) (paint B e)"
    by (rule pick [OF pair_macros(1,6,7) _ _ _ _ first]) (simp_all add: pairing_def)
  show "\<exists>B. yields M ((Id [CNPP, W ''SEQ_TAIL''], H) # (LP, c) # seq_toks ?s @ [(RP, r)]) (paint B (seq_toks es))"
    by (rule pick [OF pair_macros(2,8,9) _ _ _ _ second]) (simp_all add: pairing_def)
qed

end

section \<open>The loop\<close>

abbreviation each_n :: "nat \<Rightarrow> ident" where
  "each_n k \<equiv> [CNPP, W ''D'', N 1, W ''_SEQ_FOR_EACH_'', N k]"

definition applying :: "ident set" where
  "applying = {[CNPP, W ''APPLY_TUPLE''], [CNPP, W ''APPLY_TUPLE_I'']}"

definition later :: "nat \<Rightarrow> ident set" where
  "later k = {each_n j |j. k < j}"

definition elem_text :: "elem \<Rightarrow> pp list" where
  "elem_text x = map fst (fst (snd x))"

lemma elem_text_simps [simp]:
  "elem_text (h, e, h') = map fst e"
  "map elem_text (paint_elems H es) = map elem_text es"
  by (auto simp: elem_text_def paint_elems_def paint_def)

lemma map_fst_paint [simp]: "map fst (paint H ts) = map fst ts"
  by (auto simp: paint_def)

text \<open>
  The tokens of \<open>e\<close> behind the macro \<open>m\<close> expand to the text \<open>out\<close>, wherever the tokens come from
  and whichever of the names \<open>F\<close> are being expanded.
\<close>

definition applies :: "(ident \<Rightarrow> macro option) \<Rightarrow> ident set \<Rightarrow> ident \<Rightarrow> pp list \<Rightarrow> pp list \<Rightarrow> bool" where
  "applies M F m e out \<longleftrightarrow> (\<forall>H ts. H \<subseteq> F \<and> map fst ts = e \<longrightarrow>
     (\<exists>o'. yields M ((Id m, H) # ts) o' \<and> map fst o' = out))"

text \<open>Every name but that of an object-like macro stays when it stands alone.\<close>

definition stays :: "(ident \<Rightarrow> macro option) \<Rightarrow> ident \<Rightarrow> bool" where
  "stays M m \<longleftrightarrow> (case M m of Some (Object b) \<Rightarrow> False | _ \<Rightarrow> True)"

lemma yields_alone:
  assumes "stays M m" shows "yields M [(Id m, H)] [(Id m, H)]"
proof (cases "macro_at M (Id m, H)")
  case None
  then show ?thesis by (rule yields_keep [OF _ yields_Nil])
next
  case (Some im)
  then obtain k v b where "macro_at M (Id m, H) = Some (m, Function k v b)"
    using assms by (cases "snd im") (auto simp: macro_at_def stays_def split: if_splits)
  then show ?thesis by (rule yields_no_call [OF _ yields_Nil]) simp
qed

lemma env_each:
  "pp_env [CNPP, W ''APPLY_TUPLE''] = Some (Function 3 False [[T (Id [CNPP, W ''APPLY_TUPLE_I''])], [T LP],
     [P 0], [T Comma], [P 1], [T Comma], [P 2], [T RP]])"
  "pp_env [CNPP, W ''APPLY_TUPLE_I''] = Some (Function 3 False [[P 0], [P 2]])"
  "pp_env (each_n 0) = Some (Function 4 False [])"
  by (rule pp_env_hand, code_simp)+

context headers
begin

lemma each_macros:
  "M [CNPP, W ''APPLY_TUPLE''] = Some (Function 3 False [[T (Id [CNPP, W ''APPLY_TUPLE_I''])], [T LP],
     [P 0], [T Comma], [P 1], [T Comma], [P 2], [T RP]])"
  "M [CNPP, W ''APPLY_TUPLE_I''] = Some (Function 3 False [[P 0], [P 2]])"
  "M (each_n 0) = Some (Function 4 False [])"
  "n < 512 \<Longrightarrow> M (each_n (Suc n)) = Some (snd (for_each 1 (Suc n) n))"
  unfolding internal env_each by (simp_all add: env_FOR_EACH)

lemma APPLY_TUPLE_call:
  assumes m: "stays M m" "stays M d"
    and Ha: "Ha \<inter> applying = {}" "Ha \<union> Hm \<union> applying \<subseteq> F"
    and X: "one_arg 0 X" "yields M X Y" "one_arg 0 Y" "inert M Y" "applies M F m (map fst Y) out"
  shows "\<exists>o'. yields M ((Id [CNPP, W ''APPLY_TUPLE''], Ha) # (LP, c) # (Id m, Hm) # (Comma, c1) # (Id d, Hd) #
      (Comma, c2) # X @ [(RP, r)]) o' \<and> map fst o' = out"
proof -
  let ?A = "insert [CNPP, W ''APPLY_TUPLE''] (Ha \<inter> r)"
  let ?B = "insert [CNPP, W ''APPLY_TUPLE_I''] ?A"
  have "Hm \<union> ?A \<union> ?B \<subseteq> F" using Ha(2) by (auto simp: applying_def)
  moreover have "map fst (paint ?B (paint ?A Y)) = map fst Y" by simp
  ultimately obtain o' where o': "yields M ((Id m, Hm \<union> ?A \<union> ?B) # paint ?B (paint ?A Y)) o'" "map fst o' = out"
    using X(5) unfolding applies_def by blast
  have three: "get_args 0 ((Id m, Hm') # (Comma, c1') # (Id d, Hd') # (Comma, c2') # Z @ [(RP, r')]) =
      Some ([[(Id m, Hm')], [(Id d, Hd')], Z], r', [])" if "one_arg 0 Z" for Hm' c1' Hd' c2' Z r'
    using get_args_last [OF that, of r' "[]"] by (simp add: cons_first_def new_arg_def)
  have Y: "one_arg 0 (paint ?A Y)" using X(3) by simp
  note alone = yields_alone [OF m(1)] yields_alone [OF m(2)]
  have "yields M ((Id [CNPP, W ''APPLY_TUPLE_I''], ?A) # (LP, ?A) # (Id m, Hm \<union> ?A) # (Comma, ?A) # (Id d, Hd \<union> ?A) #
      (Comma, ?A) # paint ?A Y @ [(RP, ?A)]) o'"
    by (intro macro_call [where M = M, OF each_macros(2) _ three [OF Y],
          where bs = "[[(Id m, Hm \<union> ?A)], [(Id d, Hd \<union> ?A)], paint ?A Y]"
            and bs' = "[[(Id m, Hm \<union> ?A)], [(Id d, Hd \<union> ?A)], paint ?A Y]"])
      (use Ha o'(1) X(4) alone in \<open>simp_all add: applying_def bind_args_def yields_inert\<close>)
  then have "yields M ((Id [CNPP, W ''APPLY_TUPLE''], Ha) # (LP, c) # (Id m, Hm) # (Comma, c1) # (Id d, Hd) #
      (Comma, c2) # X @ [(RP, r)]) o'"
    by (intro macro_call [where M = M, OF each_macros(1) _ three [OF X(1)],
          where bs = "[[(Id m, Hm)], [(Id d, Hd)], X]" and bs' = "[[(Id m, Hm)], [(Id d, Hd)], Y]"])
      (use Ha X(2) alone in \<open>simp_all add: applying_def bind_args_def\<close>)
  with o'(2) show ?thesis by blast
qed

end

text \<open>The arguments of the iteration macros.\<close>

definition each_args :: "ident set \<Rightarrow> ident set \<Rightarrow> ident \<Rightarrow> ident set \<Rightarrow> ident set \<Rightarrow> ident \<Rightarrow> ident set \<Rightarrow> ident set \<Rightarrow>
  ptok list \<Rightarrow> ident set \<Rightarrow> ptok list" where
  "each_args Ha c1 m Hm c2 d Hd c3 X r = (Id [CNPP, W ''APPLY_TUPLE''], Ha) # (Comma, c1) # (Id m, Hm) # (Comma, c2) #
     (Id d, Hd) # (Comma, c3) # X @ [(RP, r)]"

lemma get_each_args:
  "one_arg 0 X \<Longrightarrow> get_args 0 (each_args Ha c1 m Hm c2 d Hd c3 X r) =
    Some ([[(Id [CNPP, W ''APPLY_TUPLE''], Ha)], [(Id m, Hm)], [(Id d, Hd)], X], r, [])"
  using get_args_last [of X r "[]"] by (simp add: each_args_def cons_first_def new_arg_def)

lemma disjoint_Un: "G \<inter> S = {} \<Longrightarrow> L \<subseteq> R \<Longrightarrow> R \<inter> S = {} \<Longrightarrow> (G \<union> L) \<inter> S = {}"
  by blast

lemma later_facts:
  "later n \<subseteq> range each_n" "each_n n \<notin> later n" "later n = insert (each_n (Suc n)) (later (Suc n))"
  "range each_n \<inter> pairing = {}" "range each_n \<inter> applying = {}"
  by (auto simp: later_def pairing_def applying_def)

context headers
begin

lemma each_call:
  assumes i: "M i = Some (Function 4 False b)" "plain 4 b" "i \<notin> H"
    and m: "stays M m" "stays M d" and X: "one_arg 0 X" "yields M X Y"
    and out: "yields M (paint (insert i (H \<inter> r)) (fill [[(Id [CNPP, W ''APPLY_TUPLE''], Ha)], [(Id m, Hm)], [(Id d, Hd)], Y] b)) out"
  shows "yields M ((Id i, H) # (LP, c) # each_args Ha c1 m Hm c2 d Hd c3 X r) out"
proof -
  have "stays M [CNPP, W ''APPLY_TUPLE'']" by (simp add: stays_def each_macros)
  note alone = yields_alone [OF m(1)] yields_alone [OF m(2)] yields_alone [OF this]
  show ?thesis
    by (rule macro_call [where M = M, OF i(1) i(3) get_each_args [OF X(1)],
        where bs = "[[(Id [CNPP, W ''APPLY_TUPLE''], Ha)], [(Id m, Hm)], [(Id d, Hd)], X]"
          and bs' = "[[(Id [CNPP, W ''APPLY_TUPLE''], Ha)], [(Id m, Hm)], [(Id d, Hd)], Y]"])
      (use i(2) alone X(2) out in \<open>simp_all add: bind_args_def numeral_eq_Suc\<close>)
qed

lemma each_loop:
  assumes m: "stays M m" "stays M d"
    and G: "G \<inter> (pairing \<union> applying \<union> range each_n) = {}" "G \<union> applying \<union> range each_n \<subseteq> F"
  shows "length es = n \<Longrightarrow> list_all (elem_ok M) es \<Longrightarrow> n \<le> 512 \<Longrightarrow> list_all2 (applies M F m) (map elem_text es) outs \<Longrightarrow>
    one_arg 0 X \<Longrightarrow> yields M X (seq_toks es) \<Longrightarrow> each_n n \<notin> H \<Longrightarrow> H \<inter> r \<subseteq> G \<union> later n \<Longrightarrow>
    Ha \<subseteq> G \<union> later n \<Longrightarrow> Hm \<subseteq> G \<union> later n \<Longrightarrow>
    \<exists>o'. yields M ((Id (each_n n), H) # (LP, c) # each_args Ha c1 m Hm c2 d Hd c3 X r) o' \<and> map fst o' = concat outs"
proof (induction n arbitrary: es outs X H r Ha Hm Hd c c1 c2 c3)
  case 0
  then have "outs = []" by simp
  moreover have "yields M ((Id (each_n 0), H) # (LP, c) # each_args Ha c1 m Hm c2 d Hd c3 X r) []"
    using 0 by (intro each_call [OF each_macros(3) _ _ m]) (simp_all add: yields_Nil)
  ultimately show ?case by auto
next
  case (Suc n)
  then obtain h e h' es' where es: "es = (h, e, h') # es'" by (cases es) auto
  from Suc.prems(4) obtain out outs' where outs: "outs = out # outs'" "applies M F m (map fst e) out"
    "list_all2 (applies M F m) (map elem_text es') outs'" unfolding es by (auto simp: list_all2_Cons1)
  have n: "length es' = n" "n < 512" using Suc.prems(1,3) es by simp_all
  let ?A = "insert (each_n (Suc n)) (H \<inter> r)"
  have A: "?A \<subseteq> G \<union> later n" using Suc.prems(8) unfolding later_facts(3) [of n] by blast
  have Ha: "Ha \<subseteq> G \<union> later n" "Hm \<subseteq> G \<union> later n" using Suc.prems(9,10) unfolding later_facts(3) [of n] by blast+
  have G3: "G \<inter> pairing = {}" "G \<inter> applying = {}" "each_n n \<notin> G" using G(1) by blast+
  have free: "(G \<union> later n) \<inter> pairing = {}" "(G \<union> later n) \<inter> applying = {}" "each_n n \<notin> G \<union> later n"
    using disjoint_Un [OF G3(1) later_facts(1,4)] disjoint_Un [OF G3(2) later_facts(1,5)] G3(3) later_facts(2) by simp_all
  define A where "A = ?A"
  have A: "A \<subseteq> G \<union> later n" using A unfolding A_def .
  have sub: "Ha \<union> A \<subseteq> G \<union> later n" "Hm \<union> A \<subseteq> G \<union> later n" "A \<inter> A \<subseteq> G \<union> later n" using A Ha by blast+
  have F: "Ha \<union> A \<union> (Hm \<union> A) \<union> applying \<subseteq> F" using sub G(2) later_facts(1) [of n] by blast
  have disj: "(Ha \<union> A) \<inter> applying = {}" "A \<inter> pairing = {}" "each_n n \<notin> A" using sub(1) A free by blast+
  have seq: "paint A (seq_toks es) = seq_toks ((h \<union> A, paint A e, h' \<union> A) # paint_elems A es')"
    by (simp add: es paint_one)
  have e: "one_arg 0 e" "inert M e" "list_all (elem_ok M) es'" using Suc.prems(2) by (simp_all add: es elem_ok_def)
  have ok: "list_all (elem_ok M) ((h \<union> A, paint A e, h' \<union> A) # paint_elems A es')"
  proof -
    have "elem_ok M (h \<union> A, paint A e, h' \<union> A)" using e(1,2) by (simp add: elem_ok_def)
    then show ?thesis using e(3) by simp
  qed
  define XH where "XH = (Id [CNPP, W ''SEQ_HEAD''], A) # (LP, A) # paint A (seq_toks es) @ [(RP, A)]"
  define XT where "XT = (Id [CNPP, W ''SEQ_TAIL''], A) # (LP, A) # paint A (seq_toks es) @ [(RP, A)]"
  have "one_arg 0 (paint A (seq_toks es))"
    unfolding one_arg_paint by (rule seq_toks_ok [OF Suc.prems(2), THEN conjunct1])
  from one_arg_parens [OF one_arg_balanced [OF this], of A A] have one: "one_arg 0 XH" "one_arg 0 XT"
    by (simp_all add: XH_def XT_def del: paint_seq_toks)
  obtain B where head: "yields M XH (paint B (paint A e))"
    using SEQ_HEAD_call [OF ok disj(2)] unfolding XH_def seq by blast
  obtain C where tail: "yields M XT (seq_toks (paint_elems C (paint_elems A es')))"
    using SEQ_TAIL_call [OF ok disj(2), of A A] unfolding XT_def seq [symmetric] by (auto simp: paint_seq_toks [symmetric] simp del: paint_seq_toks)
  have Y: "one_arg 0 (paint B (paint A e))" "inert M (paint B (paint A e))"
    "applies M F m (map fst (paint B (paint A e))) out" using e outs(2) by simp_all
  from APPLY_TUPLE_call [OF m disj(1) F one(1) head Y] obtain o1 where
    o1: "yields M ((Id [CNPP, W ''APPLY_TUPLE''], Ha \<union> A) # (LP, A) # (Id m, Hm \<union> A) # (Comma, A) # (Id d, Hd \<union> A) #
      (Comma, A) # XH @ [(RP, A)]) o1" "map fst o1 = out" by blast
  have "\<exists>o2. yields M ((Id (each_n n), A) # (LP, A) # each_args (Ha \<union> A) A m (Hm \<union> A) A d (Hd \<union> A) A XT A) o2 \<and>
      map fst o2 = concat outs'"
    by (rule Suc.IH [OF _ _ _ _ one(2) tail disj(3) sub(3,1,2)]) (use n e(3) outs(3) in simp_all)
  then obtain o2 where o2: "yields M ((Id (each_n n), A) # (LP, A) # each_args (Ha \<union> A) A m (Hm \<union> A) A d (Hd \<union> A) A XT A) o2"
    "map fst o2 = concat outs'" by blast
  have "paint A (fill [[(Id [CNPP, W ''APPLY_TUPLE''], Ha)], [(Id m, Hm)], [(Id d, Hd)], seq_toks es] body) =
      ((Id [CNPP, W ''APPLY_TUPLE''], Ha \<union> A) # (LP, A) # (Id m, Hm \<union> A) # (Comma, A) # (Id d, Hd \<union> A) #
        (Comma, A) # XH @ [(RP, A)]) @
      (Id (each_n n), A) # (LP, A) # each_args (Ha \<union> A) A m (Hm \<union> A) A d (Hd \<union> A) A XT A"
    if "snd (for_each 1 (Suc n) n) = Function 4 False body" for body
    using that by (auto simp: for_each_def XH_def XT_def each_args_def numeral_eq_Suc)
  note fill = this
  obtain body where body: "snd (for_each 1 (Suc n) n) = Function 4 False body" "plain 4 body"
    by (simp add: for_each_def)
  have "yields M ((Id (each_n (Suc n)), H) # (LP, c) # each_args Ha c1 m Hm c2 d Hd c3 X r) (o1 @ o2)"
  proof (rule each_call [OF _ body(2) Suc.prems(7) m Suc.prems(5,6)])
    show "M (each_n (Suc n)) = Some (Function 4 False body)" using each_macros(4) [OF n(2)] body(1) by simp
    show "yields M (paint ?A (fill [[(Id [CNPP, W ''APPLY_TUPLE''], Ha)], [(Id m, Hm)], [(Id d, Hd)], seq_toks es] body)) (o1 @ o2)"
      unfolding A_def [symmetric] fill [OF body(1)] by (rule yields_append [OF o1(1) o2(1)]) simp
  qed
  moreover have "map fst (o1 @ o2) = concat outs" using o1(2) o2(2) outs(1) by simp
  ultimately show ?case by blast
qed

end

section \<open>The entry\<close>

definition entering :: "ident set" where
  "entering = {[W ''CN_PP_FOR_EACH_TUPLE''], [CNPP, W ''FOR_EACH_TUPLE''], [CNPP, W ''SEQ_FOR_EACH_TUPLE''],
     [CNPP, W ''D'', N 1, W ''_SEQ_FOR_EACH_TUPLE''], [CNPP, W ''D'', N 1, W ''_SEQ_FOR_EACH'']}"

text \<open>The names that are being expanded while the macro is applied.\<close>

definition for_each_names :: "ident set" where
  "for_each_names = entering \<union> applying \<union> range each_n"

lemma env_entry:
  "pp_env [CNPP, W ''D'', N 1, W ''_SEQ_FOR_EACH''] = Some (Function 4 False [[T (Id [CNPP, W ''CAT''])],
     [T LP], [T (Id [CNPP, W ''D'', N 1, W ''_SEQ_FOR_EACH_''])], [T Comma], [T (Id [CNPP, W ''SEQ_SIZE''])],
     [T LP], [P 3], [T RP], [T RP], [T LP], [P 0], [T Comma], [P 1], [T Comma], [P 2], [T Comma], [P 3], [T RP]])"
  "pp_env [CNPP, W ''D'', N 1, W ''_SEQ_FOR_EACH_TUPLE''] = Some (Function 3 False
     [[T (Id [CNPP, W ''D'', N 1, W ''_SEQ_FOR_EACH''])], [T LP], [T (Id [CNPP, W ''APPLY_TUPLE''])],
      [T Comma], [P 0], [T Comma], [P 1], [T Comma], [P 2], [T RP]])"
  "pp_env [CNPP, W ''SEQ_FOR_EACH_TUPLE''] = Some (Object [[T (Id [CNPP, W ''D'', N 1, W ''_SEQ_FOR_EACH_TUPLE''])]])"
  "pp_env [CNPP, W ''FOR_EACH_TUPLE''] = Some (Function 2 False [[T (Id [CNPP, W ''SEQ_FOR_EACH_TUPLE''])],
     [T LP], [P 0], [T Comma], [T (Id [W ''_''])], [T Comma], [P 1], [T RP]])"
  "pp_env [W ''CN_PP_FOR_EACH_TUPLE''] = Some (Function 2 False [[T (Id [CNPP, W ''FOR_EACH_TUPLE''])],
     [T LP], [P 0], [T Comma], [P 1], [T RP]])"
  by (rule pp_env_hand, code_simp)+

lemma env_each_prefix: "pp_env [CNPP, W ''D'', N 1, W ''_SEQ_FOR_EACH_''] = None"
proof -
  have "map_of hand_macros [CNPP, W ''D'', N 1, W ''_SEQ_FOR_EACH_''] = None" by code_simp
  moreover have "map_of (concat (map php_iter [0..<n])) [CNPP, W ''D'', N 1, W ''_SEQ_FOR_EACH_''] = None" for n
    by (induction n) (simp_all add: php_iter_eq shapes map_add_def)
  ultimately show ?thesis
    using pp_env_iter by (simp add: iterator_table_eq php_output_def php_limit_def del: map_of_append)
qed

context headers
begin

lemma entry_macros:
  "M [CNPP, W ''D'', N 1, W ''_SEQ_FOR_EACH''] = Some (Function 4 False [[T (Id [CNPP, W ''CAT''])],
     [T LP], [T (Id [CNPP, W ''D'', N 1, W ''_SEQ_FOR_EACH_''])], [T Comma], [T (Id [CNPP, W ''SEQ_SIZE''])],
     [T LP], [P 3], [T RP], [T RP], [T LP], [P 0], [T Comma], [P 1], [T Comma], [P 2], [T Comma], [P 3], [T RP]])"
  "M [CNPP, W ''D'', N 1, W ''_SEQ_FOR_EACH_TUPLE''] = Some (Function 3 False
     [[T (Id [CNPP, W ''D'', N 1, W ''_SEQ_FOR_EACH''])], [T LP], [T (Id [CNPP, W ''APPLY_TUPLE''])],
      [T Comma], [P 0], [T Comma], [P 1], [T Comma], [P 2], [T RP]])"
  "M [CNPP, W ''SEQ_FOR_EACH_TUPLE''] = Some (Object [[T (Id [CNPP, W ''D'', N 1, W ''_SEQ_FOR_EACH_TUPLE''])]])"
  "M [CNPP, W ''FOR_EACH_TUPLE''] = Some (Function 2 False [[T (Id [CNPP, W ''SEQ_FOR_EACH_TUPLE''])],
     [T LP], [P 0], [T Comma], [T (Id [W ''_''])], [T Comma], [P 1], [T RP]])"
  "M [W ''CN_PP_FOR_EACH_TUPLE''] = Some (Function 2 False [[T (Id [CNPP, W ''FOR_EACH_TUPLE''])],
     [T LP], [P 0], [T Comma], [P 1], [T RP]])"
  unfolding internal env_entry using extends [OF env_entry(5)] by simp_all

lemma each_start:
  assumes m: "stays M m" "stays M d"
    and G: "G \<inter> (pairing \<union> applying \<union> range each_n) = {}" "G \<union> applying \<union> range each_n \<subseteq> F" "G \<inter> counting = {}"
    and es: "list_all (elem_ok M) es" "length es < 512" "list_all2 (applies M F m) (map elem_text es) outs"
    and X: "one_arg 0 X" "yields M X (seq_toks es)"
    and H: "[CNPP, W ''D'', N 1, W ''_SEQ_FOR_EACH''] \<notin> H"
      "insert [CNPP, W ''D'', N 1, W ''_SEQ_FOR_EACH''] (H \<inter> r) \<subseteq> G" "Ha \<subseteq> G" "Hm \<subseteq> G"
  shows "\<exists>o'. yields M ((Id [CNPP, W ''D'', N 1, W ''_SEQ_FOR_EACH''], H) # (LP, c) # each_args Ha c1 m Hm c2 d Hd c3 X r) o' \<and>
    map fst o' = concat outs"
proof -
  define A where "A = insert [CNPP, W ''D'', N 1, W ''_SEQ_FOR_EACH''] (H \<inter> r)"
  let ?n = "length es" and ?es = "paint_elems A es"
  let ?rest = "(LP, A) # each_args (Ha \<union> A) A m (Hm \<union> A) A d (Hd \<union> A) A (seq_toks ?es) A"
  let ?size = "(Id [CNPP, W ''SEQ_SIZE''], A) # (LP, A) # seq_toks ?es @ [(RP, A)]"
  have A: "A \<subseteq> G" "A \<inter> counting = {}" "each_n ?n \<notin> A" using H(2) G unfolding A_def [symmetric] by blast+
  have free: "[CNPP, W ''CAT''] \<notin> A" "[CNPP, W ''CAT_I''] \<notin> A" using A(2) by (auto simp: counting_def)
  have ok: "list_all (elem_ok M) ?es" "length ?es = ?n" "length ?es \<le> 512" "map elem_text ?es = map elem_text es"
    using es by simp_all
  have arg: "one_arg 0 (seq_toks ?es)" "yields M (seq_toks ?es) (seq_toks ?es)"
    using seq_toks_ok [OF ok(1)] seq_inert [OF ok(1)] by simp_all
  obtain J where size: "yields M ?size [(Num ?n, J)]"
    using SEQ_SIZE_count [OF ok(1,3) A(2)] es(2) unfolding ok(2) size_token_def by auto
  have one: "one_arg 0 ?size" using one_arg_parens [OF one_arg_balanced [OF arg(1)], of A A] by simp
  have pre: "yields M [(Id [CNPP, W ''D'', N 1, W ''_SEQ_FOR_EACH_''], A)] [(Id [CNPP, W ''D'', N 1, W ''_SEQ_FOR_EACH_''], A)]"
    by (rule yields_inert) (simp add: internal env_each_prefix del: One_nat_def)
  have "\<exists>out. yields M ((Id [CNPP, W ''CAT''], A) # (LP, A) # [(Id [CNPP, W ''D'', N 1, W ''_SEQ_FOR_EACH_''], A)] @
      (Comma, A) # ?size @ (RP, A) # ?rest) out \<and> map fst out = concat outs"
  proof (rule CAT_call [OF free _ pre one size, where u = "Id (each_n ?n)"])
    fix K assume "K \<subseteq> A \<union> A \<union> {[CNPP, W ''CAT''], [CNPP, W ''CAT_I'']}"
    then have K: "each_n ?n \<notin> K" "K \<inter> A \<subseteq> G \<union> later ?n" using A by auto
    have sub: "Ha \<union> A \<subseteq> G \<union> later ?n" "Hm \<union> A \<subseteq> G \<union> later ?n" using A(1) H(3,4) by blast+
    show "\<exists>out. yields M ((Id (each_n ?n), K) # ?rest) out \<and> map fst out = concat outs"
      by (rule each_loop [OF m G(1,2) ok(2,1) _ _ arg K sub]) (use es in simp_all)
  qed simp_all
  then obtain out where out: "yields M ((Id [CNPP, W ''CAT''], A) # (LP, A) # [(Id [CNPP, W ''D'', N 1, W ''_SEQ_FOR_EACH_''], A)] @
      (Comma, A) # ?size @ (RP, A) # ?rest) out" "map fst out = concat outs" by blast
  have "yields M ((Id [CNPP, W ''D'', N 1, W ''_SEQ_FOR_EACH''], H) # (LP, c) # each_args Ha c1 m Hm c2 d Hd c3 X r) out"
    by (rule each_call [OF entry_macros(1) _ H(1) m X])
      (use out(1) in \<open>simp_all add: A_def [symmetric] each_args_def numeral_eq_Suc del: One_nat_def\<close>)
  with out(2) show ?thesis by blast
qed

lemma FOR_EACH_TUPLE_call:
  assumes m: "stays M m" "stays M [W ''_'']"
    and G: "(H \<union> Hm) \<inter> (pairing \<union> counting \<union> for_each_names) = {}" "H \<union> Hm \<union> for_each_names \<subseteq> F"
    and es: "list_all (elem_ok M) es" "length es < 512" "list_all2 (applies M F m) (map elem_text es) outs"
    and X: "one_arg 0 X" "yields M X (seq_toks es)"
  shows "\<exists>o'. yields M ((Id [W ''CN_PP_FOR_EACH_TUPLE''], H) # (LP, c) # (Id m, Hm) # (Comma, c1) # X @ [(RP, r)]) o' \<and>
    map fst o' = concat outs"
proof -
  let ?i = "[W ''CN_PP_FOR_EACH_TUPLE'']" and ?j = "[CNPP, W ''FOR_EACH_TUPLE'']"
    and ?k = "[CNPP, W ''SEQ_FOR_EACH_TUPLE'']" and ?l = "[CNPP, W ''D'', N 1, W ''_SEQ_FOR_EACH_TUPLE'']"
    and ?e = "[CNPP, W ''D'', N 1, W ''_SEQ_FOR_EACH'']"
  define A where "A = insert ?i (H \<inter> r)"
  define B where "B = insert ?j A"
  define C where "C = insert ?k B"
  define D where "D = insert ?l (C \<inter> B)"
  define K where "K = H \<union> Hm \<union> entering"
  note defs = A_def B_def C_def D_def
  have le: "A \<subseteq> K" "B \<subseteq> K" "C \<subseteq> K" "D \<subseteq> K" "insert ?e (D \<inter> D) \<subseteq> K" by (auto simp: defs K_def entering_def)
  have nin: "?i \<notin> H" "?j \<notin> A" "?k \<notin> B" "?l \<notin> C" "?e \<notin> D"
    using G(1) by (auto simp: defs for_each_names_def entering_def)
  have ent: "entering \<inter> (pairing \<union> applying \<union> range each_n) = {}" "entering \<inter> counting = {}"
    by (auto simp: entering_def pairing_def applying_def counting_def)
  have K: "K \<inter> (pairing \<union> applying \<union> range each_n) = {}" "K \<union> applying \<union> range each_n \<subseteq> F" "K \<inter> counting = {}"
    using G ent unfolding K_def for_each_names_def by blast+
  define es1 where "es1 = paint_elems A es"
  define es2 where "es2 = paint_elems B es1"
  define es3 where "es3 = paint_elems D es2"
  have ok: "list_all (elem_ok M) es1" "list_all (elem_ok M) es2" "list_all (elem_ok M) es3"
    "length es3 < 512" "list_all2 (applies M F m) (map elem_text es3) outs"
    using es by (simp_all add: es1_def es2_def es3_def)
  note seq = seq_toks_ok [THEN conjunct1] seq_inert
  note alone = yields_alone [OF m(1)] yields_alone [OF m(2)]
  let ?Hm = "Hm \<union> A \<union> B"
  have Hm: "?Hm \<union> D \<subseteq> K" using le by (auto simp: K_def)
  obtain out where out: "map fst out = concat outs"
    "yields M ((Id ?e, D) # (LP, D) # each_args D D m (?Hm \<union> D) D [W ''_''] (B \<union> D) D (seq_toks es3) D) out"
    using each_start [OF m K ok(3-5) seq(1) [OF ok(3)] seq(2) [OF ok(3)] nin(5) le(5,4) Hm, of D D D "B \<union> D" D] by blast
  have two: "get_args 0 ((Id m, Hm') # (Comma, c1') # Z @ [(RP, r')]) = Some ([[(Id m, Hm')], Z], r', [])"
    if "one_arg 0 Z" for Hm' c1' Z r'
    using get_args_last [OF that, of r' "[]"] by (simp add: cons_first_def new_arg_def)
  have three: "get_args 0 ((Id m, Hm') # (Comma, c1') # (Id [W ''_''], Hd') # (Comma, c2') # Z @ [(RP, r')]) =
      Some ([[(Id m, Hm')], [(Id [W ''_''], Hd')], Z], r', [])" if "one_arg 0 Z" for Hm' c1' Hd' c2' Z r'
    using get_args_last [OF that, of r' "[]"] by (simp add: cons_first_def new_arg_def)
  from out(2) have "yields M ((Id ?l, C) # (LP, B) # (Id m, ?Hm) # (Comma, B) # (Id [W ''_''], B) # (Comma, B) #
      seq_toks es2 @ [(RP, B)]) out"
    by (intro macro_call [where M = M, OF entry_macros(2) nin(4) three [OF seq(1) [OF ok(2)]],
          where bs = "[[(Id m, ?Hm)], [(Id [W ''_''], B)], seq_toks es2]"
            and bs' = "[[(Id m, ?Hm)], [(Id [W ''_''], B)], seq_toks es2]"])
      (simp_all add: bind_args_def alone seq(2) [OF ok(2)] D_def [symmetric] es3_def each_args_def del: One_nat_def)
  then have "yields M ((Id ?k, B) # (LP, B) # (Id m, ?Hm) # (Comma, B) # (Id [W ''_''], B) # (Comma, B) #
      seq_toks es2 @ [(RP, B)]) out"
    by (intro yields_object [OF _ body_tok [OF body_Nil]])
      (use nin(3) in \<open>simp_all add: macro_at_def entry_macros C_def del: One_nat_def\<close>)
  then have "yields M ((Id ?j, A) # (LP, A) # (Id m, Hm \<union> A) # (Comma, A) # seq_toks es1 @ [(RP, A)]) out"
    by (intro macro_call [where M = M, OF entry_macros(4) nin(2) two [OF seq(1) [OF ok(1)]],
          where bs = "[[(Id m, Hm \<union> A)], seq_toks es1]" and bs' = "[[(Id m, Hm \<union> A)], seq_toks es1]"])
      (simp_all add: bind_args_def alone seq(2) [OF ok(1)] B_def [symmetric] es2_def del: One_nat_def)
  then have "yields M ((Id ?i, H) # (LP, c) # (Id m, Hm) # (Comma, c1) # X @ [(RP, r)]) out"
    by (intro macro_call [where M = M, OF entry_macros(5) nin(1) two [OF X(1)],
          where bs = "[[(Id m, Hm)], X]" and bs' = "[[(Id m, Hm)], seq_toks es]"])
      (simp_all add: bind_args_def alone X(2) A_def [symmetric] es1_def)
  with out(1) show ?thesis by blast
qed

end

text \<open>
  C24: iteration. \<open>CN_PP_FOR_EACH_TUPLE(m, seq)\<close> applies the macro \<open>m\<close> to the elements of the
  sequence, one after the other, in any file that includes the headers and defines macros of its
  own: when the argument expands to a sequence of fewer than 512 elements, and \<open>m\<close> behind the
  tokens of each has a known expansion, the text of the whole is the concatenation of these.
\<close>

theorem CN_PP_FOR_EACH_TUPLE_maps:
  assumes M: "headers M" and m: "stays M m" "stays M [W ''_'']"
    and X: "one_arg 0 X" "yields M X (seq_toks es)"
    and es: "list_all (elem_ok M) es" "length es < 512"
    and each: "list_all2 (applies M for_each_names m) (map elem_text es) outs"
  shows "\<exists>n o'. expand M n ((Id [W ''CN_PP_FOR_EACH_TUPLE''], {}) # (LP, {}) # (Id m, {}) # (Comma, {}) # X @ [(RP, {})]) =
      Some o' \<and> map fst o' = concat outs"
proof -
  have "\<exists>o'. yields M ((Id [W ''CN_PP_FOR_EACH_TUPLE''], {}) # (LP, {}) # (Id m, {}) # (Comma, {}) # X @ [(RP, {})]) o' \<and>
      map fst o' = concat outs"
    by (rule headers.FOR_EACH_TUPLE_call [OF M m _ _ es each X]) simp_all
  then show ?thesis unfolding yields_def by blast
qed

text \<open>A name that is no macro, applied to two elements.\<close>

lemma word_not_iter: "pp_env (W w # i) = map_of hand_macros (W w # i)"
proof (cases "map_of hand_macros (W w # i)")
  case None
  have "map_of (concat (map php_iter [0..<n])) (W w # i) = None" for n
    by (induction n) (simp_all add: php_iter_eq shapes map_add_def)
  with None show ?thesis
    using pp_env_iter by (simp add: iterator_table_eq php_output_def php_limit_def del: map_of_append)
qed (simp add: pp_env_hand)

theorem CN_PP_FOR_EACH_TUPLE_maps_witness:
  "\<exists>n o'. expand pp_env n [(Id [W ''CN_PP_FOR_EACH_TUPLE''], {}), (LP, {}), (Id [W ''f''], {}), (Comma, {}),
      (LP, {}), (LP, {}), (Num 7, {}), (RP, {}), (RP, {}), (LP, {}), (LP, {}), (Num 8, {}), (RP, {}), (RP, {}), (RP, {})] =
      Some o' \<and> map fst o' = [Id [W ''f''], LP, Num 7, RP, Id [W ''f''], LP, Num 8, RP]"
proof -
  have none: "pp_env [W ''f''] = None" "pp_env [W ''_''] = None" unfolding word_not_iter by code_simp+
  let ?e = "\<lambda>n. ({}, [(LP, {}), (Num n, {}), (RP, {})], {}) :: elem"
  let ?es = "[?e 7, ?e 8]"
  have apply_f: "applies pp_env for_each_names [W ''f''] [LP, Num n, RP] [Id [W ''f''], LP, Num n, RP]" for n
    unfolding applies_def
  proof (intro allI impI, elim conjE)
    fix H and ts :: "ptok list" assume ts: "map fst ts = [LP, Num n, RP]"
    then have "yields pp_env ((Id [W ''f''], H) # ts) ((Id [W ''f''], H) # ts)"
      using none by (intro yields_inert) (auto simp: inert_def)
    moreover have "map fst ((Id [W ''f''], H) # ts) = [Id [W ''f''], LP, Num n, RP]" by (simp only: list.map fst_conv ts)
    ultimately show "\<exists>o'. yields pp_env ((Id [W ''f''], H) # ts) o' \<and> map fst o' = [Id [W ''f''], LP, Num n, RP]"
      by (intro exI conjI)
  qed
  have ok: "list_all (elem_ok pp_env) ?es" by (simp add: elem_ok_def)
  note seq = seq_toks_ok [OF ok, THEN conjunct1] both_headers.seq_inert [OF ok]
  have "list_all2 (applies pp_env for_each_names [W ''f'']) (map elem_text ?es)
      [[Id [W ''f''], LP, Num 7, RP], [Id [W ''f''], LP, Num 8, RP]]" using apply_f by simp
  from CN_PP_FOR_EACH_TUPLE_maps [OF both_headers.headers_axioms _ _ seq ok _ this] none
  show ?thesis by (simp add: stays_def)
qed

end
