(* ===== verification/CtrlService.thy ===== *)
theory CtrlService
  imports ForEach CtrlServer
begin

text \<open>
  The method table of the control service (\<open>control/ctrl_service.h\<close>, \<open>control/ctrl_service.cpp\<close>,
  the index sequences of \<open>common/cplusplus_14.h\<close>, \<open>for_each_i\<close> of \<open>control/ctrl_server.h\<close>): the
  macros of the header as data, and what the stub of the client and the service of the server
  make of the names they expand to. gRPC delivers a call to the method registered under its name.
\<close>

section \<open>The macros of the header\<close>

definition ctrl_macros :: macro_defs where
  "ctrl_macros =
    [([W ''CTRL_METHOD_SEQ''], Object
       [[T (Id [W ''CN_PP_MAKE_TUPLE_SEQ''])], [T LP], [T (Id [W ''LoadServer''])], [T RP],
        [T (Id [W ''CN_PP_MAKE_TUPLE_SEQ''])], [T LP], [T (Id [W ''Barrier''])], [T RP],
        [T (Id [W ''CN_PP_MAKE_TUPLE_SEQ''])], [T LP], [T (Id [W ''PushKV''])], [T RP],
        [T (Id [W ''CN_PP_MAKE_TUPLE_SEQ''])], [T LP], [T (Id [W ''ClearKV''])], [T RP],
        [T (Id [W ''CN_PP_MAKE_TUPLE_SEQ''])], [T LP], [T (Id [W ''PullKV''])], [T RP]]),
     ([W ''CatRequest''], Function 1 False [[P 0, T (Id [W ''Request''])], [T Comma]]),
     ([W ''CatReqponse''], Function 1 False [[P 0, T (Id [W ''Response''])], [T Comma]]),
     ([W ''CatEnum''], Function 1 False [[T (Id [W ''k'']), P 0], [T Comma]]),
     ([W ''CatName''], Function 1 False
       [[T (Lit ''/comm_network.CtrlService/'')], [T (Id [W ''CN_PP_STRINGIZE''])], [T LP], [P 0], [T RP], [T Comma]]),
     ([W ''MAKE_META_DATA''], Function 0 False
       [[T (Id [W ''enum''])], [T (Id [W ''class''])], [T (Id [W ''CtrlMethod''])], [T (Punct ''{'')],
        [T (Id [W ''CN_PP_FOR_EACH_TUPLE''])], [T LP], [T (Id [W ''CatEnum''])], [T Comma],
        [T (Id [W ''CTRL_METHOD_SEQ''])], [T RP], [T (Punct ''}'')], [T (Punct '';'')],
        [T (Id [W ''static''])], [T (Id [W ''const''])], [T (Id [W ''char''])], [T (Punct ''*'')],
        [T (Id [W ''g_method_name''])], [T (Punct ''['')], [T (Punct '']'')], [T (Punct ''='')], [T (Punct ''{'')],
        [T (Id [W ''CN_PP_FOR_EACH_TUPLE''])], [T LP], [T (Id [W ''CatName''])], [T Comma],
        [T (Id [W ''CTRL_METHOD_SEQ''])], [T RP], [T (Punct ''}'')], [T (Punct '';'')],
        [T (Id [W ''using''])], [T (Id [W ''CtrlRequestTuple''])], [T (Punct ''='')], [T (Id [W ''std''])],
        [T (Punct ''::'')], [T (Id [W ''tuple''])], [T (Punct ''<'')],
        [T (Id [W ''CN_PP_FOR_EACH_TUPLE''])], [T LP], [T (Id [W ''CatRequest''])], [T Comma],
        [T (Id [W ''CTRL_METHOD_SEQ''])], [T RP], [T (Id [W ''void''])], [T (Punct ''>'')], [T (Punct '';'')],
        [T (Id [W ''using''])], [T (Id [W ''CtrlResponseTuple''])], [T (Punct ''='')], [T (Id [W ''std''])],
        [T (Punct ''::'')], [T (Id [W ''tuple''])], [T (Punct ''<'')],
        [T (Id [W ''CN_PP_FOR_EACH_TUPLE''])], [T LP], [T (Id [W ''CatReqponse''])], [T Comma],
        [T (Id [W ''CTRL_METHOD_SEQ''])], [T RP], [T (Id [W ''void''])], [T (Punct ''>'')], [T (Punct '';'')]])]"

definition ctrl_env :: "ident \<Rightarrow> macro option" where
  "ctrl_env = pp_env ++ map_of ctrl_macros"

text \<open>The methods, and the words they are called in the header.\<close>

definition method_list :: "ctrl_method list" where
  "method_list = [kLoadServer, kBarrier, kPushKV, kClearKV, kPullKV]"

primrec method_word :: "ctrl_method \<Rightarrow> string" where
  "method_word kLoadServer = ''LoadServer''"
| "method_word kBarrier = ''Barrier''"
| "method_word kPushKV = ''PushKV''"
| "method_word kClearKV = ''ClearKV''"
| "method_word kPullKV = ''PullKV''"

lemma ctrl_names: "list_all (\<lambda>m. map_of hand_macros (fst m) = None \<and> (\<exists>w. fst m = [W w])) ctrl_macros"
  unfolding list_all_iff ctrl_macros_def by (simp, code_simp)

lemma ctrl_new: "map_of ctrl_macros i = Some m \<Longrightarrow> pp_env i = None"
  using ctrl_names word_not_iter by (fastforce simp: list_all_iff dest: map_of_SomeD)

lemma ctrl_macro: "map_of ctrl_macros i = Some m \<Longrightarrow> ctrl_env i = Some m"
  by (simp add: ctrl_env_def)

interpretation ctrl: headers ctrl_env
proof
  fix i m assume "pp_env i = Some m"
  then show "ctrl_env i = Some m" using ctrl_new by (cases "map_of ctrl_macros i") (auto simp: ctrl_env_def map_add_def)
next
  fix i assume "pp_env (CNPP # i) = None"
  moreover have "map_of ctrl_macros (CNPP # i) = None" by (simp add: ctrl_macros_def)
  ultimately show "ctrl_env (CNPP # i) = None" by (simp add: ctrl_env_def map_add_def)
qed

section \<open>What they expand to\<close>

text \<open>A sequence written with \<open>CN_PP_MAKE_TUPLE_SEQ\<close>.\<close>

lemma env_make:
  "pp_env [W ''CN_PP_MAKE_TUPLE_SEQ''] = Some (Function 0 True [[T (Id [CNPP, W ''MAKE_TUPLE_SEQ''])], [T LP], [P 0], [T RP]])"
  "pp_env [CNPP, W ''MAKE_TUPLE_SEQ''] = Some (Function 0 True [[T LP], [T (Id [CNPP, W ''MAKE_TUPLE''])], [T LP],
     [P 0], [T RP], [T RP]])"
  "pp_env [CNPP, W ''MAKE_TUPLE''] = Some (Function 0 True [[T LP], [P 0], [T RP]])"
  "pp_env [W ''CN_PP_STRINGIZE''] = Some (Function 1 False [[T (Id [CNPP, W ''STRINGIZE''])], [T LP], [P 0], [T RP]])"
  "pp_env [CNPP, W ''STRINGIZE''] = Some (Function 1 False [[T (Id [CNPP, W ''STRINGIZE_I''])], [T LP], [P 0], [T RP]])"
  "pp_env [CNPP, W ''STRINGIZE_I''] = Some (Function 1 False [[Strz 0]])"
  by (rule pp_env_hand, code_simp)+

definition making :: "ident set" where
  "making = {[W ''CN_PP_MAKE_TUPLE_SEQ''], [CNPP, W ''MAKE_TUPLE_SEQ''], [CNPP, W ''MAKE_TUPLE'']}"

context headers
begin

lemma make_macros:
  "M [W ''CN_PP_MAKE_TUPLE_SEQ''] = Some (Function 0 True [[T (Id [CNPP, W ''MAKE_TUPLE_SEQ''])], [T LP], [P 0], [T RP]])"
  "M [CNPP, W ''MAKE_TUPLE_SEQ''] = Some (Function 0 True [[T LP], [T (Id [CNPP, W ''MAKE_TUPLE''])], [T LP],
     [P 0], [T RP], [T RP]])"
  "M [CNPP, W ''MAKE_TUPLE''] = Some (Function 0 True [[T LP], [P 0], [T RP]])"
  using extends [OF env_make(1)] unfolding internal env_make by simp_all

lemma MAKE_TUPLE_SEQ_call:
  assumes x: "one_arg 0 x" "inert M x" and H: "H \<inter> making = {}"
  shows "\<exists>h h1 B h2 h'. yields M ((Id [W ''CN_PP_MAKE_TUPLE_SEQ''], H) # (LP, c) # x @ [(RP, r)])
    (seq_toks [(h, (LP, h1) # paint B x @ [(RP, h2)], h')])"
proof -
  let ?A = "insert [W ''CN_PP_MAKE_TUPLE_SEQ''] (H \<inter> r)"
  define B where "B = insert [CNPP, W ''MAKE_TUPLE_SEQ''] ?A"
  define C where "C = insert [CNPP, W ''MAKE_TUPLE''] B"
  have nin: "[W ''CN_PP_MAKE_TUPLE_SEQ''] \<notin> H" "[CNPP, W ''MAKE_TUPLE_SEQ''] \<notin> ?A" "[CNPP, W ''MAKE_TUPLE''] \<notin> B"
    using H by (auto simp: making_def B_def)
  have arg: "get_args 0 (paint K x @ (RP, h) # rest) = Some ([paint K x], h, rest)"
    and stay: "yields M (paint K x) (paint K x)" for K h rest
    using x by (auto intro: get_args_last yields_inert)
  have "yields M ((Id [CNPP, W ''MAKE_TUPLE''], B) # (LP, B) # paint B (paint ?A x) @ [(RP, B), (RP, B)])
      ((LP, C) # paint C (paint B (paint ?A x)) @ [(RP, C), (RP, B)])"
    unfolding paint_paint
    by (rule macro_call [where M = M, OF make_macros(3) nin(3) arg, where bs = "[paint (?A \<union> B) x]" and bs' = "[paint (?A \<union> B) x]"])
      (use x in \<open>simp_all add: bind_args_def stay C_def [symmetric] paint_paint yields_inert\<close>)
  then have "yields M ((LP, B) # (Id [CNPP, W ''MAKE_TUPLE''], B) # (LP, B) # paint B (paint ?A x) @ [(RP, B), (RP, B)])
      (seq_toks [(B, (LP, C) # paint C (paint B (paint ?A x)) @ [(RP, C)], B)])"
    by (simp add: yields_keep macro_at_def)
  then have "yields M ((Id [CNPP, W ''MAKE_TUPLE_SEQ''], ?A) # (LP, ?A) # paint ?A x @ [(RP, ?A)])
      (seq_toks [(B, (LP, C) # paint C (paint B (paint ?A x)) @ [(RP, C)], B)])"
    by (intro macro_call [where M = M, OF make_macros(2) nin(2) arg, where bs = "[paint ?A x]" and bs' = "[paint ?A x]"])
      (simp_all add: bind_args_def stay B_def [symmetric])
  then have "yields M ((Id [W ''CN_PP_MAKE_TUPLE_SEQ''], H) # (LP, c) # x @ [(RP, r)])
      (seq_toks [(B, (LP, C) # paint C (paint B (paint ?A x)) @ [(RP, C)], B)])"
    by (intro macro_call [where M = M, OF make_macros(1) nin(1) get_args_last [OF x(1)], where bs = "[x]" and bs' = "[x]"])
      (use x in \<open>simp_all add: bind_args_def yields_inert\<close>)
  then show ?thesis unfolding paint_paint by blast
qed

lemma make_seq:
  assumes H: "H \<inter> making = {}"
  shows "list_all (\<lambda>w. M [W w] = None) ws \<Longrightarrow>
    \<exists>es. yields M (concat (map (\<lambda>w. [(Id [W ''CN_PP_MAKE_TUPLE_SEQ''], H), (LP, H), (Id [W w], H), (RP, H)]) ws)) (seq_toks es) \<and>
      list_all (elem_ok M) es \<and> map elem_text es = map (\<lambda>w. [LP, Id [W w], RP]) ws"
proof (induction ws)
  case Nil
  then show ?case by (intro exI [of _ "[]"]) (simp add: yields_Nil)
next
  case (Cons w ws)
  let ?rest = "concat (map (\<lambda>w. [(Id [W ''CN_PP_MAKE_TUPLE_SEQ''], H), (LP, H), (Id [W w], H), (RP, H)]) ws)"
  from Cons obtain es where es: "yields M ?rest (seq_toks es)" "list_all (elem_ok M) es"
    "map elem_text es = map (\<lambda>w. [LP, Id [W w], RP]) ws" by auto
  have x: "one_arg 0 [(Id [W w], H)]" "inert M [(Id [W w], H)]" using Cons.prems by simp_all
  obtain h h1 B h2 h' where e: "yields M ((Id [W ''CN_PP_MAKE_TUPLE_SEQ''], H) # (LP, H) # [(Id [W w], H)] @ [(RP, H)])
      (seq_toks [(h, (LP, h1) # paint B [(Id [W w], H)] @ [(RP, h2)], h')])"
    using MAKE_TUPLE_SEQ_call [OF x H] by blast
  let ?e = "(h, (LP, h1) # paint B [(Id [W w], H)] @ [(RP, h2)], h')"
  have "?rest = [] \<or> fst (hd ?rest) \<noteq> LP" by (cases ws) simp_all
  from yields_append [OF e es(1) this] have "yields M (concat (map (\<lambda>w. [(Id [W ''CN_PP_MAKE_TUPLE_SEQ''], H), (LP, H),
      (Id [W w], H), (RP, H)]) (w # ws))) (seq_toks (?e # es))" by simp
  moreover have "elem_ok M ?e" using Cons.prems by (simp add: elem_ok_def)
  moreover have "elem_text ?e = [LP, Id [W w], RP]" by simp
  ultimately show ?case using es(2,3) by (intro exI [of _ "?e # es"]) (simp del: elem_text_simps)
qed

end

text \<open>The four macros of one method.\<close>

definition words :: "string list" where
  "words = map method_word method_list"

lemma word_ctrl_env: "map_of ctrl_macros (W w # i) = None \<Longrightarrow> ctrl_env (W w # i) = map_of hand_macros (W w # i)"
  by (simp add: ctrl_env_def map_add_def word_not_iter)

fun word_name :: "ident \<Rightarrow> bool" where
  "word_name [W w] = (w \<in> set words)"
| "word_name [W w, W v] = True"
| "word_name i = False"

lemma no_word_macros: "list_all (\<lambda>m. \<not> word_name (fst m)) hand_macros" "list_all (\<lambda>m. \<not> word_name (fst m)) ctrl_macros"
  by code_simp+

lemma word_free: "word_name (W w # i) \<Longrightarrow> ctrl_env (W w # i) = None"
  using no_word_macros unfolding list_all_iff
  by (subst word_ctrl_env) (auto simp: map_of_eq_None_iff)

lemma word_toks:
  assumes "map fst ts = [LP, Id [W w], RP]"
  shows "\<exists>a b c. ts = [(LP, a), (Id [W w], b), (RP, c)]"
  using assms by (auto simp: map_eq_Cons_conv)

lemma get_word: "get_args 0 [(Id i, b), (RP, c)] = Some ([[(Id i, b)]], c, [])"
  by (simp add: cons_first_def)

text \<open>A macro that pastes its argument with a word.\<close>

lemma pasting_applies:
  assumes m: "ctrl_env m = Some (Function 1 False [u # us, [T Comma]])" "m \<notin> F"
    and u: "us \<noteq> []" "\<And>b. glue_all (raw_operand [[(Id [W w], b)]] u) (map (raw_operand [[(Id [W w], b)]]) us) = Some [(Id v, g b)]"
    and v: "ctrl_env v = None"
  shows "applies ctrl_env F m [LP, Id [W w], RP] [Id v, Comma]"
  unfolding applies_def
proof (intro allI impI, elim conjE)
  fix H and ts :: "ptok list" assume H: "H \<subseteq> F" and ts: "map fst ts = [LP, Id [W w], RP]"
  from word_toks [OF ts] obtain a b c where ts: "ts = [(LP, a), (Id [W w], b), (RP, c)]" by (elim exE) (rule that)
  obtain u' us' where us: "us = u' # us'" using u(1) by (cases us) auto
  have at: "macro_at ctrl_env (Id m, H) = Some (m, Function 1 False [u # us, [T Comma]])"
    using m H by (auto simp: macro_at_def)
  have body: "yields_body ctrl_env [[(Id [W w], b)]] [u # us, [T Comma]] ([(Id v, g b)] @ [(Comma, {})])"
    unfolding us by (intro body_raw body_tok body_Nil) (use u(2) us in simp)
  have "yields ctrl_env ((Id m, H) # ts) (paint (insert m (H \<inter> c)) [(Id v, g b), (Comma, {})])"
    unfolding ts by (rule yields_call [OF at get_word _ body]) (simp_all add: bind_args_def yields_inert v)
  then show "\<exists>o'. yields ctrl_env ((Id m, H) # ts) o' \<and> map fst o' = [Id v, Comma]"
    by (intro exI conjI, assumption, simp)
qed

definition stringizing :: "ident set" where
  "stringizing = {[W ''CN_PP_STRINGIZE''], [CNPP, W ''STRINGIZE''], [CNPP, W ''STRINGIZE_I'']}"

lemma STRINGIZE_call:
  assumes w: "ctrl_env [W w] = None" and H: "H \<inter> stringizing = {}"
  shows "\<exists>J. yields ctrl_env [(Id [W ''CN_PP_STRINGIZE''], H), (LP, c), (Id [W w], b), (RP, r)] [(Lit w, J)]"
proof -
  let ?A = "insert [W ''CN_PP_STRINGIZE''] (H \<inter> r)"
  let ?B = "insert [CNPP, W ''STRINGIZE''] ?A"
  have nin: "[W ''CN_PP_STRINGIZE''] \<notin> H" "[CNPP, W ''STRINGIZE''] \<notin> ?A" "[CNPP, W ''STRINGIZE_I''] \<notin> ?B"
    using H by (auto simp: stringizing_def)
  have stay: "yields ctrl_env [(Id [W w], K)] [(Id [W w], K)]" for K using w by (simp add: yields_inert)
  have m: "ctrl_env [W ''CN_PP_STRINGIZE''] = Some (Function 1 False [[T (Id [CNPP, W ''STRINGIZE''])], [T LP], [P 0], [T RP]])"
    "ctrl_env [CNPP, W ''STRINGIZE''] = Some (Function 1 False [[T (Id [CNPP, W ''STRINGIZE_I''])], [T LP], [P 0], [T RP]])"
    "macro_at ctrl_env (Id [CNPP, W ''STRINGIZE_I''], ?B) = Some ([CNPP, W ''STRINGIZE_I''], Function 1 False [[Strz 0]])"
    using nin(3) by (simp_all add: macro_at_def ctrl.extends [OF env_make(4)] ctrl.extends [OF env_make(5)] ctrl.extends [OF env_make(6)])
  have lit: "stringize [(Id [W w], K)] = (Lit w, {})" for K by (simp add: stringize_def spelling_def)
  have "yields ctrl_env [(Id [CNPP, W ''STRINGIZE_I''], ?B), (LP, ?B), (Id [W w], b \<union> ?A \<union> ?B), (RP, ?B)]
      [(Lit w, insert [CNPP, W ''STRINGIZE_I''] ?B)]"
    by (rule yields_call [OF m(3) get_word, where bs = "[[(Id [W w], b \<union> ?A \<union> ?B)]]" and o' = "[(Lit w, {})]"])
      (simp_all add: bind_args_def yields_body_def lit yields_inert)
  then have "yields ctrl_env [(Id [CNPP, W ''STRINGIZE''], ?A), (LP, ?A), (Id [W w], b \<union> ?A), (RP, ?A)]
      [(Lit w, insert [CNPP, W ''STRINGIZE_I''] ?B)]"
    by (intro macro_call [where M = ctrl_env, OF m(2) nin(2) get_word,
          where bs = "[[(Id [W w], b \<union> ?A)]]" and bs' = "[[(Id [W w], b \<union> ?A)]]"])
      (simp_all add: bind_args_def stay)
  then have "yields ctrl_env [(Id [W ''CN_PP_STRINGIZE''], H), (LP, c), (Id [W w], b), (RP, r)]
      [(Lit w, insert [CNPP, W ''STRINGIZE_I''] ?B)]"
    by (intro macro_call [where M = ctrl_env, OF m(1) nin(1) get_word, where bs = "[[(Id [W w], b)]]" and bs' = "[[(Id [W w], b)]]"])
      (simp_all add: bind_args_def stay)
  then show ?thesis by blast
qed

lemma CatName_applies:
  assumes w: "ctrl_env [W w] = None" and F: "[W ''CatName''] \<notin> F" "F \<inter> stringizing = {}"
  shows "applies ctrl_env F [W ''CatName''] [LP, Id [W w], RP] [Lit ''/comm_network.CtrlService/'', Lit w, Comma]"
  unfolding applies_def
proof (intro allI impI, elim conjE)
  fix H and ts :: "ptok list" assume H: "H \<subseteq> F" and ts: "map fst ts = [LP, Id [W w], RP]"
  from word_toks [OF ts] obtain a b c where ts: "ts = [(LP, a), (Id [W w], b), (RP, c)]" by (elim exE) (rule that)
  let ?A = "insert [W ''CatName''] (H \<inter> c)"
  have A: "?A \<inter> stringizing = {}" "[W ''CatName''] \<notin> H" using H F by (auto simp: stringizing_def)
  have m: "ctrl_env [W ''CatName''] = Some (Function 1 False [[T (Lit ''/comm_network.CtrlService/'')],
      [T (Id [W ''CN_PP_STRINGIZE''])], [T LP], [P 0], [T RP], [T Comma]])"
    by (rule ctrl_macro) (simp add: ctrl_macros_def)
  obtain J where J: "yields ctrl_env [(Id [W ''CN_PP_STRINGIZE''], ?A), (LP, ?A), (Id [W w], b \<union> ?A), (RP, ?A)] [(Lit w, J)]"
    using STRINGIZE_call [OF w A(1)] by blast
  have "yields ctrl_env [(Comma, ?A)] [(Comma, ?A)]" by (rule yields_inert) simp
  from yields_append [OF J this] have "yields ctrl_env [(Lit ''/comm_network.CtrlService/'', ?A),
      (Id [W ''CN_PP_STRINGIZE''], ?A), (LP, ?A), (Id [W w], b \<union> ?A), (RP, ?A), (Comma, ?A)]
      [(Lit ''/comm_network.CtrlService/'', ?A), (Lit w, J), (Comma, ?A)]"
    by (intro yields_keep) (simp_all add: macro_at_def)
  then have "yields ctrl_env ((Id [W ''CatName''], H) # ts) [(Lit ''/comm_network.CtrlService/'', ?A), (Lit w, J), (Comma, ?A)]"
    unfolding ts by (intro macro_call [where M = ctrl_env, OF m A(2) get_word, where bs = "[[(Id [W w], b)]]" and bs' = "[[(Id [W w], b)]]"])
      (use w in \<open>simp_all add: bind_args_def yields_inert\<close>)
  then show "\<exists>o'. yields ctrl_env ((Id [W ''CatName''], H) # ts) o' \<and>
      map fst o' = [Lit ''/comm_network.CtrlService/'', Lit w, Comma]"
    by (intro exI conjI, assumption, simp)
qed

text \<open>The names being expanded while a macro is applied to a method.\<close>

abbreviation meta :: "ident set" where
  "meta \<equiv> {[W ''MAKE_META_DATA'']}"

lemma meta_facts:
  "meta \<inter> making = {}" "(meta \<union> for_each_names) \<inter> stringizing = {}"
  "(meta \<union> meta) \<inter> (pairing \<union> counting \<union> for_each_names) = {}"
  "i \<in> {[W ''CatEnum''], [W ''CatName''], [W ''CatRequest''], [W ''CatReqponse''], [W ''CTRL_METHOD_SEQ'']} \<Longrightarrow>
    i \<notin> for_each_names"
  by (auto simp: making_def for_each_names_def entering_def applying_def stringizing_def pairing_def counting_def)

lemma CTRL_METHOD_SEQ_expands:
  assumes "H \<inter> making = {}" "[W ''CTRL_METHOD_SEQ''] \<notin> H"
  shows "\<exists>es. yields ctrl_env [(Id [W ''CTRL_METHOD_SEQ''], H)] (seq_toks es) \<and> list_all (elem_ok ctrl_env) es \<and>
    map elem_text es = map (\<lambda>w. [LP, Id [W w], RP]) words"
proof -
  let ?A = "insert [W ''CTRL_METHOD_SEQ''] H"
  have H: "?A \<inter> making = {}" using assms(1) by (auto simp: making_def)
  have free: "list_all (\<lambda>w. ctrl_env [W w] = None) words" unfolding list_all_iff by (simp add: word_free)
  have at: "macro_at ctrl_env (Id [W ''CTRL_METHOD_SEQ''], H) = Some ([W ''CTRL_METHOD_SEQ''], Object (concat (map (\<lambda>w.
      [[T (Id [W ''CN_PP_MAKE_TUPLE_SEQ''])], [T LP], [T (Id [W w])], [T RP]]) words)))"
    using assms(2) by (simp add: macro_at_def words_def method_list_def ctrl_macro ctrl_macros_def)
  have body: "yields_body ctrl_env [] (concat (map (\<lambda>w. [[T (Id [W ''CN_PP_MAKE_TUPLE_SEQ''])], [T LP], [T (Id [W w])], [T RP]]) ws))
      (concat (map (\<lambda>w. [(Id [W ''CN_PP_MAKE_TUPLE_SEQ''], {}), (LP, {}), (Id [W w], {}), (RP, {})]) ws))" for ws
    by (induction ws) (auto intro: body_tok body_Nil)
  have painted: "paint ?A (concat (map (\<lambda>w. [(Id [W ''CN_PP_MAKE_TUPLE_SEQ''], {}), (LP, {}), (Id [W w], {}), (RP, {})]) ws)) =
      concat (map (\<lambda>w. [(Id [W ''CN_PP_MAKE_TUPLE_SEQ''], ?A), (LP, ?A), (Id [W w], ?A), (RP, ?A)]) ws)" for ws
    by (induction ws) simp_all
  from ctrl.make_seq [OF H free] obtain es where es: "yields ctrl_env (concat (map (\<lambda>w. [(Id [W ''CN_PP_MAKE_TUPLE_SEQ''], ?A),
      (LP, ?A), (Id [W w], ?A), (RP, ?A)]) words)) (seq_toks es)" "list_all (elem_ok ctrl_env) es"
    "map elem_text es = map (\<lambda>w. [LP, Id [W w], RP]) words" by blast
  have "yields ctrl_env [(Id [W ''CTRL_METHOD_SEQ''], H)] (seq_toks es)"
    by (rule yields_object [OF at body]) (simp only: snd_conv painted append_Nil2 es(1))
  with es(2,3) show ?thesis by blast
qed

lemma CTRL_METHOD_SEQ_size:
  "\<exists>n H. expand ctrl_env n [(Id [W ''CN_PP_SEQ_SIZE''], {}), (LP, {}), (Id [W ''CTRL_METHOD_SEQ''], {}), (RP, {})] = Some [(Num 5, H)]"
proof -
  let ?A = "{[W ''CN_PP_SEQ_SIZE'']}"
  obtain es where es: "yields ctrl_env [(Id [W ''CTRL_METHOD_SEQ''], {})] (seq_toks es)" "list_all (elem_ok ctrl_env) es"
    "map elem_text es = map (\<lambda>w. [LP, Id [W w], RP]) words" using CTRL_METHOD_SEQ_expands [of "{}"] by auto
  have len: "length es = 5" using arg_cong [OF es(3), of length] by (simp add: words_def method_list_def)
  have ok: "list_all (elem_ok ctrl_env) (paint_elems ?A es)" "length (paint_elems ?A es) \<le> 512" using es(2) len by simp_all
  have "?A \<inter> counting = {}" by (auto simp: counting_def)
  from ctrl.SEQ_SIZE_count [OF ok this] len obtain J where
    J: "yields ctrl_env ((Id [CNPP, W ''SEQ_SIZE''], ?A) # (LP, ?A) # seq_toks (paint_elems ?A es) @ [(RP, ?A)]) [(Num 5, J)]"
    by (auto simp: size_token_def)
  have "yields ctrl_env [(Id [W ''CN_PP_SEQ_SIZE''], {}), (LP, {}), (Id [W ''CTRL_METHOD_SEQ''], {}), (RP, {})] [(Num 5, J)]"
    by (rule macro_call [where M = ctrl_env, OF ctrl.extends [OF env_SEQ_SIZE(1)] _ get_word,
        where bs = "[[(Id [W ''CTRL_METHOD_SEQ''], {})]]" and bs' = "[seq_toks es]"])
      (use J es(1) in \<open>simp_all add: bind_args_def\<close>)
  then show ?thesis unfolding yields_def by (elim exE) (intro exI)
qed

text \<open>The text an expansion has.\<close>

definition gives :: "(ident \<Rightarrow> macro option) \<Rightarrow> ptok list \<Rightarrow> pp list \<Rightarrow> bool" where
  "gives M ts out \<longleftrightarrow> (\<exists>o'. yields M ts o' \<and> map fst o' = out)"

lemma gives_append: "gives M ts a \<Longrightarrow> gives M us b \<Longrightarrow> us = [] \<or> fst (hd us) \<noteq> LP \<Longrightarrow> gives M (ts @ us) (a @ b)"
  unfolding gives_def using yields_append [of M ts _ us] by (elim exE conjE) (intro exI conjI, assumption, simp)

lemma gives_inert: "inert M ts \<Longrightarrow> gives M ts (map fst ts)"
  unfolding gives_def using yields_inert by blast

text \<open>One line of the table: a macro applied to every method.\<close>

definition table_line :: "ident \<Rightarrow> ptok list" where
  "table_line m = [(Id [W ''CN_PP_FOR_EACH_TUPLE''], meta), (LP, meta), (Id m, meta), (Comma, meta),
     (Id [W ''CTRL_METHOD_SEQ''], meta), (RP, meta)]"

lemma table_line_gives:
  assumes m: "stays ctrl_env m" "\<And>w. w \<in> set words \<Longrightarrow> applies ctrl_env (meta \<union> for_each_names) m [LP, Id [W w], RP] (f w)"
  shows "gives ctrl_env (table_line m) (concat (map f words))"
proof -
  have "map_of ctrl_macros [W ''_''] = None" by (simp add: ctrl_macros_def)
  moreover have "map_of hand_macros [W ''_''] = None" by code_simp
  ultimately have "stays ctrl_env [W ''_'']" by (simp add: stays_def word_ctrl_env)
  moreover obtain es where es: "yields ctrl_env [(Id [W ''CTRL_METHOD_SEQ''], meta)] (seq_toks es)" "list_all (elem_ok ctrl_env) es"
    "map elem_text es = map (\<lambda>w. [LP, Id [W w], RP]) words" using CTRL_METHOD_SEQ_expands [OF meta_facts(1)] by auto
  moreover have "length es < 512" using arg_cong [OF es(3), of length] by (simp add: words_def method_list_def)
  moreover have "list_all2 (applies ctrl_env (meta \<union> for_each_names) m) (map elem_text es) (map f words)"
    unfolding es(3) using m(2) by (simp add: list_all2_conv_all_nth)
  ultimately show ?thesis
    using ctrl.FOR_EACH_TUPLE_call [OF m(1) _ meta_facts(3), where X = "[(Id [W ''CTRL_METHOD_SEQ''], meta)]"
        and F = "meta \<union> for_each_names" and es = es and outs = "map f words"]
    unfolding gives_def table_line_def by simp
qed

text \<open>What \<open>MAKE_META_DATA()\<close> declares: the enumeration, the names, the two tuples of message types.\<close>

definition meta_data :: "pp list" where
  "meta_data =
     [Id [W ''enum''], Id [W ''class''], Id [W ''CtrlMethod''], Punct ''{''] @
     concat (map (\<lambda>m. [Id [W ''k'', W (method_word m)], Comma]) method_list) @
     [Punct ''}'', Punct '';'', Id [W ''static''], Id [W ''const''], Id [W ''char''], Punct ''*'',
      Id [W ''g_method_name''], Punct ''['', Punct '']'', Punct ''='', Punct ''{''] @
     concat (map (\<lambda>m. [Lit ''/comm_network.CtrlService/'', Lit (method_word m), Comma]) method_list) @
     [Punct ''}'', Punct '';'', Id [W ''using''], Id [W ''CtrlRequestTuple''], Punct ''='', Id [W ''std''],
      Punct ''::'', Id [W ''tuple''], Punct ''<''] @
     concat (map (\<lambda>m. [Id [W (method_word m), W ''Request''], Comma]) method_list) @
     [Id [W ''void''], Punct ''>'', Punct '';'', Id [W ''using''], Id [W ''CtrlResponseTuple''], Punct ''='',
      Id [W ''std''], Punct ''::'', Id [W ''tuple''], Punct ''<''] @
     concat (map (\<lambda>m. [Id [W (method_word m), W ''Response''], Comma]) method_list) @
     [Id [W ''void''], Punct ''>'', Punct '';'']"

definition cpp_words :: "ident list" where
  "cpp_words = map (\<lambda>w. [W w]) [''enum'', ''class'', ''CtrlMethod'', ''static'', ''const'', ''char'', ''g_method_name'',
     ''using'', ''CtrlRequestTuple'', ''std'', ''tuple'', ''void'', ''CtrlResponseTuple'']"

lemma cpp_words_free: "list_all (\<lambda>i. ctrl_env i = None) cpp_words"
proof -
  have "list_all (\<lambda>m. fst m \<notin> set cpp_words) hand_macros" by code_simp
  moreover have "list_all (\<lambda>m. fst m \<notin> set cpp_words) ctrl_macros" by code_simp
  moreover have "ctrl_env i = None"
    if i: "i \<in> set cpp_words" and new: "i \<notin> fst ` set hand_macros" "i \<notin> fst ` set ctrl_macros" for i
  proof -
    obtain w where w: "i = [W w]" using i unfolding cpp_words_def by auto
    have "map_of hand_macros i = None" "map_of ctrl_macros i = None" using new by (simp_all only: map_of_eq_None_iff not_False_eq_True)
    then show ?thesis unfolding w by (simp only: word_ctrl_env)
  qed
  ultimately show ?thesis unfolding list_all_iff by (metis image_iff)
qed

text \<open>The lines of the table, each with the tokens in front of it.\<close>

lemma line_applies:
  assumes "w \<in> set words"
  shows "applies ctrl_env (meta \<union> for_each_names) [W ''CatEnum''] [LP, Id [W w], RP] [Id [W ''k'', W w], Comma]"
    and "applies ctrl_env (meta \<union> for_each_names) [W ''CatName''] [LP, Id [W w], RP]
      [Lit ''/comm_network.CtrlService/'', Lit w, Comma]"
    and "applies ctrl_env (meta \<union> for_each_names) [W ''CatRequest''] [LP, Id [W w], RP] [Id [W w, W ''Request''], Comma]"
    and "applies ctrl_env (meta \<union> for_each_names) [W ''CatReqponse''] [LP, Id [W w], RP] [Id [W w, W ''Response''], Comma]"
proof -
  note m = ctrl_macro [unfolded ctrl_macros_def]
  show "applies ctrl_env (meta \<union> for_each_names) [W ''CatEnum''] [LP, Id [W w], RP] [Id [W ''k'', W w], Comma]"
    by (rule pasting_applies [where u = "T (Id [W ''k''])" and us = "[P 0]" and g = "\<lambda>b. {}"])
      (simp_all add: m meta_facts glue_def word_free)
  show "applies ctrl_env (meta \<union> for_each_names) [W ''CatName''] [LP, Id [W w], RP]
      [Lit ''/comm_network.CtrlService/'', Lit w, Comma]"
    by (rule CatName_applies [OF _ _ meta_facts(2)]) (use assms in \<open>simp_all add: meta_facts word_free\<close>)
  show "applies ctrl_env (meta \<union> for_each_names) [W ''CatRequest''] [LP, Id [W w], RP] [Id [W w, W ''Request''], Comma]"
    by (rule pasting_applies [where u = "P 0" and us = "[T (Id [W ''Request''])]" and g = "\<lambda>b. {}"])
      (simp_all add: m meta_facts glue_def word_free)
  show "applies ctrl_env (meta \<union> for_each_names) [W ''CatReqponse''] [LP, Id [W w], RP] [Id [W w, W ''Response''], Comma]"
    by (rule pasting_applies [where u = "P 0" and us = "[T (Id [W ''Response''])]" and g = "\<lambda>b. {}"])
      (simp_all add: m meta_facts glue_def word_free)
qed

lemma lines_give:
  "gives ctrl_env (table_line [W ''CatEnum'']) (concat (map (\<lambda>m. [Id [W ''k'', W (method_word m)], Comma]) method_list))"
  "gives ctrl_env (table_line [W ''CatName''])
    (concat (map (\<lambda>m. [Lit ''/comm_network.CtrlService/'', Lit (method_word m), Comma]) method_list))"
  "gives ctrl_env (table_line [W ''CatRequest'']) (concat (map (\<lambda>m. [Id [W (method_word m), W ''Request''], Comma]) method_list))"
  "gives ctrl_env (table_line [W ''CatReqponse'']) (concat (map (\<lambda>m. [Id [W (method_word m), W ''Response''], Comma]) method_list))"
proof -
  note m = ctrl_macro [unfolded ctrl_macros_def]
  have stays: "stays ctrl_env [W ''CatEnum'']" "stays ctrl_env [W ''CatName'']" "stays ctrl_env [W ''CatRequest'']"
    "stays ctrl_env [W ''CatReqponse'']" by (simp_all add: stays_def m)
  have over: "gives ctrl_env ts (concat (map f words)) \<Longrightarrow> gives ctrl_env ts (concat (map (\<lambda>m. f (method_word m)) method_list))"
    for ts f by (simp add: words_def comp_def)
  show "gives ctrl_env (table_line [W ''CatEnum'']) (concat (map (\<lambda>m. [Id [W ''k'', W (method_word m)], Comma]) method_list))"
    by (rule over) (rule table_line_gives [OF stays(1) line_applies(1)])
  show "gives ctrl_env (table_line [W ''CatName''])
    (concat (map (\<lambda>m. [Lit ''/comm_network.CtrlService/'', Lit (method_word m), Comma]) method_list))"
    by (rule over) (rule table_line_gives [OF stays(2) line_applies(2)])
  show "gives ctrl_env (table_line [W ''CatRequest'']) (concat (map (\<lambda>m. [Id [W (method_word m), W ''Request''], Comma]) method_list))"
    by (rule over) (rule table_line_gives [OF stays(3) line_applies(3)])
  show "gives ctrl_env (table_line [W ''CatReqponse'']) (concat (map (\<lambda>m. [Id [W (method_word m), W ''Response''], Comma]) method_list))"
    by (rule over) (rule table_line_gives [OF stays(4) line_applies(4)])
qed

definition plain_toks :: "pp list \<Rightarrow> ptok list" where
  "plain_toks ts = map (\<lambda>t. (t, meta)) ts"

lemma gives_line:
  assumes "list_all (\<lambda>t. case t of Id i \<Rightarrow> i \<in> set cpp_words | _ \<Rightarrow> True) ts" and "gives ctrl_env (table_line m) out"
    and "gives ctrl_env rest out'" "fst (hd rest) \<noteq> LP"
  shows "gives ctrl_env (plain_toks ts @ table_line m @ rest) (ts @ out @ out')"
proof -
  have "inert ctrl_env (plain_toks ts)"
    using assms(1) cpp_words_free by (fastforce simp: inert_def plain_toks_def list_all_iff)
  then have "gives ctrl_env (plain_toks ts) (map fst (plain_toks ts))" by (rule gives_inert)
  moreover have "map fst (plain_toks ts) = ts" by (simp add: plain_toks_def comp_def)
  moreover have "gives ctrl_env (table_line m @ rest) (out @ out')"
    by (rule gives_append [OF assms(2,3)]) (use assms(4) in simp)
  moreover have "fst (hd (table_line m @ rest)) \<noteq> LP" by (simp add: table_line_def)
  ultimately show ?thesis using gives_append by metis
qed

lemma MAKE_META_DATA_expands:
  "\<exists>n o'. expand ctrl_env n [(Id [W ''MAKE_META_DATA''], {}), (LP, {}), (RP, {})] = Some o' \<and> map fst o' = meta_data"
proof -
  let ?pre1 = "[Id [W ''enum''], Id [W ''class''], Id [W ''CtrlMethod''], Punct ''{'']"
  let ?pre2 = "[Punct ''}'', Punct '';'', Id [W ''static''], Id [W ''const''], Id [W ''char''], Punct ''*'',
      Id [W ''g_method_name''], Punct ''['', Punct '']'', Punct ''='', Punct ''{'']"
  let ?pre3 = "[Punct ''}'', Punct '';'', Id [W ''using''], Id [W ''CtrlRequestTuple''], Punct ''='', Id [W ''std''],
      Punct ''::'', Id [W ''tuple''], Punct ''<'']"
  let ?pre4 = "[Id [W ''void''], Punct ''>'', Punct '';'', Id [W ''using''], Id [W ''CtrlResponseTuple''], Punct ''='',
      Id [W ''std''], Punct ''::'', Id [W ''tuple''], Punct ''<'']"
  let ?last = "[Id [W ''void''], Punct ''>'', Punct '';'']"
  let ?toks = "plain_toks ?pre1 @ table_line [W ''CatEnum''] @ plain_toks ?pre2 @ table_line [W ''CatName''] @
      plain_toks ?pre3 @ table_line [W ''CatRequest''] @ plain_toks ?pre4 @ table_line [W ''CatReqponse''] @ plain_toks ?last"
  have hd: "fst (hd (plain_toks (t # ts) @ us)) = t" for t ts us by (simp add: plain_toks_def)
  have "gives ctrl_env (plain_toks ?last) (map fst (plain_toks ?last))"
    using cpp_words_free by (intro gives_inert) (simp add: plain_toks_def cpp_words_def)
  then have last: "gives ctrl_env (plain_toks ?last) ?last" by (simp add: plain_toks_def)
  have "gives ctrl_env ?toks meta_data"
    unfolding meta_data_def
    by (intro gives_line lines_give last) (simp_all add: cpp_words_def plain_toks_def)
  then obtain o' where o': "yields ctrl_env ?toks o'" "map fst o' = meta_data" unfolding gives_def by blast
  obtain body where body: "map_of ctrl_macros [W ''MAKE_META_DATA''] = Some (Function 0 False body)" "plain 0 body"
    "paint meta (fill [] body) = ?toks" by (simp add: ctrl_macros_def plain_toks_def table_line_def)
  have "yields ctrl_env [(Id [W ''MAKE_META_DATA''], {}), (LP, {}), (RP, {})] o'"
    by (rule macro_call [where M = ctrl_env, OF ctrl_macro [OF body(1)],
        where bs = "[]" and bs' = "[]" and as = "[[]]" and rest = "[]" and h = "{}"])
      (use o'(1) body(2) in \<open>simp_all only: body(3) append_Nil2 Int_empty_left insert_is_Un [symmetric],
        simp_all add: bind_args_def\<close>)
  with o'(2) show ?thesis unfolding yields_def by blast
qed

section \<open>Index sequences\<close>

text \<open>\<open>_merge_and_renumber\<close> and \<open>make_index_sequence\<close>, which halves its argument.\<close>

definition merge_and_renumber :: "nat list \<Rightarrow> nat list \<Rightarrow> nat list" where
  "merge_and_renumber I1 I2 = I1 @ map (\<lambda>i. length I1 + i) I2"

function make_index_sequence :: "nat \<Rightarrow> nat list" where
  "make_index_sequence n =
     (if n = 0 then [] else if n = 1 then [0]
      else merge_and_renumber (make_index_sequence (n div 2)) (make_index_sequence (n - n div 2)))"
  by pat_completeness auto
termination by (relation "measure id") auto

declare make_index_sequence.simps [simp del]

lemma make_index_sequence_eq: "make_index_sequence n = [0..<n]"
proof (induction n rule: make_index_sequence.induct)
  case (1 n)
  have "[0..<n div 2] @ map (\<lambda>i. n div 2 + i) [0..<n - n div 2] = [0..<n]"
    using upt_add_eq_append [of 0 "n div 2" "n - n div 2"] map_add_upt [of "n div 2" "n - n div 2"]
    by (simp add: add.commute)
  with 1 show ?case
    by (subst make_index_sequence.simps) (auto simp: merge_and_renumber_def)
qed

text \<open>\<open>for_each_i\<close> of the control server: the function on each element of a tuple, with its index.\<close>

definition for_each_i :: "'a list \<Rightarrow> ('a \<Rightarrow> nat \<Rightarrow> 's \<Rightarrow> 's) \<Rightarrow> nat list \<Rightarrow> 's \<Rightarrow> 's" where
  "for_each_i t f idx = fold (\<lambda>i. f (t ! i) i) idx"

section \<open>The stub and the service\<close>

text \<open>
  The conversions between a method and its number, and the array of names: adjacent string
  literals are one string.
\<close>

definition method_index :: "ctrl_method \<Rightarrow> nat" where
  "method_index m = length (takeWhile (\<lambda>m'. m' \<noteq> m) method_list)"

definition method_at :: "nat \<Rightarrow> ctrl_method" where
  "method_at i = method_list ! i"

fun initializer :: "string \<Rightarrow> pp list \<Rightarrow> string list" where
  "initializer acc (Lit s # ts) = initializer (acc @ s) ts"
| "initializer acc (Comma # ts) = acc # initializer [] ts"
| "initializer acc _ = []"

definition g_method_name :: "string list" where
  "g_method_name = initializer [] (concat (map (\<lambda>m. [Lit ''/comm_network.CtrlService/'', Lit (method_word m), Comma]) method_list))"

definition GetMethodName :: "ctrl_method \<Rightarrow> string res" where
  "GetMethodName m = vec_index g_method_name (method_index m)"

definition kCtrlMethodNum :: nat where
  "kCtrlMethodNum = 5"

text \<open>The client's side: an \<open>RpcMethod\<close> per method, used by number.\<close>

datatype rpc_type = NORMAL_RPC

record rpc_method =
  rm_name :: string
  rm_type :: rpc_type

definition BuildOneRpcMethod :: "nat \<Rightarrow> rpc_method res" where
  "BuildOneRpcMethod i = rbind (GetMethodName (method_at i)) (\<lambda>n. Inr \<lparr>rm_name = n, rm_type = NORMAL_RPC\<rparr>)"

fun BuildRpcMethods :: "nat list \<Rightarrow> rpc_method list res" where
  "BuildRpcMethods [] = Inr []"
| "BuildRpcMethods (i # is) = rbind (BuildOneRpcMethod i) (\<lambda>m. rbind (BuildRpcMethods is) (\<lambda>ms. Inr (m # ms)))"

definition Stub :: "rpc_method list res" where
  "Stub = BuildRpcMethods (make_index_sequence kCtrlMethodNum)"

text \<open>\<open>BlockingUnaryCall\<close> of gRPC is an argument.\<close>

definition CallMethod :: "(rpc_method \<Rightarrow> ctrl_request \<Rightarrow> 'r) \<Rightarrow> rpc_method list \<Rightarrow> ctrl_method \<Rightarrow> ctrl_request \<Rightarrow> 'r res" where
  "CallMethod BlockingUnaryCall rpcmethods m msg =
     rbind (vec_at rpcmethods (method_index m)) (\<lambda>rm. Inr (BlockingUnaryCall rm msg))"

text \<open>The server's side: the methods added to the service, and those marked asynchronous.\<close>

record service =
  sv_methods :: "rpc_method list"
  sv_async :: "nat list"

definition add_method :: "service \<Rightarrow> nat \<Rightarrow> service res" where
  "add_method s i = rbind (GetMethodName (method_at i)) (\<lambda>n.
     Inr (s\<lparr>sv_methods := sv_methods s @ [\<lparr>rm_name = n, rm_type = NORMAL_RPC\<rparr>], sv_async := sv_async s @ [i]\<rparr>))"

definition AsyncService :: "service res" where
  "AsyncService = run add_method \<lparr>sv_methods = [], sv_async = []\<rparr> [0..<kCtrlMethodNum]"

text \<open>
  The tuple of handlers, empty at first, and what \<open>CtrlServer::Init\<close> puts into it: the type of the
  call a handler takes gives its place. A call of one method has a request of that method.
\<close>

type_synonym handler = "nat \<Rightarrow> ctrl_request \<Rightarrow> server \<Rightarrow> server res"

definition GetHandlerTuple :: "nat list \<Rightarrow> handler option list" where
  "GetHandlerTuple idx = map (\<lambda>_. None) idx"

definition Add :: "ctrl_method \<Rightarrow> handler \<Rightarrow> handler option list \<Rightarrow> handler option list" where
  "Add m f handlers = handlers[method_index m := Some f]"

definition CtrlServer_handlers :: "handler option list" where
  "CtrlServer_handlers =
     (let hs = GetHandlerTuple (make_index_sequence kCtrlMethodNum);
          hs = Add kLoadServer (\<lambda>c r. case r of LoadServerRequest addr \<Rightarrow> handle_LoadServer c addr | _ \<Rightarrow> (\<lambda>_. Inl Undefined)) hs;
          hs = Add kBarrier (\<lambda>c r. case r of BarrierRequest nm num \<Rightarrow> handle_Barrier c nm num | _ \<Rightarrow> (\<lambda>_. Inl Undefined)) hs;
          hs = Add kPushKV (\<lambda>c r. case r of PushKVRequest k v \<Rightarrow> handle_PushKV c k v | _ \<Rightarrow> (\<lambda>_. Inl Undefined)) hs;
          hs = Add kClearKV (\<lambda>c r. case r of ClearKVRequest k \<Rightarrow> handle_ClearKV c k | _ \<Rightarrow> (\<lambda>_. Inl Undefined)) hs
      in Add kPullKV (\<lambda>c r. case r of PullKVRequest k \<Rightarrow> handle_PullKV c k | _ \<Rightarrow> (\<lambda>_. Inl Undefined)) hs)"

definition rpc_methods :: "rpc_method list" where
  "rpc_methods = map (\<lambda>m. \<lparr>rm_name = ''/comm_network.CtrlService/'' @ method_word m, rm_type = NORMAL_RPC\<rparr>) method_list"

lemma g_method_name_eq: "g_method_name = map (\<lambda>m. ''/comm_network.CtrlService/'' @ method_word m) method_list"
  by (simp add: g_method_name_def method_list_def)

lemma method_index_simps [simp]:
  "method_index kLoadServer = 0" "method_index kBarrier = 1" "method_index kPushKV = 2"
  "method_index kClearKV = 3" "method_index kPullKV = 4"
  by (simp_all add: method_index_def method_list_def)

lemma method_at_index: "method_at (method_index m) = m" "method_index m < kCtrlMethodNum"
  by (cases m; simp add: method_at_def method_list_def kCtrlMethodNum_def)+

lemma GetMethodName_eq: "GetMethodName m = Inr (''/comm_network.CtrlService/'' @ method_word m)"
  by (cases m) (simp_all add: GetMethodName_def g_method_name_eq vec_index_def method_list_def)

lemma five: "[0..<kCtrlMethodNum] = [0, 1, 2, 3, 4]"
  by (simp add: kCtrlMethodNum_def upt_rec)

lemma Stub_eq: "Stub = Inr rpc_methods"
  by (simp add: Stub_def make_index_sequence_eq five BuildOneRpcMethod_def GetMethodName_eq rpc_methods_def method_at_def
      method_list_def)

lemma AsyncService_eq: "AsyncService = Inr \<lparr>sv_methods = rpc_methods, sv_async = [0..<kCtrlMethodNum]\<rparr>"
  by (simp add: AsyncService_def five add_method_def GetMethodName_eq rpc_methods_def method_at_def method_list_def)

lemma rpc_methods_index:
  "{i. i < length rpc_methods \<and> rm_name (rpc_methods ! i) = ''/comm_network.CtrlService/'' @ method_word m} = {method_index m}"
proof -
  let ?name = "\<lambda>i. rm_name (rpc_methods ! i)"
  have "distinct (map rm_name rpc_methods)" by (simp add: rpc_methods_def method_list_def)
  then have inj: "i = j" if "i < length rpc_methods" "j < length rpc_methods" "?name i = ?name j" for i j
    using that by (simp add: distinct_conv_nth) metis
  have at: "method_index m < length rpc_methods" "?name (method_index m) = ''/comm_network.CtrlService/'' @ method_word m"
    by (cases m; simp add: rpc_methods_def method_list_def)+
  then show ?thesis using inj by (intro equalityI subsetI) auto
qed

lemma handler_of_request: "\<exists>h. CtrlServer_handlers ! method_index (method_of r) = Some h \<and> h c r = request_handler c r"
  by (cases r) (simp_all add: CtrlServer_handlers_def Add_def GetHandlerTuple_def make_index_sequence_eq five request_handler_def)

text \<open>
  C23: the method table. \<open>MAKE_META_DATA()\<close> declares the enumerators, the names and the message
  types of the five methods in one order, and \<open>kCtrlMethodNum\<close> is their number. The stub of a
  client and the service of a server are built without a fault; a call of any method goes out under
  a name that the service has registered exactly once, at the number of that method; and the server
  hands gRPC, for each number, a call object for the method of that number, whose requests the handler in that
  place of the tuple serves.
\<close>

theorem control_methods_agree:
  "(\<exists>n ts. expand ctrl_env n [(Id [W ''MAKE_META_DATA''], {}), (LP, {}), (RP, {})] = Some ts \<and> map fst ts = meta_data) \<and>
   (\<exists>n H. expand ctrl_env n [(Id [W ''CN_PP_SEQ_SIZE''], {}), (LP, {}), (Id [W ''CTRL_METHOD_SEQ''], {}), (RP, {})] =
     Some [(Num kCtrlMethodNum, H)]) \<and>
   (\<exists>stub svc. Stub = Inr stub \<and> AsyncService = Inr svc \<and>
     (\<forall>m req. \<exists>rm. CallMethod Pair stub m req = Inr (rm, req) \<and>
       {i. i < length (sv_methods svc) \<and> rm_name (sv_methods svc ! i) = rm_name rm} = {method_index m} \<and>
       method_index m \<in> set (sv_async svc) \<and> method_at (method_index m) = m)) \<and>
   (\<forall>s. EnqueueRequests s =
     for_each_i CtrlServer_handlers (\<lambda>_ i. EnqueueRequest (method_at i)) (make_index_sequence kCtrlMethodNum) s) \<and>
   (\<forall>c r. \<exists>h. CtrlServer_handlers ! method_index (method_of r) = Some h \<and> h c r = request_handler c r)"
proof (intro conjI)
  show "\<exists>stub svc. Stub = Inr stub \<and> AsyncService = Inr svc \<and>
     (\<forall>m req. \<exists>rm. CallMethod Pair stub m req = Inr (rm, req) \<and>
       {i. i < length (sv_methods svc) \<and> rm_name (sv_methods svc ! i) = rm_name rm} = {method_index m} \<and>
       method_index m \<in> set (sv_async svc) \<and> method_at (method_index m) = m)"
  proof (intro exI conjI allI)
    fix m and req :: ctrl_request
    show "CallMethod Pair rpc_methods m req = Inr (rpc_methods ! method_index m, req)"
      by (cases m) (simp_all add: CallMethod_def vec_at_def rpc_methods_def method_list_def)
    have "rm_name (rpc_methods ! method_index m) = ''/comm_network.CtrlService/'' @ method_word m"
      by (cases m) (simp_all add: rpc_methods_def method_list_def)
    then show "{i. i < length (sv_methods \<lparr>sv_methods = rpc_methods, sv_async = [0..<kCtrlMethodNum]\<rparr>) \<and>
        rm_name (sv_methods \<lparr>sv_methods = rpc_methods, sv_async = [0..<kCtrlMethodNum]\<rparr> ! i) =
        rm_name (rpc_methods ! method_index m)} = {method_index m}" by (simp only: service.simps rpc_methods_index)
    show "method_index m \<in> set (sv_async \<lparr>sv_methods = rpc_methods, sv_async = [0..<kCtrlMethodNum]\<rparr>)"
      using method_at_index(2) by simp
  qed (fact Stub_eq AsyncService_eq method_at_index)+
  show "\<forall>s. EnqueueRequests s =
     for_each_i CtrlServer_handlers (\<lambda>_ i. EnqueueRequest (method_at i)) (make_index_sequence kCtrlMethodNum) s"
    by (simp add: for_each_i_def make_index_sequence_eq five EnqueueRequests_def method_at_def method_list_def)
qed (use MAKE_META_DATA_expands CTRL_METHOD_SEQ_size handler_of_request in \<open>simp_all add: kCtrlMethodNum_def\<close>)

end
