(* ===== verification/Spec2Isabelle.thy ===== *)
theory Spec2Isabelle
  imports Prelude Config Channel BlockingCounter MemDesc Message PieceCopy WriteHelper WriteHelperSpec
    ReadHelper ReadLink ReadProtocol QP QPProps NodeLink NodeReader NodeDemo Poller CtrlServer CtrlServerProps
    CtrlClient CtrlProg NodeSetup SetupProps SetupLink SetupDemo TearDownProps MsgBuffers
    Cluster ClusterSetup ClusterDemo
    Preproc BaseMacros IterTable PPProps ForEach CtrlService
begin

text \<open>
  A model of \<open>comm_network\<close>, a library that lets machines send messages and read each other's
  memory over RDMA, and what makes it correct.

  \<^bold>\<open>The program.\<close> A machine has one \<open>IBVerbsCommNet\<close> with a queue pair (\<open>IBVerbsQP\<close>) for each
  peer. \<open>SendMsg\<close> copies a user message into a registered buffer and sends it. \<open>DoRead\<close> queues a
  work record and sends a \<open>PleaseWrite\<close> request; the peer's write helper cuts the range into
  pieces of one registered buffer, copies each into a free buffer and writes it by RDMA; the
  read helper of the reader copies it to its destination and answers with a \<open>FreeBufferPair\<close>,
  whose \<open>last_piece\<close> flag ends the read on both sides. A poller thread per completion queue
  dispatches completed requests to the queue pairs. Before that the machines meet through a
  control server on each of them: a key/value store and barriers over gRPC.

  \<^bold>\<open>Theories.\<close>
  \<^item> \<open>Prelude\<close>: machine integers, faults and results, the byte memory of a machine, runs of
    operations, the contracts \<open>guarded_ops\<close>, \<open>safe_ops\<close> (operations that keep an invariant and,
    where allowed, never fault) and \<open>fifo\<close>.
  \<^item> \<open>Config\<close> (\<open>comm_network_config.proto\<close>, \<open>comm_network_config_desc.{h,cpp}\<close>),
    \<open>Message\<close> (\<open>message.h\<close>), \<open>MemDesc\<close> (\<open>ibverbs/ibverbs_memory_desc.{h,cpp}\<close>).
  \<^item> \<open>Channel\<close> and \<open>BlockingCounter\<close> (\<open>common/channel.h\<close>, \<open>common/blocking_counter.h\<close>): operations
    as functions, waiting and waking threads as a step relation.
  \<^item> \<open>PieceCopy\<close>, \<open>WriteHelper\<close>, \<open>WriteHelperSpec\<close>, \<open>ReadHelper\<close>
    (\<open>ibverbs/ibverbs_{write,read}_helper.cpp\<close>, \<open>ibverbs_helper.cpp\<close>): the copy loop both sides
    share, the write helper's state machine of three handles (\<open>cur_write_handle_\<close> is a datatype),
    its abstract specification (\<open>write_pieces\<close>: the pieces of the records in order, each with the
    next free buffer, as many as there are buffers), and \<open>SyncRead\<close>.
  \<^item> \<open>ReadLink\<close>, \<open>ReadProtocol\<close>: two machines. The operations above on both ends of a
    connection whose messages arrive in order at any time, with the effect of an RDMA write as
    a parameter (\<open>rdma_copies\<close>: it copies the element); the theorems about whole reads.
  \<^item> \<open>QP\<close>, \<open>QPProps\<close> (\<open>ibverbs/ibverbs_qp.{h,cpp}\<close>, the data path of
    \<open>ibverbs/ibverbs_comm_network.cpp\<close>): one machine as a \<open>node\<close>, whose heap holds the message
    buffers and work requests; the verbs calls, the allocator and the user's callbacks are the
    fields of \<open>env\<close>. Each function of the source is one definition.
  \<^item> \<open>NodeLink\<close>, \<open>NodeReader\<close>: the whole handlers of a machine (\<open>DoRead\<close>, \<open>RecvDone\<close>,
    \<open>RDMARecvDone\<close>) implement the steps of the connection of \<open>ReadLink\<close>: what the device was
    handed is the message or the RDMA writes the step sends (\<open>writer_node\<close>, \<open>reader_node\<close> relate
    a machine to its end of the connection).
  \<^item> \<open>Poller\<close> (\<open>ibverbs/ibverbs_poller.{h,cpp}\<close>): the dispatch of completions, and \<open>Stop\<close>
    against \<open>PollCQ\<close> over the atomic flag as a step relation.
  \<^item> \<open>CtrlServer\<close>, \<open>CtrlServerProps\<close>, \<open>CtrlClient\<close> (\<open>control/ctrl_server.{h,cpp}\<close>,
    \<open>control/ctrl_call.h\<close>, \<open>control/ctrl_client.{h,cpp}\<close>): the five handlers over a heap of call
    objects, the service loop over the items of the completion queue, the client's calls, its
    retries and its routing of keys to servers.
  \<^item> \<open>CtrlProg\<close>, \<open>NodeSetup\<close> (the constructor, \<open>Connect\<close>, the exchange of keys and the destructor of
    \<open>ibverbs/ibverbs_qp.cpp\<close>, \<open>SetUp\<close> and \<open>TearDown\<close> of \<open>ibverbs/ibverbs_comm_network.cpp\<close>,
    \<open>comm_network.{h,cpp}\<close>, \<open>epoll/epoll_comm_network.h\<close>, \<open>common/global.h\<close>): how a machine comes up
    and goes down. A function that calls the control servers is a program: its next call, and what
    it does with the response, so that several machines can be interleaved call by call.
  \<^item> \<open>SetupProps\<close>, \<open>SetupLink\<close>: what one \<open>SetUp\<close> does on an allocator with room (\<open>heap_ok\<close>) and a device
    that grants its requests (\<open>verbs_ok\<close>): a fixed sequence of calls (\<open>setup_trace\<close>) and a well-formed
    queue pair per peer; two machines with each other's keys are \<open>connected\<close>, the two ends of a
    connection of \<open>ReadLink\<close> before any read.
  \<^item> \<open>TearDownProps\<close>: what \<open>TearDown\<close> releases on a device that counts its registrations (\<open>releases\<close>).
  \<^item> \<open>MsgBuffers\<close>: where the message buffers of a machine are, over any public calls (from user code
    in callbacks and handlers too) and any completions; the invariant \<open>held M\<close> sets apart the
    buffers \<open>M\<close> a running operation has taken (\<open>moved A B\<close>: it takes \<open>A\<close> and leaves \<open>B\<close>).
  \<^item> \<open>Cluster\<close>, \<open>ClusterSetup\<close>: threads that run programs against the control servers, every event of
    gRPC at any time; all machines of a configuration running \<open>SetUp\<close>.
  \<^item> \<open>NodeDemo\<close>, \<open>SetupDemo\<close>, \<open>ClusterDemo\<close>: concrete machines for the witnesses.
  \<^item> \<open>Preproc\<close>, \<open>BaseMacros\<close>, \<open>IterTable\<close>, \<open>PPProps\<close> (\<open>common/preprocessor.h\<close>,
    \<open>common/preprocessor_internal.h\<close>): the macros of both headers as data, the expansion
    algorithm with painted tokens that gives them meaning, the generator of the iteration macros.
    \<open>ForEach\<close>: the iteration over a sequence, in any file that defines macros of its own (the
    locale \<open>headers\<close>).
  \<^item> \<open>CtrlService\<close> (\<open>control/ctrl_service.{h,cpp}\<close>, the index sequences of \<open>common/cplusplus_14.h\<close>,
    the handler tuple of \<open>control/ctrl_server.h\<close>): the macros that declare the methods of the
    control service, the stub and the service built from their names.

  \<^bold>\<open>How code becomes definitions.\<close> A C++ object is a record; \<open>size_t\<close>, pointers and the sized
  integers are words, read with \<open>unat\<close> or \<open>sint\<close> as the declared type says. An operation
  returns a sum: \<open>Inl\<close> a fault (failed \<open>CHECK\<close>, exception of \<open>at\<close>, \<open>LOG(FATAL)\<close>, undefined
  behaviour), \<open>Inr\<close> the result with the new state. Objects passed by pointer are heap entries
  named by numbers, so use after \<open>delete\<close> is a fault of the model.

  \<^bold>\<open>What the lemmas show.\<close> For transfers: registration tiles a range (\<open>reg_blocks\<close>), one copy loop
  over adjacent elements is one copy (\<open>copy_loop_memcpy\<close>), the write loop ends (a measure on
  records, buffers and the handle) and refines \<open>write_pieces\<close> under any sequence of requests and
  freed buffers, a received piece extends the received prefix. For reads end to end: the
  invariant \<open>link_inv\<close> (the posted pieces, the backlog and the requests under way are the pieces
  of the reads that are not complete; the buffers are a permutation) is kept by every step, so
  that a read delivers its source, takes a known number of messages and cannot get stuck. For the control server:
  \<open>wf_server\<close> is kept by every item (each call is registered, held in one list, or answered),
  under it no allowed item faults, and two relations between the history and the state
  (\<open>pulls_served\<close>, \<open>barrier_served\<close>) give the answer of every pull and the release of every
  barrier. For the set-up: steps that only allocate (\<open>extends\<close>) keep what was built, the loops over the
  peers move every queue pair from one stage to the next (\<open>net_stage\<close>), and an invariant of the
  cluster (\<open>plan_inv\<close>: a key is stored from its push to its clearing, all that have come to a
  barrier wait there until the last comes) gives safety, and with a count of the calls that arrived
  a bound and the absence of deadlock. For threads: inductive invariants over all
  interleavings. For the macros: the file equals the generator's output, the size macro counts, the iteration macro maps; parts of a text
  expand on their own (\<open>yields_append\<close>), and the names a token is painted with are bounded
  (\<open>for_each_names\<close>), so what is shown of a macro of a user's file holds inside the iteration. For
  the control service: stub and service agree on name and number of every method.

  \<^bold>\<open>Bounds.\<close> \<open>config_ok\<close> names the configurations under which transfers are correct: the element
  count divides the buffer and all sizes are machine integers. Where the code is wrong outside
  (an element count that does not divide), a theorem says what happens. Macro expansion has
  fuel; results are stated as the existence of enough fuel, and more fuel never changes a
  result (\<open>expand_mono\<close>). The retry loop of the client runs on its 60 attempts.

  \<^bold>\<open>Not modelled.\<close> gRPC, the verbs library, \<open>malloc\<close> and protobuf themselves: they are parameters with
  the documented behaviour as named hypotheses (\<open>verbs_ok\<close>, \<open>heap_ok\<close>, \<open>rdma_copies\<close>, a message parses
  to what was serialised). The other template backports of \<open>common/cplusplus_14.h\<close> and
  \<open>common/function_traits.h\<close>, which only name types and forward calls; tests and build files. Threads are
  interleaved step by step at the channel, the counter, the poller's flag and the control servers. The operations
  of a queue pair, whose queues are guarded by one lock each, are taken one after the other: the user's calls
  and the completions in any order, but not the window between the two locks of one operation.
\<close>

end
